(* ===== verification/Prelude.thy ===== *)
theory Prelude
  imports Main "HOL-Library.Word" "HOL-Library.Monad_Syntax"
begin

text \<open>
  What the components share: the fixed-width integers of the C sources, byte strings and
  the C string operations on them, decimal and hexadecimal digits, and the generic lemmas
  on lists and words that carry the component proofs.

  A C buffer is a list of bytes (\<open>bytes\<close>). A C string held in memory is a list with a
  zero byte in it; \<open>cstr\<close> is the part in front of the first zero byte. A pointer that
  walks forward through a buffer is the list of the bytes from the pointer to the end of
  the buffer, so \<open>end - p\<close> of the code is the length of that list and \<open>*p\<close> its head.
  Results of type \<open>'a option\<close> stand for the code's error returns: \<open>None\<close> is the
  non-zero or negative return value, \<open>Some\<close> the success.
\<close>

unbundle bit_operations_syntax

section \<open>Error numbers of the kernel\<close>

abbreviation (input) EIO :: int where "EIO \<equiv> 5"
abbreviation (input) E2BIG :: int where "E2BIG \<equiv> 7"
abbreviation (input) ENOMEM :: int where "ENOMEM \<equiv> 12"
abbreviation (input) EBUSY :: int where "EBUSY \<equiv> 16"
abbreviation (input) EINVAL :: int where "EINVAL \<equiv> 22"
abbreviation (input) ERANGE :: int where "ERANGE \<equiv> 34"
abbreviation (input) ETIMEDOUT :: int where "ETIMEDOUT \<equiv> 110"

section \<open>Types and byte strings\<close>

type_synonym u8 = "8 word"
type_synonym u16 = "16 word"
type_synonym u32 = "32 word"
type_synonym u64 = "64 word"
type_synonym bytes = "u8 list"

definition ascii :: "string \<Rightarrow> bytes" where
  "ascii s = map of_char s"

lemma ascii_simps [simp]:
  "ascii [] = []"
  "ascii (c # s) = of_char c # ascii s"
  by (simp_all add: ascii_def)

lemma length_ascii [simp]: "length (ascii s) = length s"
  by (simp add: ascii_def)

text \<open>The C string that starts at the head of a buffer.\<close>

definition cstr :: "bytes \<Rightarrow> bytes" where
  "cstr = takeWhile (\<lambda>c. c \<noteq> 0)"

lemma cstr_append_nul [simp]: "0 \<notin> set s \<Longrightarrow> cstr (s @ 0 # r) = s"
  by (subgoal_tac "\<forall>x\<in>set s. x \<noteq> 0") (auto simp: cstr_def takeWhile_tail)

lemma cstr_all [simp]: "0 \<notin> set s \<Longrightarrow> cstr s = s"
  by (auto simp: cstr_def takeWhile_eq_all_conv)

lemma cstr_no_nul: "0 \<notin> set (cstr s)"
  unfolding cstr_def by (metis (mono_tags, lifting) set_takeWhileD)

text \<open>\<open>memcpy (dst + off, src, length src)\<close> into a buffer that has room for it.\<close>

definition patch :: "nat \<Rightarrow> bytes \<Rightarrow> bytes \<Rightarrow> bytes" where
  "patch off src dst = take off dst @ src @ drop (off + length src) dst"

lemma length_patch: "off + length src \<le> length dst \<Longrightarrow> length (patch off src dst) = length dst"
  by (simp add: patch_def)

lemma drop_patch_before:
  "n \<le> off \<Longrightarrow> off \<le> length dst \<Longrightarrow>
   drop n (patch off src dst) = patch (off - n) src (drop n dst)"
  by (simp add: patch_def drop_take add.commute)

section \<open>Lists\<close>

lemma list_split_at: "n \<le> length xs \<Longrightarrow> \<exists>ys zs. xs = ys @ zs \<and> length ys = n"
  by (rule exI [of _ "take n xs"], rule exI [of _ "drop n xs"]) simp

lemma append_eq_same_length:
  "length xs = length xs' \<Longrightarrow> xs @ ys = xs' @ ys' \<longleftrightarrow> xs = xs' \<and> ys = ys'"
  by simp

lemma takeWhile_take_length:
  "length (takeWhile P (take n xs)) = min n (length (takeWhile P xs))"
  by (induction xs arbitrary: n) (auto simp: take_Cons split: nat.splits)

lemma takeWhile_digits_unique:
  assumes "list_all P ds" "q = [] \<or> \<not> P (hd q)"
  shows "takeWhile P (ds @ q) = ds" "dropWhile P (ds @ q) = q"
proof -
  have "\<And>x. x \<in> set ds \<Longrightarrow> P x" using assms(1) by (simp add: list_all_iff)
  moreover have "takeWhile P q = []" "dropWhile P q = q"
    using assms(2) by (cases q; auto)+
  ultimately show "takeWhile P (ds @ q) = ds" "dropWhile P (ds @ q) = q"
    by (simp_all add: takeWhile_append2 dropWhile_append2)
qed

section \<open>Decimal and hexadecimal digits\<close>

text \<open>\<open>c >= '0' && c <= '9'\<close>\<close>

definition is_digit :: "u8 \<Rightarrow> bool" where
  "is_digit c \<longleftrightarrow> 48 \<le> c \<and> c \<le> 57"

definition is_hex_lower :: "u8 \<Rightarrow> bool" where
  "is_hex_lower c \<longleftrightarrow> is_digit c \<or> 97 \<le> c \<and> c \<le> 102"

text \<open>The digits \<open>printf\<close> writes for an unsigned decimal conversion.\<close>

fun decimal :: "nat \<Rightarrow> bytes" where
  "decimal n = (if n < 10 then [48 + of_nat n] else decimal (n div 10) @ [48 + of_nat (n mod 10)])"

declare decimal.simps [simp del]

definition digit_value :: "u8 \<Rightarrow> nat" where
  "digit_value c = unat (c - 48)"

definition digits_value :: "nat \<Rightarrow> bytes \<Rightarrow> nat" where
  "digits_value = foldl (\<lambda>g c. g * 10 + digit_value c)"

lemma digits_value_simps [simp]:
  "digits_value g [] = g"
  "digits_value g (c # ds) = digits_value (g * 10 + digit_value c) ds"
  "digits_value g (ds @ es) = digits_value (digits_value g ds) es"
  by (simp_all add: digits_value_def)

lemma digits_value_mono: "g \<le> digits_value g ds"
proof (induction ds arbitrary: g)
  case (Cons c ds)
  have "g \<le> g * 10 + digit_value c" by simp
  also have "\<dots> \<le> digits_value (g * 10 + digit_value c) ds" by (rule Cons)
  finally show ?case by simp
qed simp

lemma digit_unat: "is_digit c \<longleftrightarrow> 48 \<le> unat c \<and> unat c \<le> 57"
  by (simp add: is_digit_def word_le_nat_alt)

lemma digit_value_unat: "is_digit c \<Longrightarrow> digit_value c = unat c - 48"
  by (simp add: digit_value_def is_digit_def unat_sub)

lemma digit_value_le: "is_digit c \<Longrightarrow> digit_value c \<le> 9"
  using digit_value_unat [of c] digit_unat [of c] by linarith

lemma unat_digit_char: "d < 10 \<Longrightarrow> unat (48 + of_nat d :: u8) = 48 + d"
  by (simp add: unat_word_ariths unat_of_nat take_bit_nat_def)

lemma is_digit_char [simp]: "d < 10 \<Longrightarrow> is_digit (48 + of_nat d)"
  by (simp add: digit_unat unat_digit_char)

lemma digit_value_char [simp]: "d < 10 \<Longrightarrow> digit_value (48 + of_nat d) = d"
  by (simp add: digit_value_unat unat_digit_char)

lemma digit_char_value: "is_digit c \<Longrightarrow> 48 + of_nat (digit_value c) = c"
  by (rule word_unat_eq_iff [THEN iffD2])
     (simp add: unat_digit_char digit_value_unat digit_unat)

lemma decimal_digits: "list_all is_digit (decimal n)"
proof (induction n rule: decimal.induct)
  case (1 n)
  then show ?case by (subst decimal.simps) simp
qed

lemma decimal_not_Nil [simp]: "decimal n \<noteq> []"
  by (subst decimal.simps) simp

lemma decimal_0: "decimal 0 = [48]"
  by (subst decimal.simps) simp

lemma digits_value_decimal [simp]: "digits_value 0 (decimal n) = n"
proof (induction n rule: decimal.induct)
  case (1 n)
  then show ?case by (subst decimal.simps) simp
qed

lemma hd_decimal: "0 < n \<Longrightarrow> hd (decimal n) \<noteq> 48"
proof (induction n rule: decimal.induct)
  case (1 n)
  show ?case
  proof (cases "n < 10")
    case True
    then have "unat (48 + of_nat n :: u8) \<noteq> unat (48 :: u8)"
      using 1(2) by (simp only: unat_digit_char) simp
    then have "(48 + of_nat n :: u8) \<noteq> 48" by metis
    with True show ?thesis by (subst decimal.simps) simp
  next
    case False
    with 1 have "hd (decimal (n div 10)) \<noteq> 48" by simp
    with False show ?thesis by (subst decimal.simps) (simp add: hd_append)
  qed
qed

lemma length_decimal: "n < 10 ^ k \<Longrightarrow> 0 < k \<Longrightarrow> length (decimal n) \<le> k"
proof (induction k arbitrary: n)
  case (Suc k)
  show ?case
  proof (cases "n < 10")
    case True
    then show ?thesis by (subst decimal.simps) simp
  next
    case False
    with Suc.prems have "n div 10 < 10 ^ k" "0 < k"
      by (auto simp: less_mult_imp_div_less mult.commute intro: gr0I)
    with Suc.IH have "length (decimal (n div 10)) \<le> k" by blast
    with False show ?thesis by (subst decimal.simps) simp
  qed
qed simp

text \<open>A digit string without a leading zero is the decimal representation of its value.\<close>

lemma digits_value_pos: "0 < g \<Longrightarrow> 0 < digits_value g ds"
  using digits_value_mono [of g ds] by simp

lemma decimal_canonical:
  assumes "ds \<noteq> []" "list_all is_digit ds" "hd ds \<noteq> 48"
  shows "decimal (digits_value 0 ds) = ds"
  using assms
proof (induction ds rule: rev_induct)
  case (snoc d ds)
  have d: "is_digit d" using snoc.prems by simp
  show ?case
  proof (cases "ds = []")
    case True
    with d show ?thesis
      by (subst decimal.simps) (use digit_value_le [OF d] in \<open>simp add: digit_char_value\<close>)
  next
    case False
    with snoc have IH: "decimal (digits_value 0 ds) = ds" by simp
    obtain c cs where ds: "ds = c # cs" using False by (cases ds) auto
    have "is_digit c" "c \<noteq> 48" using snoc.prems ds by auto
    then have "unat c \<noteq> 48" by (auto simp: word_unat_eq_iff)
    then have "0 < digit_value c" using \<open>is_digit c\<close> by (simp add: digit_value_unat digit_unat)
    then have pos: "0 < digits_value 0 ds" by (simp add: ds digits_value_pos)
    have lt: "digit_value d < 10" using digit_value_le [OF d] by simp
    have div: "(digits_value 0 ds * 10 + digit_value d) div 10 = digits_value 0 ds"
      and mod: "(digits_value 0 ds * 10 + digit_value d) mod 10 = digit_value d"
      using lt by simp_all
    show ?thesis
      by (subst decimal.simps) (use pos in \<open>simp add: div mod IH lt digit_char_value d\<close>)
  qed
qed simp


text \<open>A statement about the bytes of a range can be checked on all of them.\<close>

lemma range_bytes:
  assumes "list_all P (map of_nat [unat a..<Suc (unat b)])" "a \<le> c" "c \<le> (b :: u8)"
  shows "P c"
proof -
  have "unat c \<in> set [unat a..<Suc (unat b)]"
    using assms(2,3) by (auto simp: word_le_nat_alt)
  then have "of_nat (unat c) \<in> set (map (of_nat :: nat \<Rightarrow> u8) [unat a..<Suc (unat b)])"
    by (metis image_eqI list.set_map)
  with assms(1) have "P (of_nat (unat c))" unfolding list_all_iff by (rule bspec)
  then show ?thesis by simp
qed

lemma u8_less: "unat (b :: u8) < 256"
  using unsigned_less [of b] by simp

lemma u8_div_16: "unat (b :: u8) div 16 < 16"
  using u8_less [of b] by (simp add: less_mult_imp_div_less)

text \<open>Two nibbles make a byte.\<close>

lemma nibbles_or:
  assumes "0 \<le> l" "l < 16"
  shows "push_bit 4 h OR l = 16 * h + (l :: int)"
proof -
  have l: "l = take_bit 4 l" using assms by (simp add: take_bit_int_eq_self)
  have "push_bit 4 h AND take_bit 4 l = 0"
    by (rule bit_eqI) (auto simp: bit_simps)
  then have "push_bit 4 h + l = push_bit 4 h OR l"
    using disjunctive_add_eq_or l by metis
  then show ?thesis by (simp add: push_bit_eq_mult)
qed


lemma nibbles_nat: "push_bit 4 (int (x div 16)) OR int (x mod 16) = int x"
proof -
  have "push_bit 4 (int (x div 16)) OR int (x mod 16) = 16 * int (x div 16) + int (x mod 16)"
    by (rule nibbles_or) simp_all
  also have "\<dots> = int (16 * (x div 16) + x mod 16)"
    by (simp only: of_nat_add of_nat_mult of_nat_numeral)
  finally show ?thesis by simp
qed

lemma unat_small_int: "0 \<le> v \<Longrightarrow> v < 256 \<Longrightarrow> unat (word_of_int v :: u8) = nat v"
proof -
  assume v: "0 \<le> v" "v < 256"
  then have "uint (word_of_int v :: u8) = v" by (simp add: uint_word_of_int)
  then show ?thesis by (metis nat_uint_eq)
qed

end
