(* ===== verification/Interfaces.thy ===== *)
theory Interfaces
  imports Prelude
begin

text \<open>
  The interfaces between the components, as locales. A locale's parameters are the
  operations the client calls, its assumptions the laws the provider promises, and its
  lemmas what the client needs and proves once. Each is interpreted on the model's own
  definitions in the theory of the component that provides them.
\<close>

section \<open>A printable value: the codec of a stored setting\<close>

text \<open>
  \<open>render\<close> prints a value as a C string of at most \<open>limit\<close> bytes, \<open>parse\<close> reads the C
  string at the head of a buffer. The environment entry that holds the string relies on
  nothing else.
\<close>

locale value_codec =
  fixes parse :: "bytes \<Rightarrow> 'r option"
    and render :: "'r \<Rightarrow> bytes option"
    and wf :: "'r \<Rightarrow> bool"
    and limit :: nat
  assumes render_total: "wf r \<Longrightarrow> \<exists>t. render r = Some t"
    and render_bound: "wf r \<Longrightarrow> render r = Some t \<Longrightarrow> length t \<le> limit"
    and render_no_nul: "wf r \<Longrightarrow> render r = Some t \<Longrightarrow> 0 \<notin> set t"
    and parse_render: "wf r \<Longrightarrow> render r = Some t \<Longrightarrow> parse (t @ 0 # rest) = Some r"
    and parse_wf: "parse t = Some r \<Longrightarrow> wf r"
begin

lemma render_inj:
  assumes "wf r" "wf r'" "render r = Some t" "render r' = Some t"
  shows "r = r'"
  using parse_render [OF assms(1,3), of "[]"] parse_render [OF assms(2,4), of "[]"] by simp

lemma parse_again:
  assumes "parse t = Some r"
  obtains t' where "render r = Some t'" "\<And>rest. parse (t' @ 0 # rest) = Some r"
  using render_total [OF parse_wf [OF assms]] parse_render [OF parse_wf [OF assms]] by blast

end


section \<open>A setting stored twice\<close>

text \<open>
  Two copies of a value, each with its own validity check and a one-byte counter; the
  counter says which of two valid copies is the newer one. \<open>store_current\<close> is the copy a
  reader takes and the value it finds there.
\<close>

definition store_current ::
  "(bool \<Rightarrow> u8 \<Rightarrow> bool \<Rightarrow> u8 \<Rightarrow> nat option) \<Rightarrow> (bytes \<Rightarrow> bool) \<Rightarrow> (bytes \<Rightarrow> u8) \<Rightarrow>
   (bytes \<Rightarrow> 'r option) \<Rightarrow> bytes list \<Rightarrow> (nat \<times> 'r) option" where
  "store_current select valid flag decode regions =
     (case select (valid (regions ! 0)) (flag (regions ! 0))
                  (valid (regions ! 1)) (flag (regions ! 1)) of
        None \<Rightarrow> None
      | Some s \<Rightarrow> map_option (Pair s) (decode (regions ! s)))"

locale redundant_store =
  fixes select :: "bool \<Rightarrow> u8 \<Rightarrow> bool \<Rightarrow> u8 \<Rightarrow> nat option"
    and valid :: "bytes \<Rightarrow> bool"
    and flag :: "bytes \<Rightarrow> u8"
    and decode :: "bytes \<Rightarrow> 'r option"
    and image :: "u8 \<Rightarrow> 'r \<Rightarrow> bytes option"
    and wf :: "'r \<Rightarrow> bool"
  assumes select_none: "select False a False b = None"
    and select_first: "select True a False b = Some 0"
    and select_second: "select False a True b = Some 1"
    and select_next_second: "select True a True (a + 1) = Some 1"
    and select_next_first: "select True (a + 1) True a = Some 0"
    and select_range: "select v a w b = Some s \<Longrightarrow> s = 0 \<and> v \<or> s = 1 \<and> w"
    and image_total: "wf r \<Longrightarrow> \<exists>p. image f r = Some p"
    and image_sound: "wf r \<Longrightarrow> image f r = Some p \<Longrightarrow> valid p \<and> flag p = f \<and> decode p = Some r"
    and decode_wf: "decode p = Some r \<Longrightarrow> wf r"
begin

lemma current_slot:
  assumes "store_current select valid flag decode regions = Some (s, r)"
  shows "s < 2" "valid (regions ! s)" "decode (regions ! s) = Some r" "wf r"
proof -
  from assms have sel: "select (valid (regions ! 0)) (flag (regions ! 0))
      (valid (regions ! 1)) (flag (regions ! 1)) = Some s" and d: "decode (regions ! s) = Some r"
    by (auto simp: store_current_def split: option.splits)
  from select_range [OF sel] show "s < 2" "valid (regions ! s)" by auto
  show "decode (regions ! s) = Some r" by (fact d)
  then show "wf r" by (rule decode_wf)
qed

text \<open>A write to the other copy that leaves it invalid is not seen.\<close>

lemma current_torn:
  assumes "store_current select valid flag decode regions = Some (s, r)" "length regions = 2"
    and "\<not> valid torn"
  shows "store_current select valid flag decode (regions[1 - s := torn]) = Some (s, r)"
proof -
  have s: "s = 0 \<or> s = 1" using current_slot(1) [OF assms(1)] by auto
  then show ?thesis
    using assms current_slot(2,3) [OF assms(1)]
    by (auto simp: store_current_def select_first select_second)
qed

text \<open>A complete write of the next image to the other copy replaces the value.\<close>

lemma current_written:
  assumes "s < 2" "valid (regions ! s)" "length regions = 2"
    and "wf r'" "image (flag (regions ! s) + 1) r' = Some p"
  shows "store_current select valid flag decode (regions[1 - s := p]) = Some (1 - s, r')"
proof -
  have s: "s = 0 \<or> s = 1" using assms(1) by auto
  have p: "valid p" "flag p = flag (regions ! s) + 1" "decode p = Some r'"
    using image_sound [OF assms(4,5)] by auto
  from s show ?thesis
    using assms(2,3) p
    by (auto simp: store_current_def select_next_first select_next_second)
qed

end


section \<open>A link that carries frames\<close>

text \<open>
  A sender turns a frame into a sequence of events; a receiver, driven by the events,
  collects frames. The law is that a ready receiver gets the frame that was sent and is
  ready for the next one; sequences of frames follow.
\<close>

locale framed_link =
  fixes step :: "'e \<Rightarrow> 's \<Rightarrow> 's"
    and ready :: "'s \<Rightarrow> bool"
    and received :: "'s \<Rightarrow> bytes list"
    and send :: "bytes \<Rightarrow> 'e list"
  assumes send_ready: "ready s \<Longrightarrow> f \<noteq> [] \<Longrightarrow> ready (fold step (send f) s)"
    and send_received: "ready s \<Longrightarrow> f \<noteq> [] \<Longrightarrow> received (fold step (send f) s) = received s @ [f]"
begin

lemma send_all:
  assumes "ready s" "[] \<notin> set fs"
  shows "ready (fold step (concat (map send fs)) s) \<and>
    received (fold step (concat (map send fs)) s) = received s @ fs"
  using assms
proof (induction fs arbitrary: s)
  case (Cons f fs)
  then have f: "f \<noteq> []" by auto
  from Cons show ?case
    using send_ready [OF Cons.prems(1) f] send_received [OF Cons.prems(1) f] by simp
qed simp

end


section \<open>Frames in a byte stream\<close>

text \<open>
  A framer looks at the bytes received so far and says that they cannot become a frame,
  that more bytes are needed, or that a frame of \<open>n\<close> bytes is complete. \<open>unframe\<close> takes
  frames off the front while there are any; its fuel is the number of bytes.
\<close>

datatype framing = Bad | More | Frame nat

fun unframe_fuel :: "(bytes \<Rightarrow> framing) \<Rightarrow> nat \<Rightarrow> bytes \<Rightarrow> bytes list \<times> bytes \<times> bool" where
  "unframe_fuel framer 0 xs = ([], xs, True)"
| "unframe_fuel framer (Suc k) xs =
     (if xs = [] then ([], [], True)
      else case framer xs of
        Bad \<Rightarrow> ([], xs, False)
      | More \<Rightarrow> ([], xs, True)
      | Frame n \<Rightarrow>
          (case unframe_fuel framer k (drop n xs) of
             (fs, rest, ok) \<Rightarrow> (take n xs # fs, rest, ok)))"

definition unframe :: "(bytes \<Rightarrow> framing) \<Rightarrow> bytes \<Rightarrow> bytes list \<times> bytes \<times> bool" where
  "unframe framer xs = unframe_fuel framer (length xs) xs"

text \<open>One chunk from the wire on top of what is left over from the ones before.\<close>

definition feed :: "(bytes \<Rightarrow> framing) \<Rightarrow> bytes \<Rightarrow> bytes list \<times> bytes \<times> bool \<Rightarrow> bytes list \<times> bytes \<times> bool" where
  "feed framer chunk st =
     (case st of (fs, rest, ok) \<Rightarrow>
        if ok then (case unframe framer (rest @ chunk) of (gs, rest, ok) \<Rightarrow> (fs @ gs, rest, ok))
        else (fs, rest @ chunk, False))"

locale stream_framer =
  fixes framer :: "bytes \<Rightarrow> framing"
  assumes frame_bound: "framer xs = Frame n \<Longrightarrow> 0 < n \<and> n \<le> length xs"
    and frame_stable: "framer xs = Frame n \<Longrightarrow> framer (xs @ ys) = Frame n"
    and frame_cut: "framer xs = Frame n \<Longrightarrow> framer (take n xs) = Frame n"
    and bad_stable: "xs \<noteq> [] \<Longrightarrow> framer xs = Bad \<Longrightarrow> framer (xs @ ys) = Bad"
begin

lemma fuel_enough: "length xs \<le> k \<Longrightarrow> unframe_fuel framer k xs = unframe framer xs"
proof (induction k arbitrary: xs rule: less_induct)
  case (less k)
  show ?case
  proof (cases "xs = []")
    case True
    then show ?thesis by (cases k) (simp_all add: unframe_def)
  next
    case False
    then obtain j m where k: "k = Suc j" "length xs = Suc m"
      using less.prems by (cases k; cases "length xs") auto
    show ?thesis
    proof (cases "framer xs")
      case (Frame n)
      then have n: "0 < n" "n \<le> length xs" using frame_bound by auto
      then have "length (drop n xs) \<le> j" "length (drop n xs) \<le> m" "j < k" "m < k"
        using k less.prems by simp_all
      then have "unframe_fuel framer j (drop n xs) = unframe_fuel framer m (drop n xs)"
        using less.IH [of j "drop n xs"] less.IH [of m "drop n xs"] by simp
      then show ?thesis using Frame k False by (simp add: unframe_def)
    qed (use k False in \<open>simp_all add: unframe_def\<close>)
  qed
qed

lemma unframe_Nil [simp]: "unframe framer [] = ([], [], True)"
  by (simp add: unframe_def)

lemma unframe_eq:
  assumes "xs \<noteq> []"
  shows "unframe framer xs = (case framer xs of
      Bad \<Rightarrow> ([], xs, False)
    | More \<Rightarrow> ([], xs, True)
    | Frame n \<Rightarrow> (case unframe framer (drop n xs) of (fs, rest, ok) \<Rightarrow> (take n xs # fs, rest, ok)))"
proof -
  obtain m where m: "length xs = Suc m" using assms by (cases "length xs") auto
  show ?thesis
  proof (cases "framer xs")
    case (Frame n)
    then have "length (drop n xs) \<le> m" using frame_bound m by fastforce
    then show ?thesis
      using Frame assms fuel_enough [of "drop n xs" m] m by (simp add: unframe_def)
  qed (use assms m in \<open>simp_all add: unframe_def\<close>)
qed

lemma unframe_append:
  "unframe framer (xs @ ys) = feed framer ys (unframe framer xs)"
proof (induction "length xs" arbitrary: xs rule: less_induct)
  case less
  show ?case
  proof (cases "xs = []")
    case True
    then show ?thesis by (simp add: feed_def split: prod.splits)
  next
    case False
    show ?thesis
    proof (cases "framer xs")
      case Bad
      then show ?thesis
        using False bad_stable [of xs ys] by (simp add: unframe_eq feed_def)
    next
      case More
      then have "unframe framer xs = ([], xs, True)" using False by (simp add: unframe_eq)
      then show ?thesis by (simp add: feed_def split: prod.splits)
    next
      case (Frame n)
      then have n: "0 < n" "n \<le> length xs" using frame_bound by auto
      then have "length (drop n xs) < length xs" using False by simp
      from less [OF this]
      have IH: "unframe framer (drop n xs @ ys) = feed framer ys (unframe framer (drop n xs))" .
      obtain fs rest ok where u: "unframe framer (drop n xs) = (fs, rest, ok)"
        by (metis prod_cases3)
      have "unframe framer xs = (take n xs # fs, rest, ok)"
        using False Frame u by (simp add: unframe_eq)
      moreover have "unframe framer (xs @ ys) =
          (case unframe framer (drop n xs @ ys) of (fs, rest, ok) \<Rightarrow> (take n xs # fs, rest, ok))"
        using False Frame frame_stable [OF Frame, of ys] n(2) by (simp add: unframe_eq)
      ultimately show ?thesis
        unfolding IH u by (simp add: feed_def split: prod.splits)
    qed
  qed
qed

text \<open>How the bytes were cut into chunks makes no difference.\<close>

lemma chunking_irrelevant:
  "fold (feed framer) chunks (unframe framer xs) = unframe framer (xs @ concat chunks)"
  by (induction chunks arbitrary: xs) (simp_all add: unframe_append [symmetric])

lemma unframe_parts:
  "unframe framer xs = (fs, rest, ok) \<Longrightarrow> xs = concat fs @ rest"
proof (induction "length xs" arbitrary: xs fs rule: less_induct)
  case less
  show ?case
  proof (cases "xs = []")
    case False
    show ?thesis
    proof (cases "framer xs")
      case (Frame n)
      then have n: "0 < n" "n \<le> length xs" using frame_bound by auto
      obtain fs' where u: "unframe framer (drop n xs) = (fs', rest, ok)" "fs = take n xs # fs'"
        using less.prems False Frame by (auto simp: unframe_eq split: prod.splits)
      have "drop n xs = concat fs' @ rest"
        by (rule less.hyps [OF _ u(1)]) (use n False in simp)
      then show ?thesis using u(2) by (simp add: append_take_drop_id flip: append_assoc)
         (metis append_assoc append_take_drop_id)
    qed (use less.prems False in \<open>simp_all add: unframe_eq\<close>)
  qed (use less.prems in simp)
qed

lemma unframe_rest:
  "unframe framer xs = (fs, rest, True) \<Longrightarrow> rest = [] \<or> framer rest = More"
proof (induction "length xs" arbitrary: xs fs rule: less_induct)
  case less
  show ?case
  proof (cases "xs = []")
    case False
    show ?thesis
    proof (cases "framer xs")
      case (Frame n)
      then have n: "0 < n" "n \<le> length xs" using frame_bound by auto
      obtain fs' where u: "unframe framer (drop n xs) = (fs', rest, True)"
        using less.prems False Frame by (auto simp: unframe_eq split: prod.splits)
      show ?thesis
        by (rule less.hyps [OF _ u]) (use n False in simp)
    qed (use less.prems False in \<open>simp_all add: unframe_eq\<close>)
  qed (use less.prems in simp)
qed

lemma unframe_again:
  assumes "unframe framer xs = (fs, rest, True)"
  shows "unframe framer rest = ([], rest, True)"
proof (cases "rest = []")
  case False
  with unframe_rest [OF assms] show ?thesis by (subst unframe_eq) simp_all
qed simp

lemma unframe_frames:
  "unframe framer xs = (fs, rest, ok) \<Longrightarrow> f \<in> set fs \<Longrightarrow> framer f = Frame (length f)"
proof (induction "length xs" arbitrary: xs fs rule: less_induct)
  case less
  show ?case
  proof (cases "xs = []")
    case False
    show ?thesis
    proof (cases "framer xs")
      case (Frame n)
      then have n: "0 < n" "n \<le> length xs" using frame_bound by auto
      obtain fs' where u: "unframe framer (drop n xs) = (fs', rest, ok)" "fs = take n xs # fs'"
        using less.prems(1) False Frame by (auto simp: unframe_eq split: prod.splits)
      show ?thesis
      proof (cases "f = take n xs")
        case True
        then show ?thesis using frame_cut [OF Frame] n by simp
      next
        case f: False
        show ?thesis
          by (rule less.hyps [OF _ u(1)]) (use n False f u less.prems(2) in simp_all)
      qed
    qed (use less.prems False in \<open>simp_all add: unframe_eq\<close>)
  qed (use less.prems in simp)
qed

text \<open>A sequence of frames sent back to back comes out as it went in.\<close>

lemma unframe_concat:
  assumes "\<And>f. f \<in> set fs \<Longrightarrow> framer f = Frame (length f)"
  shows "unframe framer (concat fs @ rest) =
    (case unframe framer rest of (gs, r, ok) \<Rightarrow> (fs @ gs, r, ok))"
  using assms
proof (induction fs)
  case (Cons f fs)
  have f: "framer f = Frame (length f)" using Cons.prems by simp
  then have "f \<noteq> []" using frame_bound by fastforce
  moreover have "framer (f @ concat fs @ rest) = Frame (length f)" by (rule frame_stable [OF f])
  moreover have "unframe framer (concat fs @ rest) =
      (case unframe framer rest of (gs, r, ok) \<Rightarrow> (fs @ gs, r, ok))"
    using Cons by simp
  ultimately show ?case by (simp add: unframe_eq split: prod.splits)
qed (simp split: prod.splits)

text \<open>A first part of such a sequence is never bad, and gives a first part of the frames.\<close>

lemma unframe_part:
  assumes "\<And>f. f \<in> set frames \<Longrightarrow> framer f = Frame (length f)" "concat frames = xs @ ys"
    and "unframe framer xs = (fs, rest, ok)"
  shows "ok" "\<exists>gs. frames = fs @ gs"
proof -
  have "unframe framer (xs @ ys) = (frames, [], True)"
    using unframe_concat [of frames "[]"] assms(1,2) by simp
  then show "ok" "\<exists>gs. frames = fs @ gs"
    using unframe_append [of xs ys] assms(3) by (auto simp: feed_def split: prod.splits if_splits)
qed

lemma unframe_two:
  assumes "unframe framer xs = (fs, s, True)" "unframe framer (s @ ys) = (gs, rest, ok)"
  shows "unframe framer (xs @ ys) = (fs @ gs, rest, ok)"
  using unframe_append [of xs ys] assms by (simp add: feed_def)

end

end
