(* ===== verification/Mica_Records.thy ===== *)
theory Mica_Records
  imports Interfaces
begin

text \<open>
  The boot records of \<^verbatim>\<open>common/uboot/mica-records.h\<close>: the value
  \<open>v1|<id>,<kernel>,<generation>,<tries>[;...]\<close> that both FIT loaders keep in the
  redundant environment, its parser \<open>mica_boot_parse\<close>, its printer
  \<open>mica_boot_render\<close> and the choice of the next deployment.

  A \<open>char id[65]\<close> field is the C string it holds (without the terminating zero), a
  \<open>struct mica_boot_records\<close> is the list of its first \<open>count\<close> entries, and the two
  functions return \<open>None\<close> where the code returns -1. The generation keeps its 64 bits.
\<close>

section \<open>The records and their codec\<close>

abbreviation (input) MICA_BOOT_RECORD_LIMIT :: nat where
  "MICA_BOOT_RECORD_LIMIT \<equiv> 2"

abbreviation (input) MICA_BOOT_VALUE_LIMIT :: nat where
  "MICA_BOOT_VALUE_LIMIT \<equiv> 512"

definition MICA_BOOT_GENERATION_LIMIT :: u64 where
  "MICA_BOOT_GENERATION_LIMIT = 9007199254740991"

record mica_boot_record =
  rid :: bytes
  rkernel :: bytes
  generation :: u64
  tries :: int

type_synonym mica_boot_records = "mica_boot_record list"

text \<open>One identifier and the comma after it; the result is the identifier and the new cursor.\<close>

definition mica_boot_id :: "bytes \<Rightarrow> (bytes \<times> bytes) option" where
  "mica_boot_id p =
     (if length p < 65 \<or> p ! 64 \<noteq> of_char (CHR '','') then None
      else if \<not> list_all is_hex_lower (take 64 p) then None
      else Some (take 64 p, drop 65 p))"

text \<open>The loop that reads the digits of the generation, with its overflow guard.\<close>

fun parse_generation :: "u64 \<Rightarrow> bytes \<Rightarrow> (u64 \<times> bytes) option" where
  "parse_generation g [] = Some (g, [])"
| "parse_generation g (c # p) =
     (if is_digit c then
        (let digit = ucast (c - of_char (CHR ''0'')) :: u64 in
         if g > (MICA_BOOT_GENERATION_LIMIT - digit) div 10 then None
         else parse_generation (g * 10 + digit) p)
      else Some (g, c # p))"

definition parse_tries :: "u8 \<Rightarrow> int option" where
  "parse_tries c =
     (if c = of_char (CHR ''-'') then Some (-1)
      else if of_char (CHR ''0'') \<le> c \<and> c \<le> of_char (CHR ''3'')
           then Some (uint (c - of_char (CHR ''0'')))
      else None)"

text \<open>The body of the parser's loop up to the cursor's step past the tries.\<close>

definition parse_record :: "bytes \<Rightarrow> (mica_boot_record \<times> bytes) option" where
  "parse_record p = do {
     (i, p) \<leftarrow> mica_boot_id p;
     (k, p) \<leftarrow> mica_boot_id p;
     if p = [] \<or> hd p < of_char (CHR ''1'') \<or> hd p > of_char (CHR ''9'') then None
     else do {
       (g, p) \<leftarrow> parse_generation 0 p;
       if length p < 2 \<or> hd p \<noteq> of_char (CHR '','') then None
       else do {
         t \<leftarrow> parse_tries (p ! 1);
         Some (\<lparr>rid = i, rkernel = k, generation = g, tries = t\<rparr>, drop 2 p)
       }
     }
   }"

lemma mica_boot_id_Some:
  "mica_boot_id p = Some (i, q) \<longleftrightarrow>
   length i = 64 \<and> list_all is_hex_lower i \<and> p = i @ 44 # q"
proof
  assume h: "mica_boot_id p = Some (i, q)"
  then have len: "65 \<le> length p" and c: "p ! 64 = 44" and i: "i = take 64 p" "q = drop 65 p"
    and hex: "list_all is_hex_lower (take 64 p)"
    by (auto simp: mica_boot_id_def split: if_splits)
  have "p = take 64 p @ p ! 64 # drop 65 p"
    using id_take_nth_drop [of 64 p] len by simp
  with len c i hex show "length i = 64 \<and> list_all is_hex_lower i \<and> p = i @ 44 # q"
    by simp
next
  assume "length i = 64 \<and> list_all is_hex_lower i \<and> p = i @ 44 # q"
  then show "mica_boot_id p = Some (i, q)"
    by (auto simp: mica_boot_id_def nth_append)
qed

lemma parse_generation_shrinks:
  "parse_generation g p = Some (g', q) \<Longrightarrow> length q \<le> length p"
  by (induction g p rule: parse_generation.induct) (fastforce simp: Let_def split: if_splits)+

lemma parse_record_shrinks: "parse_record p = Some (r, q) \<Longrightarrow> length q < length p"
  by (auto simp: parse_record_def mica_boot_id_Some split: if_splits bind_splits
      dest!: parse_generation_shrinks; arith)

text \<open>
  The parser's loop: \<open>acc\<close> is \<open>out->entry[0 .. out->count - 1]\<close>, \<open>p\<close> the bytes in
  front of \<open>end\<close>.
\<close>

function parse_entries :: "mica_boot_records \<Rightarrow> bytes \<Rightarrow> mica_boot_records option" where
  "parse_entries acc p =
     (if p = [] then None
      else if length acc = MICA_BOOT_RECORD_LIMIT then None
      else case parse_record p of
             None \<Rightarrow> None
           | Some (r, q) \<Rightarrow>
               if \<exists>e\<in>set acc. rid e = rid r \<or> generation e \<le> generation r then None
               else if q = [] then Some (acc @ [r])
               else if hd q \<noteq> of_char (CHR '';'') \<or> tl q = [] then None
               else parse_entries (acc @ [r]) (tl q))"
  by pat_completeness auto
termination
  by (relation "measure (\<lambda>(acc, p). length p)") (auto dest!: parse_record_shrinks)

declare parse_entries.simps [simp del]

definition text_length :: "bytes \<Rightarrow> nat" where
  "text_length text = length (takeWhile (\<lambda>c. c \<noteq> 0) (take (MICA_BOOT_VALUE_LIMIT + 1) text))"

definition mica_boot_parse :: "bytes \<Rightarrow> mica_boot_records option" where
  "mica_boot_parse text =
     (let len = text_length text in
      if len > MICA_BOOT_VALUE_LIMIT \<or> len < 4 \<or> take 3 text \<noteq> ascii ''v1|'' then None
      else parse_entries [] (take (len - 3) (drop 3 text)))"

text \<open>What \<open>snprintf (..., "%s%s,%s,%llu,%c", ...)\<close> formats for one entry.\<close>

definition tries_char :: "int \<Rightarrow> u8" where
  "tries_char t = (if t < 0 then of_char (CHR ''-'') else of_char (CHR ''0'') + of_int t)"

definition record_text :: "mica_boot_record \<Rightarrow> bytes" where
  "record_text r =
     rid r @ ascii '','' @ rkernel r @ ascii '','' @ decimal (unat (generation r)) @
     ascii '','' @ [tries_char (tries r)]"

text \<open>The printer's loop: \<open>text\<close> is the string so far, so \<open>used\<close> is its length.\<close>

fun render_entries :: "bool \<Rightarrow> bytes \<Rightarrow> mica_boot_records \<Rightarrow> bytes option" where
  "render_entries first text [] = Some text"
| "render_entries first text (r # rs) =
     (if tries r < -1 \<or> tries r > 3 then None
      else let item = (if first then [] else ascii '';'') @ record_text r in
        if length item > MICA_BOOT_VALUE_LIMIT - length text then None
        else render_entries False (text @ item) rs)"

definition mica_boot_render :: "mica_boot_records \<Rightarrow> bytes option" where
  "mica_boot_render records =
     (if records = [] \<or> length records > MICA_BOOT_RECORD_LIMIT then None
      else case render_entries True (ascii ''v1|'') records of
             None \<Rightarrow> None
           | Some text \<Rightarrow>
               (case mica_boot_parse (text @ [0]) of None \<Rightarrow> None | Some _ \<Rightarrow> Some text))"

text \<open>The index of the first entry that may still be tried, or \<open>None\<close> for -1.\<close>

fun mica_boot_next :: "mica_boot_records \<Rightarrow> nat option" where
  "mica_boot_next [] = None"
| "mica_boot_next (r # rs) = (if tries r \<noteq> 0 then Some 0 else map_option Suc (mica_boot_next rs))"


section \<open>Well-formed records\<close>

definition hex_id :: "bytes \<Rightarrow> bool" where
  "hex_id i \<longleftrightarrow> length i = 64 \<and> list_all is_hex_lower i"

definition wf_record :: "mica_boot_record \<Rightarrow> bool" where
  "wf_record r \<longleftrightarrow>
     hex_id (rid r) \<and> hex_id (rkernel r) \<and>
     0 < unat (generation r) \<and> generation r \<le> MICA_BOOT_GENERATION_LIMIT \<and>
     -1 \<le> tries r \<and> tries r \<le> 3"

text \<open>Newer deployments come first, and no deployment is listed twice.\<close>

definition newer :: "mica_boot_record \<Rightarrow> mica_boot_record \<Rightarrow> bool" where
  "newer e r \<longleftrightarrow> rid e \<noteq> rid r \<and> generation r < generation e"

definition wf_records :: "mica_boot_records \<Rightarrow> bool" where
  "wf_records rs \<longleftrightarrow>
     rs \<noteq> [] \<and> length rs \<le> MICA_BOOT_RECORD_LIMIT \<and> list_all wf_record rs \<and> sorted_wrt newer rs"

text \<open>The text of a list of records.\<close>

fun entries_text :: "mica_boot_records \<Rightarrow> bytes" where
  "entries_text [] = []"
| "entries_text [r] = record_text r"
| "entries_text (r # rs) = record_text r @ ascii '';'' @ entries_text rs"

definition records_text :: "mica_boot_records \<Rightarrow> bytes" where
  "records_text rs = ascii ''v1|'' @ entries_text rs"

subsection \<open>The generation's digits\<close>

lemma generation_limit_unat: "unat MICA_BOOT_GENERATION_LIMIT = 9007199254740991"
  by (simp add: MICA_BOOT_GENERATION_LIMIT_def)

lemma unat_digit_u64: "unat (ucast (c - 48 :: u8) :: u64) = digit_value c"
proof -
  have "unat (c - 48) < 2 ^ 8" using unsigned_less [of "c - 48"] by simp
  then show ?thesis by (simp add: digit_value_def unsigned_ucast_eq take_bit_nat_eq_self)
qed

text \<open>
  The guard \<open>generation > (LIMIT - digit) / 10\<close> refuses exactly the digits that would
  take the value past the limit, and so the 64-bit step never wraps.
\<close>

lemma generation_guard:
  fixes g d :: u64
  assumes "unat d \<le> 9"
  shows "g > (MICA_BOOT_GENERATION_LIMIT - d) div 10 \<longleftrightarrow> unat g * 10 + unat d > 9007199254740991"
proof -
  have "unat (MICA_BOOT_GENERATION_LIMIT - d) = 9007199254740991 - unat d"
    using assms by (subst unat_sub) (simp_all add: word_le_nat_alt generation_limit_unat)
  then have "unat ((MICA_BOOT_GENERATION_LIMIT - d) div 10) = (9007199254740991 - unat d) div 10"
    by (simp add: unat_div)
  then have "g > (MICA_BOOT_GENERATION_LIMIT - d) div 10 \<longleftrightarrow>
             unat g > (9007199254740991 - unat d) div 10"
    by (simp add: word_less_nat_alt)
  also have "\<dots> \<longleftrightarrow> unat g * 10 + unat d > 9007199254740991"
    using assms by linarith
  finally show ?thesis .
qed

lemma generation_step:
  fixes g d :: u64
  assumes "unat g * 10 + unat d \<le> 9007199254740991"
  shows "unat (g * 10 + d) = unat g * 10 + unat d"
  using assms by (simp add: unat_word_ariths)

lemma parse_generation_eq:
  "parse_generation g p =
     (if takeWhile is_digit p \<noteq> [] \<and>
         digits_value (unat g) (takeWhile is_digit p) > 9007199254740991 then None
      else Some (of_nat (digits_value (unat g) (takeWhile is_digit p)), dropWhile is_digit p))"
proof (induction p arbitrary: g)
  case (Cons c p)
  show ?case
  proof (cases "is_digit c")
    case True
    let ?d = "ucast (c - 48 :: u8) :: u64"
    have d: "unat ?d = digit_value c" by (rule unat_digit_u64)
    have d9: "unat ?d \<le> 9" using digit_value_le [OF True] d by simp
    show ?thesis
    proof (cases "unat g * 10 + digit_value c > 9007199254740991")
      case over: True
      have "digits_value (unat g) (takeWhile is_digit (c # p)) > 9007199254740991"
        using True over digits_value_mono [of "unat g * 10 + digit_value c" "takeWhile is_digit p"]
        by simp
      with True over show ?thesis
        by (simp add: Let_def generation_guard [OF d9] d)
    next
      case False
      then have "unat (g * 10 + ?d) = unat g * 10 + digit_value c"
        using generation_step [of g ?d] d by simp
      with True False Cons.IH [of "g * 10 + ?d"] show ?thesis
        by (simp add: Let_def generation_guard [OF d9] d)
    qed
  qed simp
qed simp

lemma parse_generation_decimal:
  assumes "n \<le> 9007199254740991" "q = [] \<or> \<not> is_digit (hd q)"
  shows "parse_generation 0 (decimal n @ q) = Some (of_nat n, q)"
  using assms
  by (simp add: parse_generation_eq takeWhile_digits_unique [OF decimal_digits assms(2)])

lemma parse_generation_canonical:
  assumes "parse_generation 0 p = Some (g, q)" "p \<noteq> []" "is_digit (hd p)" "hd p \<noteq> 48"
  shows "p = decimal (unat g) @ q" "0 < unat g" "g \<le> MICA_BOOT_GENERATION_LIMIT"
proof -
  let ?ds = "takeWhile is_digit p"
  obtain c p' where p: "p = c # p'" using assms(2) by (cases p) auto
  have ds: "?ds \<noteq> []" "hd ?ds \<noteq> 48" using assms p by auto
  have all: "list_all is_digit ?ds" by (auto simp: list_all_iff dest: set_takeWhileD)
  have le: "digits_value 0 ?ds \<le> 9007199254740991" and g: "g = of_nat (digits_value 0 ?ds)"
    and q: "q = dropWhile is_digit p"
    using assms(1) ds(1) by (auto simp: parse_generation_eq split: if_splits)
  have u: "unat g = digits_value 0 ?ds"
    using le by (simp add: g unat_of_nat take_bit_nat_def)
  then have dec: "decimal (unat g) = ?ds"
    using decimal_canonical [OF ds(1) all ds(2)] by simp
  then show "p = decimal (unat g) @ q"
    using q by simp
  show "0 < unat g"
  proof (rule ccontr)
    assume "\<not> 0 < unat g"
    then have "?ds = [48]" using dec by (simp add: decimal_0)
    then have "hd ?ds = 48" by (simp only: list.sel)
    with ds(2) show False by contradiction
  qed
  show "g \<le> MICA_BOOT_GENERATION_LIMIT"
    using u le by (simp add: word_le_nat_alt generation_limit_unat)
qed

subsection \<open>One record\<close>

lemma parse_tries_iff: "parse_tries c = Some t \<longleftrightarrow> -1 \<le> t \<and> t \<le> 3 \<and> c = tries_char t"
proof
  assume h: "parse_tries c = Some t"
  show "-1 \<le> t \<and> t \<le> 3 \<and> c = tries_char t"
  proof (cases "c = 45")
    case True
    with h show ?thesis by (simp add: parse_tries_def tries_char_def)
  next
    case False
    with h have c: "48 \<le> c" "c \<le> 51" and t: "t = uint (c - 48)"
      by (auto simp: parse_tries_def split: if_splits)
    then have "uint (c - 48) \<le> 3" by uint_arith
    moreover have "0 \<le> uint (c - 48)" by simp
    ultimately have "-1 \<le> t" "\<not> t < 0" "t \<le> 3" using t by linarith+
    moreover have "of_int t = c - 48" using t by simp
    ultimately show ?thesis by (simp add: tries_char_def)
  qed
next
  assume h: "-1 \<le> t \<and> t \<le> 3 \<and> c = tries_char t"
  then have "t = -1 \<or> t = 0 \<or> t = 1 \<or> t = 2 \<or> t = 3" by arith
  with h show "parse_tries c = Some t"
    by (elim disjE) (simp_all add: parse_tries_def tries_char_def)
qed

lemma parse_record_iff: "parse_record p = Some (r, q) \<longleftrightarrow> wf_record r \<and> p = record_text r @ q"
proof
  assume "parse_record p = Some (r, q)"
  then obtain i k p' g p'' t where
      i: "length i = 64" "list_all is_hex_lower i"
    and k: "length k = 64" "list_all is_hex_lower k"
    and p: "p = i @ 44 # k @ 44 # p'"
    and d: "p' \<noteq> []" "\<not> hd p' < 49" "\<not> hd p' > 57"
    and g: "parse_generation 0 p' = Some (g, p'')"
    and c: "\<not> length p'' < 2" "hd p'' = 44"
    and t: "parse_tries (p'' ! 1) = Some t"
    and r: "r = \<lparr>rid = i, rkernel = k, generation = g, tries = t\<rparr>" "q = drop 2 p''"
    by (auto simp: parse_record_def mica_boot_id_Some split: if_splits bind_splits)
  have "hd p' \<noteq> 48" "is_digit (hd p')"
    using d(2,3) by (auto simp: is_digit_def not_less intro: order_trans [of 48 49])
  with parse_generation_canonical [OF g d(1)]
  have g': "p' = decimal (unat g) @ p''" "0 < unat g" "g \<le> MICA_BOOT_GENERATION_LIMIT" by auto
  obtain x y z where "p'' = x # y # z"
    using c(1) by (metis One_nat_def Suc_1 length_Cons list.exhaust list.size(3) not_less_eq
        numeral_2_eq_2 zero_less_Suc)
  with c t have p'': "p'' = 44 # tries_char t # drop 2 p''" "-1 \<le> t" "t \<le> 3"
    by (auto simp: parse_tries_iff)
  show "wf_record r \<and> p = record_text r @ q"
    using i k p g' p'' r by (simp add: wf_record_def hex_id_def record_text_def)
next
  assume h: "wf_record r \<and> p = record_text r @ q"
  then have n: "unat (generation r) \<le> 9007199254740991" "0 < unat (generation r)"
    by (auto simp: wf_record_def word_le_nat_alt generation_limit_unat)
  obtain d ds where dec: "decimal (unat (generation r)) = d # ds"
    using decimal_not_Nil by (cases "decimal (unat (generation r))") auto
  have d: "is_digit d" "d \<noteq> 48"
    using decimal_digits [of "unat (generation r)"] hd_decimal [OF n(2)] by (auto simp: dec)
  then have "\<not> d < 49" "\<not> 57 < d"
    by (auto simp: is_digit_def word_le_nat_alt word_less_nat_alt word_unat_eq_iff)
  moreover have "parse_generation 0 ((d # ds) @ 44 # tries_char (tries r) # q) =
      Some (generation r, 44 # tries_char (tries r) # q)"
    using parse_generation_decimal [OF n(1), of "44 # tries_char (tries r) # q"]
    by (simp add: dec is_digit_def)
  moreover have "parse_tries (tries_char (tries r)) = Some (tries r)"
    using h by (simp add: parse_tries_iff wf_record_def)
  moreover have "mica_boot_id p =
      Some (rid r, rkernel r @ 44 # (d # ds) @ 44 # tries_char (tries r) # q)"
    "mica_boot_id (rkernel r @ 44 # (d # ds) @ 44 # tries_char (tries r) # q) =
      Some (rkernel r, (d # ds) @ 44 # tries_char (tries r) # q)"
    using h by (simp_all add: mica_boot_id_Some wf_record_def hex_id_def record_text_def dec)
  ultimately show "parse_record p = Some (r, q)"
    by (simp add: parse_record_def)
qed


subsection \<open>A list of records\<close>

lemma wf_record_text_inj:
  assumes "record_text r @ q = record_text r' @ q'" "wf_record r" "wf_record r'"
  shows "r = r'" "q = q'"
proof -
  have "parse_record (record_text r @ q) = Some (r, q)"
    "parse_record (record_text r' @ q') = Some (r', q')"
    using assms(2,3) by (simp_all add: parse_record_iff)
  then have "Some (r, q) = Some (r', q')" by (simp only: assms(1))
  then show "r = r'" "q = q'" by simp_all
qed

lemma record_text_not_Nil [simp]: "record_text r \<noteq> []"
  by (simp add: record_text_def)

lemma entries_text_Nil_iff [simp]: "entries_text rs = [] \<longleftrightarrow> rs = []"
  by (induction rs rule: entries_text.induct) simp_all

lemma entries_text_Cons:
  "entries_text (r # rs) = record_text r @ (if rs = [] then [] else 59 # entries_text rs)"
  by (cases rs) simp_all

lemma sorted_newer_snoc:
  "sorted_wrt newer (acc @ [r]) \<longleftrightarrow> sorted_wrt newer acc \<and>
     \<not> (\<exists>e\<in>set acc. rid e = rid r \<or> generation e \<le> generation r)"
  by (auto simp: sorted_wrt_append newer_def not_le)

lemma parse_entries_iff:
  assumes "sorted_wrt newer acc" "length acc \<le> 2"
  shows "parse_entries acc p = Some rs \<longleftrightarrow>
    (\<exists>rs'. rs' \<noteq> [] \<and> rs = acc @ rs' \<and> p = entries_text rs' \<and> length rs \<le> 2 \<and>
           list_all wf_record rs' \<and> sorted_wrt newer rs)"
  using assms
proof (induction acc p rule: parse_entries.induct)
  case (1 acc p)
  let ?R = "\<lambda>rs'. rs' \<noteq> [] \<and> rs = acc @ rs' \<and> p = entries_text rs' \<and> length rs \<le> 2 \<and>
                 list_all wf_record rs' \<and> sorted_wrt newer rs"
  show ?case
  proof
    assume h: "parse_entries acc p = Some rs"
    then obtain r q where pr: "parse_record p = Some (r, q)" and ne: "p \<noteq> []" "length acc \<noteq> 2"
      and ok: "\<not> (\<exists>e\<in>set acc. rid e = rid r \<or> generation e \<le> generation r)"
      by (subst (asm) parse_entries.simps) (auto split: if_splits option.splits)
    have r: "wf_record r" "p = record_text r @ q" using pr by (simp_all add: parse_record_iff)
    have s: "sorted_wrt newer (acc @ [r])" using 1(2) ok by (simp add: sorted_newer_snoc)
    show "\<exists>rs'. ?R rs'"
    proof (cases "q = []")
      case True
      with h pr ne ok have "rs = acc @ [r]"
        by (subst (asm) parse_entries.simps) (simp split: if_splits)
      with True r s 1(3) ne show ?thesis by (intro exI [of _ "[r]"]) simp
    next
      case False
      with h pr ne ok have q: "hd q = 59" "tl q \<noteq> []" "parse_entries (acc @ [r]) (tl q) = Some rs"
        by (subst (asm) parse_entries.simps, simp split: if_splits)+
      with 1(1) [OF ne pr _ ok False] s 1(3) ne obtain rs' where
        "rs' \<noteq> []" "rs = (acc @ [r]) @ rs'" "tl q = entries_text rs'" "length rs \<le> 2"
        "list_all wf_record rs'" "sorted_wrt newer rs"
        by auto
      with r q False show ?thesis
        by (intro exI [of _ "r # rs'"]) (auto simp: entries_text_Cons neq_Nil_conv)
    qed
  next
    assume "\<exists>rs'. ?R rs'"
    then obtain rs0 where rs0: "?R rs0" by blast
    then obtain r rs' where "rs0 = r # rs'" by (cases rs0) auto
    with rs0 have rs: "rs = acc @ r # rs'" "length rs \<le> 2" "sorted_wrt newer rs"
      and w: "wf_record r" "list_all wf_record rs'" and p: "p = entries_text (r # rs')"
      by auto
    define q where "q = (if rs' = [] then [] else 59 # entries_text rs')"
    have pr: "parse_record p = Some (r, q)" by (simp add: parse_record_iff w p q_def entries_text_Cons)
    have ne: "p \<noteq> []" "length acc \<noteq> 2" using p rs by simp_all
    have "sorted_wrt newer ((acc @ [r]) @ rs')" using rs by simp
    then have s: "sorted_wrt newer (acc @ [r])" by (subst (asm) sorted_wrt_append) blast
    then have ok: "\<not> (\<exists>e\<in>set acc. rid e = rid r \<or> generation e \<le> generation r)"
      by (simp add: sorted_newer_snoc)
    show "parse_entries acc p = Some rs"
    proof (cases "rs' = []")
      case True
      then show ?thesis using rs pr ne ok
        by (subst parse_entries.simps) (simp add: q_def)
    next
      case False
      then have q: "q \<noteq> []" "\<not> (hd q \<noteq> of_char (CHR '';'') \<or> tl q = [])" by (simp_all add: q_def)
      have "parse_entries (acc @ [r]) (tl q) = Some rs"
        using 1(1) [OF ne pr refl ok q] s rs w False by (auto simp: q_def)
      then show ?thesis using pr ne ok q
        by (subst parse_entries.simps) simp
    qed
  qed
qed

subsection \<open>The stored string\<close>

lemma digit_nonzero: "is_digit c \<Longrightarrow> c \<noteq> 0"
  by (auto simp: is_digit_def)

lemma hex_nonzero: "is_hex_lower c \<Longrightarrow> c \<noteq> 0"
  by (auto simp: is_hex_lower_def is_digit_def)

lemma tries_char_nonzero: "-1 \<le> t \<Longrightarrow> t \<le> 3 \<Longrightarrow> tries_char t \<noteq> 0"
  using parse_tries_iff [of "tries_char t" t] by (auto simp: parse_tries_def)

lemma hex_id_no_nul: "hex_id i \<Longrightarrow> 0 \<notin> set i"
  by (auto simp: hex_id_def list_all_iff dest: hex_nonzero)

lemma decimal_no_nul: "0 \<notin> set (decimal n)"
  using decimal_digits [of n] by (auto simp: list_all_iff dest: digit_nonzero)

text \<open>The C strings that fit into \<open>char id[65]\<close> and \<open>char kernel[65]\<close>.\<close>

definition record_fits :: "mica_boot_record \<Rightarrow> bool" where
  "record_fits r \<longleftrightarrow>
     length (rid r) \<le> 64 \<and> length (rkernel r) \<le> 64 \<and> 0 \<notin> set (rid r) \<and> 0 \<notin> set (rkernel r)"

lemma wf_record_fits: "wf_record r \<Longrightarrow> record_fits r"
  by (auto simp: wf_record_def record_fits_def hex_id_no_nul) (simp_all add: hex_id_def)

lemma record_text_no_nul:
  "record_fits r \<Longrightarrow> -1 \<le> tries r \<Longrightarrow> tries r \<le> 3 \<Longrightarrow> 0 \<notin> set (record_text r)"
  by (auto simp: record_text_def record_fits_def decimal_no_nul dest: tries_char_nonzero [symmetric])

lemma length_record_text: "wf_record r \<Longrightarrow> length (record_text r) \<le> 148"
  using length_decimal [of "unat (generation r)" "16"]
  by (simp add: record_text_def wf_record_def hex_id_def word_le_nat_alt generation_limit_unat)

lemma entries_text_no_nul:
  "list_all record_fits rs \<Longrightarrow> \<forall>r\<in>set rs. -1 \<le> tries r \<and> tries r \<le> 3 \<Longrightarrow>
   0 \<notin> set (entries_text rs)"
  by (induction rs) (auto simp: entries_text_Cons record_text_no_nul)

lemma wf_records_fit:
  assumes "list_all wf_record rs"
  shows "list_all record_fits rs" "\<forall>r\<in>set rs. -1 \<le> tries r \<and> tries r \<le> 3"
  using assms by (auto simp: list_all_iff wf_record_fits) (auto simp: wf_record_def)

lemma length_entries_text: "list_all wf_record rs \<Longrightarrow> length (entries_text rs) \<le> 149 * length rs"
  by (induction rs) (auto simp: entries_text_Cons dest: length_record_text)

lemma records_text_bounds:
  assumes "wf_records rs"
  shows "0 \<notin> set (records_text rs)" "length (records_text rs) \<le> 301" "4 \<le> length (records_text rs)"
proof -
  have "list_all wf_record rs" "length rs \<le> 2" "rs \<noteq> []" using assms by (simp_all add: wf_records_def)
  with entries_text_no_nul [OF wf_records_fit] length_entries_text [of rs]
  show "0 \<notin> set (records_text rs)" "length (records_text rs) \<le> 301"
    by (simp_all add: records_text_def)
  have "entries_text rs \<noteq> []" using \<open>rs \<noteq> []\<close> by simp
  then show "4 \<le> length (records_text rs)"
    by (cases "entries_text rs") (simp_all add: records_text_def)
qed

text \<open>
  The parser accepts exactly the texts of well-formed record lists, followed by the end of
  the string.
\<close>

lemma mica_boot_parse_iff:
  "mica_boot_parse text = Some rs \<longleftrightarrow>
   wf_records rs \<and> (\<exists>rest. text = records_text rs @ rest \<and> (rest = [] \<or> hd rest = 0))"
proof
  let ?n = "text_length text"
  assume h: "mica_boot_parse text = Some rs"
  then have n: "4 \<le> ?n" "?n \<le> 512" and v: "take 3 text = ascii ''v1|''"
    and p: "parse_entries [] (take (?n - 3) (drop 3 text)) = Some rs"
    by (auto simp: mica_boot_parse_def Let_def split: if_splits)
  have w: "wf_records rs" and e: "take (?n - 3) (drop 3 text) = entries_text rs"
    using p by (auto simp: parse_entries_iff wf_records_def)
  have n': "?n = length (takeWhile (\<lambda>c. c \<noteq> 0) text)"
    using n by (simp add: text_length_def takeWhile_take_length)
  have "take ?n text = take 3 text @ take (?n - 3) (drop 3 text)"
    using n take_add [of "3" "?n - 3" "text"] by simp
  then have "text = records_text rs @ drop ?n text"
    using v e by (metis append_take_drop_id records_text_def)
  moreover have "drop ?n text = [] \<or> hd (drop ?n text) = 0"
    using n' by (metis (mono_tags, lifting) dropWhile_eq_drop hd_dropWhile)
  ultimately show "wf_records rs \<and>
      (\<exists>rest. text = records_text rs @ rest \<and> (rest = [] \<or> hd rest = 0))"
    using w by blast
next
  assume "wf_records rs \<and> (\<exists>rest. text = records_text rs @ rest \<and> (rest = [] \<or> hd rest = 0))"
  then obtain rest where w: "wf_records rs" and t: "text = records_text rs @ rest"
    and rest: "rest = [] \<or> hd rest = 0" by blast
  have "cstr text = records_text rs"
    using records_text_bounds(1) [OF w] rest by (cases rest) (simp_all add: t)
  then have tw: "takeWhile (\<lambda>c. c \<noteq> 0) text = records_text rs"
    by (simp add: cstr_def)
  then have n: "text_length text = length (records_text rs)"
    using records_text_bounds(2) [OF w]
    by (simp add: text_length_def takeWhile_take_length)
  have "parse_entries [] (entries_text rs) = Some rs"
    using w by (simp add: parse_entries_iff wf_records_def)
  moreover have "take 3 text = ascii ''v1|''" "drop 3 text = entries_text rs @ rest"
    "length (records_text rs) - 3 = length (entries_text rs)"
    by (simp_all add: t records_text_def)
  ultimately show "mica_boot_parse text = Some rs"
    using records_text_bounds(2,3) [OF w] by (simp add: mica_boot_parse_def n)
qed


subsection \<open>The printer\<close>

lemma render_entries_Some:
  "render_entries first t0 rs = Some t \<Longrightarrow>
   t = t0 @ (if first \<or> rs = [] then [] else [59]) @ entries_text rs \<and>
   (\<forall>r\<in>set rs. -1 \<le> tries r \<and> tries r \<le> 3)"
  by (induction first t0 rs rule: render_entries.induct)
     (auto simp: Let_def entries_text_Cons split: if_splits)

lemma render_entries_total:
  assumes "list_all wf_record rs" "length t0 + 149 * length rs \<le> 512"
  shows "\<exists>t. render_entries first t0 rs = Some t"
  using assms
proof (induction first t0 rs rule: render_entries.induct)
  case (2 first t0 r rs)
  have r: "length (record_text r) \<le> 148" "-1 \<le> tries r" "tries r \<le> 3"
    using 2(2) length_record_text by (auto simp: wf_record_def)
  then show ?case using 2 by (auto simp: Let_def)
qed simp

lemma render_entries_records:
  "render_entries True (ascii ''v1|'') rs = Some t \<Longrightarrow> t = records_text rs"
  by (auto simp: records_text_def dest!: render_entries_Some)

text \<open>
  A comma ends an identifier of 64 characters only: a record whose text reads back as a
  well-formed record is that record.
\<close>

lemma id_comma_inj:
  assumes "i @ 44 # p = i' @ 44 # p'" "length i \<le> 64" "hex_id i'"
  shows "i = i'" "p = p'"
proof -
  have "length i = 64"
  proof (rule ccontr)
    assume "length i \<noteq> 64"
    then have lt: "length i < length i'" using assms(2,3) by (simp add: hex_id_def)
    have "i' ! length i = (i @ 44 # p) ! length i"
      using lt by (simp add: assms(1) nth_append)
    then have "i' ! length i = 44" by simp
    moreover have "is_hex_lower (i' ! length i)"
      using lt assms(3) by (simp add: hex_id_def list_all_length)
    ultimately show False by (simp add: is_hex_lower_def is_digit_def)
  qed
  with assms show "i = i'" "p = p'" by (simp_all add: hex_id_def)
qed

lemma record_text_inj:
  assumes eq: "record_text r @ q = record_text r' @ q'"
    and r: "record_fits r" "-1 \<le> tries r" "tries r \<le> 3" and r': "wf_record r'"
  shows "r = r'" "q = q'"
proof -
  let ?tail = "\<lambda>r q. decimal (unat (generation r)) @ 44 # tries_char (tries r) # q"
  have h: "hex_id (rid r')" "hex_id (rkernel r')" using r' by (simp_all add: wf_record_def)
  have "rid r @ 44 # rkernel r @ 44 # ?tail r q = rid r' @ 44 # rkernel r' @ 44 # ?tail r' q'"
    using eq by (simp add: record_text_def)
  with id_comma_inj [OF this _ h(1)] r(1)
  have i: "rid r = rid r'" and k: "rkernel r @ 44 # ?tail r q = rkernel r' @ 44 # ?tail r' q'"
    by (simp_all add: record_fits_def)
  with id_comma_inj [OF k _ h(2)] r(1)
  have k': "rkernel r = rkernel r'" and t: "?tail r q = ?tail r' q'"
    by (simp_all add: record_fits_def)
  have nd: "44 # x = [] \<or> \<not> is_digit (hd (44 # x))" for x by (simp add: is_digit_def)
  have "takeWhile is_digit (?tail r q) = takeWhile is_digit (?tail r' q')"
    "dropWhile is_digit (?tail r q) = dropWhile is_digit (?tail r' q')"
    by (simp_all only: t)
  then have d: "decimal (unat (generation r)) = decimal (unat (generation r'))"
    and c: "tries_char (tries r) = tries_char (tries r')" and q: "q = q'"
    by (simp_all add: takeWhile_digits_unique [OF decimal_digits nd])
  have "unat (generation r) = unat (generation r')"
    using arg_cong [OF d, of "digits_value 0"] by simp
  then have g: "generation r = generation r'" by (simp add: word_unat_eq_iff)
  have "parse_tries (tries_char (tries r)) = Some (tries r)"
    "parse_tries (tries_char (tries r')) = Some (tries r')"
    using r r' by (simp_all add: parse_tries_iff wf_record_def)
  then have "tries r = tries r'" using c by (metis option.inject)
  with i k' g show "r = r'" by simp
  show "q = q'" by (fact q)
qed

lemma entries_text_inj:
  assumes "entries_text rs = entries_text rs'" "list_all record_fits rs"
    "\<forall>r\<in>set rs. -1 \<le> tries r \<and> tries r \<le> 3" "list_all wf_record rs'"
  shows "rs = rs'"
  using assms
proof (induction rs arbitrary: rs')
  case Nil
  then have "entries_text rs' = []" by simp
  then show ?case by simp
next
  case (Cons r rs)
  then obtain r' rs'' where rs': "rs' = r' # rs''"
    by (cases rs') simp_all
  let ?t = "\<lambda>rs. if rs = [] then [] else 59 # entries_text rs"
  have "record_text r @ ?t rs = record_text r' @ ?t rs''"
    using Cons.prems(1) by (simp add: rs' entries_text_Cons)
  then have "r = r'" "?t rs = ?t rs''"
    using record_text_inj [of r "?t rs" r' "?t rs''"] Cons.prems by (simp_all add: rs')
  moreover from this have "entries_text rs = entries_text rs''"
    by (auto split: if_splits)
  ultimately show ?case using Cons by (simp add: rs')
qed


lemma mica_boot_render_iff:
  assumes "list_all record_fits rs"
  shows "mica_boot_render rs = Some t \<longleftrightarrow> wf_records rs \<and> t = records_text rs"
proof
  assume h: "mica_boot_render rs = Some t"
  then have r: "render_entries True (ascii ''v1|'') rs = Some t"
    and p: "\<exists>rs'. mica_boot_parse (t @ [0]) = Some rs'"
    by (auto simp: mica_boot_render_def split: if_splits option.splits)
  have t: "t = records_text rs" using r by (rule render_entries_records)
  obtain rs' rest where rs': "wf_records rs'" "t @ [0] = records_text rs' @ rest"
    "rest = [] \<or> hd rest = 0"
    using p by (auto simp: mica_boot_parse_iff)
  have tr: "\<forall>r\<in>set rs. -1 \<le> tries r \<and> tries r \<le> 3"
    using render_entries_Some [OF r] by blast
  have "0 \<notin> set t"
    using entries_text_no_nul [OF assms tr] by (simp add: t records_text_def)
  moreover have "cstr (t @ [0]) = records_text rs'"
    using rs' records_text_bounds(1) [OF rs'(1)] by (cases rest) simp_all
  ultimately have "t = records_text rs'" by simp
  then have "entries_text rs = entries_text rs'" using t by (simp add: records_text_def)
  then have "rs = rs'"
    using assms tr rs'(1) by (intro entries_text_inj) (auto simp: wf_records_def)
  with rs'(1) t show "wf_records rs \<and> t = records_text rs" by simp
next
  assume h: "wf_records rs \<and> t = records_text rs"
  then have "list_all wf_record rs" "length (ascii ''v1|'') + 149 * length rs \<le> 512"
    by (auto simp: wf_records_def)
  with render_entries_total obtain t' where t': "render_entries True (ascii ''v1|'') rs = Some t'"
    by blast
  with h have "t' = t" using render_entries_records by blast
  moreover have "mica_boot_parse (t @ [0]) = Some rs"
    using h by (auto simp: mica_boot_parse_iff intro!: exI [of _ "[0]"])
  ultimately show "mica_boot_render rs = Some t"
    using h t' by (simp add: mica_boot_render_def wf_records_def)
qed


lemma length_records_text: "wf_records rs \<Longrightarrow> length (records_text rs) \<le> MICA_BOOT_VALUE_LIMIT"
  using records_text_bounds(2) [of rs] by simp

text \<open>The records are a codec for the environment entry.\<close>

lemma mica_boot_render_wf: "wf_records rs \<Longrightarrow> mica_boot_render rs = Some (records_text rs)"
  using mica_boot_render_iff [OF wf_records_fit(1)] by (simp add: wf_records_def)

interpretation boot_records:
  value_codec mica_boot_parse mica_boot_render wf_records MICA_BOOT_VALUE_LIMIT
proof unfold_locales
  fix rs t rest
  assume w: "wf_records rs"
  then show "\<exists>t. mica_boot_render rs = Some t" by (simp add: mica_boot_render_wf)
  assume "mica_boot_render rs = Some t"
  with w have t: "t = records_text rs" by (simp add: mica_boot_render_wf)
  with w show "length t \<le> MICA_BOOT_VALUE_LIMIT" by (simp add: length_records_text)
  show "0 \<notin> set t" using w t by (simp add: records_text_bounds)
  show "mica_boot_parse (t @ 0 # rest) = Some rs"
    using w t by (auto simp: mica_boot_parse_iff intro!: exI [of _ "0 # rest"])
qed (simp add: mica_boot_parse_iff)

section \<open>The choice of the deployment\<close>

lemma mica_boot_next_Some:
  "mica_boot_next rs = Some i \<longleftrightarrow>
   i < length rs \<and> tries (rs ! i) \<noteq> 0 \<and> (\<forall>j<i. tries (rs ! j) = 0)"
proof (induction rs arbitrary: i)
  case (Cons r rs)
  then show ?case by (cases i) (auto simp: nth_Cons All_less_Suc2 split: nat.splits)
qed simp

lemma mica_boot_next_None: "mica_boot_next rs = None \<longleftrightarrow> (\<forall>r\<in>set rs. tries r = 0)"
  by (induction rs) auto

section \<open>Properties\<close>

definition sample_records :: mica_boot_records where
  "sample_records =
     [\<lparr>rid = replicate 64 97, rkernel = replicate 64 48, generation = 7, tries = 3\<rparr>,
      \<lparr>rid = replicate 64 98, rkernel = replicate 64 49, generation = 6, tries = -1\<rparr>]"

lemma sample_records_wf: "wf_records sample_records"
  by (simp add: sample_records_def wf_records_def wf_record_def hex_id_def newer_def
      is_hex_lower_def is_digit_def MICA_BOOT_GENERATION_LIMIT_def list_all_iff
      replicate_eq_replicate)

text \<open>
  C26: What \<open>mica_boot_render\<close> prints, \<open>mica_boot_parse\<close> reads back as the same records:
  for any records that fit the C struct, a successful render is the canonical text of a
  well-formed list (64 lower-case hexadecimal digits in each identifier, generations
  within the limit and strictly decreasing, distinct deployments, tries from -1 to 3, at
  most two entries), it is at most 512 bytes with no zero byte, and parsing the stored C
  string gives the records.
\<close>

theorem render_parse_roundtrip:
  assumes "list_all record_fits rs" and "mica_boot_render rs = Some t"
  shows "wf_records rs \<and> length t \<le> MICA_BOOT_VALUE_LIMIT \<and> 0 \<notin> set t \<and>
         mica_boot_parse (t @ 0 # rest) = Some rs"
proof -
  have "wf_records rs" using assms by (simp add: mica_boot_render_iff)
  with assms(2) show ?thesis
    using boot_records.render_bound boot_records.render_no_nul boot_records.parse_render by simp
qed

theorem render_parse_roundtrip_witness:
  "list_all record_fits sample_records \<and>
   mica_boot_render sample_records = Some (records_text sample_records) \<and>
   mica_boot_parse (records_text sample_records @ [0, 255]) = Some sample_records"
proof -
  have f: "list_all record_fits sample_records"
    using sample_records_wf wf_records_fit by (simp add: wf_records_def)
  have r: "mica_boot_render sample_records = Some (records_text sample_records)"
    by (rule mica_boot_render_wf [OF sample_records_wf])
  show ?thesis using f r render_parse_roundtrip [OF f r, of "[255]"] by simp
qed

text \<open>
  C25: \<open>mica_boot_parse\<close> accepts canonical texts only: whatever it accepts is a
  well-formed list, and rendering that list gives back exactly the C string that was
  parsed (no leading zero, no trailing separator, no second spelling of a value).
\<close>

theorem parse_canonical:
  assumes "mica_boot_parse text = Some rs"
  shows "wf_records rs \<and> mica_boot_render rs = Some (cstr text)"
proof -
  obtain rest where w: "wf_records rs" and t: "text = records_text rs @ rest"
    and r: "rest = [] \<or> hd rest = 0"
    using assms by (auto simp: mica_boot_parse_iff)
  have "cstr text = records_text rs"
    using records_text_bounds(1) [OF w] r by (cases rest) (simp_all add: t)
  with w show ?thesis by (simp add: mica_boot_render_wf)
qed

theorem parse_canonical_witness:
  "mica_boot_parse (records_text sample_records @ [0]) = Some sample_records \<and>
   mica_boot_render sample_records = Some (cstr (records_text sample_records @ [0]))"
proof -
  have p: "mica_boot_parse (records_text sample_records @ [0]) = Some sample_records"
    using boot_records.parse_render [OF sample_records_wf mica_boot_render_wf [OF sample_records_wf]] .
  show ?thesis using p parse_canonical [OF p] by simp
qed

text \<open>
  C29: The digit loop computes the decimal value without 64-bit wrap-around: reading the
  digits \<open>ds\<close> (and then a non-digit or the end) succeeds exactly when their value is at
  most \<open>MICA_BOOT_GENERATION_LIMIT\<close> (2^53 - 1), and the 64-bit result is that value.
\<close>

theorem generation_exact:
  assumes "list_all is_digit ds" and "ds \<noteq> []" and "q = [] \<or> \<not> is_digit (hd q)"
  shows "parse_generation 0 (ds @ q) =
     (if digits_value 0 ds \<le> unat MICA_BOOT_GENERATION_LIMIT
      then Some (of_nat (digits_value 0 ds), q) else None) \<and>
     (digits_value 0 ds \<le> unat MICA_BOOT_GENERATION_LIMIT \<longrightarrow>
      unat (of_nat (digits_value 0 ds) :: u64) = digits_value 0 ds)"
  using assms
  by (simp add: parse_generation_eq takeWhile_digits_unique generation_limit_unat
      unat_of_nat take_bit_nat_def)

theorem generation_exact_witness:
  "parse_generation 0 (ascii ''9007199254740991,'') = Some (9007199254740991, ascii '','') \<and>
   parse_generation 0 (ascii ''9007199254740992,'') = None"
  using generation_exact [of "ascii ''9007199254740991''" "ascii '',''"]
    generation_exact [of "ascii ''9007199254740992''" "ascii '',''"]
  by (simp add: is_digit_def generation_limit_unat digit_value_def)

end
