(* ===== verification/Mica_Env.thy ===== *)
theory Mica_Env
  imports Mica_Records
begin

text \<open>
  One copy of the redundant environment (\<^verbatim>\<open>common/uboot/mica-records.h\<close>): the entry
  \<open>mica_entries=<value>\<close> at byte 5, its value at byte 18, zeros to the end; and the choice
  between two copies by their flag byte. A copy is the list of its bytes, so the \<open>size\<close>
  argument of the code is the length of the list.
\<close>

definition MICA_ENV_KEY :: bytes where
  "MICA_ENV_KEY = ascii ''mica_entries=''"

definition MICA_ENV_VALUE_OFFSET :: nat where
  "MICA_ENV_VALUE_OFFSET = 5 + length MICA_ENV_KEY"

lemma length_MICA_ENV_KEY [simp]: "length MICA_ENV_KEY = 13"
  by (simp add: MICA_ENV_KEY_def)

lemma MICA_ENV_VALUE_OFFSET_eq [simp]: "MICA_ENV_VALUE_OFFSET = 18"
  by (simp add: MICA_ENV_VALUE_OFFSET_def)

text \<open>
  \<open>mica_env_value\<close>: the loop over \<open>end\<close> stops at the first zero byte from the value's
  offset on, or at the end of the copy; the second loop refuses a non-zero byte after it.
\<close>

definition mica_env_value :: "bytes \<Rightarrow> bytes option" where
  "mica_env_value bytes =
     (let size = length bytes;
          end1 = MICA_ENV_VALUE_OFFSET +
                 length (takeWhile (\<lambda>b. b \<noteq> 0) (drop MICA_ENV_VALUE_OFFSET bytes))
      in if take (length MICA_ENV_KEY) (drop 5 bytes) \<noteq> MICA_ENV_KEY then None
         else if end1 - MICA_ENV_VALUE_OFFSET > MICA_BOOT_VALUE_LIMIT \<or> end1 + 1 \<ge> size then None
         else if \<exists>b\<in>set (drop end1 bytes). b \<noteq> 0 then None
         else Some (drop MICA_ENV_VALUE_OFFSET bytes))"

definition mica_env_store :: "bytes \<Rightarrow> bytes \<Rightarrow> bytes" where
  "mica_env_store bytes text =
     patch MICA_ENV_VALUE_OFFSET text (patch 5 MICA_ENV_KEY bytes)"

definition mica_boot_slot :: "bool \<Rightarrow> u8 \<Rightarrow> bool \<Rightarrow> u8 \<Rightarrow> nat option" where
  "mica_boot_slot valid_a a valid_b b =
     (if \<not> valid_a then (if valid_b then Some 1 else None)
      else if \<not> valid_b then Some 0
      else if a = 255 \<and> b = 0 \<or> b > a \<and> \<not> (b = 255 \<and> a = 0) then Some 1 else Some 0)"

section \<open>Lemmas\<close>

lemma mica_env_store_zeros:
  assumes "length c = 5" "length t + 13 \<le> n"
  shows "mica_env_store (c @ replicate n 0) t =
         c @ MICA_ENV_KEY @ t @ replicate (n - 13 - length t) 0"
  using assms by (simp add: mica_env_store_def patch_def)

lemma mica_env_value_image:
  assumes "length c = 5" "0 \<notin> set t" "length t \<le> MICA_BOOT_VALUE_LIMIT" "2 \<le> n"
  shows "mica_env_value (c @ MICA_ENV_KEY @ t @ replicate n 0) = Some (t @ replicate n 0)"
proof -
  obtain m where n: "n = Suc m" "0 < m" using assms(4) by (cases n) auto
  have d: "drop 18 (c @ MICA_ENV_KEY @ t @ replicate n 0) = t @ replicate n 0"
    "take 13 (drop 5 (c @ MICA_ENV_KEY @ t @ replicate n 0)) = MICA_ENV_KEY"
    using assms(1) by simp_all
  have tw: "takeWhile (\<lambda>b. b \<noteq> 0) (t @ replicate n 0) = t"
    using cstr_append_nul [OF assms(2), of "replicate m 0"] by (simp add: cstr_def n)
  have e: "drop (18 + length t) (c @ MICA_ENV_KEY @ t @ replicate n 0) = replicate n 0"
    using assms(1) by simp
  show ?thesis
    using assms(1,3,4) by (simp add: mica_env_value_def Let_def d tw e)
qed

text \<open>
  The value handed to the parser is a C string that ends inside the copy, within the
  length the parser scans.
\<close>

lemma mica_env_value_terminated:
  assumes "mica_env_value bytes = Some v"
  shows "\<exists>t n. v = t @ replicate (Suc (Suc n)) 0 \<and> 0 \<notin> set t \<and> length t \<le> MICA_BOOT_VALUE_LIMIT"
proof -
  let ?v = "drop 18 bytes"
  let ?t = "takeWhile (\<lambda>b. b \<noteq> 0) ?v"
  define l where "l = length ?t"
  have "Some v = (if take 13 (drop 5 bytes) \<noteq> MICA_ENV_KEY then None
      else if l > 512 \<or> 18 + l + 1 \<ge> length bytes then None
      else if \<exists>b\<in>set (drop (18 + l) bytes). b \<noteq> 0 then None else Some ?v)"
    unfolding l_def assms [symmetric]
    by (simp only: mica_env_value_def Let_def length_MICA_ENV_KEY MICA_ENV_VALUE_OFFSET_eq
        add_diff_cancel_left')
  then have v: "v = ?v" and len: "l \<le> 512" "18 + l + 1 < length bytes"
    and z: "\<forall>b\<in>set (drop (18 + l) bytes). b = 0"
    by (simp_all split: if_splits)
  define m where "m = length bytes - (18 + l)"
  have "drop l ?v = replicate m 0"
    using z by (intro replicate_eqI) (auto simp: m_def add.commute)
  moreover have "?v = ?t @ drop l ?v"
    unfolding l_def by (metis dropWhile_eq_drop takeWhile_dropWhile_id)
  ultimately have e: "v = ?t @ replicate m 0" using v by simp
  have "2 \<le> m" using len(2) by (simp add: m_def)
  then obtain n where "m = Suc (Suc n)" by (auto simp: numeral_2_eq_2 Suc_le_eq dest!: less_imp_Suc_add)
  moreover have "0 \<notin> set ?t" by (auto dest: set_takeWhileD)
  ultimately show ?thesis using e len(1) unfolding l_def by metis
qed

lemma u8_successor: "(a :: u8) = 255 \<or> a + 1 > a"
proof (cases "a = 255")
  case False
  then have "unat a \<noteq> 255" by (auto simp: word_unat_eq_iff)
  moreover have "unat a < 256" using unsigned_less [of a] by simp
  ultimately have "unat (a + 1) = unat a + 1" by (simp add: unat_word_ariths)
  then show ?thesis by (simp add: word_less_nat_alt)
qed simp

lemma mica_boot_slot_next:
  "mica_boot_slot True a True (a + 1) = Some 1"
  "mica_boot_slot True (a + 1) True a = Some 0"
proof -
  have *: "a = 255 \<or> a + 1 > a" by (rule u8_successor)
  show "mica_boot_slot True a True (a + 1) = Some 1"
    using * by (auto simp: mica_boot_slot_def)
  show "mica_boot_slot True (a + 1) True a = Some 0"
    using * by (auto simp: mica_boot_slot_def)
qed

end
