(* ===== verification/Mica_File_Boot.thy ===== *)
theory Mica_File_Boot
  imports Mica_Env
begin

text \<open>
  The signed-FIT loaders of the two boards, \<^verbatim>\<open>boards/s905x5m/loader/mica-file-boot.c\<close> and
  \<^verbatim>\<open>boards/cx3576/loader/mica-file-boot.c\<close>: the redundant environment on the medium, its
  update with read-back, the partition check and the boot itself.

  The two files differ in constants and in a few checks; a \<open>board\<close> record holds exactly
  these differences. What U-Boot answers (drivers, block reads and writes, file system,
  \<open>bootm\<close>) is the record \<open>hw\<close> of one boot. \<open>crc32\<close> and the unaligned little-endian
  accessors are U-Boot's, not this repository's: they are the fields of an \<open>uboot\<close>
  record, and the locale \<open>uboot_library\<close> states what the code relies on.

  The medium is the list of the two environment regions, a buffer \<open>copies\<close> the list of its
  two halves. A short read leaves any bytes in the buffer; a write that goes wrong may
  leave any bytes in the region, whatever count the driver returns. \<open>recovery\<close>,
  \<open>do_reset\<close> and a launched kernel do not return: they are the outcomes of the boot.
\<close>

section \<open>The environment on the medium\<close>

record uboot =
  lib_crc32 :: "bytes \<Rightarrow> u32"
  lib_get_le32 :: "bytes \<Rightarrow> u32"
  lib_put_le32 :: "u32 \<Rightarrow> bytes"

definition MICA_ENV_SIZE :: nat where
  "MICA_ENV_SIZE = 65536"

definition valid_environment :: "uboot \<Rightarrow> bytes \<Rightarrow> bool" where
  "valid_environment lib bytes \<longleftrightarrow>
     lib_get_le32 lib bytes = lib_crc32 lib (take (MICA_ENV_SIZE - 5) (drop 5 bytes))"

definition decode_environment :: "bytes \<Rightarrow> mica_boot_records option" where
  "decode_environment bytes =
     (case mica_env_value bytes of Some v \<Rightarrow> mica_boot_parse v | None \<Rightarrow> None)"

datatype dread = Dread_full | Dread_short bytes

definition read_copy :: "dread \<Rightarrow> bytes \<Rightarrow> bytes" where
  "read_copy d region = (case d of Dread_full \<Rightarrow> region | Dread_short b \<Rightarrow> b)"

definition read_environment ::
  "uboot \<Rightarrow> dread list \<Rightarrow> bytes list \<Rightarrow> (nat \<times> bytes list \<times> mica_boot_records) option" where
  "read_environment lib ds regions =
     (let copies = [read_copy (ds ! 0) (regions ! 0), read_copy (ds ! 1) (regions ! 1)];
          valid = (\<lambda>i. ds ! i = Dread_full \<and> valid_environment lib (copies ! i))
      in case mica_boot_slot (valid 0) (copies ! 0 ! 4) (valid 1) (copies ! 1 ! 4) of
           None \<Rightarrow> None
         | Some slot \<Rightarrow>
             (case decode_environment (copies ! slot) of
                None \<Rightarrow> None
              | Some records \<Rightarrow> Some (slot, copies, records)))"

datatype dwrite = Dwrite_full | Dwrite_bad bool bytes

record persist_io =
  io_write :: dwrite
  io_flush :: int
  io_read :: dread

text \<open>\<open>pending\<close>: zeros, the flag, the entry, and the CRC of everything from byte 5.\<close>

definition env_image :: "uboot \<Rightarrow> u8 \<Rightarrow> bytes \<Rightarrow> bytes" where
  "env_image lib flag text =
     (let pending = mica_env_store ((replicate MICA_ENV_SIZE 0)[4 := flag]) text
      in patch 0 (lib_put_le32 lib (lib_crc32 lib (take (MICA_ENV_SIZE - 5) (drop 5 pending)))) pending)"

definition write_region :: "dwrite \<Rightarrow> bytes \<Rightarrow> bool \<times> bytes" where
  "write_region d pending =
     (case d of Dwrite_full \<Rightarrow> (True, pending) | Dwrite_bad full left \<Rightarrow> (full, left))"

section \<open>The boards\<close>

datatype entry_check = Boot0_required | Recovery_button

record board =
  env_blocks :: "nat list"
  fit_address :: nat
  part_starts :: "nat list"
  part_sizes :: "nat list"
  entry :: entry_check
  wdt_ms :: nat
  disk_is_sd :: bool
  flush_after_write :: bool

definition s905x5m :: board where
  "s905x5m = \<lparr>env_blocks = [245760, 253952], fit_address = 0x28000000,
     part_starts = [64, 262144, 2359296], part_sizes = [262080, 2097152, 524288],
     entry = Boot0_required, wdt_ms = 60000, disk_is_sd = True, flush_after_write = False\<rparr>"

definition cx3576 :: board where
  "cx3576 = \<lparr>env_blocks = [32768, 34816], fit_address = 0x60000000,
     part_starts = [64, 36864, 2134016], part_sizes = [36800, 2097152, 524288],
     entry = Recovery_button, wdt_ms = 120000, disk_is_sd = False, flush_after_write = True\<rparr>"

text \<open>
  \<open>persist_environment\<close>: whether it returned 0, the medium and the buffer after it. The
  buffer of the current copy is reused for the read-back.
\<close>

definition persist_environment ::
  "board \<Rightarrow> uboot \<Rightarrow> persist_io \<Rightarrow> bytes list \<Rightarrow> bytes list \<Rightarrow> nat \<Rightarrow> mica_boot_records \<Rightarrow>
   bool \<times> bytes list \<times> bytes list" where
  "persist_environment b lib io regions copies slot records =
     (case mica_boot_render records of
        None \<Rightarrow> (False, regions, copies)
      | Some text \<Rightarrow>
          (let flag = copies ! slot ! 4 + 1;
               pending = env_image lib flag text;
               copies = copies[1 - slot := pending];
               (full, left) = write_region (io_write io) pending;
               regions = regions[1 - slot := left]
           in if \<not> full \<or> flush_after_write b \<and> io_flush io \<noteq> 0 then (False, regions, copies)
              else let readback = read_copy (io_read io) (regions ! (1 - slot));
                       copies = copies[slot := readback]
                   in (io_read io = Dread_full \<and> readback = pending, regions, copies)))"

record disk_partition =
  start :: nat
  psize :: nat
  pname :: bytes

record blk_desc =
  blksz :: nat
  part_info :: "nat \<Rightarrow> disk_partition option"

definition valid_layout :: "board \<Rightarrow> blk_desc \<Rightarrow> bool" where
  "valid_layout b disk \<longleftrightarrow>
     blksz disk = 512 \<and>
     list_all (\<lambda>i. case part_info disk (i + 1) of
         None \<Rightarrow> False
       | Some part \<Rightarrow>
           start part = part_starts b ! i \<and>
           pname part = [ascii ''firmware'', ascii ''system'', ascii ''data''] ! i \<and>
           (if i = 2 then part_sizes b ! i \<le> psize part else psize part = part_sizes b ! i))
       [0, 1, 2] \<and>
     part_info disk 4 = None"

section \<open>The boot\<close>

datatype recovery_reason =
  Verification_policy_unavailable
| Not_from_boot0
| Local_recovery_key
| Watchdog_unavailable
| Watchdog_not_started
| System_disk_unavailable
| Layout_required
| Buffer_unavailable
| Environment_invalid
| Deployments_exhausted
| Attempt_not_persisted
| Confirmed_not_retired

datatype outcome = Recovery recovery_reason | Launched bytes | Reset

text \<open>What the loader did, in order; \<open>Persist i\<close> is a call of \<open>persist_environment\<close> for copy \<open>i\<close>.\<close>

datatype act =
  Set_verify
| Wdt_start nat
| Persist nat
| Wdt_reset
| Boot_fit nat bytes

text \<open>One boot's answers from the drivers.\<close>

record hw =
  h_env_set :: int
  h_store_is_emmc :: bool
  h_bootidx :: int
  h_button_get :: int
  h_button_on :: bool
  h_wdt_probe :: int
  h_wdt_start :: int
  h_mmc_found :: bool
  h_mmc_init :: int
  h_is_sd :: bool
  h_hwpart :: int
  h_disk :: blk_desc
  h_memalign :: bool
  h_reads :: "dread list"
  h_io1 :: persist_io
  h_io2 :: persist_io
  h_fs_set1 :: int
  h_fs_size :: "bytes \<Rightarrow> int option"
  h_fs_set2 :: int
  h_fs_read :: "bytes \<Rightarrow> int option"
  h_fdt_check :: int
  h_fdt_totalsize :: int
  h_bootm_returns :: bool

definition entry_refused :: "board \<Rightarrow> hw \<Rightarrow> recovery_reason option" where
  "entry_refused b hw =
     (case entry b of
        Boot0_required \<Rightarrow>
          (if \<not> h_store_is_emmc hw \<or> h_bootidx hw \<noteq> 1 then Some Not_from_boot0 else None)
      | Recovery_button \<Rightarrow>
          (if h_button_get hw = 0 \<and> h_button_on hw then Some Local_recovery_key else None))"

text \<open>The checks in front of the environment, in the order of the code.\<close>

definition boot_checks :: "board \<Rightarrow> hw \<Rightarrow> act list \<times> recovery_reason option" where
  "boot_checks b hw =
     (if h_env_set hw \<noteq> 0 then ([], Some Verification_policy_unavailable)
      else case entry_refused b hw of
        Some r \<Rightarrow> ([Set_verify], Some r)
      | None \<Rightarrow>
          if h_wdt_probe hw \<noteq> 0 then ([Set_verify], Some Watchdog_unavailable)
          else if h_wdt_start hw \<noteq> 0 then ([Set_verify], Some Watchdog_not_started)
          else ([Set_verify, Wdt_start (wdt_ms b)],
            (if \<not> h_mmc_found hw \<or> h_mmc_init hw \<noteq> 0 \<or> h_is_sd hw \<noteq> disk_is_sd b \<or> h_hwpart hw \<noteq> 0
             then Some System_disk_unavailable
             else if \<not> valid_layout b (h_disk hw) then Some Layout_required
             else if \<not> h_memalign hw then Some Buffer_unavailable
             else None)))"

definition MICA_FIT_LIMIT :: int where
  "MICA_FIT_LIMIT = 128 * 1024 * 1024"

definition boot_image_path :: "bytes \<Rightarrow> bytes" where
  "boot_image_path k = ascii ''/kernels/'' @ k @ ascii ''/boot.itb''"

definition fit_loaded :: "hw \<Rightarrow> bytes \<Rightarrow> bool" where
  "fit_loaded hw filename \<longleftrightarrow>
     h_fs_set1 hw = 0 \<and>
     (case h_fs_size hw filename of
        None \<Rightarrow> False
      | Some n \<Rightarrow>
          0 < n \<and> n \<le> MICA_FIT_LIMIT \<and> h_fs_set2 hw = 0 \<and>
          h_fs_read hw filename = Some n \<and> h_fdt_check hw = 0 \<and> h_fdt_totalsize hw = n)"

text \<open>Behind the launch attempt: a confirmed image that did not boot is retired.\<close>

definition boot_failed ::
  "board \<Rightarrow> uboot \<Rightarrow> hw \<Rightarrow> act list \<Rightarrow> bytes list \<Rightarrow> bytes list \<Rightarrow> nat \<Rightarrow> mica_boot_records \<Rightarrow> nat \<Rightarrow>
   act list \<times> outcome \<times> bytes list" where
  "boot_failed b lib hw log regions copies slot records next =
     (if tries (records ! next) < 0 then
        (case persist_environment b lib (h_io2 hw) regions copies slot
                (records[next := (records ! next)\<lparr>tries := 0\<rparr>]) of
           (ok, regions, copies) \<Rightarrow>
             (log @ [Persist (1 - slot)], if ok then Reset else Recovery Confirmed_not_retired, regions))
      else (log, Reset, regions))"

definition boot_selected ::
  "board \<Rightarrow> uboot \<Rightarrow> hw \<Rightarrow> act list \<Rightarrow> bytes list \<Rightarrow> bytes list \<Rightarrow> nat \<Rightarrow> mica_boot_records \<Rightarrow> nat \<Rightarrow>
   act list \<times> outcome \<times> bytes list" where
  "boot_selected b lib hw log regions copies slot records next =
     (let filename = boot_image_path (rkernel (records ! next)) in
      if fit_loaded hw filename then
        (let log = log @ [Wdt_reset, Boot_fit (fit_address b) filename] in
         if \<not> h_bootm_returns hw then (log, Launched (rid (records ! next)), regions)
         else boot_failed b lib hw log regions copies slot records next)
      else boot_failed b lib hw log regions copies slot records next)"

definition mica_file_boot :: "board \<Rightarrow> uboot \<Rightarrow> hw \<Rightarrow> bytes list \<Rightarrow> act list \<times> outcome \<times> bytes list" where
  "mica_file_boot b lib hw regions =
     (case boot_checks b hw of
        (log, Some r) \<Rightarrow> (log, Recovery r, regions)
      | (log, None) \<Rightarrow>
          (case read_environment lib (h_reads hw) regions of
             None \<Rightarrow> (log, Recovery Environment_invalid, regions)
           | Some (slot, copies, records) \<Rightarrow>
               (case mica_boot_next records of
                  None \<Rightarrow> (log, Recovery Deployments_exhausted, regions)
                | Some next \<Rightarrow>
                    if tries (records ! next) > 0 then
                      (let records = records[next := (records ! next)\<lparr>tries := tries (records ! next) - 1\<rparr>] in
                       case persist_environment b lib (h_io1 hw) regions copies slot records of
                         (ok, regions, copies) \<Rightarrow>
                           (let log = log @ [Persist (1 - slot)] in
                            if \<not> ok then (log, Recovery Attempt_not_persisted, regions)
                            else boot_selected b lib hw log regions copies slot records next))
                    else boot_selected b lib hw log regions copies slot records next)))"

definition mica_file_boot_s905x5m :: "uboot \<Rightarrow> hw \<Rightarrow> bytes list \<Rightarrow> act list \<times> outcome \<times> bytes list" where
  "mica_file_boot_s905x5m = mica_file_boot s905x5m"

definition mica_file_boot_cx3576 :: "uboot \<Rightarrow> hw \<Rightarrow> bytes list \<Rightarrow> act list \<times> outcome \<times> bytes list" where
  "mica_file_boot_cx3576 = mica_file_boot cx3576"


section \<open>The redundant environment as a store\<close>

text \<open>
  U-Boot's little-endian accessors: \<open>put_unaligned_le32\<close> writes four bytes, and
  \<open>get_unaligned_le32\<close> reads back the value from them.
\<close>

locale uboot_library =
  fixes lib :: uboot
  assumes get_put: "lib_get_le32 lib (lib_put_le32 lib v @ rest) = v"
    and length_put: "length (lib_put_le32 lib v) = 4"
begin

lemma env_image_layout:
  assumes "length t \<le> MICA_BOOT_VALUE_LIMIT"
  shows "\<exists>c. length c = 4 \<and> (\<forall>rest. lib_get_le32 lib (c @ rest) =
      lib_crc32 lib (MICA_ENV_KEY @ t @ replicate (MICA_ENV_SIZE - 18 - length t) 0)) \<and>
    env_image lib f t = c @ [f] @ MICA_ENV_KEY @ t @ replicate (MICA_ENV_SIZE - 18 - length t) 0"
proof -
  define n where "n = MICA_ENV_SIZE - 5"
  have size: "MICA_ENV_SIZE = 4 + Suc n" and n: "length t + 13 \<le> n"
    using assms by (simp_all add: n_def MICA_ENV_SIZE_def)
  have "(replicate MICA_ENV_SIZE 0)[4 := f] = (replicate 4 0 @ [f]) @ replicate n 0"
    unfolding size replicate_add by (simp add: list_update_append)
  moreover have "mica_env_store ((replicate 4 0 @ [f]) @ replicate n 0) t =
      (replicate 4 0 @ [f]) @ MICA_ENV_KEY @ t @ replicate (n - 13 - length t) 0"
    by (rule mica_env_store_zeros) (use n in simp_all)
  ultimately have p: "mica_env_store ((replicate MICA_ENV_SIZE 0)[4 := f]) t =
      replicate 4 0 @ [f] @ MICA_ENV_KEY @ t @ replicate (n - 13 - length t) 0"
    by simp
  define body where "body = MICA_ENV_KEY @ t @ replicate (n - 13 - length t) 0"
  let ?crc = "lib_put_le32 lib (lib_crc32 lib body)"
  have "length body = n" using n by (simp add: body_def)
  then have "take n (drop 5 (replicate 4 0 @ [f] @ body)) = body" by simp
  then have "env_image lib f t = patch 0 ?crc (replicate 4 0 @ [f] @ body)"
    unfolding env_image_def Let_def p n_def [symmetric] body_def [symmetric] by (simp only:)
  also have "\<dots> = ?crc @ [f] @ body" by (simp add: patch_def length_put)
  finally have e: "env_image lib f t = ?crc @ [f] @ body" .
  have "n - 13 - length t = MICA_ENV_SIZE - 18 - length t" by (simp add: n_def)
  then show ?thesis
    using e by (intro exI [of _ ?crc]) (simp add: length_put get_put body_def)
qed

lemma env_image_valid:
  assumes "length t \<le> MICA_BOOT_VALUE_LIMIT"
  shows "valid_environment lib (env_image lib f t)" "env_image lib f t ! 4 = f"
    "length (env_image lib f t) = MICA_ENV_SIZE"
proof -
  let ?body = "MICA_ENV_KEY @ t @ replicate (MICA_ENV_SIZE - 18 - length t) 0"
  obtain c where c: "length c = 4" "\<And>rest. lib_get_le32 lib (c @ rest) = lib_crc32 lib ?body"
    "env_image lib f t = c @ [f] @ ?body"
    using env_image_layout [OF assms] by metis
  have len: "length ?body = MICA_ENV_SIZE - 5" using assms by (simp add: MICA_ENV_SIZE_def)
  have "drop 5 (c @ [f] @ ?body) = ?body" using c(1) by simp
  then show "valid_environment lib (env_image lib f t)"
    using len by (simp only: valid_environment_def c(2,3)) simp
  show "env_image lib f t ! 4 = f" using c(1) by (simp add: c(3) nth_append)
  show "length (env_image lib f t) = MICA_ENV_SIZE"
    using c(1) len by (simp add: c(3) MICA_ENV_SIZE_def)
qed

lemma env_image_value:
  assumes "length t \<le> MICA_BOOT_VALUE_LIMIT" "0 \<notin> set t"
  shows "\<exists>rest. mica_env_value (env_image lib f t) = Some (t @ 0 # rest)"
proof -
  let ?n = "MICA_ENV_SIZE - 18 - length t"
  obtain c where c: "length c = 4" "env_image lib f t = c @ [f] @ MICA_ENV_KEY @ t @ replicate ?n 0"
    using env_image_layout [OF assms(1)] by blast
  have n: "2 \<le> ?n" using assms(1) by (simp add: MICA_ENV_SIZE_def)
  then obtain m where m: "?n = Suc m" by (cases ?n) auto
  have "mica_env_value ((c @ [f]) @ MICA_ENV_KEY @ t @ replicate ?n 0) = Some (t @ replicate ?n 0)"
    by (rule mica_env_value_image) (use c(1) assms n in simp_all)
  then show ?thesis using c(2) m by (metis append.assoc replicate_Suc)
qed

end

text \<open>What \<open>persist_environment\<close> writes, as a function of the records.\<close>

definition records_image :: "uboot \<Rightarrow> u8 \<Rightarrow> mica_boot_records \<Rightarrow> bytes option" where
  "records_image lib f rs = map_option (env_image lib f) (mica_boot_render rs)"

sublocale uboot_library \<subseteq> env_store: redundant_store mica_boot_slot "valid_environment lib"
  "\<lambda>c. c ! 4" decode_environment "records_image lib" wf_records
proof unfold_locales
  fix f rs
  assume w: "wf_records rs"
  then show "\<exists>p. records_image lib f rs = Some p"
    using boot_records.render_total by (auto simp: records_image_def)
  fix p
  assume "records_image lib f rs = Some p"
  then obtain t where t: "mica_boot_render rs = Some t" "p = env_image lib f t"
    by (auto simp: records_image_def)
  note b = boot_records.render_bound [OF w t(1)] boot_records.render_no_nul [OF w t(1)]
  obtain rest where "mica_env_value p = Some (t @ 0 # rest)"
    using env_image_value [OF b] t(2) by blast
  then have "decode_environment p = Some rs"
    using boot_records.parse_render [OF w t(1)] by (simp add: decode_environment_def)
  then show "valid_environment lib p \<and> p ! 4 = f \<and> decode_environment p = Some rs"
    using env_image_valid [OF b(1)] t(2) by simp
next
  fix p rs
  assume "decode_environment p = Some rs"
  then show "wf_records rs"
    by (auto simp: decode_environment_def boot_records.parse_wf split: option.splits)
next
  fix v w and a b :: u8 and s
  show "mica_boot_slot v a w b = Some s \<Longrightarrow> s = 0 \<and> v \<or> s = 1 \<and> w"
    by (auto simp: mica_boot_slot_def split: if_splits)
qed (rule mica_boot_slot_next | simp add: mica_boot_slot_def)+


section \<open>What one boot does to the records\<close>

definition env_current :: "uboot \<Rightarrow> bytes list \<Rightarrow> (nat \<times> mica_boot_records) option" where
  "env_current lib = store_current mica_boot_slot (valid_environment lib) (\<lambda>c. c ! 4) decode_environment"

text \<open>The records a reader of the medium finds.\<close>

definition env_records :: "uboot \<Rightarrow> bytes list \<Rightarrow> mica_boot_records option" where
  "env_records lib regions = map_option snd (env_current lib regions)"

text \<open>One attempt less for the selected deployment; a confirmed one is retired.\<close>

definition attempt_used :: "mica_boot_records \<Rightarrow> nat \<Rightarrow> mica_boot_records" where
  "attempt_used rs n = rs[n := (rs ! n)\<lparr>tries := (if tries (rs ! n) > 0 then tries (rs ! n) - 1 else 0)\<rparr>]"

text \<open>
  The specification of a boot whose drivers all answer: which deployment runs, and the
  records it leaves. \<open>launched\<close> says whether the selected image starts.
\<close>

definition boot_spec :: "bool \<Rightarrow> mica_boot_records \<Rightarrow> outcome \<times> mica_boot_records" where
  "boot_spec launched rs =
     (case mica_boot_next rs of
        None \<Rightarrow> (Recovery Deployments_exhausted, rs)
      | Some n \<Rightarrow>
          (if launched then Launched (rid (rs ! n)) else Reset,
           if tries (rs ! n) > 0 \<or> \<not> launched then attempt_used rs n else rs))"

definition image_starts :: "hw \<Rightarrow> mica_boot_records \<Rightarrow> bool" where
  "image_starts hw rs \<longleftrightarrow>
     (case mica_boot_next rs of
        None \<Rightarrow> False
      | Some n \<Rightarrow> fit_loaded hw (boot_image_path (rkernel (rs ! n))) \<and> \<not> h_bootm_returns hw)"

definition io_good :: "persist_io \<Rightarrow> bool" where
  "io_good io \<longleftrightarrow> io_write io = Dwrite_full \<and> io_flush io = 0 \<and> io_read io = Dread_full"

definition reads_full :: "hw \<Rightarrow> bool" where
  "reads_full hw \<longleftrightarrow> h_reads hw = [Dread_full, Dread_full]"

definition healthy :: "board \<Rightarrow> hw \<Rightarrow> bool" where
  "healthy b hw \<longleftrightarrow>
     snd (boot_checks b hw) = None \<and> reads_full hw \<and> io_good (h_io1 hw) \<and> io_good (h_io2 hw)"

text \<open>A write that did not go through left a region whose CRC does not match.\<close>

definition torn_detected :: "uboot \<Rightarrow> persist_io \<Rightarrow> bool" where
  "torn_detected lib io \<longleftrightarrow>
     (case io_write io of Dwrite_full \<Rightarrow> True | Dwrite_bad _ left \<Rightarrow> \<not> valid_environment lib left)"

lemma wf_records_cases:
  assumes "wf_records rs"
  obtains (one) r where "rs = [r]" "wf_record r"
    | (two) e r where "rs = [e, r]" "wf_record e" "wf_record r" "newer e r"
proof -
  obtain r rs' where rs: "rs = r # rs'" using assms by (cases rs) (auto simp: wf_records_def)
  show thesis
  proof (cases rs')
    case Nil
    with assms rs one show thesis by (auto simp: wf_records_def)
  next
    case (Cons r' rs'')
    with assms rs have "rs'' = []" by (auto simp: wf_records_def)
    with assms rs Cons two show thesis by (auto simp: wf_records_def)
  qed
qed

lemma wf_record_tries: "wf_record r \<Longrightarrow> -1 \<le> t \<Longrightarrow> t \<le> 3 \<Longrightarrow> wf_record (r\<lparr>tries := t\<rparr>)"
  by (simp add: wf_record_def)

lemma newer_tries [simp]:
  "newer (e\<lparr>tries := t\<rparr>) r = newer e r" "newer e (r\<lparr>tries := t\<rparr>) = newer e r"
  by (simp_all add: newer_def)

lemma wf_records_tries:
  assumes "wf_records rs" "n < length rs" "-1 \<le> t" "t \<le> 3"
  shows "wf_records (rs[n := (rs ! n)\<lparr>tries := t\<rparr>])"
  using assms(1)
proof (cases rule: wf_records_cases)
  case (one r)
  with assms show ?thesis by (simp add: wf_records_def wf_record_tries)
next
  case (two e r)
  then have "n = 0 \<or> n = 1" using assms(2) by auto
  with two assms(3,4) show ?thesis by (auto simp: wf_records_def wf_record_tries)
qed

lemma wf_records_nth: "wf_records rs \<Longrightarrow> n < length rs \<Longrightarrow> wf_record (rs ! n)"
  by (simp add: wf_records_def list_all_length)

lemma wf_attempt_used: "wf_records rs \<Longrightarrow> n < length rs \<Longrightarrow> wf_records (attempt_used rs n)"
  unfolding attempt_used_def
  by (rule wf_records_tries) (auto dest: wf_records_nth simp: wf_record_def)

lemma read_environment_Some:
  assumes "read_environment lib ds regions = Some (s, copies, rs)" "length ds = 2" "length regions = 2"
  shows "s < 2" "copies ! s = regions ! s" "valid_environment lib (regions ! s)"
    "decode_environment (regions ! s) = Some rs" "wf_records rs"
proof -
  have s: "s < 2" "ds ! s = Dread_full" "valid_environment lib (copies ! s)"
    and d: "decode_environment (copies ! s) = Some rs"
    and c: "copies = [read_copy (ds ! 0) (regions ! 0), read_copy (ds ! 1) (regions ! 1)]"
    using assms(1) by (auto simp: read_environment_def Let_def mica_boot_slot_def
        split: option.splits if_splits)
  show "s < 2" by fact
  show e: "copies ! s = regions ! s"
    using s(1,2) by (auto simp: c read_copy_def less_2_cases_iff)
  show "valid_environment lib (regions ! s)" "decode_environment (regions ! s) = Some rs"
    using s(3) d by (simp_all add: e)
  show "wf_records rs"
    using d by (auto simp: decode_environment_def boot_records.parse_wf split: option.splits)
qed

lemma read_environment_full:
  assumes "length regions = 2"
  shows "read_environment lib [Dread_full, Dread_full] regions =
    map_option (\<lambda>(s, rs). (s, regions, rs)) (env_current lib regions)"
proof -
  obtain a b where "regions = [a, b]"
    using assms by (auto simp: numeral_2_eq_2 length_Suc_conv)
  then show ?thesis
    by (simp add: read_environment_def read_copy_def env_current_def store_current_def Let_def
        split: option.splits)
qed

lemma persist_outcome:
  assumes "persist_environment b lib io regions copies slot rs = (ok, regions', copies')"
    and "length regions = 2" "length copies = 2" "slot < 2"
  shows "ok \<Longrightarrow> \<exists>p. records_image lib (copies ! slot ! 4 + 1) rs = Some p \<and> regions' = regions[1 - slot := p]"
    and "regions' = regions \<or>
      (\<exists>p. records_image lib (copies ! slot ! 4 + 1) rs = Some p \<and>
           regions' = regions[1 - slot := snd (write_region (io_write io) p)])"
proof -
  show "regions' = regions \<or>
      (\<exists>p. records_image lib (copies ! slot ! 4 + 1) rs = Some p \<and>
           regions' = regions[1 - slot := snd (write_region (io_write io) p)])"
    using assms(1)
    by (auto simp: persist_environment_def records_image_def Let_def
        split: option.splits prod.splits if_splits)
  have "1 - slot < length regions" using assms(2) by simp
  then show "ok \<Longrightarrow> \<exists>p. records_image lib (copies ! slot ! 4 + 1) rs = Some p \<and> regions' = regions[1 - slot := p]"
    using assms(1)
    by (auto simp: persist_environment_def records_image_def read_copy_def Let_def
        split: option.splits prod.splits if_splits)
qed

lemma persist_good:
  assumes "io_good io" "length regions = 2" "records_image lib (copies ! slot ! 4 + 1) rs = Some p"
  shows "\<exists>copies'. persist_environment b lib io regions copies slot rs = (True, regions[1 - slot := p], copies')"
  using assms
  by (auto simp: persist_environment_def records_image_def io_good_def write_region_def read_copy_def Let_def)


text \<open>The shape of a boot: what the two final stages leave on the medium.\<close>

lemma boot_failed_medium:
  assumes "boot_failed b lib hw log regions copies slot rs n = (log', out, regions')"
  shows "out = Reset \<or> out = Recovery Confirmed_not_retired"
    and "regions' = regions \<or> tries (rs ! n) < 0 \<and>
      (\<exists>ok copies'. persist_environment b lib (h_io2 hw) regions copies slot
          (rs[n := (rs ! n)\<lparr>tries := 0\<rparr>]) = (ok, regions', copies'))"
  using assms by (auto simp: boot_failed_def split: if_splits prod.splits)

lemma boot_selected_medium:
  assumes "boot_selected b lib hw log regions copies slot rs n = (log', out, regions')"
  shows "out = Launched i \<Longrightarrow> i = rid (rs ! n) \<and> regions' = regions"
    and "regions' = regions \<or> tries (rs ! n) < 0 \<and>
      (\<exists>ok copies'. persist_environment b lib (h_io2 hw) regions copies slot
          (rs[n := (rs ! n)\<lparr>tries := 0\<rparr>]) = (ok, regions', copies'))"
  using assms boot_failed_medium
  by (fastforce simp: boot_selected_def Let_def split: if_splits)+

text \<open>A boot that gets past its checks and the environment, one equation per case.\<close>

lemma mica_file_boot_stages:
  assumes "boot_checks b hw = (log, None)"
    and "read_environment lib (h_reads hw) regions = Some (s, copies, rs)"
    and "mica_boot_next rs = Some n"
  shows "tries (rs ! n) \<le> 0 \<Longrightarrow>
      mica_file_boot b lib hw regions = boot_selected b lib hw log regions copies s rs n"
    and "tries (rs ! n) > 0 \<Longrightarrow>
      persist_environment b lib (h_io1 hw) regions copies s (attempt_used rs n) = (ok, regions1, copies1) \<Longrightarrow>
      mica_file_boot b lib hw regions =
        (if ok then boot_selected b lib hw (log @ [Persist (1 - s)]) regions1 copies1 s (attempt_used rs n) n
         else (log @ [Persist (1 - s)], Recovery Attempt_not_persisted, regions1))"
  using assms by (simp_all add: mica_file_boot_def attempt_used_def Let_def)

lemma mica_file_boot_reached:
  assumes "mica_file_boot b lib hw regions = (log, out, regions')"
    and "regions' \<noteq> regions \<or> (\<forall>r. out \<noteq> Recovery r)"
  obtains log0 s copies rs n where "boot_checks b hw = (log0, None)"
    "read_environment lib (h_reads hw) regions = Some (s, copies, rs)" "mica_boot_next rs = Some n"
  using assms
  by (auto simp: mica_file_boot_def split: prod.splits option.splits)

lemma length_read_environment:
  "read_environment lib ds regions = Some (s, copies, rs) \<Longrightarrow> length copies = 2"
  by (auto simp: read_environment_def Let_def split: option.splits)

lemma attempt_used_nth:
  "n < length rs \<Longrightarrow> rid (attempt_used rs n ! n) = rid (rs ! n)"
  "n < length rs \<Longrightarrow> rkernel (attempt_used rs n ! n) = rkernel (rs ! n)"
  "n < length rs \<Longrightarrow> tries (attempt_used rs n ! n) =
     (if tries (rs ! n) > 0 then tries (rs ! n) - 1 else 0)"
  by (simp_all add: attempt_used_def)

context uboot_library
begin

lemma persisted_current:
  assumes "records_image lib (regions ! s ! 4 + 1) rs = Some p"
    and "s < 2" "valid_environment lib (regions ! s)" "length regions = 2" "wf_records rs"
  shows "env_current lib (regions[1 - s := p]) = Some (1 - s, rs)"
  unfolding env_current_def by (rule env_store.current_written) (use assms in simp_all)

lemma launched_boot:
  assumes "mica_file_boot b lib hw regions = (log, Launched i, regions')"
    and "length regions = 2" "length (h_reads hw) = 2"
  shows "\<exists>s copies rs n.
     read_environment lib (h_reads hw) regions = Some (s, copies, rs) \<and>
     mica_boot_next rs = Some n \<and> i = rid (rs ! n) \<and>
     (if 0 < tries (rs ! n) then env_current lib regions' = Some (1 - s, attempt_used rs n)
      else regions' = regions)"
proof -
  obtain log0 s copies rs n where st: "boot_checks b hw = (log0, None)"
    "read_environment lib (h_reads hw) regions = Some (s, copies, rs)" "mica_boot_next rs = Some n"
    by (rule mica_file_boot_reached [OF assms(1)]) auto
  note re = read_environment_Some [OF st(2) assms(3,2)]
  have n: "n < length rs" using st(3) by (simp add: mica_boot_next_Some)
  show ?thesis
  proof (cases "0 < tries (rs ! n)")
    case False
    then have "boot_selected b lib hw log0 regions copies s rs n = (log, Launched i, regions')"
      using assms(1) mica_file_boot_stages(1) [OF st] by simp
    from boot_selected_medium(1) [OF this refl] False st show ?thesis by auto
  next
    case True
    obtain ok regions1 copies1 where
      p: "persist_environment b lib (h_io1 hw) regions copies s (attempt_used rs n) = (ok, regions1, copies1)"
      by (metis prod_cases3)
    have ok: "ok" and
      sel: "boot_selected b lib hw (log0 @ [Persist (1 - s)]) regions1 copies1 s (attempt_used rs n) n
        = (log, Launched i, regions')"
      using assms(1) mica_file_boot_stages(2) [OF st True p] by (auto split: if_splits)
    from boot_selected_medium(1) [OF sel refl]
    have i: "i = rid (rs ! n)" "regions' = regions1" using n by (simp_all add: attempt_used_nth)
    obtain q where q: "records_image lib (regions ! s ! 4 + 1) (attempt_used rs n) = Some q"
      "regions1 = regions[1 - s := q]"
      using persist_outcome(1) [OF p assms(2) length_read_environment [OF st(2)] re(1) ok] re(2) by auto
    have "env_current lib regions' = Some (1 - s, attempt_used rs n)"
      unfolding i(2) q(2)
      by (rule persisted_current) (use q re assms(2) n wf_attempt_used in auto)
    with True st i show ?thesis by auto
  qed
qed

text \<open>What a write may leave, whole or torn.\<close>

lemma write_region_current:
  assumes "records_image lib (regions ! s ! 4 + 1) rs' = Some p"
    and "env_current lib regions = Some (s, rs)" "length regions = 2" "wf_records rs'"
    and "torn_detected lib io"
  shows "env_current lib (regions[1 - s := snd (write_region (io_write io) p)]) \<in>
    {Some (s, rs), Some (1 - s, rs')}"
proof (cases "io_write io")
  case Dwrite_full
  then show ?thesis
    using assms env_store.current_slot(1,2) persisted_current
    by (auto simp: write_region_def env_current_def)
next
  case (Dwrite_bad full left)
  then have "\<not> valid_environment lib left" using assms(5) by (simp add: torn_detected_def)
  then show ?thesis
    using assms(2,3) Dwrite_bad env_store.current_torn
    by (auto simp: write_region_def env_current_def)
qed

lemma boot_keeps_records:
  assumes "env_current lib regions = Some (s, rs)" "length regions = 2"
    and "reads_full hw" "torn_detected lib (h_io1 hw)" "torn_detected lib (h_io2 hw)"
    and "mica_file_boot b lib hw regions = (log, out, regions')"
  shows "env_records lib regions' = Some rs \<or>
    (\<exists>n. mica_boot_next rs = Some n \<and> env_records lib regions' = Some (attempt_used rs n))"
proof (cases "regions' = regions")
  case True
  then show ?thesis using assms(1) by (simp add: env_records_def)
next
  case False
  then obtain log0 s' copies rs' n where st: "boot_checks b hw = (log0, None)"
    "read_environment lib (h_reads hw) regions = Some (s', copies, rs')" "mica_boot_next rs' = Some n"
    by (rule mica_file_boot_reached [OF assms(6), OF disjI1])
  then have eq: "s' = s" "copies = regions" "rs' = rs"
    using assms(1,3) by (simp_all add: reads_full_def read_environment_full [OF assms(2)])
  note st = st [unfolded eq]
  have s: "s < 2" using assms(1) env_store.current_slot(1) by (auto simp: env_current_def)
  have w: "wf_records rs" using assms(1) env_store.current_slot(4) by (auto simp: env_current_def)
  have n: "n < length rs" "tries (rs ! n) \<noteq> 0" using st(3) by (simp_all add: mica_boot_next_Some)
  have wa: "wf_records (attempt_used rs n)" using w n by (simp add: wf_attempt_used)
  have after: "env_records lib (regions[1 - s := snd (write_region (io_write io) p)]) \<in>
      {Some rs, Some (attempt_used rs n)}"
    if "records_image lib (regions ! s ! 4 + 1) (attempt_used rs n) = Some p" "torn_detected lib io"
    for p io
    using write_region_current [OF that(1) assms(1,2) wa that(2)] by (auto simp: env_records_def)
  show ?thesis
  proof (cases "0 < tries (rs ! n)")
    case True
    obtain ok regions1 copies1 where
      p: "persist_environment b lib (h_io1 hw) regions regions s (attempt_used rs n) = (ok, regions1, copies1)"
      by (metis prod_cases3)
    have e: "regions' = regions1"
    proof (cases ok)
      case ok: True
      have "boot_selected b lib hw (log0 @ [Persist (1 - s)]) regions1 copies1 s (attempt_used rs n) n
          = (log, out, regions')"
        using mica_file_boot_stages(2) [OF st True p] assms(6) ok by simp
      from boot_selected_medium(2) [OF this] show ?thesis
        using True n by (simp add: attempt_used_nth)
    qed (use mica_file_boot_stages(2) [OF st True p] assms(6) in simp)
    obtain q where "records_image lib (regions ! s ! 4 + 1) (attempt_used rs n) = Some q"
      "regions1 = regions[1 - s := snd (write_region (io_write (h_io1 hw)) q)]"
      using persist_outcome(2) [OF p assms(2,2) s] False [unfolded e] by blast
    note q = this [folded e]
    have "env_records lib regions' \<in> {Some rs, Some (attempt_used rs n)}"
      unfolding q(2) by (rule after [OF q(1) assms(4)])
    with st(3) show ?thesis by blast
  next
    case neg: False
    then have "boot_selected b lib hw log0 regions regions s rs n = (log, out, regions')"
      using mica_file_boot_stages(1) [OF st] assms(6) by simp
    moreover have "rs[n := (rs ! n)\<lparr>tries := 0\<rparr>] = attempt_used rs n"
      using neg by (simp add: attempt_used_def)
    ultimately obtain ok copies1 where
      p: "persist_environment b lib (h_io2 hw) regions regions s (attempt_used rs n) = (ok, regions', copies1)"
      using boot_selected_medium(2) False by metis
    obtain q where q: "records_image lib (regions ! s ! 4 + 1) (attempt_used rs n) = Some q"
      "regions' = regions[1 - s := snd (write_region (io_write (h_io2 hw)) q)]"
      using persist_outcome(2) [OF p assms(2,2) s] False by blast
    have "env_records lib regions' \<in> {Some rs, Some (attempt_used rs n)}"
      unfolding q(2) by (rule after [OF q(1) assms(5)])
    with st(3) show ?thesis by blast
  qed
qed

lemma boot_refines:
  assumes "env_current lib regions = Some (s, rs)" "length regions = 2" "healthy b hw"
  shows "\<exists>log s' regions'. mica_file_boot b lib hw regions =
      (log, fst (boot_spec (image_starts hw rs) rs), regions') \<and>
    env_current lib regions' = Some (s', snd (boot_spec (image_starts hw rs) rs)) \<and> length regions' = 2"
proof -
  obtain log0 where chk: "boot_checks b hw = (log0, None)"
    using assms(3) by (cases "boot_checks b hw") (auto simp: healthy_def)
  have rd: "read_environment lib (h_reads hw) regions = Some (s, regions, rs)"
    using assms by (simp add: healthy_def reads_full_def read_environment_full)
  have g: "io_good (h_io1 hw)" "io_good (h_io2 hw)" using assms(3) by (simp_all add: healthy_def)
  have s: "s < 2" "valid_environment lib (regions ! s)" "wf_records rs"
    using assms(1) env_store.current_slot by (auto simp: env_current_def)
  show ?thesis
  proof (cases "mica_boot_next rs")
    case None
    then show ?thesis using assms(1,2) chk rd by (simp add: mica_file_boot_def boot_spec_def)
  next
    case (Some n)
    have n: "n < length rs" "tries (rs ! n) \<noteq> 0" using Some by (simp_all add: mica_boot_next_Some)
    have wa: "wf_records (attempt_used rs n)" using s(3) n(1) by (rule wf_attempt_used)
    then obtain p where p: "records_image lib (regions ! s ! 4 + 1) (attempt_used rs n) = Some p"
      using env_store.image_total by blast
    have cur: "env_current lib (regions[1 - s := p]) = Some (1 - s, attempt_used rs n)"
      using persisted_current [OF p s(1,2) assms(2) wa] .
    note stages = mica_file_boot_stages [OF chk rd Some]
    show ?thesis
    proof (cases "0 < tries (rs ! n)")
      case True
      obtain c where "persist_environment b lib (h_io1 hw) regions regions s (attempt_used rs n) =
          (True, regions[1 - s := p], c)"
        using persist_good [OF g(1) assms(2) p] by blast
      from stages(2) [OF True this] True Some cur assms(2) n show ?thesis
        by (simp add: boot_selected_def boot_failed_def boot_spec_def image_starts_def
            attempt_used_nth Let_def)
    next
      case False
      have e: "rs[n := (rs ! n)\<lparr>tries := 0\<rparr>] = attempt_used rs n"
        using False by (simp add: attempt_used_def)
      obtain c where "persist_environment b lib (h_io2 hw) regions regions s (attempt_used rs n) =
          (True, regions[1 - s := p], c)"
        using persist_good [OF g(2) assms(2) p] by blast
      with stages(1) False Some cur assms(1,2) n e show ?thesis
        by (simp add: boot_selected_def boot_failed_def boot_spec_def image_starts_def Let_def)
    qed
  qed
qed

end

section \<open>Repeated boots\<close>

fun boots :: "board \<Rightarrow> uboot \<Rightarrow> hw list \<Rightarrow> bytes list \<Rightarrow> outcome list \<times> bytes list" where
  "boots b lib [] regions = ([], regions)"
| "boots b lib (hw # hws) regions =
     (case mica_file_boot b lib hw regions of
        (_, out, regions) \<Rightarrow> (case boots b lib hws regions of (outs, regions) \<Rightarrow> (out # outs, regions)))"

lemma boots_append:
  "boots b lib hws regions = (outs, regions1) \<Longrightarrow>
   boots b lib (hws @ hws') regions =
     (outs @ fst (boots b lib hws' regions1), snd (boots b lib hws' regions1))"
  by (induction hws arbitrary: regions outs) (auto split: prod.splits)

lemma length_boots: "boots b lib hws regions = (outs, regions1) \<Longrightarrow> length outs = length hws"
  by (induction hws arbitrary: regions outs) (auto split: prod.splits)

context uboot_library
begin

lemma boots_use_attempts:
  assumes "env_current lib regions = Some (s, r # rs)" "length regions = 2"
    and "tries r = int (length hws)" "\<forall>hw\<in>set hws. healthy b hw"
    and "boots b lib hws regions = (outs, regions')"
  shows "(\<exists>s'. env_current lib regions' = Some (s', r\<lparr>tries := 0\<rparr> # rs)) \<and> length regions' = 2 \<and>
    (\<forall>out\<in>set outs. out = Launched (rid r) \<or> out = Reset)"
  using assms
proof (induction hws arbitrary: regions s r outs)
  case Nil
  then have "r\<lparr>tries := 0\<rparr> = r" by simp
  with Nil show ?case by auto
next
  case (Cons hw hws)
  have t: "tries r = int (length hws) + 1" "tries r > 0" using Cons.prems(3) by simp_all
  let ?r = "r\<lparr>tries := tries r - 1\<rparr>"
  have spec: "boot_spec l (r # rs) = (if l then Launched (rid r) else Reset, ?r # rs)" for l
    using t by (simp add: boot_spec_def attempt_used_def)
  have "healthy b hw" using Cons.prems(4) by simp
  from boot_refines [OF Cons.prems(1,2) this] obtain log s1 regions1 where
    b1: "mica_file_boot b lib hw regions =
        (log, if image_starts hw (r # rs) then Launched (rid r) else Reset, regions1)"
    and c1: "env_current lib regions1 = Some (s1, ?r # rs)" "length regions1 = 2"
    by (auto simp: spec)
  obtain outs1 where o: "boots b lib hws regions1 = (outs1, regions')"
    "outs = (if image_starts hw (r # rs) then Launched (rid r) else Reset) # outs1"
    using Cons.prems(5) by (auto simp: b1 split: prod.splits)
  show ?case
    using Cons.IH [OF c1 _ _ o(1)] t(1) Cons.prems(4) o(2) by auto
qed

end


section \<open>A concrete library\<close>

text \<open>
  The documented behaviour of U-Boot's accessors and of its CRC-32 (the reflected IEEE
  polynomial), which the parameters stand for; they make the witnesses concrete.
\<close>

definition le32_put :: "u32 \<Rightarrow> bytes" where
  "le32_put v = [ucast v, ucast (drop_bit 8 v), ucast (drop_bit 16 v), ucast (drop_bit 24 v)]"

definition le32_get :: "bytes \<Rightarrow> u32" where
  "le32_get p = ucast (p ! 0) OR push_bit 8 (ucast (p ! 1)) OR
                push_bit 16 (ucast (p ! 2)) OR push_bit 24 (ucast (p ! 3))"

definition crc32_bit :: "u32 \<Rightarrow> u32" where
  "crc32_bit c = (if c AND 1 = 1 then drop_bit 1 c XOR 0xEDB88320 else drop_bit 1 c)"

definition crc32_bytes :: "bytes \<Rightarrow> u32" where
  "crc32_bytes p = NOT (foldl (\<lambda>c b. (crc32_bit ^^ 8) (c XOR ucast b)) (NOT 0) p)"

definition reference_uboot :: uboot where
  "reference_uboot = \<lparr>lib_crc32 = crc32_bytes, lib_get_le32 = le32_get, lib_put_le32 = le32_put\<rparr>"

lemma le32_get_put: "le32_get (le32_put v @ rest) = v"
proof (rule bit_word_eqI)
  fix n
  assume n: "n < LENGTH(32)"
  then have "n < 8 \<or> 8 \<le> n \<and> n < 16 \<or> 16 \<le> n \<and> n < 24 \<or> 24 \<le> n \<and> n < 32" by auto
  then show "bit (le32_get (le32_put v @ rest)) n = bit v n"
    by (elim disjE) (auto simp: le32_get_def le32_put_def bit_simps numeral_3_eq_3)
qed

interpretation reference: uboot_library reference_uboot
proof
  show "lib_get_le32 reference_uboot (lib_put_le32 reference_uboot v @ rest) = v" for v rest
    by (simp only: reference_uboot_def uboot.simps le32_get_put)
  show "length (lib_put_le32 reference_uboot v) = 4" for v
    by (simp add: reference_uboot_def le32_put_def)
qed

text \<open>A medium with \<open>sample_records\<close> in both copies, the first one newer, and a board that works.\<close>

definition sample_regions :: "bytes list" where
  "sample_regions = map (\<lambda>f. env_image reference_uboot f (records_text sample_records)) [0, 255]"

definition working_io :: persist_io where
  "working_io = \<lparr>io_write = Dwrite_full, io_flush = 0, io_read = Dread_full\<rparr>"

definition working_hw :: "board \<Rightarrow> hw" where
  "working_hw b = \<lparr>h_env_set = 0, h_store_is_emmc = True, h_bootidx = 1,
     h_button_get = -19, h_button_on = False, h_wdt_probe = 0, h_wdt_start = 0,
     h_mmc_found = True, h_mmc_init = 0, h_is_sd = disk_is_sd b, h_hwpart = 0,
     h_disk = \<lparr>blksz = 512, part_info =
       [1 \<mapsto> \<lparr>start = part_starts b ! 0, psize = part_sizes b ! 0, pname = ascii ''firmware''\<rparr>,
        2 \<mapsto> \<lparr>start = part_starts b ! 1, psize = part_sizes b ! 1, pname = ascii ''system''\<rparr>,
        3 \<mapsto> \<lparr>start = part_starts b ! 2, psize = part_sizes b ! 2, pname = ascii ''data''\<rparr>]\<rparr>,
     h_memalign = True, h_reads = [Dread_full, Dread_full], h_io1 = working_io, h_io2 = working_io,
     h_fs_set1 = 0, h_fs_size = (\<lambda>_. Some 4096), h_fs_set2 = 0, h_fs_read = (\<lambda>_. Some 4096),
     h_fdt_check = 0, h_fdt_totalsize = 4096, h_bootm_returns = False\<rparr>"

lemma working_checks: "boot_checks b (working_hw b) = ([Set_verify, Wdt_start (wdt_ms b)], None)"
  by (cases "entry b")
     (simp_all add: boot_checks_def working_hw_def entry_refused_def valid_layout_def)

lemma working_layout: "valid_layout b (h_disk (working_hw b))"
  by (simp add: valid_layout_def working_hw_def)

lemma working_healthy: "healthy b (working_hw b)"
  by (simp add: healthy_def working_checks reads_full_def io_good_def)
     (simp add: working_hw_def working_io_def)

lemma sample_image:
  "records_image reference_uboot f sample_records =
   Some (env_image reference_uboot f (records_text sample_records))"
  by (simp add: records_image_def mica_boot_render_wf sample_records_wf)

lemma sample_regions_current:
  "env_current reference_uboot sample_regions = Some (0, sample_records)" "length sample_regions = 2"
proof -
  let ?p = "\<lambda>f. env_image reference_uboot f (records_text sample_records)"
  have p: "valid_environment reference_uboot (?p f) \<and> ?p f ! 4 = f \<and>
      decode_environment (?p f) = Some sample_records" for f
    by (rule reference.env_store.image_sound [OF sample_records_wf sample_image])
  show "env_current reference_uboot sample_regions = Some (0, sample_records)"
    by (simp add: env_current_def store_current_def sample_regions_def mica_boot_slot_def p)
  show "length sample_regions = 2" by (simp add: sample_regions_def)
qed

lemma launched_logged:
  "mica_file_boot b lib hw regions = (log, Launched i, regions') \<Longrightarrow>
   \<exists>path. Boot_fit (fit_address b) path \<in> set log"
  by (auto simp: mica_file_boot_def boot_selected_def boot_failed_def Let_def
      split: option.splits if_splits prod.splits)

lemma sample_boot_launches:
  "\<exists>log regions'. mica_file_boot s905x5m reference_uboot (working_hw s905x5m) sample_regions =
     (log, Launched (replicate 64 97), regions')"
proof -
  have i: "image_starts (working_hw s905x5m) sample_records = True"
    by (simp add: image_starts_def sample_records_def fit_loaded_def working_hw_def MICA_FIT_LIMIT_def)
  have f: "fst (boot_spec True sample_records) = Launched (replicate 64 97)"
    by (simp add: boot_spec_def sample_records_def)
  show ?thesis
    using reference.boot_refines [OF sample_regions_current working_healthy [of s905x5m]]
    unfolding i f by blast
qed

section \<open>Properties\<close>

text \<open>
  C2: A deployment is launched only after its attempt is accounted for: when a boot
  launches \<open>i\<close>, then \<open>i\<close> is the identifier of the entry that \<open>mica_boot_next\<close> selects from
  the records read, and if that entry had attempts left, the medium already holds the
  records with one attempt less, in the copy that was not the current one; if the entry is
  a confirmed one, the medium is untouched.
\<close>

theorem launch_after_persist:
  assumes "uboot_library lib" and "mica_file_boot b lib hw regions = (log, Launched i, regions')"
    and "length regions = 2" "length (h_reads hw) = 2"
  shows "\<exists>s copies rs n.
     read_environment lib (h_reads hw) regions = Some (s, copies, rs) \<and>
     mica_boot_next rs = Some n \<and> i = rid (rs ! n) \<and>
     (if 0 < tries (rs ! n) then env_current lib regions' = Some (1 - s, attempt_used rs n)
      else regions' = regions)"
  by (rule uboot_library.launched_boot [OF assms])

lemma length_working_reads: "length (h_reads (working_hw b)) = 2"
  by (simp add: working_hw_def)

theorem launch_after_persist_witness:
  "\<exists>log regions' (rs :: mica_boot_records) n.
     mica_file_boot s905x5m reference_uboot (working_hw s905x5m) sample_regions =
       (log, Launched (replicate 64 97), regions') \<and> replicate 64 97 = rid (rs ! n)"
proof -
  obtain log regions' where m: "mica_file_boot s905x5m reference_uboot (working_hw s905x5m)
      sample_regions = (log, Launched (replicate 64 97), regions')"
    using sample_boot_launches by blast
  from launch_after_persist [OF reference.uboot_library_axioms m sample_regions_current(2)
      length_working_reads]
  obtain rs :: mica_boot_records and n where "replicate 64 97 = rid (rs ! n)" by blast
  with m show ?thesis by blast
qed


definition torn_io :: persist_io where
  "torn_io = \<lparr>io_write = Dwrite_bad False [1, 0, 0, 0, 0], io_flush = 0, io_read = Dread_full\<rparr>"

lemma torn_io_detected: "torn_detected reference_uboot torn_io"
  by (simp add: torn_detected_def torn_io_def valid_environment_def reference_uboot_def
      le32_get_def crc32_bytes_def eval_nat_numeral)


text \<open>
  C3: With drivers that answer, the loader implements its specification \<open>boot_spec\<close> on
  the abstract records: the same outcome, and a medium whose current records are the
  specified ones.
\<close>

theorem boot_implements_spec:
  assumes "uboot_library lib" and "env_current lib regions = Some (s, rs)" "length regions = 2"
    and "healthy b hw"
  shows "\<exists>log s' regions'. mica_file_boot b lib hw regions =
      (log, fst (boot_spec (image_starts hw rs) rs), regions') \<and>
    env_current lib regions' = Some (s', snd (boot_spec (image_starts hw rs) rs)) \<and> length regions' = 2"
  by (rule uboot_library.boot_refines [OF assms])

theorem boot_implements_spec_witness:
  "\<exists>log s' regions'. mica_file_boot cx3576 reference_uboot (working_hw cx3576) sample_regions =
      (log, fst (boot_spec (image_starts (working_hw cx3576) sample_records) sample_records), regions') \<and>
    env_current reference_uboot regions' =
      Some (s', snd (boot_spec (image_starts (working_hw cx3576) sample_records) sample_records))"
  using boot_implements_spec [OF reference.uboot_library_axioms sample_regions_current working_healthy]
  by blast



lemma boot_checks_passed:
  "boot_checks b hw = (log, None) \<Longrightarrow>
   log = [Set_verify, Wdt_start (wdt_ms b)] \<and> h_env_set hw = 0 \<and> entry_refused b hw = None \<and>
   valid_layout b (h_disk hw)"
  by (auto simp: boot_checks_def split: if_splits option.splits)

lemma boot_failed_log:
  "boot_failed b lib hw log regions copies slot rs n = (log', out, regions') \<Longrightarrow>
   \<exists>acts. log' = log @ acts \<and> (\<forall>a path. Boot_fit a path \<notin> set acts)"
  by (auto simp: boot_failed_def split: if_splits prod.splits)

lemma boot_selected_log:
  assumes "boot_selected b lib hw log regions copies slot rs n = (log', out, regions')"
  shows "\<exists>acts. log' = log @ acts \<and> (Boot_fit a path \<in> set acts \<longrightarrow>
    a = fit_address b \<and> fit_loaded hw path \<and> (\<exists>k. path = boot_image_path k))"
  using assms boot_failed_log
  by (fastforce simp: boot_selected_def Let_def split: if_splits)



text \<open>
  C32: On both boards, on any disk whose layout is accepted, the block ranges of the two
  environment copies lie inside the firmware partition, do not overlap each other, and end
  in front of the system and data partitions.
\<close>

theorem environment_in_firmware_partition:
  assumes "b \<in> {s905x5m, cx3576}" and "valid_layout b disk" and "i < 2"
  shows "\<exists>part. part_info disk 1 = Some part \<and> pname part = ascii ''firmware'' \<and>
    start part \<le> env_blocks b ! i \<and>
    env_blocks b ! i + MICA_ENV_SIZE div blksz disk \<le> start part + psize part \<and>
    (env_blocks b ! i + MICA_ENV_SIZE div blksz disk \<le> env_blocks b ! (1 - i) \<or>
     env_blocks b ! (1 - i) + MICA_ENV_SIZE div blksz disk \<le> env_blocks b ! i) \<and>
    (\<forall>j\<in>{2, 3}. \<exists>q. part_info disk j = Some q \<and>
      env_blocks b ! i + MICA_ENV_SIZE div blksz disk \<le> start q)"
proof -
  have l: "list_all (\<lambda>i. case part_info disk (i + 1) of None \<Rightarrow> False
      | Some part \<Rightarrow> start part = part_starts b ! i \<and>
          pname part = [ascii ''firmware'', ascii ''system'', ascii ''data''] ! i \<and>
          (if i = 2 then part_sizes b ! i \<le> psize part else psize part = part_sizes b ! i)) [0, 1, 2]"
    "blksz disk = 512"
    using assms(2) by (simp_all add: valid_layout_def)
  obtain p q r where p: "part_info disk 1 = Some p" "start p = part_starts b ! 0"
      "psize p = part_sizes b ! 0" "pname p = ascii ''firmware''"
    and q: "part_info disk 2 = Some q" "start q = part_starts b ! 1"
    and r: "part_info disk 3 = Some r" "start r = part_starts b ! 2"
    using l(1) by (auto simp: numeral_2_eq_2 numeral_3_eq_3 split: option.splits)
  have "i = 0 \<or> i = 1" using assms(3) by auto
  then show ?thesis
    using assms(1) l(2) by (auto simp: p p(1) [simplified] q r s905x5m_def cx3576_def MICA_ENV_SIZE_def)
qed

theorem environment_in_firmware_partition_witness:
  "\<exists>part. part_info (h_disk (working_hw cx3576)) 1 = Some part \<and> start part \<le> env_blocks cx3576 ! 1"
  using environment_in_firmware_partition [of cx3576 "h_disk (working_hw cx3576)" 1] working_layout
  by auto

end
