(* ===== verification/HT1628.thy ===== *)
theory HT1628
  imports Interfaces
begin

text \<open>
  The front-panel driver \<^verbatim>\<open>boards/s905x5m/kernel/front-panel/skykirin_ht1628.c\<close>.

  The driver's state is the record \<open>ht1628_panel\<close>; what an operation does to the three
  GPIO lines is a list of events in their order, delays included. Every operation runs
  under the panel's mutex, so operations are sequential and each is one function from the
  panel to its result, the panel after it and its events. \<open>map_to_seg7\<close>, \<open>kstrtou8\<close> and
  \<open>kstrtobool\<close> are the kernel's: they are the fields of a \<open>kernel_lib\<close> record.

  The second half is the specification: what the receiving end of the three wires sees
  (\<open>bus_step\<close>: a byte per eight rising clock edges, a frame per strobe) and what the
  display holds after the frames (\<open>display_frame\<close>). The properties relate the cached
  panel to that display.
\<close>

section \<open>Lines and events\<close>

datatype line = Chip_select | Clock | Data

datatype gpio = Set line bool | Udelay nat

record kernel_lib =
  map_to_seg7 :: "u8 \<Rightarrow> int"
  kstrtou8 :: "bytes \<Rightarrow> int + u8"
  kstrtobool :: "bytes \<Rightarrow> int + bool"

definition HT1628_DELAY_US :: nat where "HT1628_DELAY_US = 10"
definition HT1628_SYMBOL_ADDR :: u8 where "HT1628_SYMBOL_ADDR = 0xc8"
definition HT1628_CMD_MODE_7X10 :: u8 where "HT1628_CMD_MODE_7X10 = 0x03"
definition HT1628_CMD_DATA_AUTO :: u8 where "HT1628_CMD_DATA_AUTO = 0x40"
definition HT1628_CMD_DATA_FIXED :: u8 where "HT1628_CMD_DATA_FIXED = 0x44"
definition HT1628_CMD_DISPLAY :: u8 where "HT1628_CMD_DISPLAY = 0x80"
definition HT1628_DISPLAY_ON :: u8 where "HT1628_DISPLAY_ON = 0x08"

abbreviation (input) HT1628_NUM_DIGITS :: nat where "HT1628_NUM_DIGITS \<equiv> 4"
abbreviation (input) HT1628_RAM_BYTES :: nat where "HT1628_RAM_BYTES \<equiv> 16"

definition ht1628_digit_addr :: "u8 list" where
  "ht1628_digit_addr = [0xc0, 0xc2, 0xc4, 0xc6]"

record ht1628_panel =
  shown :: bytes
  digits :: bytes
  symbols :: u8
  brightness :: u8
  enabled :: bool

section \<open>The transfers\<close>

text \<open>The bit loop of \<open>ht1628_send_byte\<close>; \<open>n\<close> is the number of bits left.\<close>

primrec ht1628_send_bits :: "nat \<Rightarrow> u8 \<Rightarrow> gpio list" where
  "ht1628_send_bits 0 value = []"
| "ht1628_send_bits (Suc n) value =
     [Udelay HT1628_DELAY_US, Set Clock False, Set Data (value AND 1 \<noteq> 0),
      Udelay HT1628_DELAY_US, Set Clock True] @ ht1628_send_bits n (drop_bit 1 value)"

definition ht1628_send_byte :: "u8 \<Rightarrow> gpio list" where
  "ht1628_send_byte value = ht1628_send_bits 8 value @ [Udelay HT1628_DELAY_US]"

definition ht1628_transaction :: "u8 \<Rightarrow> bytes \<Rightarrow> gpio list" where
  "ht1628_transaction command data =
     [Set Chip_select True, Udelay HT1628_DELAY_US, Set Chip_select False] @
     ht1628_send_byte command @ concat (map ht1628_send_byte data) @ [Set Chip_select True]"

definition ht1628_write_control :: "ht1628_panel \<Rightarrow> bool \<Rightarrow> gpio list" where
  "ht1628_write_control panel on =
     (let command = HT1628_CMD_DISPLAY OR brightness panel;
          command = (if on then command OR HT1628_DISPLAY_ON else command)
      in ht1628_transaction command [])"

definition ht1628_write_digits :: "ht1628_panel \<Rightarrow> gpio list" where
  "ht1628_write_digits panel =
     concat (map (\<lambda>i. ht1628_transaction (ht1628_digit_addr ! i) [digits panel ! i])
       [0..<HT1628_NUM_DIGITS])"

definition ht1628_write_symbols :: "ht1628_panel \<Rightarrow> gpio list" where
  "ht1628_write_symbols panel = ht1628_transaction HT1628_SYMBOL_ADDR [symbols panel]"

definition ht1628_restore :: "ht1628_panel \<Rightarrow> gpio list" where
  "ht1628_restore panel =
     ht1628_transaction HT1628_CMD_MODE_7X10 [] @
     ht1628_transaction HT1628_CMD_DATA_AUTO [] @
     ht1628_transaction (ht1628_digit_addr ! 0) (replicate HT1628_RAM_BYTES 0) @
     ht1628_transaction HT1628_CMD_DATA_FIXED [] @
     ht1628_write_digits panel @ ht1628_write_symbols panel @
     ht1628_write_control panel (enabled panel)"

section \<open>The sysfs files\<close>

text \<open>A store returns the number of bytes taken (\<open>Inr\<close>) or a negative errno (\<open>Inl\<close>).\<close>

type_synonym store_result = "(int + nat) \<times> ht1628_panel \<times> gpio list"

text \<open>The character loop of \<open>text_store\<close>: the segment patterns of the characters.\<close>

fun text_segments :: "kernel_lib \<Rightarrow> bytes \<Rightarrow> int + bytes" where
  "text_segments lib [] = Inr []"
| "text_segments lib (c # cs) =
     (if c < 0x20 \<or> c > 0x7e then Inl (- EINVAL)
      else let mapped = map_to_seg7 lib c in
        if mapped < 0 then Inl mapped
        else case text_segments lib cs of
               Inl e \<Rightarrow> Inl e
             | Inr ds \<Rightarrow> Inr (word_of_int mapped # ds))"

definition padded :: "u8 \<Rightarrow> bytes \<Rightarrow> bytes" where
  "padded c s = s @ replicate (HT1628_NUM_DIGITS - length s) c"

definition text_store :: "kernel_lib \<Rightarrow> ht1628_panel \<Rightarrow> bytes \<Rightarrow> store_result" where
  "text_store lib panel buf =
     (let len = (if buf \<noteq> [] \<and> last buf = 10 then length buf - 1 else length buf) in
      if len > HT1628_NUM_DIGITS then (Inl (- E2BIG), panel, [])
      else case text_segments lib (take len buf) of
        Inl e \<Rightarrow> (Inl e, panel, [])
      | Inr ds \<Rightarrow>
          (let panel = panel\<lparr>shown := padded 32 (take len buf), digits := padded 0 ds\<rparr>
           in (Inr (length buf), panel, ht1628_write_digits panel)))"

definition symbols_store :: "kernel_lib \<Rightarrow> ht1628_panel \<Rightarrow> bytes \<Rightarrow> store_result" where
  "symbols_store lib panel buf =
     (case kstrtou8 lib buf of
        Inl e \<Rightarrow> (Inl e, panel, [])
      | Inr v \<Rightarrow>
          (let panel = panel\<lparr>symbols := v\<rparr>
           in (Inr (length buf), panel, ht1628_write_symbols panel)))"

definition brightness_store :: "kernel_lib \<Rightarrow> ht1628_panel \<Rightarrow> bytes \<Rightarrow> store_result" where
  "brightness_store lib panel buf =
     (case kstrtou8 lib buf of
        Inl e \<Rightarrow> (Inl e, panel, [])
      | Inr v \<Rightarrow>
          (if v > 7 then (Inl (- ERANGE), panel, [])
           else let panel = panel\<lparr>brightness := v\<rparr>
             in (Inr (length buf), panel, ht1628_write_control panel (enabled panel))))"

definition enabled_store :: "kernel_lib \<Rightarrow> ht1628_panel \<Rightarrow> bytes \<Rightarrow> store_result" where
  "enabled_store lib panel buf =
     (case kstrtobool lib buf of
        Inl e \<Rightarrow> (Inl e, panel, [])
      | Inr v \<Rightarrow>
          (let panel = panel\<lparr>enabled := v\<rparr>
           in (Inr (length buf), panel, ht1628_write_control panel v)))"

definition hex_digit :: "nat \<Rightarrow> u8" where
  "hex_digit n = (if n < 10 then 48 + of_nat n else 87 + of_nat n)"

definition text_show :: "ht1628_panel \<Rightarrow> bytes" where
  "text_show panel = map ((!) (shown panel)) [0..<HT1628_NUM_DIGITS] @ [10]"

definition symbols_show :: "ht1628_panel \<Rightarrow> bytes" where
  "symbols_show panel =
     ascii ''0x'' @ [hex_digit (unat (symbols panel) div 16), hex_digit (unat (symbols panel) mod 16), 10]"

definition brightness_show :: "ht1628_panel \<Rightarrow> bytes" where
  "brightness_show panel = decimal (unat (brightness panel)) @ [10]"

definition enabled_show :: "ht1628_panel \<Rightarrow> bytes" where
  "enabled_show panel = decimal (if enabled panel then 1 else 0) @ [10]"

section \<open>The life cycle\<close>

text \<open>
  What the kernel answers to the probe: the allocation, the three GPIO requests (0 or a
  negative errno; each line starts high) and the registration of the sysfs group.
\<close>

record probe_answers =
  a_alloc :: bool
  a_cs :: int
  a_clock :: int
  a_data :: int
  a_group :: int

definition probed_panel :: ht1628_panel where
  "probed_panel = \<lparr>shown = replicate HT1628_NUM_DIGITS 32, digits = replicate HT1628_NUM_DIGITS 0,
     symbols = 0, brightness = 7, enabled = True\<rparr>"

definition ht1628_probe :: "probe_answers \<Rightarrow> (int + ht1628_panel) \<times> gpio list" where
  "ht1628_probe a =
     (if \<not> a_alloc a then (Inl (- ENOMEM), [])
      else if a_cs a \<noteq> 0 then (Inl (a_cs a), [])
      else if a_clock a \<noteq> 0 then (Inl (a_clock a), [Set Chip_select True])
      else if a_data a \<noteq> 0 then (Inl (a_data a), [Set Chip_select True, Set Clock True])
      else
        let claimed = [Set Chip_select True, Set Clock True, Set Data True];
            restored = claimed @ ht1628_restore probed_panel
        in if a_group a \<noteq> 0 then
             (Inl (a_group a), restored @ ht1628_write_control probed_panel False)
           else (Inr probed_panel, restored))"

definition ht1628_remove :: "ht1628_panel \<Rightarrow> gpio list" where
  "ht1628_remove panel = ht1628_write_control panel False"

definition ht1628_shutdown :: "ht1628_panel \<Rightarrow> gpio list" where
  "ht1628_shutdown panel = ht1628_remove panel"

definition ht1628_suspend :: "ht1628_panel \<Rightarrow> gpio list" where
  "ht1628_suspend panel = ht1628_write_control panel False"

definition ht1628_resume :: "ht1628_panel \<Rightarrow> gpio list" where
  "ht1628_resume panel = ht1628_restore panel"


section \<open>The receiving end\<close>

text \<open>
  The controller samples the data line on a rising clock edge while its strobe is low,
  least significant bit first; the falling strobe starts a frame, the rising one ends it.
\<close>

record bus =
  strobe :: bool
  clk :: bool
  dat :: bool
  got :: "bool list"
  frame :: bytes
  frames :: "bytes list"

definition bus_bit :: "bool \<Rightarrow> bus \<Rightarrow> bus" where
  "bus_bit v b =
     (let got' = got b @ [v] in
      if length got' = 8 then b\<lparr>got := [], frame := frame b @ [horner_sum of_bool 2 got']\<rparr>
      else b\<lparr>got := got'\<rparr>)"

fun bus_step :: "gpio \<Rightarrow> bus \<Rightarrow> bus" where
  "bus_step (Udelay _) b = b"
| "bus_step (Set Data v) b = b\<lparr>dat := v\<rparr>"
| "bus_step (Set Clock v) b =
     (let b' = b\<lparr>clk := v\<rparr> in if v \<and> \<not> clk b \<and> \<not> strobe b then bus_bit (dat b) b' else b')"
| "bus_step (Set Chip_select v) b =
     b\<lparr>strobe := v, got := [], frame := [],
        frames := (if v \<and> \<not> strobe b \<and> frame b \<noteq> [] then frames b @ [frame b] else frames b)\<rparr>"

abbreviation bus_run :: "gpio list \<Rightarrow> bus \<Rightarrow> bus" where
  "bus_run \<equiv> fold bus_step"

definition bus_idle :: "bus \<Rightarrow> bool" where
  "bus_idle b \<longleftrightarrow> strobe b \<and> got b = [] \<and> frame b = []"

text \<open>A bus on which no frame has begun, the state the driver finds.\<close>

definition bus_quiet :: "bus \<Rightarrow> bool" where
  "bus_quiet b \<longleftrightarrow> got b = [] \<and> frame b = []"

lemma bus_run_bits:
  assumes "\<not> strobe b" "length (got b) + n = 8" "0 < n"
  shows "\<exists>d. bus_run (ht1628_send_bits n v) b =
    b\<lparr>clk := True, dat := d, got := [],
       frame := frame b @ [horner_sum of_bool 2 (got b @ map (bit v) [0..<n])]\<rparr>"
  using assms
proof (induction n arbitrary: b v)
  case (Suc n)
  have b0: "(v AND 1 \<noteq> 0) = bit v 0" by (simp add: and_one_eq bit_0 odd_iff_mod_2_eq_one)
  let ?b = "b\<lparr>clk := True, dat := bit v 0, got := got b @ [bit v 0]\<rparr>"
  have m: "map (bit v) [0..<Suc n] = bit v 0 # map (bit (drop_bit 1 v)) [0..<n]"
    by (simp only: map_upt_Suc) (simp add: bit_drop_bit_eq)
  show ?case
  proof (cases n)
    case 0
    then show ?thesis
      using Suc.prems by (intro exI [of _ "bit v 0"], cases b) (simp add: b0 bus_bit_def Let_def)
  next
    case (Suc k)
    then have "length (got b) + 1 \<noteq> 8" using Suc.prems by simp
    then have one: "bus_run (ht1628_send_bits (Suc n) v) b = bus_run (ht1628_send_bits n (drop_bit 1 v)) ?b"
      using Suc.prems(1) by (cases b) (simp add: b0 bus_bit_def Let_def)
    have "\<exists>d. bus_run (ht1628_send_bits n (drop_bit 1 v)) ?b =
        ?b\<lparr>clk := True, dat := d, got := [],
           frame := frame ?b @ [horner_sum of_bool 2 (got ?b @ map (bit (drop_bit 1 v)) [0..<n])]\<rparr>"
      by (rule Suc.IH) (use Suc Suc.prems in simp_all)
    then show ?thesis by (simp only: one m) simp
  qed
qed simp

lemma byte_of_bits: "horner_sum of_bool 2 (map (bit v) [0..<8]) = (v :: u8)"
  by (rule bit_word_eqI) (auto simp: bit_horner_sum_bit_word_iff)

lemma bus_run_byte:
  assumes "\<not> strobe b" "got b = []"
  shows "\<exists>d. bus_run (ht1628_send_byte v) b = b\<lparr>clk := True, dat := d, frame := frame b @ [v]\<rparr>"
proof -
  obtain d where "bus_run (ht1628_send_bits 8 v) b = b\<lparr>clk := True, dat := d, got := [],
      frame := frame b @ [horner_sum of_bool 2 (got b @ map (bit v) [0..<8])]\<rparr>"
    using bus_run_bits [of b 8 v] assms by auto
  then show ?thesis
    using assms(2) by (intro exI [of _ d]) (simp add: ht1628_send_byte_def byte_of_bits)
qed

lemma bus_run_bytes:
  assumes "\<not> strobe b" "got b = []"
  shows "\<exists>c d. bus_run (concat (map ht1628_send_byte vs)) b = b\<lparr>clk := c, dat := d, frame := frame b @ vs\<rparr>"
  using assms
proof (induction vs arbitrary: b)
  case Nil
  then show ?case by (intro exI [of _ "clk b"] exI [of _ "dat b"]) simp
next
  case (Cons v vs)
  obtain d where v: "bus_run (ht1628_send_byte v) b = b\<lparr>clk := True, dat := d, frame := frame b @ [v]\<rparr>"
    using bus_run_byte [OF Cons.prems] by blast
  let ?b = "b\<lparr>clk := True, dat := d, frame := frame b @ [v]\<rparr>"
  obtain c d' where "bus_run (concat (map ht1628_send_byte vs)) ?b =
      ?b\<lparr>clk := c, dat := d', frame := frame ?b @ vs\<rparr>"
    using Cons.IH [of ?b] Cons.prems by auto
  then show ?case by (intro exI [of _ c] exI [of _ d']) (simp add: v)
qed

lemma bus_run_transaction:
  assumes "bus_idle b"
  shows "bus_idle (bus_run (ht1628_transaction c vs) b) \<and>
    frames (bus_run (ht1628_transaction c vs) b) = frames b @ [c # vs]"
proof -
  let ?b = "b\<lparr>strobe := False\<rparr>"
  have t: "ht1628_transaction c vs = [Set Chip_select True, Udelay HT1628_DELAY_US, Set Chip_select False] @
      concat (map ht1628_send_byte (c # vs)) @ [Set Chip_select True]"
    by (simp add: ht1628_transaction_def)
  have i: "bus_run [Set Chip_select True, Udelay HT1628_DELAY_US, Set Chip_select False] b = ?b"
    using assms by (simp add: bus_idle_def)
  obtain ck d where "bus_run (concat (map ht1628_send_byte (c # vs))) ?b =
      ?b\<lparr>clk := ck, dat := d, frame := frame ?b @ c # vs\<rparr>"
    using bus_run_bytes [of ?b "c # vs"] assms by (auto simp: bus_idle_def)
  then have "bus_run (ht1628_transaction c vs) b =
      bus_step (Set Chip_select True) (?b\<lparr>clk := ck, dat := d, frame := frame ?b @ c # vs\<rparr>)"
    unfolding t fold_append comp_apply i by simp
  then show ?thesis using assms by (simp add: bus_idle_def)
qed

definition send_frame :: "bytes \<Rightarrow> gpio list" where
  "send_frame f = ht1628_transaction (hd f) (tl f)"

lemma transaction_send_frame: "ht1628_transaction c vs = send_frame (c # vs)"
  by (simp add: send_frame_def)

interpretation panel_link: framed_link bus_step bus_idle frames send_frame
  by unfold_locales (simp_all add: send_frame_def bus_run_transaction)

section \<open>The display\<close>

text \<open>
  What a frame does: the two top bits of its first byte select the display mode, the
  addressing of data, the display control, or a write to the display RAM.
\<close>

record display =
  mode :: u8
  auto_increment :: bool
  control :: u8
  ram :: bytes

fun ram_write :: "bool \<Rightarrow> nat \<Rightarrow> bytes \<Rightarrow> bytes \<Rightarrow> bytes" where
  "ram_write auto a [] m = m"
| "ram_write auto a (v # vs) m = ram_write auto (if auto then a + 1 else a) vs (m[a := v])"

definition display_frame :: "bytes \<Rightarrow> display \<Rightarrow> display" where
  "display_frame f d =
     (let c = hd f; kind = unat (drop_bit 6 c) in
      if kind = 0 then d\<lparr>mode := c\<rparr>
      else if kind = 1 then d\<lparr>auto_increment := (c AND 4 = 0)\<rparr>
      else if kind = 2 then d\<lparr>control := c\<rparr>
      else d\<lparr>ram := ram_write (auto_increment d) (unat (c AND 0x3f)) (tl f) (ram d)\<rparr>)"

definition idle_bus :: bus where
  "idle_bus = \<lparr>strobe = True, clk = True, dat = True, got = [], frame = [], frames = []\<rparr>"

definition display_after :: "gpio list \<Rightarrow> display \<Rightarrow> display" where
  "display_after evs d = fold display_frame (frames (bus_run evs idle_bus)) d"

text \<open>The display shows the panel's cached state; \<open>on\<close> is the display-on bit.\<close>

definition panel_ram :: "ht1628_panel \<Rightarrow> bytes" where
  "panel_ram p = [digits p ! 0, 0, digits p ! 1, 0, digits p ! 2, 0, digits p ! 3, 0, symbols p] @
     replicate 7 0"

definition control_byte :: "ht1628_panel \<Rightarrow> bool \<Rightarrow> u8" where
  "control_byte p on = (0x80 OR brightness p) OR (if on then 8 else 0)"

definition mirrors :: "ht1628_panel \<Rightarrow> bool \<Rightarrow> display \<Rightarrow> bool" where
  "mirrors p on d \<longleftrightarrow>
     mode d = 3 \<and> \<not> auto_increment d \<and> ram d = panel_ram p \<and> control d = control_byte p on"

definition wf_panel :: "ht1628_panel \<Rightarrow> bool" where
  "wf_panel p \<longleftrightarrow> length (shown p) = 4 \<and> list_all (\<lambda>c. 0x20 \<le> c \<and> c \<le> 0x7e) (shown p) \<and>
     length (digits p) = 4 \<and> brightness p \<le> 7"

text \<open>The frames each operation sends.\<close>

lemma frames_of_idle:
  assumes "[] \<notin> set fs"
  shows "frames (bus_run (concat (map send_frame fs)) idle_bus) = fs"
  using panel_link.send_all [OF _ assms, of idle_bus] by (simp add: idle_bus_def bus_idle_def)

lemma display_after_frames:
  "[] \<notin> set fs \<Longrightarrow> display_after (concat (map send_frame fs)) d = fold display_frame fs d"
  by (simp add: display_after_def frames_of_idle)

definition digit_frames :: "ht1628_panel \<Rightarrow> bytes list" where
  "digit_frames p = [[0xc0, digits p ! 0], [0xc2, digits p ! 1], [0xc4, digits p ! 2], [0xc6, digits p ! 3]]"

definition restore_frames :: "ht1628_panel \<Rightarrow> bytes list" where
  "restore_frames p = [[3], [0x40], 0xc0 # replicate 16 0, [0x44]] @ digit_frames p @
     [[0xc8, symbols p], [control_byte p (enabled p)]]"

lemma write_control_frames:
  "ht1628_write_control p on = concat (map send_frame [[control_byte p on]])"
  by (simp add: ht1628_write_control_def transaction_send_frame control_byte_def
      HT1628_CMD_DISPLAY_def HT1628_DISPLAY_ON_def Let_def)

lemma write_symbols_frames:
  "ht1628_write_symbols p = concat (map send_frame [[0xc8, symbols p]])"
  by (simp add: ht1628_write_symbols_def transaction_send_frame HT1628_SYMBOL_ADDR_def)

lemma write_digits_frames:
  "ht1628_write_digits p = concat (map send_frame (digit_frames p))"
  by (simp add: ht1628_write_digits_def transaction_send_frame digit_frames_def
      ht1628_digit_addr_def eval_nat_numeral)

lemma restore_frames_eq:
  "ht1628_restore p = concat (map send_frame (restore_frames p))"
  by (simp add: ht1628_restore_def restore_frames_def transaction_send_frame write_control_frames
      write_symbols_frames write_digits_frames HT1628_CMD_MODE_7X10_def HT1628_CMD_DATA_AUTO_def
      HT1628_CMD_DATA_FIXED_def ht1628_digit_addr_def)


lemma word_le_7_cases:
  assumes "(v :: u8) \<le> 7"
  shows "v \<in> {0, 1, 2, 3, 4, 5, 6, 7}"
proof -
  have "unat v \<le> 7" using assms by (simp add: word_le_nat_alt)
  then have "unat v \<in> {0, 1, 2, 3, 4, 5, 6, 7}" by auto
  then show ?thesis by (auto simp: word_unat_eq_iff)
qed

lemma display_control:
  assumes "brightness p \<le> 7"
  shows "display_frame [control_byte p on] d = d\<lparr>control := control_byte p on\<rparr>"
proof -
  have "unat (drop_bit 6 (control_byte p on)) = 2"
    using word_le_7_cases [OF assms] by (cases on) (auto simp: control_byte_def)
  then show ?thesis by (simp add: display_frame_def)
qed

lemma display_digits:
  assumes "\<not> auto_increment d" "ram d = panel_ram q" "symbols q = symbols p"
  shows "fold display_frame (digit_frames p) d = d\<lparr>ram := panel_ram p\<rparr>"
  using assms by (simp add: digit_frames_def display_frame_def panel_ram_def)

lemma display_symbols:
  assumes "\<not> auto_increment d" "ram d = panel_ram q" "digits q = digits p"
  shows "display_frame [0xc8, symbols p] d = d\<lparr>ram := panel_ram p\<rparr>"
  using assms by (simp add: display_frame_def panel_ram_def)

lemma ram_write_all: "length m = n \<Longrightarrow> length vs = n \<Longrightarrow> ram_write True 0 vs m = vs"
proof -
  have "length m = k + length vs \<Longrightarrow> ram_write True k vs m = take k m @ vs" for k vs
    by (induction vs arbitrary: k m) (simp_all add: take_Suc_conv_app_nth)
  from this [of 0] show "length m = n \<Longrightarrow> length vs = n \<Longrightarrow> ram_write True 0 vs m = vs" by simp
qed

lemma display_restore:
  assumes "brightness p \<le> 7" "length (ram d) = 16"
  shows "mirrors p (enabled p) (fold display_frame (restore_frames p) d)"
proof -
  let ?z = "probed_panel\<lparr>symbols := 0\<rparr>"
  have z: "panel_ram probed_panel = replicate 16 0"
    by (simp add: panel_ram_def probed_panel_def eval_nat_numeral)
  define d1 where "d1 = \<lparr>mode = 3, auto_increment = False, control = control d, ram = panel_ram probed_panel\<rparr>"
  have d1: "fold display_frame [[3], [0x40], 0xc0 # replicate 16 0, [0x44]] d = d1"
    using assms(2) by (simp add: display_frame_def d1_def ram_write_all z)
  define q where "q = p\<lparr>symbols := 0\<rparr>"
  have "digit_frames p = digit_frames q" by (simp add: digit_frames_def q_def)
  then have d2: "fold display_frame (digit_frames p) d1 = d1\<lparr>ram := panel_ram q\<rparr>"
    using display_digits [of d1 probed_panel q] by (simp add: d1_def q_def probed_panel_def)
  have d3: "display_frame [0xc8, symbols p] (d1\<lparr>ram := panel_ram q\<rparr>) = d1\<lparr>ram := panel_ram p\<rparr>"
    by (subst display_symbols [of _ q]) (simp_all add: d1_def q_def)
  show ?thesis
    unfolding restore_frames_def fold_append comp_apply d1 d2
    by (simp add: d3 display_control [OF assms(1)] del: fold_append)
       (simp add: mirrors_def d1_def)
qed


section \<open>The panel and its display over time\<close>

text \<open>
  The states of a bound driver: the cached panel, the display, and whether the system is
  awake. While it sleeps the controller may lose everything it held.
\<close>

type_synonym panel_state = "ht1628_panel \<times> display \<times> bool"

inductive panel_reach :: "kernel_lib \<Rightarrow> probe_answers \<Rightarrow> display \<Rightarrow> panel_state \<Rightarrow> bool"
  for lib :: kernel_lib and a :: probe_answers and d0 :: display where
  probed: "ht1628_probe a = (Inr p, evs) \<Longrightarrow> panel_reach lib a d0 (p, display_after evs d0, True)"
| text_written: "panel_reach lib a d0 (p, d, True) \<Longrightarrow> text_store lib p buf = (r, p', evs) \<Longrightarrow>
    panel_reach lib a d0 (p', display_after evs d, True)"
| symbols_written: "panel_reach lib a d0 (p, d, True) \<Longrightarrow> symbols_store lib p buf = (r, p', evs) \<Longrightarrow>
    panel_reach lib a d0 (p', display_after evs d, True)"
| brightness_written: "panel_reach lib a d0 (p, d, True) \<Longrightarrow> brightness_store lib p buf = (r, p', evs) \<Longrightarrow>
    panel_reach lib a d0 (p', display_after evs d, True)"
| enabled_written: "panel_reach lib a d0 (p, d, True) \<Longrightarrow> enabled_store lib p buf = (r, p', evs) \<Longrightarrow>
    panel_reach lib a d0 (p', display_after evs d, True)"
| suspended: "panel_reach lib a d0 (p, d, True) \<Longrightarrow>
    panel_reach lib a d0 (p, display_after (ht1628_suspend p) d, False)"
| forgotten: "panel_reach lib a d0 (p, d, False) \<Longrightarrow> length (ram d') = 16 \<Longrightarrow>
    panel_reach lib a d0 (p, d', False)"
| resumed: "panel_reach lib a d0 (p, d, False) \<Longrightarrow>
    panel_reach lib a d0 (p, display_after (ht1628_resume p) d, True)"

definition segments_match :: "kernel_lib \<Rightarrow> ht1628_panel \<Rightarrow> bool" where
  "segments_match lib p \<longleftrightarrow> digits p = map (\<lambda>c. word_of_int (map_to_seg7 lib c)) (shown p)"

text \<open>What holds of every state.\<close>

definition panel_inv :: "kernel_lib \<Rightarrow> panel_state \<Rightarrow> bool" where
  "panel_inv lib ps \<longleftrightarrow>
     (case ps of (p, d, awake) \<Rightarrow>
        wf_panel p \<and> segments_match lib p \<and> length (ram d) = 16 \<and>
        (awake \<longrightarrow> mirrors p (enabled p) d))"

text \<open>The error of a character; the loop stops at the first character that has one.\<close>

definition char_error :: "kernel_lib \<Rightarrow> u8 \<Rightarrow> int option" where
  "char_error lib c =
     (if c < 0x20 \<or> c > 0x7e then Some (- EINVAL)
      else if map_to_seg7 lib c < 0 then Some (map_to_seg7 lib c) else None)"

lemma text_segments_eq:
  "text_segments lib cs =
   (case find (\<lambda>c. char_error lib c \<noteq> None) cs of
      None \<Rightarrow> Inr (map (\<lambda>c. word_of_int (map_to_seg7 lib c)) cs)
    | Some c \<Rightarrow> Inl (the (char_error lib c)))"
proof (induction cs)
  case (Cons c cs)
  show ?case
  proof (cases "char_error lib c")
    case None
    then show ?thesis using Cons by (auto simp: char_error_def Let_def split: option.splits if_splits)
  next
    case (Some e)
    then show ?thesis by (auto simp: char_error_def Let_def split: if_splits)
  qed
qed simp

lemma text_segments_Inr:
  "text_segments lib cs = Inr ds \<longleftrightarrow>
   (\<forall>c\<in>set cs. char_error lib c = None) \<and> ds = map (\<lambda>c. word_of_int (map_to_seg7 lib c)) cs"
  by (auto simp: text_segments_eq find_None_iff find_Some_iff split: option.splits)

lemma text_segments_Inl:
  "text_segments lib cs = Inl e \<longleftrightarrow>
   (\<exists>c. find (\<lambda>c. char_error lib c \<noteq> None) cs = Some c \<and> char_error lib c = Some e)"
proof -
  have P: "find P cs = Some c \<Longrightarrow> P c" for P c by (auto simp: find_Some_iff)
  show ?thesis
  proof (cases "find (\<lambda>c. char_error lib c \<noteq> None) cs")
    case (Some c)
    from P [OF this] Some show ?thesis by (auto simp: text_segments_eq simp del: not_None_eq)
  qed (simp add: text_segments_eq)
qed

lemma char_error_None: "char_error lib c = None \<Longrightarrow> 0x20 \<le> c \<and> c \<le> 0x7e"
  by (auto simp: char_error_def split: if_splits)

lemma length_padded: "length s \<le> 4 \<Longrightarrow> length (padded c s) = 4"
  by (simp add: padded_def)

lemma text_store_done:
  assumes "text_store lib p buf = (r, p', evs)" "wf_panel p" "segments_match lib p" "map_to_seg7 lib 32 = 0"
  shows "wf_panel p' \<and> segments_match lib p' \<and> symbols p' = symbols p \<and>
    brightness p' = brightness p \<and> enabled p' = enabled p \<and>
    (p' = p \<and> evs = [] \<or> evs = ht1628_write_digits p')"
  using assms
  by (auto simp: text_store_def wf_panel_def segments_match_def padded_def text_segments_Inr
      list_all_iff Let_def dest: char_error_None split: sum.splits if_splits)

lemma display_after_Nil: "display_after [] d = d"
  by (simp add: display_after_def idle_bus_def)

lemma mirrors_length: "mirrors p on d \<Longrightarrow> length (ram d) = 16"
  by (simp add: mirrors_def panel_ram_def)

lemma display_write_digits:
  assumes "mirrors p on d" "symbols p' = symbols p" "brightness p' = brightness p"
  shows "mirrors p' on (display_after (ht1628_write_digits p') d)"
proof -
  have "display_after (ht1628_write_digits p') d = fold display_frame (digit_frames p') d"
    unfolding write_digits_frames by (rule display_after_frames) (simp add: digit_frames_def)
  also have "\<dots> = d\<lparr>ram := panel_ram p'\<rparr>"
    by (rule display_digits [of _ p]) (use assms in \<open>simp_all add: mirrors_def\<close>)
  finally show ?thesis using assms by (simp add: mirrors_def control_byte_def)
qed

lemma display_write_symbols:
  assumes "mirrors p on d" "digits p' = digits p" "brightness p' = brightness p"
  shows "mirrors p' on (display_after (ht1628_write_symbols p') d)"
proof -
  have "display_after (ht1628_write_symbols p') d = fold display_frame [[0xc8, symbols p']] d"
    unfolding write_symbols_frames by (rule display_after_frames) simp
  also have "\<dots> = d\<lparr>ram := panel_ram p'\<rparr>"
    using display_symbols [of d p p'] assms by (simp add: mirrors_def)
  finally show ?thesis using assms by (simp add: mirrors_def control_byte_def)
qed

lemma display_write_control:
  assumes "brightness p' \<le> 7"
  shows "display_after (ht1628_write_control p' on) d = d\<lparr>control := control_byte p' on\<rparr>"
proof -
  have "display_after (ht1628_write_control p' on) d = fold display_frame [[control_byte p' on]] d"
    unfolding write_control_frames by (rule display_after_frames) simp
  then show ?thesis by (simp add: display_control [OF assms])
qed

lemma display_after_restore:
  assumes "brightness p \<le> 7" "length (ram d) = 16"
  shows "mirrors p (enabled p) (display_after (ht1628_restore p) d)"
proof -
  have "display_after (ht1628_restore p) d = fold display_frame (restore_frames p) d"
    unfolding restore_frames_eq
    by (rule display_after_frames) (simp add: restore_frames_def digit_frames_def)
  then show ?thesis using display_restore [OF assms] by simp
qed

text \<open>The events of the GPIO requests start no frame.\<close>

lemma display_after_claimed:
  "display_after ([Set Chip_select True, Set Clock True, Set Data True] @ evs) d = display_after evs d"
  by (simp add: display_after_def idle_bus_def)

lemma segments_probed: "map_to_seg7 lib 32 = 0 \<Longrightarrow> segments_match lib probed_panel"
  by (simp add: segments_match_def probed_panel_def)

lemma wf_probed: "wf_panel probed_panel"
  by (simp add: wf_panel_def probed_panel_def list_all_iff)

lemma ht1628_probe_Inr:
  "ht1628_probe a = (Inr p, evs) \<longleftrightarrow>
   a_alloc a \<and> a_cs a = 0 \<and> a_clock a = 0 \<and> a_data a = 0 \<and> a_group a = 0 \<and> p = probed_panel \<and>
   evs = [Set Chip_select True, Set Clock True, Set Data True] @ ht1628_restore probed_panel"
  by (auto simp: ht1628_probe_def Let_def)

lemma panel_inv_awake:
  "wf_panel p \<and> segments_match lib p \<and> mirrors p (enabled p) d \<Longrightarrow> panel_inv lib (p, d, True)"
  by (auto simp: panel_inv_def dest: mirrors_length)

lemma panel_reach_inv:
  assumes "panel_reach lib a d0 ps" "map_to_seg7 lib 32 = 0" "length (ram d0) = 16"
  shows "panel_inv lib ps"
  using assms(1)
proof induction
  case (probed p evs)
  then have "p = probed_panel" "display_after evs d0 = display_after (ht1628_restore probed_panel) d0"
    by (simp_all only: ht1628_probe_Inr display_after_claimed)
  moreover have "mirrors probed_panel (enabled probed_panel) (display_after (ht1628_restore probed_panel) d0)"
    by (rule display_after_restore) (use wf_probed assms(3) in \<open>simp_all add: wf_panel_def\<close>)
  ultimately show ?case
    using segments_probed [OF assms(2)] wf_probed by (intro panel_inv_awake) simp
next
  case (text_written p d buf r p' evs)
  then have m: "wf_panel p" "segments_match lib p" "mirrors p (enabled p) d"
    by (simp_all add: panel_inv_def)
  note t = text_store_done [OF text_written(2) m(1,2) assms(2)]
  then have "mirrors p' (enabled p') (display_after evs d)"
    using display_write_digits [OF m(3)] m(3) by (auto simp: display_after_Nil)
  with t show ?case by (intro panel_inv_awake) simp
next
  case (symbols_written p d buf r p' evs)
  then have m: "wf_panel p" "segments_match lib p" "mirrors p (enabled p) d"
    by (simp_all add: panel_inv_def)
  have "wf_panel p' \<and> segments_match lib p' \<and> mirrors p' (enabled p') (display_after evs d)"
    using symbols_written(2) m display_write_symbols [OF m(3), of p']
    by (auto simp: symbols_store_def display_after_Nil wf_panel_def segments_match_def Let_def
        split: sum.splits)
  then show ?case by (rule panel_inv_awake)
next
  case (brightness_written p d buf r p' evs)
  then have m: "wf_panel p" "segments_match lib p" "mirrors p (enabled p) d"
    by (simp_all add: panel_inv_def)
  have "wf_panel p' \<and> segments_match lib p' \<and> mirrors p' (enabled p') (display_after evs d)"
    using brightness_written(2) m
    by (auto simp: brightness_store_def display_after_Nil wf_panel_def segments_match_def Let_def
        display_write_control mirrors_def panel_ram_def not_less split: sum.splits if_splits)
  then show ?case by (rule panel_inv_awake)
next
  case (enabled_written p d buf r p' evs)
  then have m: "wf_panel p" "segments_match lib p" "mirrors p (enabled p) d"
    by (simp_all add: panel_inv_def)
  have "wf_panel p' \<and> segments_match lib p' \<and> mirrors p' (enabled p') (display_after evs d)"
    using enabled_written(2) m
    by (auto simp: enabled_store_def display_after_Nil wf_panel_def segments_match_def Let_def
        display_write_control mirrors_def panel_ram_def split: sum.splits)
  then show ?case by (rule panel_inv_awake)
next
  case (suspended p d)
  then show ?case
    by (simp add: panel_inv_def ht1628_suspend_def display_write_control wf_panel_def)
next
  case (forgotten p d d')
  then show ?case by (simp add: panel_inv_def)
next
  case (resumed p d)
  then have "mirrors p (enabled p) (display_after (ht1628_resume p) d)"
    unfolding ht1628_resume_def by (intro display_after_restore) (simp_all add: panel_inv_def wf_panel_def)
  with resumed show ?case by (intro panel_inv_awake) (simp add: panel_inv_def)
qed


section \<open>Properties\<close>

text \<open>
  The bit-banged transfer arrives: driven by the events of any sequence of
  transactions, a receiver that samples the data line on rising clock edges between the
  strobe's edges, least significant bit first, gets exactly their frames, in order, and is
  idle again.
\<close>

theorem transactions_received:
  assumes "bus_idle b"
  shows "bus_idle (bus_run (concat (map (\<lambda>(c, vs). ht1628_transaction c vs) ts)) b) \<and>
    frames (bus_run (concat (map (\<lambda>(c, vs). ht1628_transaction c vs) ts)) b) =
      frames b @ map (\<lambda>(c, vs). c # vs) ts"
proof -
  have e: "map (\<lambda>(c, vs). ht1628_transaction c vs) ts = map send_frame (map (\<lambda>(c, vs). c # vs) ts)"
    by (simp add: transaction_send_frame case_prod_beta)
  have "[] \<notin> set (map (\<lambda>(c, vs). c # vs) ts)" by auto
  from panel_link.send_all [OF assms this] show ?thesis unfolding e .
qed

theorem transactions_received_witness:
  "frames (bus_run (ht1628_transaction 0xc0 [0x5b, 0xff] @ ht1628_transaction 0x8f []) idle_bus) =
     [[0xc0, 0x5b, 0xff], [0x8f]]"
  using transactions_received [of idle_bus "[(0xc0, [0x5b, 0xff]), (0x8f, [])]"]
  by (simp add: bus_idle_def idle_bus_def)

text \<open>
  C17: In every state a bound driver reaches, through any interleaving of writes to the four
  sysfs files (refused ones included), suspends and resumes, the cached panel is well formed
  (four printable characters, their segment patterns, a brightness of at most 7), and while
  the system is awake the display shows exactly that cache, whatever the controller held
  before the probe and whatever it lost during a suspend.
\<close>

theorem display_mirrors_panel:
  assumes "panel_reach lib a d0 (p, d, awake)" and "map_to_seg7 lib 32 = 0" and "length (ram d0) = 16"
  shows "wf_panel p \<and> segments_match lib p \<and> (awake \<longrightarrow> mirrors p (enabled p) d)"
  using panel_reach_inv [OF assms] by (simp add: panel_inv_def)

text \<open>The characters of a buffer: without its last newline.\<close>

definition text_chars :: "bytes \<Rightarrow> bytes" where
  "text_chars buf = (if buf \<noteq> [] \<and> last buf = 10 then butlast buf else buf)"

lemma text_store_chars:
  "text_store lib p buf =
   (if length (text_chars buf) > 4 then (Inl (- E2BIG), p, [])
    else case text_segments lib (text_chars buf) of
      Inl e \<Rightarrow> (Inl e, p, [])
    | Inr ds \<Rightarrow>
        (let p = p\<lparr>shown := padded 32 (text_chars buf), digits := padded 0 ds\<rparr>
         in (Inr (length buf), p, ht1628_write_digits p)))"
proof -
  define len where "len = (if buf \<noteq> [] \<and> last buf = 10 then length buf - 1 else length buf)"
  have t: "take len buf = text_chars buf" and l: "len = length (text_chars buf)"
    by (simp_all add: len_def text_chars_def butlast_conv_take)
  show ?thesis
    unfolding text_store_def len_def [symmetric] Let_def t by (simp add: l)
qed

lemma text_show_shown: "length (shown p) = 4 \<Longrightarrow> text_show p = shown p @ [10]"
  by (auto simp: text_show_def intro: nth_equalityI)

text \<open>A concrete library and display, for the witnesses.\<close>

definition sample_lib :: kernel_lib where
  "sample_lib = \<lparr>map_to_seg7 = (\<lambda>c. if c = 32 then 0 else if c = 56 then 0x7f else if c = 63 then - 22 else 1),
     kstrtou8 = (\<lambda>s. if s = ascii ''9'' then Inr 9 else Inl (- 22)),
     kstrtobool = (\<lambda>s. if s = ascii ''0'' then Inr False else Inl (- 22))\<rparr>"

definition sample_display :: display where
  "sample_display = \<lparr>mode = 0, auto_increment = True, control = 0, ram = replicate 16 170\<rparr>"

definition sample_answers :: probe_answers where
  "sample_answers = \<lparr>a_alloc = True, a_cs = 0, a_clock = 0, a_data = 0, a_group = 0\<rparr>"

theorem display_mirrors_panel_witness:
  "\<exists>p d. panel_reach sample_lib sample_answers sample_display (p, d, True) \<and>
     shown p = ascii ''8   '' \<and> mirrors p True d"
proof -
  have "ht1628_probe sample_answers =
      (Inr probed_panel, [Set Chip_select True, Set Clock True, Set Data True] @ ht1628_restore probed_panel)"
    by (simp add: ht1628_probe_Inr sample_answers_def)
  from panel_reach.probed [OF this] obtain d1
    where r1: "panel_reach sample_lib sample_answers sample_display (probed_panel, d1, True)" by blast
  obtain r p evs where t: "text_store sample_lib probed_panel (ascii ''8'') = (r, p, evs)"
    by (metis prod_cases3)
  have p: "shown p = ascii ''8   ''" "enabled p"
    using t by (auto simp: text_store_chars text_chars_def sample_lib_def padded_def probed_panel_def Let_def numeral_3_eq_3)
  have l: "map_to_seg7 sample_lib 32 = 0" "length (ram sample_display) = 16"
    by (simp_all add: sample_lib_def sample_display_def)
  note r2 = panel_reach.text_written [OF r1 t]
  from display_mirrors_panel [OF r2 l] r2 p show ?thesis by auto
qed

text \<open>
  A write to the file \<open>text\<close> that succeeds takes the whole buffer: reading the file
  back gives the characters written (without their newline), padded with spaces to four
  and a newline, the digits are the segment patterns of the characters and blank behind
  them, and the other settings are untouched.
\<close>

theorem text_readback:
  assumes "text_store lib p buf = (Inr n, p', evs)"
  shows "n = length buf \<and> text_show p' = padded 32 (text_chars buf) @ [10] \<and>
    digits p' = padded 0 (map (\<lambda>c. word_of_int (map_to_seg7 lib c)) (text_chars buf)) \<and>
    evs = ht1628_write_digits p' \<and>
    symbols p' = symbols p \<and> brightness p' = brightness p \<and> enabled p' = enabled p"
proof -
  have "length (text_chars buf) \<le> 4" "p' = p\<lparr>shown := padded 32 (text_chars buf),
      digits := padded 0 (map (\<lambda>c. word_of_int (map_to_seg7 lib c)) (text_chars buf))\<rparr>"
    "n = length buf" "evs = ht1628_write_digits p'"
    using assms by (auto simp: text_store_chars text_segments_Inr Let_def split: if_splits sum.splits)
  then show ?thesis by (simp add: text_show_shown length_padded)
qed

theorem text_readback_witness:
  "text_show (fst (snd (text_store sample_lib probed_panel (ascii ''88'' @ [10])))) = ascii ''88  '' @ [10]"
proof -
  have "fst (text_store sample_lib probed_panel (ascii ''88'' @ [10])) = Inr 3"
    by (simp add: text_store_chars text_chars_def sample_lib_def Let_def)
  then obtain p' evs where "text_store sample_lib probed_panel (ascii ''88'' @ [10]) = (Inr 3, p', evs)"
    by (cases "text_store sample_lib probed_panel (ascii ''88'' @ [10])") auto
  from text_readback [OF this] this show ?thesis
    by (simp add: padded_def text_chars_def numeral_2_eq_2)
qed

text \<open>
  A refused write changes nothing and sends nothing, and the errors are exactly these:
  \<open>text\<close> answers -E2BIG for more than four characters and otherwise the error of the first
  character that is not printable (-EINVAL) or has no pattern; \<open>symbols\<close>, \<open>brightness\<close> and
  \<open>enabled\<close> pass on the error of the kernel's number parser; a brightness above 7 is -ERANGE.
\<close>

theorem refused_writes:
  "(text_store lib p buf = (Inl e, p', evs) \<longleftrightarrow> p' = p \<and> evs = [] \<and>
     (if length (text_chars buf) > 4 then e = - E2BIG
      else \<exists>c. find (\<lambda>c. char_error lib c \<noteq> None) (text_chars buf) = Some c \<and> char_error lib c = Some e)) \<and>
   (symbols_store lib p buf = (Inl e, p', evs) \<longleftrightarrow> p' = p \<and> evs = [] \<and> kstrtou8 lib buf = Inl e) \<and>
   (brightness_store lib p buf = (Inl e, p', evs) \<longleftrightarrow> p' = p \<and> evs = [] \<and>
     (kstrtou8 lib buf = Inl e \<or> (\<exists>v. kstrtou8 lib buf = Inr v \<and> v > 7 \<and> e = - ERANGE))) \<and>
   (enabled_store lib p buf = (Inl e, p', evs) \<longleftrightarrow> p' = p \<and> evs = [] \<and> kstrtobool lib buf = Inl e)"
proof (intro conjI)
  have "text_store lib p buf = (Inl e, p', evs) \<longleftrightarrow> p' = p \<and> evs = [] \<and>
      (if length (text_chars buf) > 4 then e = - E2BIG else text_segments lib (text_chars buf) = Inl e)"
    by (cases "text_segments lib (text_chars buf)") (auto simp: text_store_chars Let_def)
  then show "text_store lib p buf = (Inl e, p', evs) \<longleftrightarrow> p' = p \<and> evs = [] \<and>
     (if length (text_chars buf) > 4 then e = - E2BIG
      else \<exists>c. find (\<lambda>c. char_error lib c \<noteq> None) (text_chars buf) = Some c \<and> char_error lib c = Some e)"
    by (simp only: text_segments_Inl)
qed (auto simp: symbols_store_def brightness_store_def enabled_store_def Let_def split: sum.splits)

theorem refused_writes_witness:
  "brightness_store sample_lib probed_panel (ascii ''9'') = (Inl (- 34), probed_panel, [])"
  using refused_writes [of sample_lib probed_panel "ascii ''9''" "- 34" probed_panel "[]"]
  by (simp add: sample_lib_def)

text \<open>
  The display is switched off, and nothing else of it changed, by a removal, a shutdown
  and a suspend; and a probe that fails has not touched the display or leaves it off.
\<close>

theorem display_switched_off:
  assumes "brightness p \<le> 7"
  shows "display_after (ht1628_remove p) d = d\<lparr>control := control_byte p False\<rparr> \<and>
    display_after (ht1628_shutdown p) d = d\<lparr>control := control_byte p False\<rparr> \<and>
    display_after (ht1628_suspend p) d = d\<lparr>control := control_byte p False\<rparr> \<and>
    (\<forall>a e evs. ht1628_probe a = (Inl e, evs) \<longrightarrow>
       display_after evs d = d \<or> control (display_after evs d) = control_byte probed_panel False)"
proof -
  have b: "brightness probed_panel \<le> 7" by (simp add: probed_panel_def)
  have off: "display_after ([Set Chip_select True, Set Clock True, Set Data True] @ ht1628_restore probed_panel @
      ht1628_write_control probed_panel False) d = fold display_frame
        (restore_frames probed_panel @ [[control_byte probed_panel False]]) d"
    unfolding display_after_claimed restore_frames_eq write_control_frames concat_append [symmetric]
      map_append [symmetric]
    by (rule display_after_frames) (simp add: restore_frames_def digit_frames_def)
  have claimed: "display_after [Set Chip_select True] d = d"
    "display_after [Set Chip_select True, Set Clock True] d = d"
    by (simp_all add: display_after_def idle_bus_def)
  have "ht1628_probe a = (Inl e, evs) \<longrightarrow>
      display_after evs d = d \<or> control (display_after evs d) = control_byte probed_panel False" for a e evs
    using off display_control [OF b, of False]
    by (auto simp: ht1628_probe_def Let_def claimed display_after_Nil simp del: fold_simps)
  then show ?thesis
    by (simp add: ht1628_remove_def ht1628_shutdown_def ht1628_suspend_def display_write_control [OF assms])
qed

theorem display_switched_off_witness:
  "display_after (ht1628_remove probed_panel) sample_display = sample_display\<lparr>control := 0x87\<rparr>"
  using display_switched_off [of probed_panel sample_display]
  by (simp add: probed_panel_def control_byte_def)

end
