(* ===== verification/Bridge_Signals.thy ===== *)
theory Bridge_Signals
  imports Main
begin

text \<open>
  The signal handling of the vHCI bridge: the handler and the self-pipe it writes to.
  A signal may arrive between any two calls, so set-up and clean-up are the lists of their
  calls and stores in order, and what matters is every state on the way.
\<close>

datatype disposition = Default | Ignored | Bridge_handler

datatype bridge_signal = SIGINT | SIGTERM | SIGPIPE

text \<open>The three signals are an enumeration, so that a statement on all of them evaluates.\<close>

instantiation bridge_signal :: enum
begin

definition enum_bridge_signal :: "bridge_signal list" where
  "enum_bridge_signal = [SIGINT, SIGTERM, SIGPIPE]"

definition enum_all_bridge_signal :: "(bridge_signal \<Rightarrow> bool) \<Rightarrow> bool" where
  "enum_all_bridge_signal P \<longleftrightarrow> P SIGINT \<and> P SIGTERM \<and> P SIGPIPE"

definition enum_ex_bridge_signal :: "(bridge_signal \<Rightarrow> bool) \<Rightarrow> bool" where
  "enum_ex_bridge_signal P \<longleftrightarrow> P SIGINT \<or> P SIGTERM \<or> P SIGPIPE"

instance
proof
  show "(UNIV :: bridge_signal set) = set enum_class.enum"
    using bridge_signal.exhaust by (auto simp: enum_bridge_signal_def)
  show "distinct (enum_class.enum :: bridge_signal list)" by (simp add: enum_bridge_signal_def)
  show "enum_class.enum_all P \<longleftrightarrow> Ball UNIV P" for P :: "bridge_signal \<Rightarrow> bool"
    by (auto simp: enum_all_bridge_signal_def) (metis bridge_signal.exhaust)
  show "enum_class.enum_ex P \<longleftrightarrow> Bex UNIV P" for P :: "bridge_signal \<Rightarrow> bool"
    by (auto simp: enum_ex_bridge_signal_def) (metis bridge_signal.exhaust)
qed

end

record signal_state =
  dispositions :: "bridge_signal \<Rightarrow> disposition"
  signal_fds :: "int \<times> int"
  open_fds :: "int list"

datatype signal_op =
  Pipe2 int int
| Sigaction bridge_signal disposition
| Close int
| Forget_read
| Forget_write

fun signal_step :: "signal_op \<Rightarrow> signal_state \<Rightarrow> signal_state" where
  "signal_step (Pipe2 r w) s = s\<lparr>signal_fds := (r, w), open_fds := r # w # open_fds s\<rparr>"
| "signal_step (Sigaction sig d) s = s\<lparr>dispositions := (dispositions s)(sig := d)\<rparr>"
| "signal_step (Close fd) s = s\<lparr>open_fds := removeAll fd (open_fds s)\<rparr>"
| "signal_step Forget_read s = s\<lparr>signal_fds := (-1, snd (signal_fds s))\<rparr>"
| "signal_step Forget_write s = s\<lparr>signal_fds := (fst (signal_fds s), -1)\<rparr>"

abbreviation signal_run :: "signal_op list \<Rightarrow> signal_state \<Rightarrow> signal_state" where
  "signal_run ops s \<equiv> fold signal_step ops s"

text \<open>
  \<open>setup_signal_handling\<close>: the pipe, or \<open>None\<close> when there is none, and which of the three
  \<open>sigaction\<close> calls succeed. The result is what is done, and whether 0 is returned.
\<close>

definition setup_signal_handling ::
  "(int \<times> int) option \<Rightarrow> bool \<times> bool \<times> bool \<Rightarrow> signal_op list \<times> bool" where
  "setup_signal_handling pipe oks =
     (case pipe of
        None \<Rightarrow> ([], False)
      | Some (r, w) \<Rightarrow>
          case oks of (int_ok, term_ok, pipe_ok) \<Rightarrow>
            let release = [Close r, Close w, Forget_read, Forget_write];
                int = [Pipe2 r w, Sigaction SIGINT Bridge_handler];
                term = int @ [Sigaction SIGTERM Bridge_handler]
            in if \<not> int_ok then (Pipe2 r w # release, False)
               else if \<not> term_ok then (int @ release, False)
               else if \<not> pipe_ok then (term @ release, False)
               else (term @ [Sigaction SIGPIPE Ignored], True))"

definition cleanup_signal_handling :: "int \<times> int \<Rightarrow> signal_op list" where
  "cleanup_signal_handling fds =
     [Sigaction SIGINT Ignored, Sigaction SIGTERM Ignored] @
     (if fst fds \<ge> 0 then [Close (fst fds)] else []) @
     (if snd fds \<ge> 0 then [Close (snd fds)] else []) @ [Forget_read, Forget_write]"

text \<open>\<open>on_signal\<close>: the descriptor it writes its byte to.\<close>

definition on_signal :: "signal_state \<Rightarrow> int option" where
  "on_signal s = (if snd (signal_fds s) \<ge> 0 then Some (snd (signal_fds s)) else None)"

text \<open>A signal that arrives now writes to no descriptor that has been closed.\<close>

definition signal_safe :: "signal_state \<Rightarrow> bool" where
  "signal_safe s \<longleftrightarrow>
     (Bridge_handler \<in> dispositions s ` {SIGINT, SIGTERM, SIGPIPE} \<longrightarrow>
      (case on_signal s of None \<Rightarrow> True | Some fd \<Rightarrow> fd \<in> set (open_fds s)))"

definition fresh_state :: signal_state where
  "fresh_state = \<lparr>dispositions = \<lambda>_. Default, signal_fds = (-1, -1), open_fds = []\<rparr>"

primrec states_from :: "signal_op list \<Rightarrow> signal_state \<Rightarrow> signal_state list" where
  "states_from [] s = [s]"
| "states_from (x # xs) s = s # states_from xs (signal_step x s)"

lemma states_from_append:
  "set (states_from (xs @ ys) s) = set (states_from xs s) \<union> set (states_from ys (signal_run xs s))"
proof -
  have "s \<in> set (states_from zs s)" for zs s by (cases zs) simp_all
  then have "signal_run xs s \<in> set (states_from ys (signal_run xs s))" .
  then show ?thesis by (induction xs arbitrary: s) auto
qed

lemma all_signals: "(\<forall>sig :: bridge_signal. P sig) \<longleftrightarrow> P SIGINT \<and> P SIGTERM \<and> P SIGPIPE"
  by (metis bridge_signal.exhaust)

lemmas signal_defs =
  setup_signal_handling_def cleanup_signal_handling_def signal_safe_def on_signal_def fresh_state_def

section \<open>Properties\<close>

text \<open>
  A signal never writes to a descriptor the bridge has closed: with the handlers
  installed and removed again, this holds after every single call of the set-up and of the
  clean-up (which first ignores the signals and then closes the pipe), and at the end the
  pipe is closed, forgotten, and all three signals are ignored.
\<close>

theorem signals_never_misdirected:
  assumes "0 \<le> r" "0 \<le> w" "r \<noteq> w"
    and "setup_signal_handling (Some (r, w)) (True, True, True) = (ops, ok)"
  shows "ok \<and> list_all signal_safe (states_from (ops @ cleanup_signal_handling (r, w)) fresh_state) \<and>
    (let s = signal_run (ops @ cleanup_signal_handling (r, w)) fresh_state in
       open_fds s = [] \<and> signal_fds s = (-1, -1) \<and> (\<forall>sig. dispositions s sig = Ignored))"
proof -
  have ops: "ops = [Pipe2 r w, Sigaction SIGINT Bridge_handler, Sigaction SIGTERM Bridge_handler,
      Sigaction SIGPIPE Ignored]" and ok
    using assms(4) by (simp_all add: setup_signal_handling_def Let_def)
  show ?thesis
    unfolding all_signals ops using assms(1-3) \<open>ok\<close>
    by (simp add: signal_defs Let_def)
qed

theorem signals_never_misdirected_witness:
  "list_all signal_safe (states_from (fst (setup_signal_handling (Some (3, 4)) (True, True, True)) @
     cleanup_signal_handling (3, 4)) fresh_state)"
proof -
  obtain ops ok where o: "setup_signal_handling (Some (3, 4)) (True, True, True) = (ops, ok)" by fastforce
  from signals_never_misdirected [OF _ _ _ this] o show ?thesis by simp
qed

text \<open>
  A set-up that fails leaves no descriptor open and none remembered. It is not safe on
  its way there: once the handler of SIGINT is installed, a failure of a later
  \<open>sigaction\<close> closes the pipe while the handler is installed and still knows the pipe.
\<close>

theorem failed_signal_setup:
  assumes "setup_signal_handling (Some (r, w)) oks = (ops, False)" "0 \<le> r" "0 \<le> w" "r \<noteq> w"
  shows "open_fds (signal_run ops fresh_state) = [] \<and> signal_fds (signal_run ops fresh_state) = (-1, -1) \<and>
    (list_all signal_safe (states_from ops fresh_state) \<longleftrightarrow> \<not> fst oks)"
proof (cases oks)
  case (fields int_ok term_ok pipe_ok)
  then show ?thesis
    using assms by (auto simp: signal_defs Let_def split: if_splits)
qed

theorem failed_signal_setup_witness:
  "\<not> list_all signal_safe
     (states_from (fst (setup_signal_handling (Some (3, 4)) (True, False, True))) fresh_state)"
proof -
  let ?ops = "fst (setup_signal_handling (Some (3, 4)) (True, False, True))"
  have o: "setup_signal_handling (Some (3, 4)) (True, False, True) = (?ops, False)"
    by (simp add: setup_signal_handling_def Let_def)
  have fds: "0 \<le> (3 :: int)" "0 \<le> (4 :: int)" "(3 :: int) \<noteq> 4" by simp_all
  show ?thesis using failed_signal_setup [OF o fds] by (simp only: fst_conv simp_thms)
qed

end
