(* ===== verification/Effects.thy ===== *)
theory Effects
  imports Interfaces
begin

text \<open>
  What the models of the user-land programs share: the errors and poll events that select a
  branch, and a small calculus for routines that act on a state. A routine returns its
  result with the new state, or \<open>None\<close> while it is still blocked in a call.
\<close>

datatype errno = EINTR | EAGAIN | Errno int

datatype revent = POLLIN | POLLOUT | POLLERR | POLLHUP | POLLRDHUP | POLLNVAL

declare Option.bind_cong [fundef_cong]

text \<open>
  Loops end because every call takes an answer off a script: the well-founded orders on the
  worlds, and what each routine takes off.
\<close>

named_theorems script_wf "well-founded orders on worlds"
named_theorems call_progress "calls that take an answer off the script"

declare wf_inv_image [script_wf]

text \<open>What holds of the result and the world when a routine returns.\<close>

definition post :: "('a \<times> 'w) option \<Rightarrow> ('a \<Rightarrow> 'w \<Rightarrow> bool) \<Rightarrow> bool" where
  "post m P \<longleftrightarrow> (case m of None \<Rightarrow> True | Some (r, w) \<Rightarrow> P r w)"

lemma post_Some [simp]: "post (Some (r, w)) P = P r w"
  by (simp add: post_def)

lemma post_None [simp]: "post None P"
  by (simp add: post_def)

lemma post_iff: "post m P \<longleftrightarrow> (\<forall>r w. m = Some (r, w) \<longrightarrow> P r w)"
  by (auto simp: post_def split: option.splits)

lemma postD: "post m P \<Longrightarrow> m = Some (r, w) \<Longrightarrow> P r w"
  by (simp add: post_def)

lemma post_bind:
  "post m Q \<Longrightarrow> (\<And>r w. Q r w \<Longrightarrow> post (k (r, w)) P) \<Longrightarrow> post (m \<bind> k) P"
  by (cases m) (auto simp: post_def)

lemma post_mono: "post m Q \<Longrightarrow> (\<And>r w. Q r w \<Longrightarrow> P r w) \<Longrightarrow> post m P"
  by (auto simp: post_def split: option.splits)

lemma post_conj: "post m P \<Longrightarrow> post m Q \<Longrightarrow> post m (\<lambda>r w. P r w \<and> Q r w)"
  by (auto simp: post_def split: option.splits)

end
