(* ===== verification/Os_Script.thy ===== *)
theory Os_Script
  imports Effects
begin

text \<open>
  The system calls of the user-land programs. A thread runs against a \<open>script\<close>, the answers
  of the operating system to its calls in their order; a call whose answer the script does
  not hold (the thread is still blocked in it) is \<open>None\<close>. The world also holds the two
  atomic flags the threads of the bridge share and a record of what went through each
  descriptor.

  The other thread appears as \<open>Peer\<close> entries between two answers: it may have asked for the
  shutdown at any point. A flag is only read after a call has returned, so a store by the
  other thread before that read is one before the call returned.

  Descriptors are integers. A read takes at most the capacity it is given, a write at most
  the bytes it is given: an answer outside these bounds is no answer of the system.
\<close>

datatype answer =
  Wrote nat
| Write_failed errno
| Got bytes
| Read_failed errno
| Polled "revent list list"
| Poll_failed errno
| Clock "int option"
| Peer bool

record world =
  script :: "answer list"
  running :: bool
  runtime_failed :: bool
  signal_fd :: int
  written :: "(int \<times> bytes) list"
  readlog :: "(int \<times> bytes) list"

text \<open>\<open>request_shutdown\<close> of the bridge, called by both of its threads.\<close>

definition request_shutdown :: "bool \<Rightarrow> world \<Rightarrow> world" where
  "request_shutdown fatal w = w\<lparr>runtime_failed := (fatal \<or> runtime_failed w), running := False\<rparr>"

fun next_answer :: "answer list \<Rightarrow> world \<Rightarrow> (answer \<times> world) option" where
  "next_answer [] w = None"
| "next_answer (Peer fatal # as) w = next_answer as (request_shutdown fatal w)"
| "next_answer (a # as) w = Some (a, w\<lparr>script := as\<rparr>)"

definition sys_write :: "int \<Rightarrow> bytes \<Rightarrow> world \<Rightarrow> ((errno + nat) \<times> world) option" where
  "sys_write fd buf w =
     (case next_answer (script w) w of
        Some (Wrote n, w) \<Rightarrow>
          if n \<le> length buf then Some (Inr n, w\<lparr>written := written w @ [(fd, take n buf)]\<rparr>) else None
      | Some (Write_failed e, w) \<Rightarrow> Some (Inl e, w)
      | _ \<Rightarrow> None)"

definition sys_read :: "int \<Rightarrow> nat \<Rightarrow> world \<Rightarrow> ((errno + bytes) \<times> world) option" where
  "sys_read fd capacity w =
     (case next_answer (script w) w of
        Some (Got bs, w) \<Rightarrow>
          if length bs \<le> capacity then Some (Inr bs, w\<lparr>readlog := readlog w @ [(fd, bs)]\<rparr>) else None
      | Some (Read_failed e, w) \<Rightarrow> Some (Inl e, w)
      | _ \<Rightarrow> None)"

definition sys_poll :: "nat \<Rightarrow> world \<Rightarrow> ((errno + revent list list) \<times> world) option" where
  "sys_poll nfds w =
     (case next_answer (script w) w of
        Some (Polled rs, w) \<Rightarrow> if length rs = nfds then Some (Inr rs, w) else None
      | Some (Poll_failed e, w) \<Rightarrow> Some (Inl e, w)
      | _ \<Rightarrow> None)"

definition sys_clock :: "world \<Rightarrow> (int option \<times> world) option" where
  "sys_clock w =
     (case next_answer (script w) w of
        Some (Clock t, w) \<Rightarrow> Some (t, w)
      | _ \<Rightarrow> None)"

definition ready_count :: "revent list list \<Rightarrow> nat" where
  "ready_count rs = length (filter (\<lambda>r. r \<noteq> []) rs)"

section \<open>What went through a descriptor\<close>

definition sent_to :: "int \<Rightarrow> world \<Rightarrow> bytes list" where
  "sent_to fd w = map snd (filter (\<lambda>(f, b). f = fd) (written w))"

definition read_from :: "int \<Rightarrow> world \<Rightarrow> bytes list" where
  "read_from fd w = map snd (filter (\<lambda>(f, b). f = fd) (readlog w))"

text \<open>
  \<open>later w w'\<close>: \<open>w'\<close> is a world after \<open>w\<close>. The script only shrinks, a requested shutdown
  and a recorded failure stay, and the two logs only grow.
\<close>

definition later :: "world \<Rightarrow> world \<Rightarrow> bool" where
  "later w w' \<longleftrightarrow>
     length (script w') \<le> length (script w) \<and> (running w' \<longrightarrow> running w) \<and>
     (runtime_failed w \<longrightarrow> runtime_failed w') \<and> signal_fd w' = signal_fd w \<and>
     (\<exists>x. written w' = written w @ x) \<and> (\<exists>x. readlog w' = readlog w @ x)"

lemma later_refl [simp]: "later w w"
  by (simp add: later_def)

lemma later_trans [trans]: "later u v \<Longrightarrow> later v w \<Longrightarrow> later u w"
  by (auto simp: later_def)

lemma later_shutdown [simp]: "later w (request_shutdown fatal w)"
  by (simp add: later_def request_shutdown_def)

lemma later_then_shutdown [simp]: "later w v \<Longrightarrow> later w (request_shutdown fatal v)"
  by (rule later_trans [OF _ later_shutdown])

lemma later_signal_fd: "later w w' \<Longrightarrow> signal_fd w' = signal_fd w"
  by (simp add: later_def)

lemma request_shutdown_fields [simp]:
  "script (request_shutdown fatal w) = script w"
  "running (request_shutdown fatal w) = False"
  "runtime_failed (request_shutdown fatal w) = (fatal \<or> runtime_failed w)"
  "signal_fd (request_shutdown fatal w) = signal_fd w"
  "written (request_shutdown fatal w) = written w"
  "readlog (request_shutdown fatal w) = readlog w"
  by (simp_all add: request_shutdown_def)

lemma sent_to_shutdown [simp]:
  "sent_to fd (request_shutdown fatal w) = sent_to fd w"
  "read_from fd (request_shutdown fatal w) = read_from fd w"
  by (simp_all add: sent_to_def read_from_def)

lemma next_answer_Some:
  assumes "next_answer as w = Some (a, w')" "script w = as"
  shows "length (script w') < length as \<and> later w w' \<and> written w' = written w \<and> readlog w' = readlog w"
  using assms
proof (induction as w arbitrary: w' rule: next_answer.induct)
  case (2 fatal as w)
  have gen: "next_answer as v = Some (a, w') \<Longrightarrow> length (script w') < Suc (length as) \<and>
      (running w' \<longrightarrow> running v) \<and> (runtime_failed v \<longrightarrow> runtime_failed w') \<and>
      signal_fd w' = signal_fd v \<and> written w' = written v \<and> readlog w' = readlog v" for v
    by (induction as v rule: next_answer.induct) auto
  from gen [of "request_shutdown fatal w"] 2 show ?case
    by (auto simp: later_def)
qed (auto simp: later_def)

lemma sys_write_Some:
  assumes "sys_write fd buf w = Some (r, w')"
  shows "length (script w') < length (script w)" "later w w'" "readlog w' = readlog w"
    "case r of Inl e \<Rightarrow> written w' = written w
     | Inr n \<Rightarrow> n \<le> length buf \<and> written w' = written w @ [(fd, take n buf)]"
proof -
  obtain a v where a: "next_answer (script w) w = Some (a, v)"
    using assms by (auto simp: sys_write_def split: option.splits)
  note n = next_answer_Some [OF a refl]
  have "length (script w') < length (script w) \<and> later w w' \<and> readlog w' = readlog w \<and>
    (case r of Inl e \<Rightarrow> written w' = written w
     | Inr n \<Rightarrow> n \<le> length buf \<and> written w' = written w @ [(fd, take n buf)])"
    using assms a n
    by (auto simp: sys_write_def later_def split: answer.splits if_splits)
  then show "length (script w') < length (script w)" "later w w'" "readlog w' = readlog w"
    "case r of Inl e \<Rightarrow> written w' = written w
     | Inr n \<Rightarrow> n \<le> length buf \<and> written w' = written w @ [(fd, take n buf)]"
    by blast+
qed

lemma sys_read_Some:
  assumes "sys_read fd capacity w = Some (r, w')"
  shows "length (script w') < length (script w)" "later w w'" "written w' = written w"
    "case r of Inl e \<Rightarrow> readlog w' = readlog w
     | Inr bs \<Rightarrow> length bs \<le> capacity \<and> readlog w' = readlog w @ [(fd, bs)]"
proof -
  obtain a v where a: "next_answer (script w) w = Some (a, v)"
    using assms by (auto simp: sys_read_def split: option.splits)
  note n = next_answer_Some [OF a refl]
  have "length (script w') < length (script w) \<and> later w w' \<and> written w' = written w \<and>
    (case r of Inl e \<Rightarrow> readlog w' = readlog w
     | Inr bs \<Rightarrow> length bs \<le> capacity \<and> readlog w' = readlog w @ [(fd, bs)])"
    using assms a n
    by (auto simp: sys_read_def later_def split: answer.splits if_splits)
  then show "length (script w') < length (script w)" "later w w'" "written w' = written w"
    "case r of Inl e \<Rightarrow> readlog w' = readlog w
     | Inr bs \<Rightarrow> length bs \<le> capacity \<and> readlog w' = readlog w @ [(fd, bs)]"
    by blast+
qed

lemma sys_poll_Some:
  assumes "sys_poll nfds w = Some (r, w')"
  shows "length (script w') < length (script w)" "later w w'" "written w' = written w" "readlog w' = readlog w"
    "case r of Inl e \<Rightarrow> True | Inr rs \<Rightarrow> length rs = nfds"
proof -
  obtain a v where a: "next_answer (script w) w = Some (a, v)"
    using assms by (auto simp: sys_poll_def split: option.splits)
  have "w' = v" "case r of Inl e \<Rightarrow> True | Inr rs \<Rightarrow> length rs = nfds"
    using assms a by (auto simp: sys_poll_def split: answer.splits if_splits)
  with next_answer_Some [OF a refl]
  show "length (script w') < length (script w)" "later w w'" "written w' = written w" "readlog w' = readlog w"
    "case r of Inl e \<Rightarrow> True | Inr rs \<Rightarrow> length rs = nfds"
    by simp_all
qed

lemma sys_clock_Some:
  assumes "sys_clock w = Some (r, w')"
  shows "length (script w') < length (script w)" "later w w'" "written w' = written w" "readlog w' = readlog w"
proof -
  obtain a v where a: "next_answer (script w) w = Some (a, v)"
    using assms by (auto simp: sys_clock_def split: option.splits)
  have "w' = v"
    using assms a by (auto simp: sys_clock_def split: answer.splits)
  with next_answer_Some [OF a refl]
  show "length (script w') < length (script w)" "later w w'" "written w' = written w" "readlog w' = readlog w"
    by simp_all
qed


section \<open>Reasoning about calls\<close>

definition shorter :: "world \<Rightarrow> world \<Rightarrow> bool" where
  "shorter w w' \<longleftrightarrow> length (script w') < length (script w)"

lemma shorter_shutdown [simp]: "shorter u (request_shutdown fatal v) = shorter u v"
  by (simp add: shorter_def)

lemma script_induct [case_names less]:
  "(\<And>w. (\<And>w'. shorter w w' \<Longrightarrow> P w') \<Longrightarrow> P w) \<Longrightarrow> P w"
  using measure_induct_rule [of "\<lambda>w. length (script w)" P] unfolding shorter_def by blast

text \<open>
  \<open>looks w w'\<close>: nothing was written, and nothing read but from the signal pipe;
  \<open>puts fd b w w'\<close>: the bytes \<open>b\<close> were written to \<open>fd\<close>, and nothing else;
  \<open>takes fd b w w'\<close>: the bytes \<open>b\<close> were read from \<open>fd\<close>, and nothing was written.
\<close>

definition looks :: "world \<Rightarrow> world \<Rightarrow> bool" where
  "looks w w' \<longleftrightarrow> later w w' \<and> written w' = written w \<and>
     (\<forall>fd. fd \<noteq> signal_fd w \<longrightarrow> read_from fd w' = read_from fd w)"

definition puts :: "int \<Rightarrow> bytes \<Rightarrow> world \<Rightarrow> world \<Rightarrow> bool" where
  "puts fd b w w' \<longleftrightarrow> later w w' \<and>
     (\<exists>bs. written w' = written w @ map (Pair fd) bs \<and> concat bs = b) \<and>
     (\<forall>fd. fd \<noteq> signal_fd w \<longrightarrow> read_from fd w' = read_from fd w)"

definition takes :: "int \<Rightarrow> bytes \<Rightarrow> world \<Rightarrow> world \<Rightarrow> bool" where
  "takes fd b w w' \<longleftrightarrow> later w w' \<and> written w' = written w \<and>
     (\<exists>bs. read_from fd w' = read_from fd w @ bs \<and> concat bs = b) \<and>
     (\<forall>fd'. fd' \<noteq> signal_fd w \<longrightarrow> fd' \<noteq> fd \<longrightarrow> read_from fd' w' = read_from fd' w)"

lemma looks_refl [simp]: "looks w w"
  by (simp add: looks_def)

lemma looks_shutdown [simp]: "looks w (request_shutdown fatal w)"
  by (simp add: looks_def)

lemma looks_trans [trans]: "looks u v \<Longrightarrow> looks v w \<Longrightarrow> looks u w"
  by (auto simp: looks_def later_signal_fd intro: later_trans)

lemma looks_later: "looks w w' \<Longrightarrow> later w w'"
  by (simp add: looks_def)

lemma puts_Nil [simp]: "puts fd [] w w"
  by (auto simp: puts_def intro: exI [of _ "[]"])

lemma looks_puts: "looks u v \<Longrightarrow> puts fd b v w \<Longrightarrow> puts fd b u w"
  by (auto simp: looks_def puts_def later_signal_fd intro: later_trans)

lemma puts_looks: "puts fd b u v \<Longrightarrow> looks v w \<Longrightarrow> puts fd b u w"
  by (auto simp: looks_def puts_def later_signal_fd intro: later_trans)

lemma looks_puts_Nil: "looks u v \<Longrightarrow> puts fd [] u v"
  by (rule looks_puts [OF _ puts_Nil])

lemma puts_trans: "puts fd a u v \<Longrightarrow> puts fd b v w \<Longrightarrow> puts fd (a @ b) u w"
proof -
  assume a: "puts fd a u v" and b: "puts fd b v w"
  then obtain as bs where "written v = written u @ map (Pair fd) as" "concat as = a"
    "written w = written v @ map (Pair fd) bs" "concat bs = b"
    by (auto simp: puts_def)
  then have "written w = written u @ map (Pair fd) (as @ bs) \<and> concat (as @ bs) = a @ b" by simp
  then have "\<exists>cs. written w = written u @ map (Pair fd) cs \<and> concat cs = a @ b" by (rule exI)
  moreover have "later u w" using a b later_trans unfolding puts_def by blast
  moreover have "\<forall>fd. fd \<noteq> signal_fd u \<longrightarrow> read_from fd w = read_from fd u"
    using a b later_signal_fd [of u v] by (simp add: puts_def)
  ultimately show ?thesis by (simp add: puts_def)
qed

lemma puts_later: "puts fd b w w' \<Longrightarrow> later w w'"
  by (simp add: puts_def)

lemma takes_Nil [simp]: "takes fd [] w w"
  by (auto simp: takes_def intro: exI [of _ "[]"])

lemma looks_takes: "looks u v \<Longrightarrow> fd \<noteq> signal_fd u \<Longrightarrow> takes fd b v w \<Longrightarrow> takes fd b u w"
  by (auto simp: looks_def takes_def later_signal_fd intro: later_trans)

lemma takes_looks: "takes fd b u v \<Longrightarrow> fd \<noteq> signal_fd u \<Longrightarrow> looks v w \<Longrightarrow> takes fd b u w"
  by (auto simp: looks_def takes_def later_signal_fd intro: later_trans)

lemma takes_trans:
  assumes a: "takes fd a u v" and b: "takes fd b v w"
  shows "takes fd (a @ b) u w"
proof -
  obtain as bs where "read_from fd v = read_from fd u @ as" "concat as = a"
    "read_from fd w = read_from fd v @ bs" "concat bs = b"
    using a b by (auto simp: takes_def)
  then have "read_from fd w = read_from fd u @ (as @ bs) \<and> concat (as @ bs) = a @ b" by simp
  with a b show ?thesis
    unfolding takes_def by (auto simp: later_signal_fd intro: later_trans)
qed

text \<open>An exchange: \<open>out\<close> was written to \<open>tx\<close> and \<open>inp\<close> read from \<open>rx\<close>.\<close>

definition talks :: "int \<Rightarrow> bytes \<Rightarrow> int \<Rightarrow> bytes \<Rightarrow> world \<Rightarrow> world \<Rightarrow> bool" where
  "talks tx out rx inp w w' \<longleftrightarrow> later w w' \<and>
     (\<exists>bs. written w' = written w @ map (Pair tx) bs \<and> concat bs = out) \<and>
     (\<exists>bs. read_from rx w' = read_from rx w @ bs \<and> concat bs = inp)"

lemma talks_trans:
  assumes a: "talks tx out rx inp u v" and b: "talks tx out' rx inp' v w"
  shows "talks tx (out @ out') rx (inp @ inp') u w"
proof -
  obtain as bs where "written v = written u @ map (Pair tx) as" "concat as = out"
    "written w = written v @ map (Pair tx) bs" "concat bs = out'"
    using a b by (auto simp: talks_def)
  then have o: "written w = written u @ map (Pair tx) (as @ bs) \<and> concat (as @ bs) = out @ out'" by simp
  obtain cs ds where "read_from rx v = read_from rx u @ cs" "concat cs = inp"
    "read_from rx w = read_from rx v @ ds" "concat ds = inp'"
    using a b by (auto simp: talks_def)
  then have i: "read_from rx w = read_from rx u @ (cs @ ds) \<and> concat (cs @ ds) = inp @ inp'" by simp
  have "later u w" using a b later_trans unfolding talks_def by blast
  moreover have "\<exists>xs. written w = written u @ map (Pair tx) xs \<and> concat xs = out @ out'"
    using o by (rule exI)
  moreover have "\<exists>xs. read_from rx w = read_from rx u @ xs \<and> concat xs = inp @ inp'"
    using i by (rule exI)
  ultimately show ?thesis by (simp add: talks_def)
qed

lemma puts_talks: "puts tx out w w' \<Longrightarrow> rx \<noteq> signal_fd w \<Longrightarrow> talks tx out rx [] w w'"
  by (auto simp: puts_def talks_def intro!: exI [of _ "[]"])

lemma takes_talks: "takes rx inp w w' \<Longrightarrow> talks tx [] rx inp w w'"
  by (auto simp: takes_def talks_def intro!: exI [of _ "[]"])

lemma talks_later: "talks tx out rx inp w w' \<Longrightarrow> later w w'"
  by (simp add: talks_def)

lemma takes_later: "takes fd b w w' \<Longrightarrow> later w w'"
  by (simp add: takes_def)

lemma takes_signal: "takes (signal_fd w) b w w' \<Longrightarrow> looks w w'"
  by (simp add: takes_def looks_def)

lemma shorter_later: "shorter u v \<Longrightarrow> later v w \<Longrightarrow> shorter u w"
  by (simp add: shorter_def later_def)

lemma later_shorter: "later u v \<Longrightarrow> shorter v w \<Longrightarrow> shorter u w"
  by (simp add: shorter_def later_def)

text \<open>The calls.\<close>

lemma post_sys_write:
  "post (sys_write fd buf w) (\<lambda>r w'. shorter w w' \<and>
     (case r of Inl e \<Rightarrow> looks w w'
      | Inr n \<Rightarrow> n \<le> length buf \<and> later w w' \<and> readlog w' = readlog w \<and>
          written w' = written w @ [(fd, take n buf)] \<and> puts fd (take n buf) w w'))"
proof -
  have "puts fd b w w'" if "later w w'" "readlog w' = readlog w" "written w' = written w @ [(fd, b)]" for b w'
    unfolding puts_def using that by (auto simp: read_from_def intro!: exI [of _ "[b]"])
  then show ?thesis
    using sys_write_Some
    by (fastforce simp: post_iff shorter_def looks_def read_from_def split: sum.splits)
qed

lemma post_sys_read:
  "post (sys_read fd capacity w) (\<lambda>r w'. shorter w w' \<and>
     (case r of Inl e \<Rightarrow> looks w w'
      | Inr bs \<Rightarrow> length bs \<le> capacity \<and> takes fd bs w w' \<and> readlog w' = readlog w @ [(fd, bs)]))"
proof -
  have "takes fd b w w'" if "later w w'" "written w' = written w" "readlog w' = readlog w @ [(fd, b)]" for b w'
    unfolding takes_def using that by (auto simp: read_from_def intro!: exI [of _ "[b]"])
  then show ?thesis
    using sys_read_Some
    by (fastforce simp: post_iff shorter_def looks_def read_from_def split: sum.splits)
qed

lemma post_sys_poll:
  "post (sys_poll nfds w) (\<lambda>r w'. shorter w w' \<and> looks w w' \<and>
     (case r of Inl e \<Rightarrow> True | Inr rs \<Rightarrow> length rs = nfds))"
  using sys_poll_Some by (fastforce simp: post_iff shorter_def looks_def read_from_def)

lemma post_sys_clock: "post (sys_clock w) (\<lambda>r w'. shorter w w' \<and> looks w w')"
  using sys_clock_Some by (fastforce simp: post_iff shorter_def looks_def read_from_def)

text \<open>For the termination of loops that make at least one call per round.\<close>

lemma sys_shorter [call_progress]:
  "sys_write fd buf w = Some (r1, w') \<Longrightarrow> shorter w w'"
  "sys_read fd capacity w = Some (r2, w') \<Longrightarrow> shorter w w'"
  "sys_poll nfds w = Some (r3, w') \<Longrightarrow> shorter w w'"
  "sys_clock w = Some (r4, w') \<Longrightarrow> shorter w w'"
  using sys_write_Some(1) sys_read_Some(1) sys_poll_Some(1) sys_clock_Some(1)
  by (auto simp: shorter_def)

lemma shorter_trans: "shorter u v \<Longrightarrow> shorter v w \<Longrightarrow> shorter u w"
  by (simp add: shorter_def)

lemma wf_script [script_wf]: "wf {(w', w). shorter w w'}"
proof -
  have "{(w', w). shorter w w'} = measure (\<lambda>w. length (script w))"
    by (auto simp: shorter_def)
  then show ?thesis by (metis wf_measure)
qed

text \<open>A thread that starts with a script, for concrete runs.\<close>

definition sample_world :: "answer list \<Rightarrow> world" where
  "sample_world sc = \<lparr>script = sc, running = True, runtime_failed = False, signal_fd = 3,
     written = [], readlog = []\<rparr>"

end
