(* ===== verification/Skw_H4.thy ===== *)
theory Skw_H4
  imports Interfaces
begin

text \<open>
  The H4 packets of the Bluetooth transport
  (\<^verbatim>\<open>boards/s905x5m/userland/skwbt/include/skw_h4.h\<close>): the decoder of a packet's header
  and the reassembly buffer that the bridge and the vendor library share.

  A buffer and its length are one list. \<open>skw_h4_decode\<close> returns its status and the frame
  record, whose fields keep the values the code has assigned when it returns, on an
  incomplete or invalid packet too: the bridge reads them there. A stream is the list of
  the first \<open>length\<close> bytes of its array.
\<close>

section \<open>The decoder\<close>

definition SKW_H4_COMMAND_PKT :: u8 where "SKW_H4_COMMAND_PKT = 1"
definition SKW_H4_ACL_PKT :: u8 where "SKW_H4_ACL_PKT = 2"
definition SKW_H4_SCO_PKT :: u8 where "SKW_H4_SCO_PKT = 3"
definition SKW_H4_EVENT_PKT :: u8 where "SKW_H4_EVENT_PKT = 4"
definition SKW_H4_ISO_PKT :: u8 where "SKW_H4_ISO_PKT = 5"
definition SKW_H4_LOG_PKT :: u8 where "SKW_H4_LOG_PKT = 7"

definition SKW_H4_KERNEL_MAX_FRAME :: nat where "SKW_H4_KERNEL_MAX_FRAME = 1028"
definition SKW_H4_EVENT_MAX_FRAME :: nat where "SKW_H4_EVENT_MAX_FRAME = 258"
definition SKW_H4_COMMAND_MAX_FRAME :: nat where "SKW_H4_COMMAND_MAX_FRAME = 259"
definition SKW_H4_SCO_MAX_FRAME :: nat where "SKW_H4_SCO_MAX_FRAME = 259"
definition SKW_H4_ISO_MAX_FRAME :: nat where "SKW_H4_ISO_MAX_FRAME = 256"
definition SKW_H4_STREAM_CAPACITY :: nat where "SKW_H4_STREAM_CAPACITY = 4096"

lemmas pkt_defs = SKW_H4_COMMAND_PKT_def SKW_H4_ACL_PKT_def SKW_H4_SCO_PKT_def
  SKW_H4_EVENT_PKT_def SKW_H4_ISO_PKT_def SKW_H4_LOG_PKT_def

lemmas frame_limits = SKW_H4_KERNEL_MAX_FRAME_def SKW_H4_EVENT_MAX_FRAME_def
  SKW_H4_COMMAND_MAX_FRAME_def SKW_H4_SCO_MAX_FRAME_def SKW_H4_ISO_MAX_FRAME_def
  SKW_H4_STREAM_CAPACITY_def

datatype skw_h4_status = SKW_H4_INVALID | SKW_H4_INCOMPLETE | SKW_H4_COMPLETE

record skw_h4_frame =
  h4_type :: u8
  header_size :: nat
  payload_size :: nat
  frame_size :: nat

definition empty_frame :: skw_h4_frame where
  "empty_frame = \<lparr>h4_type = 0, header_size = 0, payload_size = 0, frame_size = 0\<rparr>"

text \<open>The two switches of the decoder.\<close>

definition h4_header_size :: "u8 \<Rightarrow> nat option" where
  "h4_header_size t =
     (if t = SKW_H4_COMMAND_PKT then Some 4
      else if t = SKW_H4_ACL_PKT then Some 5
      else if t = SKW_H4_SCO_PKT then Some 4
      else if t = SKW_H4_EVENT_PKT then Some 3
      else if t = SKW_H4_ISO_PKT then Some 5
      else if t = SKW_H4_LOG_PKT then Some 4
      else None)"

text \<open>\<open>(size_t)data[i] | ((size_t)data[i + 1] << 8)\<close>\<close>

definition u16_at :: "bytes \<Rightarrow> nat \<Rightarrow> u16" where
  "u16_at d i = ucast (d ! i) OR push_bit 8 (ucast (d ! (i + 1)))"

definition h4_payload_size :: "u8 \<Rightarrow> bytes \<Rightarrow> nat option" where
  "h4_payload_size t d =
     (if t = SKW_H4_COMMAND_PKT \<or> t = SKW_H4_SCO_PKT then Some (unat (d ! 3))
      else if t = SKW_H4_EVENT_PKT then Some (unat (d ! 2))
      else if t = SKW_H4_ACL_PKT then Some (unat (u16_at d 3))
      else if t = SKW_H4_ISO_PKT then
        (let encoded = u16_at d 3 in
         if drop_bit 14 encoded = 3 then None else Some (unat (encoded AND 0x3fff)))
      else if t = SKW_H4_LOG_PKT then Some (unat (u16_at d 2))
      else None)"

definition skw_h4_decode :: "bytes \<Rightarrow> skw_h4_status \<times> skw_h4_frame" where
  "skw_h4_decode d =
     (if length d = 0 then (SKW_H4_INCOMPLETE, empty_frame)
      else
        let frame = empty_frame\<lparr>h4_type := d ! 0\<rparr> in
        case h4_header_size (d ! 0) of
          None \<Rightarrow> (SKW_H4_INVALID, frame)
        | Some h \<Rightarrow>
            (let frame = frame\<lparr>header_size := h\<rparr> in
             if length d < h then (SKW_H4_INCOMPLETE, frame)
             else case h4_payload_size (d ! 0) d of
                None \<Rightarrow> (SKW_H4_INVALID, frame)
              | Some p \<Rightarrow>
                  (let frame = frame\<lparr>payload_size := p, frame_size := h + p\<rparr> in
                   if frame_size frame > SKW_H4_STREAM_CAPACITY then (SKW_H4_INVALID, frame)
                   else if length d < frame_size frame then (SKW_H4_INCOMPLETE, frame)
                   else (SKW_H4_COMPLETE, frame))))"

section \<open>The stream\<close>

definition skw_h4_stream_append :: "bytes \<Rightarrow> bytes \<Rightarrow> bytes option" where
  "skw_h4_stream_append stream data =
     (if length stream > SKW_H4_STREAM_CAPACITY then None
      else if length data > SKW_H4_STREAM_CAPACITY - length stream then None
      else Some (stream @ data))"

definition skw_h4_stream_next :: "bytes \<Rightarrow> skw_h4_status \<times> skw_h4_frame" where
  "skw_h4_stream_next stream = skw_h4_decode stream"

definition skw_h4_stream_consume :: "bytes \<Rightarrow> nat \<Rightarrow> bytes option" where
  "skw_h4_stream_consume stream n = (if n > length stream then None else Some (drop n stream))"

section \<open>The decoder on longer and shorter buffers\<close>

lemma h4_header_size_bound: "h4_header_size t = Some h \<Longrightarrow> 3 \<le> h \<and> h \<le> 5"
  by (auto simp: h4_header_size_def split: if_splits)

text \<open>Once the header is there, the size of the payload does not depend on what follows.\<close>

lemma h4_payload_size_append:
  "h4_header_size (d ! 0) = Some h \<Longrightarrow> h \<le> length d \<Longrightarrow>
   h4_payload_size (d ! 0) (d @ e) = h4_payload_size (d ! 0) d"
  by (auto simp: h4_header_size_def h4_payload_size_def u16_at_def nth_append pkt_defs split: if_splits)

text \<open>The decoder as a case distinction on how far it gets.\<close>

lemma skw_h4_decode_cases:
  assumes "d \<noteq> []"
  obtains (no_type) "h4_header_size (d ! 0) = None"
      "skw_h4_decode d = (SKW_H4_INVALID, empty_frame\<lparr>h4_type := d ! 0\<rparr>)"
    | (no_header) h where "h4_header_size (d ! 0) = Some h" "length d < h"
      "skw_h4_decode d = (SKW_H4_INCOMPLETE, empty_frame\<lparr>h4_type := d ! 0, header_size := h\<rparr>)"
    | (no_size) h where "h4_header_size (d ! 0) = Some h" "h \<le> length d"
      "h4_payload_size (d ! 0) d = None"
      "skw_h4_decode d = (SKW_H4_INVALID, empty_frame\<lparr>h4_type := d ! 0, header_size := h\<rparr>)"
    | (sized) h p where "h4_header_size (d ! 0) = Some h" "h \<le> length d"
      "h4_payload_size (d ! 0) d = Some p"
      "skw_h4_decode d =
        (if h + p > SKW_H4_STREAM_CAPACITY then SKW_H4_INVALID
         else if length d < h + p then SKW_H4_INCOMPLETE else SKW_H4_COMPLETE,
         \<lparr>h4_type = d ! 0, header_size = h, payload_size = p, frame_size = h + p\<rparr>)"
proof (cases "h4_header_size (d ! 0)")
  case None
  then show thesis using assms no_type by (simp add: skw_h4_decode_def)
next
  case (Some h)
  show thesis
  proof (cases "length d < h")
    case True
    then show thesis using assms Some no_header by (simp add: skw_h4_decode_def)
  next
    case False
    then show thesis
      using assms Some no_size sized
      by (cases "h4_payload_size (d ! 0) d") (simp_all add: skw_h4_decode_def empty_frame_def)
  qed
qed

lemma decode_sized:
  assumes "d \<noteq> []" "h4_header_size (d ! 0) = Some h" "h \<le> length d" "h4_payload_size (d ! 0) d = Some p"
  shows "skw_h4_decode d =
        (if h + p > SKW_H4_STREAM_CAPACITY then SKW_H4_INVALID
         else if length d < h + p then SKW_H4_INCOMPLETE else SKW_H4_COMPLETE,
         \<lparr>h4_type = d ! 0, header_size = h, payload_size = p, frame_size = h + p\<rparr>)"
  using assms by (simp add: skw_h4_decode_def empty_frame_def)

lemma decode_type: "d \<noteq> [] \<Longrightarrow> h4_type (snd (skw_h4_decode d)) = d ! 0"
  by (erule skw_h4_decode_cases) simp_all

lemma decode_complete_size:
  "skw_h4_decode d = (SKW_H4_COMPLETE, f) \<Longrightarrow>
   3 \<le> frame_size f \<and> frame_size f \<le> length d \<and> frame_size f \<le> SKW_H4_STREAM_CAPACITY"
  by (cases "d = []", simp add: skw_h4_decode_def, erule skw_h4_decode_cases)
     (auto dest: h4_header_size_bound split: if_splits)

lemma decode_append:
  assumes "d \<noteq> []" "frame_size (snd (skw_h4_decode d)) \<noteq> 0 \<or> fst (skw_h4_decode d) = SKW_H4_INVALID"
  shows "snd (skw_h4_decode (d @ e)) = snd (skw_h4_decode d)"
    and "fst (skw_h4_decode d) \<noteq> SKW_H4_INCOMPLETE \<Longrightarrow> fst (skw_h4_decode (d @ e)) = fst (skw_h4_decode d)"
proof -
  have c: "(snd (skw_h4_decode (d @ e)) = snd (skw_h4_decode d)) \<and>
    (fst (skw_h4_decode d) \<noteq> SKW_H4_INCOMPLETE \<longrightarrow> fst (skw_h4_decode (d @ e)) = fst (skw_h4_decode d))"
    using assms(1)
  proof (cases rule: skw_h4_decode_cases)
    case no_type
    then show ?thesis using assms(1) by (simp add: skw_h4_decode_def nth_append)
  next
    case (no_header h)
    then show ?thesis using assms(2) by (simp add: empty_frame_def)
  next
    case (no_size h)
    then show ?thesis
      using assms(1) h4_payload_size_append [of d h e] by (simp add: skw_h4_decode_def nth_append)
  next
    case (sized h p)
    then have "h4_payload_size ((d @ e) ! 0) (d @ e) = Some p" "h4_header_size ((d @ e) ! 0) = Some h"
      using assms(1) h4_payload_size_append [of d h e] by (simp_all add: nth_append)
    then show ?thesis
      using decode_sized [of "d @ e" h p] sized assms(1) by (auto simp: nth_append)
  qed
  show "snd (skw_h4_decode (d @ e)) = snd (skw_h4_decode d)" using c by blast
  show "fst (skw_h4_decode d) \<noteq> SKW_H4_INCOMPLETE \<Longrightarrow> fst (skw_h4_decode (d @ e)) = fst (skw_h4_decode d)"
    using c by blast
qed

text \<open>A complete packet needs none of the bytes behind it.\<close>

lemma decode_take:
  assumes "skw_h4_decode d = (SKW_H4_COMPLETE, f)"
  shows "skw_h4_decode (take (frame_size f) d) = (SKW_H4_COMPLETE, f)"
proof -
  have d: "d \<noteq> []" using assms by (auto simp: skw_h4_decode_def)
  then show ?thesis
  proof (cases rule: skw_h4_decode_cases)
    case (sized h p)
    let ?t = "take (h + p) d"
    have f: "frame_size f = h + p" "h + p \<le> length d" "h + p \<le> SKW_H4_STREAM_CAPACITY"
      "f = \<lparr>h4_type = d ! 0, header_size = h, payload_size = p, frame_size = h + p\<rparr>"
      using sized(4) assms by (auto split: if_splits)
    have h: "3 \<le> h" using h4_header_size_bound [OF sized(1)] by simp
    have t: "?t ! 0 = d ! 0" "?t \<noteq> []" "h \<le> length ?t" using d h f(2) sized(2) by (simp_all add: min_def)
    have "h4_payload_size (?t ! 0) (?t @ drop (h + p) d) = h4_payload_size (?t ! 0) ?t"
      by (rule h4_payload_size_append [of _ h]) (use t sized(1) in simp_all)
    then have "h4_payload_size (?t ! 0) ?t = Some p" using sized(3) t(1) by simp
    from decode_sized [OF t(2) _ t(3) this] sized(1) t(1) f
    show ?thesis by simp
  qed (use assms in simp_all)
qed

lemma consume_complete:
  assumes "skw_h4_decode stream = (SKW_H4_COMPLETE, f)"
  shows "skw_h4_stream_consume stream (frame_size f) = Some (drop (frame_size f) stream)"
    "length (drop (frame_size f) stream) < length stream"
  using decode_complete_size [OF assms] by (auto simp: skw_h4_stream_consume_def)

lemma consumed_shorter:
  assumes "(status, f) = skw_h4_stream_next stream" "\<not> (status = SKW_H4_INVALID \<or> b)" "status \<noteq> SKW_H4_INCOMPLETE"
  shows "length (case skw_h4_stream_consume stream (frame_size f) of None \<Rightarrow> stream | Some s \<Rightarrow> s) < length stream"
proof -
  have "skw_h4_decode stream = (SKW_H4_COMPLETE, f)"
    using assms by (cases status) (simp_all add: skw_h4_stream_next_def)
  then show ?thesis using consume_complete by simp
qed

section \<open>The decoder as a framer\<close>

text \<open>
  A receiver accepts a packet by its type and size. It sees the size 0 as long as the
  header is not complete.
\<close>

definition h4_framer :: "(skw_h4_frame \<Rightarrow> bool) \<Rightarrow> bytes \<Rightarrow> framing" where
  "h4_framer accept xs =
     (case skw_h4_decode xs of (status, f) \<Rightarrow>
        if status = SKW_H4_INVALID \<or> \<not> accept f then Bad
        else if status = SKW_H4_INCOMPLETE then More
        else Frame (frame_size f))"

locale h4_policy =
  fixes accept :: "skw_h4_frame \<Rightarrow> bool"
  assumes accept_partial: "h4_type f = h4_type g \<Longrightarrow> frame_size g = 0 \<Longrightarrow> accept f \<Longrightarrow> accept g"
    and accept_fields: "h4_type f = h4_type g \<Longrightarrow> frame_size f = frame_size g \<Longrightarrow> accept f = accept g"
begin

lemma framer_Frame:
  "h4_framer accept xs = Frame n \<longleftrightarrow>
   (\<exists>f. skw_h4_decode xs = (SKW_H4_COMPLETE, f) \<and> accept f \<and> n = frame_size f)"
  by (cases "skw_h4_decode xs"; cases "fst (skw_h4_decode xs)")
     (auto simp: h4_framer_def)

lemma framer_stable: "h4_framer accept xs = Frame n \<Longrightarrow> h4_framer accept (xs @ ys) = Frame n"
proof -
  assume "h4_framer accept xs = Frame n"
  then obtain f where f: "skw_h4_decode xs = (SKW_H4_COMPLETE, f)" "accept f" "n = frame_size f"
    by (auto simp: framer_Frame)
  have "xs \<noteq> []" using f(1) by (auto simp: skw_h4_decode_def)
  then have "skw_h4_decode (xs @ ys) = (SKW_H4_COMPLETE, f)"
    using decode_append [of xs ys] f(1) decode_complete_size [OF f(1)] by (simp add: prod_eq_iff)
  with f show ?thesis by (simp add: framer_Frame)
qed

lemma framer_bad:
  assumes "xs \<noteq> []" "h4_framer accept xs = Bad"
  shows "h4_framer accept (xs @ ys) = Bad"
proof (cases "frame_size (snd (skw_h4_decode xs)) \<noteq> 0 \<or> fst (skw_h4_decode xs) = SKW_H4_INVALID")
  case True
  note a = decode_append [OF assms(1) True, of ys]
  show ?thesis
  proof (cases "fst (skw_h4_decode xs) = SKW_H4_INVALID")
    case True
    then show ?thesis using a by (simp add: h4_framer_def case_prod_beta)
  next
    case False
    then have "\<not> accept (snd (skw_h4_decode xs))"
      using assms(2) by (auto simp: h4_framer_def split: prod.splits if_splits)
    then show ?thesis using a by (simp add: h4_framer_def case_prod_beta)
  qed
next
  case False
  then have "\<not> accept (snd (skw_h4_decode xs))"
    using assms(2) by (auto simp: h4_framer_def split: prod.splits if_splits)
  moreover have "h4_type (snd (skw_h4_decode (xs @ ys))) = h4_type (snd (skw_h4_decode xs))"
    using assms(1) by (simp add: decode_type nth_append)
  ultimately have "\<not> accept (snd (skw_h4_decode (xs @ ys)))"
    using accept_partial False by blast
  then show ?thesis by (simp add: h4_framer_def case_prod_beta)
qed

end

sublocale h4_policy \<subseteq> packets: stream_framer "h4_framer accept"
proof unfold_locales
  fix xs ys n
  assume f: "h4_framer accept xs = Frame n"
  then show "0 < n \<and> n \<le> length xs" using decode_complete_size by (fastforce simp: framer_Frame)
  show "h4_framer accept (xs @ ys) = Frame n" by (rule framer_stable [OF f])
  show "h4_framer accept (take n xs) = Frame n" using f decode_take by (fastforce simp: framer_Frame)
qed (rule framer_bad)

text \<open>The receiver that accepts whatever the decoder accepts.\<close>

interpretation any_h4: h4_policy "\<lambda>_. True"
  by unfold_locales simp_all

text \<open>
  A receiver with a check of its own takes a first part of the packets in a stream that
  another one let through.
\<close>

context h4_policy
begin

lemma frame_any: "h4_framer accept f = Frame n \<Longrightarrow> h4_framer (\<lambda>_. True) f = Frame n"
  by (auto simp: framer_Frame any_h4.framer_Frame)

lemma packets_part:
  assumes "\<And>f. f \<in> set frames \<Longrightarrow> h4_framer (\<lambda>_. True) f = Frame (length f)" "concat frames = xs @ ys"
    and "unframe (h4_framer accept) xs = (fs, rest, ok)"
  shows "\<exists>gs. frames = fs @ gs"
proof -
  obtain gs r ok' where r: "unframe (h4_framer (\<lambda>_. True)) rest = (gs, r, ok')"
    by (cases "unframe (h4_framer (\<lambda>_. True)) rest") auto
  have "h4_framer (\<lambda>_. True) f = Frame (length f)" if "f \<in> set fs" for f
    by (rule frame_any [OF packets.unframe_frames [OF assms(3) that]])
  then have "unframe (h4_framer (\<lambda>_. True)) xs = (fs @ gs, r, ok')"
    using any_h4.packets.unframe_concat [of fs rest] packets.unframe_parts [OF assms(3)] r by simp
  from any_h4.packets.unframe_part(2) [OF assms(1,2) this] show ?thesis by auto
qed

end

section \<open>The packets\<close>

text \<open>What a packet of each type looks like: a specification without offsets and masks.\<close>

definition le16 :: "nat \<Rightarrow> bytes" where
  "le16 n = [of_nat n, of_nat (n div 256)]"

definition h4_packet :: "bytes \<Rightarrow> bool" where
  "h4_packet d \<longleftrightarrow>
     (\<exists>t a b p. t \<in> {SKW_H4_COMMAND_PKT, SKW_H4_SCO_PKT} \<and> length p < 256 \<and>
        d = [t, a, b, of_nat (length p)] @ p) \<or>
     (\<exists>c p. length p < 256 \<and> d = [SKW_H4_EVENT_PKT, c, of_nat (length p)] @ p) \<or>
     (\<exists>a b p. length p \<le> 4091 \<and> d = [SKW_H4_ACL_PKT, a, b] @ le16 (length p) @ p) \<or>
     (\<exists>a b p r. length p \<le> 4091 \<and> r < 3 \<and>
        d = [SKW_H4_ISO_PKT, a, b] @ le16 (length p + 16384 * r) @ p) \<or>
     (\<exists>a p. length p \<le> 4092 \<and> d = [SKW_H4_LOG_PKT, a] @ le16 (length p) @ p)"

lemma unat_u16_at: "unat (u16_at d i) = unat (d ! i) + 256 * unat (d ! (i + 1))"
proof -
  let ?a = "ucast (d ! i) :: u16" and ?b = "ucast (d ! (i + 1)) :: u16"
  have "?a AND push_bit 8 ?b = 0"
    by (rule bit_word_eqI) (auto simp: bit_simps dest!: bit_imp_le_length)
  then have "u16_at d i = ?a + push_bit 8 ?b"
    by (simp add: u16_at_def disjunctive_add_eq_or)
  moreover have "unat (d ! i) < 256" "unat (d ! (i + 1)) < 256"
    using unsigned_less [of "d ! i"] unsigned_less [of "d ! (i + 1)"] by simp_all
  ultimately show ?thesis
    by (simp add: unat_word_ariths push_bit_eq_mult unsigned_ucast_eq take_bit_nat_def)
qed

lemma le16_value:
  assumes "n < 65536"
  shows "unat (of_nat n :: u8) + 256 * unat (of_nat (n div 256) :: u8) = n"
  using assms by (simp add: unat_of_nat take_bit_nat_def)

lemma u16_at_le16:
  assumes "n < 65536" "length h = i"
  shows "unat (u16_at (h @ le16 n @ p) i) = n"
  using le16_value [OF assms(1)] assms(2) by (simp add: unat_u16_at le16_def nth_append)


lemma u16_top: "drop_bit 14 (v :: u16) = 3 \<longleftrightarrow> 49152 \<le> unat v"
proof -
  have "unat (drop_bit 14 v) = drop_bit 14 (unat v)" by (rule unat_drop_bit_eq)
  also have "\<dots> = unat v div 16384" by (simp add: drop_bit_eq_div)
  finally have "unat (drop_bit 14 v) = unat v div 16384" .
  moreover have "drop_bit 14 v = 3 \<longleftrightarrow> unat (drop_bit 14 v) = 3" by (simp add: word_unat_eq_iff)
  moreover have "unat v < 65536" using unsigned_less [of v] by simp
  ultimately show ?thesis by auto
qed

lemma u16_low: "unat ((v :: u16) AND 0x3fff) = unat v mod 16384"
proof -
  have "(v AND 0x3fff) = take_bit 14 v" by (simp add: take_bit_eq_mask mask_eq_exp_minus_1)
  then show ?thesis by (simp add: unsigned_take_bit_eq take_bit_nat_def)
qed

lemma le16_of_bytes:
  fixes a b :: u8
  shows "le16 (unat a + 256 * unat b) = [a, b]"
proof -
  have "unat a < 256" "unat b < 256" using unsigned_less [of a] unsigned_less [of b] by simp_all
  then have "(unat a + 256 * unat b) mod 256 = unat a" "(unat a + 256 * unat b) div 256 = unat b" by simp_all
  then show ?thesis
    using \<open>unat b < 256\<close>
    by (simp only: le16_def word_unat_eq_iff unat_of_nat take_bit_nat_def list.inject) simp
qed

lemma h4_packet_complete:
  assumes "h4_packet d"
  shows "\<exists>f. skw_h4_decode d = (SKW_H4_COMPLETE, f) \<and> frame_size f = length d"
proof -
  have ok: "\<exists>f. skw_h4_decode d = (SKW_H4_COMPLETE, f) \<and> frame_size f = length d"
    if "h4_header_size (d ! 0) = Some h" "length d = h + p" "h4_payload_size (d ! 0) d = Some p"
      "h + p \<le> SKW_H4_STREAM_CAPACITY" for h p
  proof -
    have "d \<noteq> []" using that(2) h4_header_size_bound [OF that(1)] by auto
    from decode_sized [OF this that(1) _ that(3)] that(2,4) show ?thesis by simp
  qed
  from assms show ?thesis
    unfolding h4_packet_def
  proof (elim disjE exE conjE, goal_cases)
    case (1 t a b p)
    have "unat (of_nat (length p) :: u8) = length p" using 1(2) by (simp add: unat_of_nat take_bit_nat_def)
    then show ?case
      using 1 by (intro ok [of 4 "length p"])
        (auto simp: h4_header_size_def h4_payload_size_def pkt_defs SKW_H4_STREAM_CAPACITY_def)
  next
    case (2 c p)
    have "unat (of_nat (length p) :: u8) = length p" using 2(1) by (simp add: unat_of_nat take_bit_nat_def)
    then show ?case
      using 2 by (intro ok [of 3 "length p"])
        (auto simp: h4_header_size_def h4_payload_size_def pkt_defs SKW_H4_STREAM_CAPACITY_def)
  next
    case (3 a b p)
    have "unat (u16_at d 3) = length p"
      using u16_at_le16 [of "length p" "[SKW_H4_ACL_PKT, a, b]" 3 p] 3 by simp
    then show ?case
      using 3 by (intro ok [of 5 "length p"])
        (auto simp: h4_header_size_def h4_payload_size_def pkt_defs SKW_H4_STREAM_CAPACITY_def le16_def)
  next
    case (4 a b p r)
    have v: "unat (u16_at d 3) = length p + 16384 * r"
      using u16_at_le16 [of "length p + 16384 * r" "[SKW_H4_ISO_PKT, a, b]" 3 p] 4 by simp
    then have "unat (u16_at d 3) < 49152" "unat (u16_at d 3) mod 16384 = length p"
      using 4(1,2) by simp_all
    then show ?case
      using 4 v by (intro ok [of 5 "length p"])
        (auto simp: h4_header_size_def h4_payload_size_def pkt_defs SKW_H4_STREAM_CAPACITY_def le16_def
          u16_top u16_low Let_def)
  next
    case (5 a p)
    have "unat (u16_at d 2) = length p"
      using u16_at_le16 [of "length p" "[SKW_H4_LOG_PKT, a]" 2 p] 5 by simp
    then show ?case
      using 5 by (intro ok [of 4 "length p"])
        (auto simp: h4_header_size_def h4_payload_size_def pkt_defs SKW_H4_STREAM_CAPACITY_def le16_def)
  qed
qed


lemma header_split:
  "3 \<le> length d \<Longrightarrow> d = [d ! 0, d ! 1, d ! 2] @ drop 3 d"
  "4 \<le> length d \<Longrightarrow> d = [d ! 0, d ! 1, d ! 2, d ! 3] @ drop 4 d"
  "5 \<le> length d \<Longrightarrow> d = [d ! 0, d ! 1, d ! 2, d ! 3, d ! 4] @ drop 5 d"
  by (auto simp: numeral_eq_Suc Suc_le_length_iff)

lemma sized_packet:
  assumes "h4_header_size t = Some h" "h4_payload_size t d = Some p"
  shows "t \<in> {SKW_H4_COMMAND_PKT, SKW_H4_SCO_PKT} \<and> h = 4 \<and> p = unat (d ! 3) \<or>
    t = SKW_H4_EVENT_PKT \<and> h = 3 \<and> p = unat (d ! 2) \<or>
    t = SKW_H4_ACL_PKT \<and> h = 5 \<and> p = unat (u16_at d 3) \<or>
    t = SKW_H4_ISO_PKT \<and> h = 5 \<and> unat (u16_at d 3) < 49152 \<and> p = unat (u16_at d 3) mod 16384 \<or>
    t = SKW_H4_LOG_PKT \<and> h = 4 \<and> p = unat (u16_at d 2)"
proof -
  have "t \<in> {SKW_H4_COMMAND_PKT, SKW_H4_SCO_PKT, SKW_H4_EVENT_PKT, SKW_H4_ACL_PKT, SKW_H4_ISO_PKT, SKW_H4_LOG_PKT}"
    using assms(1) by (auto simp: h4_header_size_def split: if_splits)
  then show ?thesis
    using assms
    by (elim insertE emptyE)
       (simp_all add: h4_header_size_def h4_payload_size_def pkt_defs Let_def u16_low u16_top not_le
         split: if_splits)
qed

lemma complete_h4_packet:
  assumes "skw_h4_decode d = (SKW_H4_COMPLETE, f)" "frame_size f = length d"
  shows "h4_packet d"
proof -
  have "d \<noteq> []" using assms(1) by (auto simp: skw_h4_decode_def)
  then show ?thesis
  proof (cases rule: skw_h4_decode_cases)
    case (sized h p)
    have l: "length d = h + p" "h + p \<le> 4096"
      using sized(4) assms by (auto simp: SKW_H4_STREAM_CAPACITY_def split: if_splits)
    consider "d ! 0 \<in> {SKW_H4_COMMAND_PKT, SKW_H4_SCO_PKT}" "h = 4" "p = unat (d ! 3)"
      | "d ! 0 = SKW_H4_EVENT_PKT" "h = 3" "p = unat (d ! 2)"
      | "d ! 0 = SKW_H4_ACL_PKT" "h = 5" "p = unat (u16_at d 3)"
      | "d ! 0 = SKW_H4_ISO_PKT" "h = 5" "unat (u16_at d 3) < 49152" "p = unat (u16_at d 3) mod 16384"
      | "d ! 0 = SKW_H4_LOG_PKT" "h = 4" "p = unat (u16_at d 2)"
      using sized_packet [OF sized(1,3)] by metis
    then show ?thesis
    proof cases
      case 1
      have "d = [d ! 0, d ! 1, d ! 2, of_nat (length (drop 4 d))] @ drop 4 d"
        using header_split(2) [of d] l(1) 1 by simp
      moreover have "length (drop 4 d) < 256" using l(1) 1 unsigned_less [of "d ! 3"] by simp
      ultimately show ?thesis unfolding h4_packet_def using 1(1) by blast
    next
      case 2
      have "d = [SKW_H4_EVENT_PKT, d ! 1, of_nat (length (drop 3 d))] @ drop 3 d"
        using header_split(1) [of d] l(1) 2 by simp
      moreover have "length (drop 3 d) < 256" using l(1) 2 unsigned_less [of "d ! 2"] by simp
      ultimately show ?thesis unfolding h4_packet_def by blast
    next
      case 3
      have "le16 (length (drop 5 d)) = [d ! 3, d ! 4]"
        using l(1) 3 le16_of_bytes [of "d ! 3" "d ! 4"] by (simp add: unat_u16_at)
      then have "d = [SKW_H4_ACL_PKT, d ! 1, d ! 2] @ le16 (length (drop 5 d)) @ drop 5 d"
        using header_split(3) [of d] l(1) 3 by simp
      moreover have "length (drop 5 d) \<le> 4091" using l 3 by simp
      ultimately show ?thesis unfolding h4_packet_def by blast
    next
      case 4
      define r where "r = unat (u16_at d 3) div 16384"
      have "length (drop 5 d) + 16384 * r = unat (u16_at d 3)" using l(1) 4 by (simp add: r_def)
      then have "le16 (length (drop 5 d) + 16384 * r) = [d ! 3, d ! 4]"
        using le16_of_bytes [of "d ! 3" "d ! 4"] by (simp add: unat_u16_at)
      then have "d = [SKW_H4_ISO_PKT, d ! 1, d ! 2] @ le16 (length (drop 5 d) + 16384 * r) @ drop 5 d"
        using header_split(3) [of d] l(1) 4 by simp
      moreover have "length (drop 5 d) \<le> 4091" "r < 3" using l 4 by (simp_all add: r_def less_mult_imp_div_less)
      ultimately show ?thesis unfolding h4_packet_def by blast
    next
      case 5
      have "le16 (length (drop 4 d)) = [d ! 2, d ! 3]"
        using l(1) 5 le16_of_bytes [of "d ! 2" "d ! 3"] by (simp add: unat_u16_at)
      then have "d = [SKW_H4_LOG_PKT, d ! 1] @ le16 (length (drop 4 d)) @ drop 4 d"
        using header_split(2) [of d] l(1) 5 by simp
      moreover have "length (drop 4 d) \<le> 4092" using l 5 by simp
      ultimately show ?thesis unfolding h4_packet_def by blast
    qed
  qed (use assms in simp_all)
qed

section \<open>Properties\<close>

text \<open>
  C33: The decoder recognises exactly the packets: it reports a complete frame of the
  buffer's whole length if and only if the buffer is a command, SCO, event, ACL, ISO or log
  packet whose length field (8 bits, 16 bits, or 14 bits with flags other than 3) is the
  length of its payload and which fits the stream's 4096 bytes.
\<close>

theorem decode_exact:
  "(\<exists>f. skw_h4_decode d = (SKW_H4_COMPLETE, f) \<and> frame_size f = length d) \<longleftrightarrow> h4_packet d"
  using h4_packet_complete complete_h4_packet by blast



end
