(* ===== verification/Bridge_Io.thy ===== *)
theory Bridge_Io
  imports Os_Script Skw_H4
begin

text \<open>
  The input and output routines of the vHCI bridge
  (\<^verbatim>\<open>boards/s905x5m/userland/skw_bridge/skw_vhci_bridge.c\<close>): the signal pipe, complete
  writes with their waits, one frame per write to the kernel, timed reads, and the address
  file's parser.

  A routine returns \<open>None\<close> while it is blocked in a call. A returned \<open>False\<close> or inner
  \<open>None\<close> is the code's -1. \<open>errno\<close> is kept as far as it selects a branch; the values the
  code leaves in it for a message are not.
\<close>

section \<open>The signal pipe\<close>

text \<open>The read loop of \<open>consume_signal_request\<close>.\<close>

function drain_signals :: "bool \<Rightarrow> world \<Rightarrow> (bool \<times> world) option" where
  "drain_signals requested w = do {
     (r, w) \<leftarrow> sys_read (signal_fd w) 32 w;
     case r of
       Inr bs \<Rightarrow> if bs \<noteq> [] then drain_signals True w else Some (requested, w)
     | Inl e \<Rightarrow> if e = EINTR then drain_signals requested w else Some (requested, w)
   }"
  by pat_completeness auto
termination
  by (relation "inv_image {(w', w). shorter w w'} snd")
     (auto intro!: script_wf dest: call_progress)

declare drain_signals.simps [simp del]

definition consume_signal_request :: "world \<Rightarrow> (bool \<times> world) option" where
  "consume_signal_request w =
     (if signal_fd w < 0 then Some (False, w)
      else do {
        (requested, w) \<leftarrow> drain_signals False w;
        Some (requested, if requested then request_shutdown False w else w)
      })"

lemma post_drain_signals:
  "post (drain_signals requested w) (\<lambda>r w'. shorter w w' \<and> looks w w')"
proof (induction w arbitrary: requested rule: script_induct)
  case (less w)
  have again: "post (drain_signals q v) (\<lambda>r w'. shorter w w' \<and> looks w w')"
    if "shorter w v" "looks w v" for q v
    by (rule post_mono [OF less [OF that(1)]]) (use that shorter_trans looks_trans in blast)
  show ?case
    by (subst drain_signals.simps, rule post_bind [OF post_sys_read])
       (auto split: sum.splits intro!: again dest: takes_signal)
qed


lemma post_consume:
  "post (consume_signal_request w) (\<lambda>r w'. looks w w' \<and> (r \<longrightarrow> \<not> running w'))"
  unfolding consume_signal_request_def
  by (auto intro!: post_bind [OF post_drain_signals] intro: looks_trans [OF _ looks_shutdown])

lemma post_consume_from:
  "shorter w u \<Longrightarrow> looks w u \<Longrightarrow>
   post (consume_signal_request u) (\<lambda>r v. shorter w v \<and> looks w v \<and> (r \<longrightarrow> \<not> running v))"
  by (rule post_mono [OF post_consume]) (use shorter_later looks_later looks_trans in blast)

lemma consume_later [call_progress]: "consume_signal_request w = Some (r, w') \<Longrightarrow> later w w'"
  using postD [OF post_consume] looks_later by blast

section \<open>Writes\<close>

text \<open>\<open>wait_writable\<close>: polls the descriptor and the signal pipe until the first accepts bytes.\<close>

function wait_writable :: "int \<Rightarrow> world \<Rightarrow> (bool \<times> world) option" where
  "wait_writable fd w = do {
     (ready, w) \<leftarrow> sys_poll 2 w;
     case ready of
       Inl e \<Rightarrow>
         if e = EINTR then do {
           (_, w) \<leftarrow> consume_signal_request w;
           if \<not> running w then Some (False, w) else wait_writable fd w
         }
         else Some (False, w)
     | Inr revents \<Rightarrow> do {
         (_, w) \<leftarrow> (if revents ! 1 \<noteq> [] then consume_signal_request w else Some (False, w));
         if \<not> running w then Some (False, w)
         else if set (revents ! 0) \<inter> {POLLERR, POLLHUP, POLLNVAL} \<noteq> {} then Some (False, w)
         else if POLLOUT \<in> set (revents ! 0) then Some (True, w)
         else wait_writable fd w
       }
   }"
  by pat_completeness auto
termination
  by (relation "inv_image {(w', w). shorter w w'} snd")
     (auto intro!: script_wf dest: call_progress intro: shorter_later split: if_splits)

declare wait_writable.simps [simp del]

lemma post_wait_writable:
  "post (wait_writable fd w) (\<lambda>r w'. shorter w w' \<and> looks w w' \<and> (r \<longrightarrow> running w'))"
proof (induction w rule: script_induct)
  case (less w)
  have again: "post (wait_writable fd v) (\<lambda>r w'. shorter w w' \<and> looks w w' \<and> (r \<longrightarrow> running w'))"
    if "shorter w v" "looks w v" for v
    by (rule post_mono [OF less [OF that(1)]]) (use that shorter_trans looks_trans in blast)
  show ?case
    by (subst wait_writable.simps, rule post_bind [OF post_sys_poll])
       (auto split: sum.splits intro!: post_bind [OF post_consume_from] again)
qed

lemma post_wait_writable_from:
  "shorter w u \<Longrightarrow> looks w u \<Longrightarrow>
   post (wait_writable fd u) (\<lambda>r v. shorter w v \<and> looks w v \<and> (r \<longrightarrow> running v))"
  by (rule post_mono [OF post_wait_writable]) (use shorter_trans looks_trans in blast)

lemma wait_writable_later [call_progress]: "wait_writable fd w = Some (r, w') \<Longrightarrow> later w w'"
  using postD [OF post_wait_writable] looks_later by blast

function write_all :: "int \<Rightarrow> bytes \<Rightarrow> nat \<Rightarrow> world \<Rightarrow> (bool \<times> world) option" where
  "write_all fd buf off w =
     (if off < length buf then do {
        (n, w) \<leftarrow> sys_write fd (drop off buf) w;
        case n of
          Inr n \<Rightarrow> if n > 0 then write_all fd buf (off + n) w else Some (False, w)
        | Inl e \<Rightarrow>
            if e = EINTR then do {
              (_, w) \<leftarrow> consume_signal_request w;
              if \<not> running w then Some (False, w) else write_all fd buf off w
            }
            else if e = EAGAIN then do {
              (ok, w) \<leftarrow> wait_writable fd w;
              if ok then write_all fd buf off w else Some (False, w)
            }
            else Some (False, w)
      }
      else Some (True, w))"
  by pat_completeness auto
termination
  by (relation "inv_image {(w', w). shorter w w'} (\<lambda>(_, _, _, w). w)")
     (auto intro!: script_wf dest: call_progress
       intro: shorter_later)

declare write_all.simps [simp del]

text \<open>
  \<open>write_all\<close> sends a prefix of what is left, and all of it when it succeeds.
\<close>

lemma post_write_all:
  "off \<le> length buf \<Longrightarrow>
   post (write_all fd buf off w) (\<lambda>ok w'. \<exists>n \<le> length buf - off.
     puts fd (take n (drop off buf)) w w' \<and> (ok \<longleftrightarrow> n = length buf - off))"
proof (induction w arbitrary: off rule: script_induct)
  case (less w)
  let ?P = "\<lambda>off w ok w'. \<exists>n \<le> length buf - off.
     puts fd (take n (drop off buf)) w w' \<and> (ok \<longleftrightarrow> n = length buf - off)"
  have again: "post (write_all fd buf off v) (?P off w)"
    if "shorter w v" "looks w v" for v
    by (rule post_mono [OF less.IH [OF that(1) less.prems]]) (use that looks_puts in blast)
  have more: "post (write_all fd buf (off + n) v) (?P off w)"
    if "shorter w v" "n \<le> length buf - off" "puts fd (take n (drop off buf)) w v" for n v
  proof (rule post_mono [OF less.IH [OF that(1)]])
    show "off + n \<le> length buf" using that(2) less.prems by simp
    fix ok w'
    assume "?P (off + n) v ok w'"
    then obtain m where m: "m \<le> length buf - (off + n)" "puts fd (take m (drop (off + n) buf)) v w'"
      "ok \<longleftrightarrow> m = length buf - (off + n)" by blast
    have "take (n + m) (drop off buf) = take n (drop off buf) @ take m (drop (off + n) buf)"
      by (simp add: take_add add.commute [of n off])
    with puts_trans [OF that(3) m(2)] m(1,3) that(2)
    show "?P off w ok w'" by (intro exI [of _ "n + m"]) auto
  qed
  have stop: "\<exists>n \<le> length buf - off. puts fd (take n (drop off buf)) w v \<and> n \<noteq> length buf - off" if "off < length buf" "puts fd [] w v" for v
    using that by (intro exI [of _ 0]) simp
  show ?case
  proof (cases "off < length buf")
    case True
    show ?thesis
      using True
      by (subst write_all.simps, simp, intro post_bind [OF post_sys_write])
         (auto split: sum.splits intro!: post_bind [OF post_consume_from] post_bind [OF post_wait_writable_from]
           more again stop intro: looks_puts_Nil)
  next
    case False
    then show ?thesis using less.prems by (subst write_all.simps) (auto intro: exI [of _ 0])
  qed
qed


text \<open>\<open>write_vhci_frame\<close>: the whole frame in one write, or an error.\<close>

function write_vhci_frame :: "int \<Rightarrow> bytes \<Rightarrow> world \<Rightarrow> (bool \<times> world) option" where
  "write_vhci_frame fd buf w = do {
     (n, w) \<leftarrow> sys_write fd buf w;
     case n of
       Inr n \<Rightarrow> Some (n = length buf, w)
     | Inl e \<Rightarrow>
         if e = EINTR then do {
           (_, w) \<leftarrow> consume_signal_request w;
           if \<not> running w then Some (False, w) else write_vhci_frame fd buf w
         }
         else if e = EAGAIN then do {
           (ok, w) \<leftarrow> wait_writable fd w;
           if ok then write_vhci_frame fd buf w else Some (False, w)
         }
         else Some (False, w)
   }"
  by pat_completeness auto
termination
  by (relation "inv_image {(w', w). shorter w w'} (\<lambda>(_, _, w). w)")
     (auto intro!: script_wf dest: call_progress
       intro: shorter_later)

declare write_vhci_frame.simps [simp del]

text \<open>What one \<open>write_vhci_frame\<close> leaves on the descriptor: nothing, or one write of the frame.\<close>

definition one_write :: "int \<Rightarrow> bytes \<Rightarrow> world \<Rightarrow> world \<Rightarrow> bool" where
  "one_write fd b w w' \<longleftrightarrow> later w w' \<and> written w' = written w @ [(fd, b)] \<and>
     (\<forall>fd. fd \<noteq> signal_fd w \<longrightarrow> read_from fd w' = read_from fd w)"

lemma looks_one_write: "looks u v \<Longrightarrow> one_write fd b v w \<Longrightarrow> one_write fd b u w"
  by (auto simp: one_write_def looks_def later_signal_fd intro: later_trans)

lemma post_write_vhci_frame:
  "post (write_vhci_frame fd buf w) (\<lambda>ok w'. shorter w w' \<and>
     (ok \<longrightarrow> one_write fd buf w w') \<and>
     (\<not> ok \<longrightarrow> looks w w' \<or> (\<exists>n < length buf. one_write fd (take n buf) w w')))"
proof (induction w rule: script_induct)
  case (less w)
  let ?P = "\<lambda>w ok w'. shorter w w' \<and> (ok \<longrightarrow> one_write fd buf w w') \<and>
     (\<not> ok \<longrightarrow> looks w w' \<or> (\<exists>n < length buf. one_write fd (take n buf) w w'))"
  have again: "post (write_vhci_frame fd buf v) (?P w)" if "shorter w v" "looks w v" for v
    by (rule post_mono [OF less [OF that(1)]])
       (use that shorter_trans looks_trans looks_one_write in blast)
  have wr: "one_write fd b w v" if "later w v" "readlog v = readlog w" "written v = written w @ [(fd, b)]" for b v
    using that by (simp add: one_write_def read_from_def)
  show ?case
    by (subst write_vhci_frame.simps, rule post_bind [OF post_sys_write])
       (auto split: sum.splits dest: wr intro!: post_bind [OF post_consume_from]
         post_bind [OF post_wait_writable_from] again)
qed


section \<open>The address file\<close>

abbreviation (input) BD_ADDR_LEN :: nat where "BD_ADDR_LEN \<equiv> 6"

definition hex_nibble :: "u8 \<Rightarrow> int" where
  "hex_nibble ch =
     (if of_char (CHR ''0'') \<le> ch \<and> ch \<le> of_char (CHR ''9'') then uint (ch - of_char (CHR ''0''))
      else if of_char (CHR ''a'') \<le> ch \<and> ch \<le> of_char (CHR ''f'') then uint (ch - of_char (CHR ''a'')) + 10
      else if of_char (CHR ''A'') \<le> ch \<and> ch \<le> of_char (CHR ''F'') then uint (ch - of_char (CHR ''A'')) + 10
      else -1)"

text \<open>The loop over the six bytes: \<open>n\<close> of them are left, \<open>i\<close> is the next one's index.\<close>

primrec bdaddr_display :: "nat \<Rightarrow> nat \<Rightarrow> bytes \<Rightarrow> bytes option" where
  "bdaddr_display 0 i text = Some []"
| "bdaddr_display (Suc n) i text =
     (let pos = i * 3; high = hex_nibble (text ! pos); low = hex_nibble (text ! (pos + 1)) in
      if high < 0 \<or> low < 0 then None
      else if i < BD_ADDR_LEN - 1 \<and> text ! (pos + 2) \<noteq> of_char (CHR '':'') then None
      else map_option ((#) (word_of_int (push_bit 4 high OR low))) (bdaddr_display n (i + 1) text))"

text \<open>The text is a C string; \<open>None\<close> stands for the null pointer.\<close>

definition parse_bdaddr_text :: "bytes option \<Rightarrow> bytes option" where
  "parse_bdaddr_text text =
     (case text of
        None \<Rightarrow> None
      | Some text \<Rightarrow>
          (if length (takeWhile (\<lambda>c. c \<noteq> 13 \<and> c \<noteq> 10) text) \<noteq> 17 then None
           else case bdaddr_display BD_ADDR_LEN 0 text of
             None \<Rightarrow> None
           | Some display \<Rightarrow>
               if \<exists>c\<in>set (drop 17 text). c \<noteq> 10 \<and> c \<noteq> 13 then None
               else if list_all (\<lambda>b. b = 0) display \<or> list_all (\<lambda>b. b = 0xff) display then None
               else Some (rev display)))"

text \<open>
  \<open>read_bdaddr_file\<close> on the contents of the file (\<open>None\<close>: it cannot be opened or read):
  \<open>fgets\<close> takes a line of at most 63 bytes, \<open>fgetc\<close> must then be at the end.
\<close>

definition fgets :: "nat \<Rightarrow> bytes \<Rightarrow> (bytes \<times> bytes) option" where
  "fgets limit content =
     (if content = [] then None
      else let n = min (limit - 1) (Suc (length (takeWhile (\<lambda>c. c \<noteq> 10) content)))
        in Some (take n content, drop n content))"

definition read_bdaddr_file :: "bytes option \<Rightarrow> bytes option" where
  "read_bdaddr_file file = do {
     content \<leftarrow> file;
     (text, rest) \<leftarrow> fgets 64 content;
     if rest \<noteq> [] then None else parse_bdaddr_text (Some (cstr text))
   }"

text \<open>The form of an address, as the file holds it: most significant byte first.\<close>

definition hex_upper :: "nat \<Rightarrow> u8" where
  "hex_upper n = (if n < 10 then of_nat (48 + n) else of_nat (55 + n))"

definition byte_text :: "u8 \<Rightarrow> bytes" where
  "byte_text b = [hex_upper (unat b div 16), hex_upper (unat b mod 16)]"

fun colon_separated :: "bytes list \<Rightarrow> bytes" where
  "colon_separated [] = []"
| "colon_separated [x] = x"
| "colon_separated (x # xs) = x @ 58 # colon_separated xs"

definition bdaddr_text :: "bytes \<Rightarrow> bytes" where
  "bdaddr_text addr = colon_separated (map byte_text (rev addr))"

definition upper :: "u8 \<Rightarrow> u8" where
  "upper c = (if 97 \<le> c \<and> c \<le> 102 then c - 32 else c)"

definition usable_bdaddr :: "bytes \<Rightarrow> bool" where
  "usable_bdaddr addr \<longleftrightarrow> length addr = 6 \<and> addr \<noteq> replicate 6 0 \<and> addr \<noteq> replicate 6 0xff"

lemma nibble_hex_upper:
  assumes "n < 16"
  shows "hex_nibble (hex_upper n) = int n" "hex_upper n \<noteq> 10" "hex_upper n \<noteq> 13"
proof -
  have "list_all (\<lambda>n. hex_nibble (hex_upper n) = int n \<and> hex_upper n \<noteq> 10 \<and> hex_upper n \<noteq> 13) [0..<16]"
    by code_simp
  with assms show "hex_nibble (hex_upper n) = int n" "hex_upper n \<noteq> 10" "hex_upper n \<noteq> 13"
    by (simp_all add: list_all_iff)
qed

lemma hex_nibble_upper:
  assumes "0 \<le> hex_nibble c"
  shows "hex_nibble c < 16" "hex_upper (nat (hex_nibble c)) = upper c"
proof -
  let ?P = "\<lambda>c. hex_nibble c < 16 \<and> hex_upper (nat (hex_nibble c)) = upper c"
  have p: "list_all ?P (map of_nat [unat (48 :: u8)..<Suc (unat (57 :: u8))])"
    "list_all ?P (map of_nat [unat (97 :: u8)..<Suc (unat (102 :: u8))])"
    "list_all ?P (map of_nat [unat (65 :: u8)..<Suc (unat (70 :: u8))])"
    by code_simp+
  have "48 \<le> c \<and> c \<le> 57 \<or> 97 \<le> c \<and> c \<le> 102 \<or> 65 \<le> c \<and> c \<le> 70"
    using assms by (auto simp: hex_nibble_def split: if_splits)
  then have "?P c" using range_bytes [OF p(1)] range_bytes [OF p(2)] range_bytes [OF p(3)] by blast
  then show "hex_nibble c < 16" "hex_upper (nat (hex_nibble c)) = upper c" by simp_all
qed

lemma byte_nibbles:
  "word_of_int (push_bit 4 (int (unat (b :: u8) div 16)) OR int (unat b mod 16)) = b"
  by (simp only: nibbles_nat) simp

lemma nibbles_byte:
  assumes "0 \<le> h" "h < 16" "0 \<le> l" "l < 16"
  shows "byte_text (word_of_int (push_bit 4 h OR l)) = [hex_upper (nat h), hex_upper (nat l)]"
proof -
  have u: "unat (word_of_int (push_bit 4 h OR l) :: u8) = 16 * nat h + nat l"
  proof -
    have "unat (word_of_int (16 * h + l) :: u8) = nat (16 * h + l)"
      by (rule unat_small_int) (use assms in simp_all)
    then show ?thesis
      unfolding nibbles_or [OF assms(3,4)] using assms by (simp only: nat_add_distrib nat_mult_distrib) simp
  qed
  have "nat l < 16" using assms by simp
  then have "(16 * nat h + nat l) div 16 = nat h" "(16 * nat h + nat l) mod 16 = nat l" by simp_all
  then show ?thesis by (simp add: byte_text_def u)
qed

lemma bdaddr_text_6:
  assumes "length addr = 6"
  obtains a b c d e f where "addr = [a, b, c, d, e, f]"
  using assms by (auto simp: numeral_eq_Suc length_Suc_conv)

lemma bdaddr_display_step:
  assumes "text ! (i * 3) = hex_upper (unat b div 16)" "text ! (i * 3 + 1) = hex_upper (unat b mod 16)"
    and "i < 5 \<Longrightarrow> text ! (i * 3 + 2) = 58"
  shows "bdaddr_display (Suc n) i text = map_option ((#) b) (bdaddr_display n (i + 1) text)"
proof -
  have "unat b div 16 < 16" by (rule u8_div_16)
  then show ?thesis
    using assms byte_nibbles [of b] by (cases "i < 5") (simp_all add: nibble_hex_upper Let_def)
qed

lemma bdaddr_display_text:
  "bdaddr_display 6 0 (bdaddr_text [a, b, c, d, e, f] @ eol) = Some [f, e, d, c, b, a]"
proof -
  let ?t = "bdaddr_text [a, b, c, d, e, f] @ eol"
  have t: "?t = [hex_upper (unat f div 16), hex_upper (unat f mod 16), 58,
      hex_upper (unat e div 16), hex_upper (unat e mod 16), 58,
      hex_upper (unat d div 16), hex_upper (unat d mod 16), 58,
      hex_upper (unat c div 16), hex_upper (unat c mod 16), 58,
      hex_upper (unat b div 16), hex_upper (unat b mod 16), 58,
      hex_upper (unat a div 16), hex_upper (unat a mod 16)] @ eol"
    by (simp add: bdaddr_text_def byte_text_def)
  have "bdaddr_display (Suc (Suc (Suc (Suc (Suc (Suc 0)))))) 0 ?t = Some [f, e, d, c, b, a]"
    unfolding t
    by (simp add: bdaddr_display_step [of _ _ f] bdaddr_display_step [of _ _ e] bdaddr_display_step [of _ _ d]
        bdaddr_display_step [of _ _ c] bdaddr_display_step [of _ _ b] bdaddr_display_step [of _ _ a]
        del: bdaddr_display.simps(2))
  then show ?thesis by (simp add: numeral_eq_Suc del: bdaddr_display.simps)
qed

lemma bdaddr_display_Some:
  assumes "bdaddr_display (Suc n) i text = Some ds"
  obtains b ds' where "ds = b # ds'" "bdaddr_display n (Suc i) text = Some ds'"
    "byte_text b = [upper (text ! (i * 3)), upper (text ! Suc (i * 3))]"
    "i < 5 \<longrightarrow> text ! Suc (Suc (i * 3)) = 58"
proof -
  let ?h = "hex_nibble (text ! (i * 3))" and ?l = "hex_nibble (text ! (i * 3 + 1))"
  have n: "0 \<le> ?h" "0 \<le> ?l"
    using assms by (simp_all add: Let_def split: if_splits)
  then have "byte_text (word_of_int (push_bit 4 ?h OR ?l)) = [upper (text ! (i * 3)), upper (text ! (i * 3 + 1))]"
    using nibbles_byte [OF n(1) _ n(2)] hex_nibble_upper n by simp
  moreover obtain ds' where "ds = word_of_int (push_bit 4 ?h OR ?l) # ds'"
    "bdaddr_display n (Suc i) text = Some ds'" "i < 5 \<longrightarrow> text ! Suc (Suc (i * 3)) = 58"
    using assms by (auto simp: Let_def split: if_splits)
  ultimately show thesis using that by simp
qed

lemma bdaddr_chars_no_eol: "c \<in> set (bdaddr_text addr) \<Longrightarrow> c \<noteq> 13 \<and> c \<noteq> 10"
proof -
  have b: "\<forall>c\<in>set (byte_text b). c \<noteq> 13 \<and> c \<noteq> 10" for b
    by (simp add: byte_text_def nibble_hex_upper u8_div_16)
  have "\<forall>c\<in>set (colon_separated (map byte_text bs)). c \<noteq> 13 \<and> c \<noteq> 10" for bs
  proof (induction bs)
    case (Cons x bs)
    then show ?case using b by (cases bs) auto
  qed simp
  then show "c \<in> set (bdaddr_text addr) \<Longrightarrow> c \<noteq> 13 \<and> c \<noteq> 10" by (simp add: bdaddr_text_def)
qed

lemma bdaddr_no_nul: "usable_bdaddr addr \<Longrightarrow> 0 \<notin> set (bdaddr_text addr)"
proof -
  have "list_all (\<lambda>n. hex_upper n \<noteq> 0) [0..<16]" by code_simp
  then have "\<forall>c\<in>set (byte_text b). c \<noteq> 0" for b
    using u8_div_16 [of b] by (simp add: byte_text_def list_all_iff)
  then have "0 \<notin> set (colon_separated (map byte_text bs))" for bs
  proof (induction bs)
    case (Cons x bs)
    then show ?case by (cases bs) auto
  qed simp
  then show ?thesis by (simp add: bdaddr_text_def)
qed

lemma length_bdaddr_text: "length addr = 6 \<Longrightarrow> length (bdaddr_text addr) = 17"
  by (erule bdaddr_text_6) (simp add: bdaddr_text_def byte_text_def)

lemma all_equal_rev6:
  "length addr = 6 \<Longrightarrow> list_all (\<lambda>b. b = v) addr \<longleftrightarrow> addr = replicate 6 v"
  by (erule bdaddr_text_6) (auto simp: numeral_eq_Suc)

lemma parse_bdaddr_render:
  assumes "usable_bdaddr addr" "set eol \<subseteq> {10, 13}"
  shows "parse_bdaddr_text (Some (bdaddr_text addr @ eol)) = Some addr"
proof -
  have l: "length addr = 6" using assms(1) by (simp add: usable_bdaddr_def)
  have "takeWhile (\<lambda>c. c \<noteq> 13 \<and> c \<noteq> 10) (bdaddr_text addr @ eol) = bdaddr_text addr"
    using bdaddr_chars_no_eol assms(2) by (cases eol) (auto simp: takeWhile_append2 takeWhile_eq_all_conv)
  moreover have "bdaddr_display 6 0 (bdaddr_text addr @ eol) = Some (rev addr)"
    using l by (elim bdaddr_text_6) (simp add: bdaddr_display_text)
  moreover have "\<not> (\<exists>c\<in>set (drop 17 (bdaddr_text addr @ eol)). c \<noteq> 10 \<and> c \<noteq> 13)"
    using assms(2) length_bdaddr_text [OF l] by auto
  ultimately show ?thesis
    using assms(1) l by (simp add: parse_bdaddr_text_def length_bdaddr_text all_equal_rev6 usable_bdaddr_def)
qed

lemma parse_bdaddr_exact:
  assumes "parse_bdaddr_text (Some text) = Some addr"
  shows "usable_bdaddr addr \<and> (\<exists>eol. set eol \<subseteq> {10, 13} \<and> map upper text = bdaddr_text addr @ eol)"
proof -
  obtain ds where t: "length (takeWhile (\<lambda>c. c \<noteq> 13 \<and> c \<noteq> 10) text) = 17"
    "bdaddr_display (Suc (Suc (Suc (Suc (Suc (Suc 0)))))) 0 text = Some ds" "addr = rev ds"
    "\<not> list_all (\<lambda>b. b = 0) ds" "\<not> list_all (\<lambda>b. b = 0xff) ds"
    and eol: "set (drop 17 text) \<subseteq> {10, 13}"
    using assms
    by (auto simp: parse_bdaddr_text_def numeral_eq_Suc simp del: bdaddr_display.simps
        split: if_splits option.splits)
  obtain b0 b1 b2 b3 b4 b5 where ds: "ds = [b0, b1, b2, b3, b4, b5]"
    and b: "byte_text b0 = [upper (text ! 0), upper (text ! 1)]" "text ! 2 = 58"
    "byte_text b1 = [upper (text ! 3), upper (text ! 4)]" "text ! 5 = 58"
    "byte_text b2 = [upper (text ! 6), upper (text ! 7)]" "text ! 8 = 58"
    "byte_text b3 = [upper (text ! 9), upper (text ! 10)]" "text ! 11 = 58"
    "byte_text b4 = [upper (text ! 12), upper (text ! 13)]" "text ! 14 = 58"
    "byte_text b5 = [upper (text ! 15), upper (text ! 16)]"
    using t(2) by (elim bdaddr_display_Some) (simp add: numeral_eq_Suc)
  have "17 \<le> length text"
    using t(1) length_takeWhile_le [where P = "\<lambda>c. c \<noteq> 13 \<and> c \<noteq> 10" and xs = "text"] by linarith
  then have "text = [text ! 0, text ! 1, text ! 2, text ! 3, text ! 4, text ! 5, text ! 6, text ! 7, text ! 8,
      text ! 9, text ! 10, text ! 11, text ! 12, text ! 13, text ! 14, text ! 15, text ! 16] @ drop 17 text"
    by (auto simp: numeral_eq_Suc Suc_le_length_iff)
  then have "map upper text = map upper ([text ! 0, text ! 1, text ! 2, text ! 3, text ! 4, text ! 5,
      text ! 6, text ! 7, text ! 8, text ! 9, text ! 10, text ! 11, text ! 12, text ! 13, text ! 14,
      text ! 15, text ! 16] @ drop 17 text)"
    by (rule arg_cong)
  also have "\<dots> = bdaddr_text addr @ map upper (drop 17 text)"
    by (simp add: bdaddr_text_def t(3) ds b upper_def [of "58"])
  finally have m: "map upper text = bdaddr_text addr @ map upper (drop 17 text)" .
  have "set (map upper (drop 17 text)) \<subseteq> {10, 13}" using eol by (auto simp: upper_def)
  moreover have "usable_bdaddr addr"
    using t(3-5) ds by (auto simp: usable_bdaddr_def numeral_eq_Suc)
  ultimately show ?thesis using m by blast
qed

section \<open>Timed reads\<close>

definition monotonic_ms :: "world \<Rightarrow> (int \<times> world) option" where
  "monotonic_ms w = do {
     (t, w) \<leftarrow> sys_clock w;
     Some (case t of None \<Rightarrow> -1 | Some ms \<Rightarrow> ms, w)
   }"

text \<open>
  \<open>read_exact_until\<close>: \<open>acc\<close> is what has been read. Whether the deadline has passed is seen
  in the answer of \<open>poll\<close>, which gets the remaining time: no event is a timeout.
\<close>

function read_exact_until :: "int \<Rightarrow> bytes \<Rightarrow> nat \<Rightarrow> int \<Rightarrow> world \<Rightarrow> (bytes option \<times> world) option" where
  "read_exact_until fd acc len deadline w =
     (if length acc < len then do {
        (now, w) \<leftarrow> monotonic_ms w;
        if now < 0 then Some (None, w)
        else do {
          (ready, w) \<leftarrow> sys_poll 1 w;
          case ready of
            Inl e \<Rightarrow>
              if e = EINTR then do {
                (_, w) \<leftarrow> consume_signal_request w;
                if \<not> running w then Some (None, w) else read_exact_until fd acc len deadline w
              }
              else Some (None, w)
          | Inr revents \<Rightarrow>
              if ready_count revents = 0 then Some (None, w)
              else if POLLIN \<notin> set (revents ! 0) \<and> set (revents ! 0) \<inter> {POLLERR, POLLHUP, POLLNVAL} \<noteq> {}
              then Some (None, w)
              else do {
                (n, w) \<leftarrow> sys_read fd (len - length acc) w;
                case n of
                  Inr bs \<Rightarrow>
                    if bs \<noteq> [] then read_exact_until fd (acc @ bs) len deadline w else Some (None, w)
                | Inl e \<Rightarrow>
                    if e = EINTR \<or> e = EAGAIN then do {
                      (_, w) \<leftarrow> consume_signal_request w;
                      if \<not> running w then Some (None, w) else read_exact_until fd acc len deadline w
                    }
                    else Some (None, w)
              }
        }
      }
      else Some (Some acc, w))"
  by pat_completeness auto

lemma post_monotonic_ms: "post (monotonic_ms w) (\<lambda>r w'. shorter w w' \<and> looks w w')"
  unfolding monotonic_ms_def
  by (rule post_bind [OF post_sys_clock]) auto

lemma monotonic_shorter [call_progress]: "monotonic_ms w = Some (t, w') \<Longrightarrow> shorter w w'"
  using postD [OF post_monotonic_ms] by blast

termination read_exact_until
  by (relation "inv_image {(w', w). shorter w w'} (\<lambda>(_, _, _, _, w). w)")
     (auto intro!: script_wf dest!: call_progress
       intro: shorter_later shorter_trans)

declare read_exact_until.simps [simp del]


lemma looks_talks: "looks w w' \<Longrightarrow> rx \<noteq> signal_fd w \<Longrightarrow> talks tx [] rx [] w w'"
  using puts_talks [OF looks_puts_Nil] by blast

text \<open>
  A timed read returns exactly the bytes it took off the descriptor, as many as were asked for.
\<close>

lemma post_read_exact_until:
  "fd \<noteq> signal_fd w \<Longrightarrow> length acc \<le> len \<Longrightarrow>
   post (read_exact_until fd acc len deadline w) (\<lambda>r w'. \<exists>b. takes fd b w w' \<and>
     (r = None \<or> r = Some (acc @ b) \<and> length acc + length b = len))"
proof (induction w arbitrary: acc rule: script_induct)
  case (less w)
  let ?P = "\<lambda>acc w r w'. \<exists>b. takes fd b w w' \<and> (r = None \<or> r = Some (acc @ b) \<and> length acc + length b = len)"
  have more: "post (read_exact_until fd (acc @ bs) len deadline v) (?P acc w)"
    if "shorter w v" "length bs \<le> len - length acc" "takes fd bs w v" for bs v
  proof (rule post_mono [OF less.IH [OF that(1)]])
    show "fd \<noteq> signal_fd v" using takes_later [OF that(3)] less.prems(1) by (simp add: later_signal_fd)
    show "length (acc @ bs) \<le> len" using that(2) less.prems(2) by simp
    fix r w'
    assume "?P (acc @ bs) v r w'"
    then show "?P acc w r w'" using takes_trans [OF that(3)] by fastforce
  qed
  have stop: "\<exists>b. takes fd b w v" if "takes fd [] w v \<or> looks w v" for v
    using that looks_takes [OF _ less.prems(1) takes_Nil] by blast
  have again: "post (read_exact_until fd acc len deadline v) (?P acc w)" if "shorter w v" "looks w v" for v
    using more [of v "[]"] looks_takes [OF that(2) less.prems(1) takes_Nil] that(1) by simp
  have poll: "post (sys_poll nfds u) (\<lambda>r v. shorter w v \<and> looks w v)" if "shorter w u" "looks w u" for u nfds
    by (rule post_mono [OF post_sys_poll]) (use that shorter_trans looks_trans in blast)
  have consume: "post (consume_signal_request u) (\<lambda>r v. shorter w v \<and> looks w v \<and> (r \<longrightarrow> \<not> running v))"
    if "shorter w u" "looks w u" for u
    using that by (rule post_consume_from)
  have read: "post (sys_read fd k u) (\<lambda>r v. shorter w v \<and>
      (case r of Inl e \<Rightarrow> looks w v | Inr bs \<Rightarrow> length bs \<le> k \<and> takes fd bs w v))"
    if "shorter w u" "looks w u" for u k
    by (rule post_mono [OF post_sys_read])
       (use that shorter_trans looks_trans looks_takes [OF _ less.prems(1)] in \<open>auto split: sum.splits\<close>)
  show ?case
  proof (cases "length acc < len")
    case True
    then show ?thesis
      by (subst read_exact_until.simps, simp, intro post_bind [OF post_monotonic_ms])
         (auto split: sum.splits intro!: post_bind [OF poll] post_bind [OF read]
           post_bind [OF consume] more again stop)
  next
    case False
    then show ?thesis using less.prems(2)
      by (subst read_exact_until.simps) (auto intro: exI [of _ "[]"])
  qed
qed


section \<open>Properties\<close>

text \<open>
  \<open>write_all\<close> never skips, repeats or reorders a byte, however the system splits the
  writes, interrupts them or makes the descriptor wait: what it wrote is a prefix of the
  buffer, it wrote nothing else, and it reports success exactly when the prefix is the
  whole buffer.
\<close>

theorem write_all_complete:
  assumes "write_all fd buf 0 w = Some (ok, w')"
  shows "\<exists>n \<le> length buf. puts fd (take n buf) w w' \<and> (ok \<longleftrightarrow> n = length buf)"
  using postD [OF post_write_all assms] by simp

theorem write_all_complete_witness:
  "\<exists>w'. write_all 5 [1, 2, 3] 0 (sample_world [Wrote 1, Write_failed EAGAIN, Polled [[POLLOUT], []],
       Write_failed EINTR, Read_failed EAGAIN, Wrote 2]) = Some (True, w') \<and>
     puts 5 [1, 2, 3] (sample_world [Wrote 1, Write_failed EAGAIN, Polled [[POLLOUT], []],
       Write_failed EINTR, Read_failed EAGAIN, Wrote 2]) w'"
proof -
  let ?w = "sample_world [Wrote 1, Write_failed EAGAIN, Polled [[POLLOUT], []],
       Write_failed EINTR, Read_failed EAGAIN, Wrote 2]"
  have "map_option fst (write_all 5 [1, 2, 3] 0 ?w) = Some True" by code_simp
  then obtain w' where r: "write_all 5 [1, 2, 3] 0 ?w = Some (True, w')" by auto
  from write_all_complete [OF r] r show ?thesis by auto
qed

text \<open>
  \<open>write_vhci_frame\<close> hands a frame to the kernel in one write or not at all: on success
  the last and only write to any descriptor is the whole frame; on failure nothing was
  written, or one write that the kernel cut short, which is reported.
\<close>

theorem vhci_frame_atomic:
  assumes "write_vhci_frame fd buf w = Some (ok, w')"
  shows "(ok \<longrightarrow> written w' = written w @ [(fd, buf)]) \<and>
    (\<not> ok \<longrightarrow> written w' = written w \<or> (\<exists>n < length buf. written w' = written w @ [(fd, take n buf)]))"
  using postD [OF post_write_vhci_frame assms] by (auto simp: looks_def one_write_def)

theorem vhci_frame_atomic_witness:
  "\<exists>w'. write_vhci_frame 6 [4, 0x0e, 0] (sample_world [Write_failed EINTR, Read_failed EAGAIN, Wrote 3]) =
     Some (True, w') \<and> written w' = [(6, [4, 0x0e, 0])]"
proof -
  let ?w = "sample_world [Write_failed EINTR, Read_failed EAGAIN, Wrote 3]"
  have "map_option fst (write_vhci_frame 6 [4, 0x0e, 0] ?w) = Some True" by code_simp
  then obtain w' where r: "write_vhci_frame 6 [4, 0x0e, 0] ?w = Some (True, w')" by auto
  from vhci_frame_atomic [OF r] r show ?thesis by (auto simp: sample_world_def)
qed

text \<open>
  An address file that holds a usable address in its canonical form, with or without a
  line end, is read as that address, least significant byte first.
\<close>

theorem address_file_read:
  assumes "usable_bdaddr addr" and "eol \<in> {[], [10], [13, 10]}"
  shows "read_bdaddr_file (Some (bdaddr_text addr @ eol)) = Some addr"
proof -
  let ?t = "bdaddr_text addr"
  have l: "length ?t = 17" using assms(1) length_bdaddr_text by (simp add: usable_bdaddr_def)
  then have ne: "?t \<noteq> []" by auto
  have n: "\<forall>c\<in>set ?t. c \<noteq> 10" using bdaddr_chars_no_eol by blast
  have "takeWhile (\<lambda>c. c \<noteq> 10) (?t @ eol) = ?t @ takeWhile (\<lambda>c. c \<noteq> 10) eol"
    using n by (simp add: takeWhile_append2)
  then have "fgets 64 (?t @ eol) = Some (?t @ eol, [])"
    using l ne assms(2) by (auto simp: fgets_def Let_def)
  moreover have "cstr (?t @ eol) = ?t @ eol"
    using bdaddr_no_nul [OF assms(1)] assms(2) by (intro cstr_all) auto
  moreover have "set eol \<subseteq> {10, 13}" using assms(2) by auto
  ultimately show ?thesis
    using parse_bdaddr_render [OF assms(1)] by (simp add: read_bdaddr_file_def)
qed

theorem address_file_read_witness:
  "read_bdaddr_file (Some (ascii ''11:22:33:AA:BB:CC'' @ [10])) = Some [0xcc, 0xbb, 0xaa, 0x33, 0x22, 0x11]"
proof -
  have t: "bdaddr_text [0xcc, 0xbb, 0xaa, 0x33, 0x22, 0x11] = ascii ''11:22:33:AA:BB:CC''" by code_simp
  have u: "usable_bdaddr [0xcc, 0xbb, 0xaa, 0x33, 0x22, 0x11]" by code_simp
  from address_file_read [OF u, of "[10]"] show ?thesis unfolding t by blast
qed



end
