(* ===== verification/Bridge_Controller.thy ===== *)
theory Bridge_Controller
  imports Bridge_Io
begin

text \<open>
  The controller set-up of the vHCI bridge before the adapter is registered: one command
  and its Command Complete event at a time, the address that is written, reset and read
  back, and the buffer sizes.
\<close>

definition HCI_COMMAND_PKT :: u8 where "HCI_COMMAND_PKT = 0x01"
definition HCI_EVENT_PKT :: u8 where "HCI_EVENT_PKT = 0x04"
definition HCI_VENDOR_PKT :: u8 where "HCI_VENDOR_PKT = 0xff"
definition HCI_EVENT_COMMAND_COMPLETE :: u8 where "HCI_EVENT_COMMAND_COMPLETE = 0x0e"
definition HCI_RESET :: u16 where "HCI_RESET = 0x0c03"
definition HCI_READ_BD_ADDR :: u16 where "HCI_READ_BD_ADDR = 0x1009"
definition HCI_READ_BUFFER_SIZE :: u16 where "HCI_READ_BUFFER_SIZE = 0x1005"
definition HCI_WRITE_BD_ADDR :: u16 where "HCI_WRITE_BD_ADDR = 0xfc82"

abbreviation (input) HCI_MAX_EVENT_SIZE :: nat where "HCI_MAX_EVENT_SIZE \<equiv> 258"
abbreviation (input) CONTROLLER_CMD_TIMEOUT_MS :: int where "CONTROLLER_CMD_TIMEOUT_MS \<equiv> 2000"

section \<open>One event, one command\<close>

definition read_h4_event :: "int \<Rightarrow> nat \<Rightarrow> int \<Rightarrow> world \<Rightarrow> (bytes option \<times> world) option" where
  "read_h4_event fd capacity timeout_ms w = do {
     (now, w) \<leftarrow> monotonic_ms w;
     if now < 0 then Some (None, w)
     else let deadline = now + timeout_ms in
       if capacity < 3 then Some (None, w)
       else do {
         (r, w) \<leftarrow> read_exact_until fd [] 1 deadline w;
         case r of
           None \<Rightarrow> Some (None, w)
         | Some event \<Rightarrow>
             if event ! 0 \<noteq> HCI_EVENT_PKT then Some (None, w)
             else do {
               (r, w) \<leftarrow> read_exact_until fd [] 2 deadline w;
               case r of
                 None \<Rightarrow> Some (None, w)
               | Some header \<Rightarrow>
                   let event = event @ header; total = unat (event ! 2) + 3 in
                   if total > capacity then Some (None, w)
                   else do {
                     (r, w) \<leftarrow> read_exact_until fd [] (total - 3) deadline w;
                     Some (case r of None \<Rightarrow> None | Some params \<Rightarrow> Some (event @ params), w)
                   }
             }
       }
   }"

definition command_packet :: "u16 \<Rightarrow> bytes \<Rightarrow> bytes" where
  "command_packet opcode params =
     [HCI_COMMAND_PKT, ucast (opcode AND 0xff), ucast (drop_bit 8 opcode), of_nat (length params)] @ params"

text \<open>The checks of the response; the result is the part of it behind the status.\<close>

definition command_result :: "u16 \<Rightarrow> nat \<Rightarrow> bytes \<Rightarrow> bytes option" where
  "command_result opcode return_capacity event =
     (if length event < 7 \<or> event ! 1 \<noteq> HCI_EVENT_COMMAND_COMPLETE \<or> event ! 2 < 4 then None
      else if u16_at event 4 \<noteq> opcode then None
      else if event ! 6 \<noteq> 0 then None
      else let result_len = unat (event ! 2) - 4 in
        if result_len > return_capacity then None
        else Some (take result_len (drop 7 event)))"

definition controller_command ::
  "int \<Rightarrow> int \<Rightarrow> u16 \<Rightarrow> bytes \<Rightarrow> nat \<Rightarrow> int \<Rightarrow> world \<Rightarrow> (bytes option \<times> world) option" where
  "controller_command tx_fd rx_fd opcode params return_capacity timeout_ms w =
     (if length params > 255 then Some (None, w)
      else do {
        (ok, w) \<leftarrow> write_all tx_fd (command_packet opcode params) 0 w;
        if \<not> ok then Some (None, w)
        else do {
          (r, w) \<leftarrow> read_h4_event rx_fd HCI_MAX_EVENT_SIZE timeout_ms w;
          case r of
            None \<Rightarrow> Some (None, w)
          | Some event \<Rightarrow> Some (command_result opcode return_capacity event, w)
        }
      })"

section \<open>The address\<close>

definition configure_controller_address_with_timeout ::
  "int \<Rightarrow> int \<Rightarrow> bytes \<Rightarrow> int \<Rightarrow> world \<Rightarrow> (bool \<times> world) option" where
  "configure_controller_address_with_timeout tx_fd rx_fd addr timeout_ms w = do {
     (r, w) \<leftarrow> controller_command tx_fd rx_fd HCI_WRITE_BD_ADDR addr 0 timeout_ms w;
     if r = None then Some (False, w)
     else do {
       (r, w) \<leftarrow> controller_command tx_fd rx_fd HCI_RESET [] 0 timeout_ms w;
       if r = None then Some (False, w)
       else do {
         (r, w) \<leftarrow> controller_command tx_fd rx_fd HCI_READ_BD_ADDR [] BD_ADDR_LEN timeout_ms w;
         case r of
           None \<Rightarrow> Some (False, w)
         | Some actual \<Rightarrow> Some (length actual = BD_ADDR_LEN \<and> actual = addr, w)
       }
     }
   }"

definition configure_controller_address :: "int \<Rightarrow> int \<Rightarrow> bytes \<Rightarrow> world \<Rightarrow> (bool \<times> world) option" where
  "configure_controller_address tx_fd rx_fd addr w =
     configure_controller_address_with_timeout tx_fd rx_fd addr CONTROLLER_CMD_TIMEOUT_MS w"

section \<open>The buffer sizes\<close>

text \<open>\<open>controller_acl_mtu\<close> and \<open>controller_sco_mtu\<close>; both are 0 before they are read.\<close>

record mtus =
  acl_mtu :: nat
  sco_mtu :: nat

definition no_mtus :: mtus where
  "no_mtus = \<lparr>acl_mtu = 0, sco_mtu = 0\<rparr>"

definition read_controller_buffer_sizes_with_timeout ::
  "int \<Rightarrow> int \<Rightarrow> int \<Rightarrow> world \<Rightarrow> (mtus option \<times> world) option" where
  "read_controller_buffer_sizes_with_timeout tx_fd rx_fd timeout_ms w = do {
     (r, w) \<leftarrow> controller_command tx_fd rx_fd HCI_READ_BUFFER_SIZE [] 7 timeout_ms w;
     Some (case r of
         None \<Rightarrow> None
       | Some sizes \<Rightarrow>
           (if length sizes < 7 then None
            else let acl = unat (u16_at sizes 0); sco = unat (sizes ! 2) in
              if acl = 0 \<or> acl > SKW_H4_KERNEL_MAX_FRAME - 5 \<or> sco > SKW_H4_SCO_MAX_FRAME - 4 then None
              else Some \<lparr>acl_mtu = acl, sco_mtu = sco\<rparr>), w)
   }"

definition read_controller_buffer_sizes :: "int \<Rightarrow> int \<Rightarrow> world \<Rightarrow> (mtus option \<times> world) option" where
  "read_controller_buffer_sizes tx_fd rx_fd w =
     read_controller_buffer_sizes_with_timeout tx_fd rx_fd CONTROLLER_CMD_TIMEOUT_MS w"

section \<open>What goes over the wire\<close>

text \<open>A Command Complete event for the opcode, with status 0 and the given result.\<close>

definition completes :: "u16 \<Rightarrow> bytes \<Rightarrow> bytes \<Rightarrow> bool" where
  "completes opcode result event \<longleftrightarrow>
     (\<exists>packets lo hi. event = [HCI_EVENT_PKT, HCI_EVENT_COMMAND_COMPLETE, of_nat (length result + 4),
        packets, lo, hi, 0] @ result \<and> opcode = ucast lo OR push_bit 8 (ucast hi) \<and> length result \<le> 251)"

lemma split7:
  assumes "7 \<le> length e"
  shows "e = [e ! 0, e ! 1, e ! 2, e ! 3, e ! 4, e ! 5, e ! 6] @ drop 7 e"
  using assms by (auto simp: numeral_eq_Suc Suc_le_length_iff)

lemma command_result_completes:
  assumes "command_result opcode capacity event = Some result"
    and "event ! 0 = HCI_EVENT_PKT" "length event = unat (event ! 2) + 3"
  shows "completes opcode result event \<and> length result \<le> capacity"
proof -
  have c: "7 \<le> length event" "event ! 1 = HCI_EVENT_COMMAND_COMPLETE" "u16_at event 4 = opcode"
    "event ! 6 = 0" "unat (event ! 2) - 4 \<le> capacity" "result = take (unat (event ! 2) - 4) (drop 7 event)"
    using assms(1) by (auto simp: command_result_def Let_def not_less split: if_splits)
  have r: "result = drop 7 event" "unat (event ! 2) = length result + 4"
    using c(1,6) assms(3) by simp_all
  have "unat (event ! 2) < 256" using unsigned_less [of "event ! 2"] by simp
  then have l: "length result \<le> 251" using r(2) by simp
  have l2: "event ! 2 = of_nat (length result + 4)"
    unfolding r(2) [symmetric] by simp
  have "event = [HCI_EVENT_PKT, HCI_EVENT_COMMAND_COMPLETE, of_nat (length result + 4),
      event ! 3, event ! 4, event ! 5, 0] @ result"
    using split7 [OF c(1)] c(2,4) r(1) assms(2) l2 by simp
  moreover have "opcode = ucast (event ! 4) OR push_bit 8 (ucast (event ! 5))"
    using c(3) by (simp add: u16_at_def)
  ultimately show ?thesis using l c(5) r by (auto simp: completes_def)
qed

lemma post_read_h4_event:
  assumes "fd \<noteq> signal_fd w"
  shows "post (read_h4_event fd capacity timeout_ms w) (\<lambda>r w'. \<exists>b. takes fd b w w' \<and>
    (r = None \<or> r = Some b \<and> 3 \<le> length b \<and> b ! 0 = HCI_EVENT_PKT \<and> length b = unat (b ! 2) + 3))"
proof -
  let ?T = "\<lambda>b v. takes fd b w v"
  have read: "post (read_exact_until fd [] len dl u)
      (\<lambda>r v. \<exists>b. ?T (a @ b) v \<and> (r = None \<or> r = Some b \<and> length b = len))"
    if "?T a u" for a u len dl
  proof (rule post_mono [OF post_read_exact_until])
    show "fd \<noteq> signal_fd u" using takes_later [OF that] assms by (simp add: later_signal_fd)
  qed (use takes_trans [OF that] in auto)
  have start: "post (monotonic_ms w) (\<lambda>r v. ?T [] v)"
    by (rule post_mono [OF post_monotonic_ms]) (use looks_takes assms takes_Nil in blast)
  show ?thesis
    unfolding read_h4_event_def
    by (auto simp: Let_def nth_append intro!: post_bind [OF start] post_bind [OF read] split: option.splits)
       force+
qed


lemma post_controller_command:
  assumes "rx \<noteq> signal_fd w"
  shows "post (controller_command tx rx opcode params capacity timeout_ms w)
    (\<lambda>r w'. \<exists>out inp. talks tx out rx inp w w' \<and>
      (case r of None \<Rightarrow> True
       | Some result \<Rightarrow> out = command_packet opcode params \<and> completes opcode result inp \<and>
           length result \<le> capacity))"
proof -
  let ?cmd = "command_packet opcode params"
  have put: "post (write_all tx ?cmd 0 w) (\<lambda>ok v. \<exists>out. talks tx out rx [] w v \<and>
      (ok \<longrightarrow> out = ?cmd))"
    by (rule post_mono [OF post_write_all]) (use puts_talks assms in fastforce)+
  have event: "post (read_h4_event rx HCI_MAX_EVENT_SIZE timeout_ms u) (\<lambda>r v. \<exists>inp. talks tx ?cmd rx inp w v \<and>
      (r = None \<or> r = Some inp \<and> 3 \<le> length inp \<and> inp ! 0 = HCI_EVENT_PKT \<and> length inp = unat (inp ! 2) + 3))"
    if "talks tx ?cmd rx [] w u" for u
  proof (rule post_mono [OF post_read_h4_event])
    show "rx \<noteq> signal_fd u" using talks_later [OF that] assms by (simp add: later_signal_fd)
    fix r v
    assume "\<exists>b. takes rx b u v \<and> (r = None \<or> r = Some b \<and> 3 \<le> length b \<and> b ! 0 = HCI_EVENT_PKT \<and>
        length b = unat (b ! 2) + 3)"
    then obtain b where b: "takes rx b u v" and r: "r = None \<or> r = Some b \<and> 3 \<le> length b \<and>
        b ! 0 = HCI_EVENT_PKT \<and> length b = unat (b ! 2) + 3" by blast
    have "talks tx ?cmd rx b w v" using talks_trans [OF that takes_talks [OF b]] by simp
    with r show "\<exists>inp. talks tx ?cmd rx inp w v \<and> (r = None \<or> r = Some inp \<and> 3 \<le> length inp \<and>
        inp ! 0 = HCI_EVENT_PKT \<and> length inp = unat (inp ! 2) + 3)" by blast
  qed
  have silent: "talks tx [] rx [] w w" using looks_talks [OF looks_refl assms] by blast
  show ?thesis
  proof (cases "length params > 255")
    case True
    then show ?thesis using silent by (auto simp: controller_command_def)
  next
    case False
    show ?thesis
      unfolding controller_command_def
    proof (simp add: False, rule post_bind [OF put], clarsimp, intro conjI impI)
      fix ok v out
      assume t: "talks tx out rx [] w v" "ok \<longrightarrow> out = ?cmd"
      show "\<exists>out inp. talks tx out rx inp w v" using t(1) by blast
      assume "ok"
      with t have "talks tx ?cmd rx [] w v" by simp
      then show "post (read_h4_event rx HCI_MAX_EVENT_SIZE timeout_ms v \<bind>
          (\<lambda>(r, w). case r of None \<Rightarrow> Some (None, w)
            | Some event \<Rightarrow> Some (command_result opcode capacity event, w)))
          (\<lambda>r w'. \<exists>out inp. talks tx out rx inp w w' \<and>
            (case r of None \<Rightarrow> True
             | Some result \<Rightarrow> out = ?cmd \<and> completes opcode result inp \<and> length result \<le> capacity))"
        by (intro post_bind [OF event])
           (auto split: option.splits dest: command_result_completes)
    qed
  qed
qed


text \<open>The same command, in the middle of an exchange.\<close>

lemma post_controller_command_after:
  assumes "talks tx o1 rx i1 w u" "rx \<noteq> signal_fd w"
  shows "post (controller_command tx rx opcode params capacity timeout_ms u)
    (\<lambda>r v. \<exists>out inp. talks tx (o1 @ out) rx (i1 @ inp) w v \<and>
      (case r of None \<Rightarrow> True
       | Some result \<Rightarrow> out = command_packet opcode params \<and> completes opcode result inp \<and>
           length result \<le> capacity))"
proof (rule post_mono [OF post_controller_command])
  show "rx \<noteq> signal_fd u" using talks_later [OF assms(1)] assms(2) by (simp add: later_signal_fd)
qed (use talks_trans [OF assms(1)] in blast)

lemma post_configure:
  assumes "rx \<noteq> signal_fd w"
  shows "post (configure_controller_address_with_timeout tx rx addr timeout_ms w) (\<lambda>ok w'. ok \<longrightarrow>
    length addr = 6 \<and> (\<exists>e1 e2 e3. talks tx
      (command_packet HCI_WRITE_BD_ADDR addr @ command_packet HCI_RESET [] @ command_packet HCI_READ_BD_ADDR [])
      rx (e1 @ e2 @ e3) w w' \<and>
      completes HCI_WRITE_BD_ADDR [] e1 \<and> completes HCI_RESET [] e2 \<and> completes HCI_READ_BD_ADDR addr e3))"
proof -
  note cmd = post_controller_command_after [OF _ assms]
  have start: "talks tx [] rx [] w w" using looks_talks [OF looks_refl assms] by blast
  show ?thesis
    unfolding configure_controller_address_with_timeout_def
    by (rule post_bind [OF cmd [OF start]], clarsimp split: option.splits,
        rule post_bind [OF cmd], assumption, clarsimp split: option.splits,
        rule post_bind [OF cmd], assumption, clarsimp split: option.splits) blast
qed

lemma post_buffer_sizes:
  assumes "rx \<noteq> signal_fd w"
  shows "post (read_controller_buffer_sizes_with_timeout tx rx timeout_ms w) (\<lambda>r w'. \<forall>m. r = Some m \<longrightarrow>
    0 < acl_mtu m \<and> acl_mtu m + 5 \<le> SKW_H4_KERNEL_MAX_FRAME \<and> sco_mtu m + 4 \<le> SKW_H4_SCO_MAX_FRAME \<and>
    (\<exists>result inp. talks tx (command_packet HCI_READ_BUFFER_SIZE []) rx inp w w' \<and>
      completes HCI_READ_BUFFER_SIZE result inp \<and> length result = 7 \<and>
      acl_mtu m = unat (u16_at result 0) \<and> sco_mtu m = unat (result ! 2)))"
  unfolding read_controller_buffer_sizes_with_timeout_def
  by (rule post_bind [OF post_controller_command [OF assms]])
     (fastforce simp: Let_def not_less frame_limits split: option.splits if_splits)


section \<open>Properties\<close>

text \<open>A controller that answers, for the witnesses: one event per command, in three reads.\<close>

definition event_script :: "bytes \<Rightarrow> answer list" where
  "event_script e =
     [Wrote (if hd e = 6 then 10 else 4), Clock (Some 1000),
      Clock (Some 1000), Polled [[POLLIN]], Got [4],
      Clock (Some 1001), Polled [[POLLIN]], Got [0x0e, of_nat (length e - 1)],
      Clock (Some 1002), Polled [[POLLIN]], Got (tl e)]"

definition sample_addr :: bytes where
  "sample_addr = [0x66, 0x55, 0x44, 0x33, 0x22, 0x11]"

definition address_script :: "answer list" where
  "address_script = event_script [6, 1, 0x82, 0xfc, 0] @ event_script [4, 1, 0x03, 0x0c, 0] @
     event_script ([4, 1, 0x09, 0x10, 0] @ sample_addr)"

text \<open>
  C36: The address is verified, not assumed: when \<open>configure_controller_address\<close> succeeds,
  exactly three commands went to the controller, in this order (write the address, reset,
  read the address), exactly three events came back, each the Command Complete event of
  its command with status 0, and the last one carried the six bytes of the address that
  was written.
\<close>

theorem address_verified:
  assumes "configure_controller_address tx rx addr w = Some (True, w')" and "rx \<noteq> signal_fd w"
  shows "length addr = 6 \<and> (\<exists>e1 e2 e3. talks tx
      (command_packet HCI_WRITE_BD_ADDR addr @ command_packet HCI_RESET [] @ command_packet HCI_READ_BD_ADDR [])
      rx (e1 @ e2 @ e3) w w' \<and>
      completes HCI_WRITE_BD_ADDR [] e1 \<and> completes HCI_RESET [] e2 \<and> completes HCI_READ_BD_ADDR addr e3)"
  using postD [OF post_configure [OF assms(2)] assms(1) [unfolded configure_controller_address_def]] by blast

lemma sample_configured:
  "\<exists>w'. configure_controller_address 10 10 sample_addr (sample_world address_script) = Some (True, w')"
proof -
  have "map_option fst (configure_controller_address 10 10 sample_addr (sample_world address_script)) = Some True"
    by code_simp
  then show ?thesis by auto
qed

theorem address_verified_witness:
  "\<exists>w' e1 e2 e3. talks 10
      (command_packet HCI_WRITE_BD_ADDR sample_addr @ command_packet HCI_RESET [] @ command_packet HCI_READ_BD_ADDR [])
      10 (e1 @ e2 @ e3) (sample_world address_script) w' \<and> completes HCI_READ_BD_ADDR sample_addr e3"
proof -
  obtain w' where "configure_controller_address 10 10 sample_addr (sample_world address_script) = Some (True, w')"
    using sample_configured by blast
  from address_verified [OF this] show ?thesis by (auto simp: sample_world_def)
qed

text \<open>
  The buffer sizes the frame limits rest on come from the controller's answer to Read
  Buffer Size and fit the frames of the kernel's interface: the ACL size is 1 to 1023 and
  the SCO size at most 255; anything else, or a short answer, is refused.
\<close>

theorem buffer_sizes_bounded:
  assumes "read_controller_buffer_sizes tx rx w = Some (Some m, w')" and "rx \<noteq> signal_fd w"
  shows "0 < acl_mtu m \<and> acl_mtu m + 5 \<le> SKW_H4_KERNEL_MAX_FRAME \<and> sco_mtu m + 4 \<le> SKW_H4_SCO_MAX_FRAME \<and>
    (\<exists>result inp. talks tx (command_packet HCI_READ_BUFFER_SIZE []) rx inp w w' \<and>
      completes HCI_READ_BUFFER_SIZE result inp \<and> length result = 7 \<and>
      acl_mtu m = unat (u16_at result 0) \<and> sco_mtu m = unat (result ! 2))"
  using postD [OF post_buffer_sizes [OF assms(2)] assms(1) [unfolded read_controller_buffer_sizes_def]] by blast

theorem buffer_sizes_bounded_witness:
  "\<exists>w'. read_controller_buffer_sizes 10 10
      (sample_world (event_script [4, 1, 0x05, 0x10, 0, 0xfd, 0x03, 0x40, 0, 4, 0, 8])) =
      Some (Some \<lparr>acl_mtu = 1021, sco_mtu = 64\<rparr>, w') \<and> (1021 :: nat) + 5 \<le> SKW_H4_KERNEL_MAX_FRAME"
proof -
  let ?w = "sample_world (event_script [4, 1, 0x05, 0x10, 0, 0xfd, 0x03, 0x40, 0, 4, 0, 8])"
  have "map_option fst (read_controller_buffer_sizes 10 10 ?w) = Some (Some \<lparr>acl_mtu = 1021, sco_mtu = 64\<rparr>)"
    by code_simp
  then obtain w' where r: "read_controller_buffer_sizes 10 10 ?w = Some (Some \<lparr>acl_mtu = 1021, sco_mtu = 64\<rparr>, w')"
    by auto
  from buffer_sizes_bounded [OF r] r show ?thesis by (auto simp: sample_world_def)
qed

end
