(* ===== verification/Vhci_Bridge.thy ===== *)
theory Vhci_Bridge
  imports Bridge_Controller
begin

text \<open>
  The forwarding loops of the vHCI bridge: chip to kernel, one complete H4 frame per write,
  and kernel to chip, verbatim; and the frame limits both rest on. \<open>mtus\<close> are the two
  buffer sizes read from the controller before the loops start.
\<close>

section \<open>Frame limits\<close>

definition controller_frame_limit :: "mtus \<Rightarrow> u8 \<Rightarrow> nat" where
  "controller_frame_limit m t =
     (if t = SKW_H4_EVENT_PKT then SKW_H4_EVENT_MAX_FRAME
      else if t = SKW_H4_ACL_PKT then (if acl_mtu m \<noteq> 0 then acl_mtu m + 5 else 0)
      else if t = SKW_H4_SCO_PKT then (if sco_mtu m \<noteq> 0 then sco_mtu m + 4 else 0)
      else if t = SKW_H4_ISO_PKT then SKW_H4_ISO_MAX_FRAME
      else if t = SKW_H4_LOG_PKT then SKW_H4_STREAM_CAPACITY
      else 0)"

definition host_frame_limit :: "mtus \<Rightarrow> u8 \<Rightarrow> nat" where
  "host_frame_limit m t =
     (if t = SKW_H4_COMMAND_PKT then SKW_H4_COMMAND_MAX_FRAME
      else if t = SKW_H4_ACL_PKT then (if acl_mtu m \<noteq> 0 then acl_mtu m + 5 else 0)
      else if t = SKW_H4_SCO_PKT then (if sco_mtu m \<noteq> 0 then sco_mtu m + 4 else 0)
      else if t = SKW_H4_ISO_PKT then SKW_H4_ISO_MAX_FRAME
      else 0)"

definition frame_within_limit :: "skw_h4_frame \<Rightarrow> nat \<Rightarrow> bool" where
  "frame_within_limit f limit \<longleftrightarrow>
     limit > 0 \<and> frame_size f \<le> limit \<and> frame_size f \<le> SKW_H4_KERNEL_MAX_FRAME"

definition validate_host_frame :: "mtus \<Rightarrow> bytes \<Rightarrow> bool" where
  "validate_host_frame m buffer =
     (case skw_h4_decode buffer of (status, frame) \<Rightarrow>
        if status = SKW_H4_COMPLETE \<and> h4_type frame = SKW_H4_ISO_PKT \<and> buffer ! 4 AND 0xc0 \<noteq> 0 then False
        else status = SKW_H4_COMPLETE \<and> frame_size frame = length buffer \<and>
             frame_within_limit frame (host_frame_limit m (h4_type frame)))"

section \<open>Chip to kernel\<close>

text \<open>The descriptors to poll: each open vendor channel once.\<close>

fun poll_fds :: "int list \<Rightarrow> int list \<Rightarrow> int list" where
  "poll_fds fds [] = fds"
| "poll_fds fds (ch # chs) = (if ch < 0 \<or> ch \<in> set fds then poll_fds fds chs else poll_fds (fds @ [ch]) chs)"

text \<open>What the loop accepts of the controller, by type and, once known, size.\<close>

definition controller_accepts :: "mtus \<Rightarrow> skw_h4_frame \<Rightarrow> bool" where
  "controller_accepts m f =
     (let limit = controller_frame_limit m (h4_type f);
          size_valid = (if h4_type f = SKW_H4_LOG_PKT then frame_size f \<le> limit else frame_within_limit f limit)
      in \<not> (limit = 0 \<or> frame_size f \<noteq> 0 \<and> \<not> size_valid))"

text \<open>The inner loop: the complete frames at the front of a stream. The result is the stream left.\<close>

function forward_frames :: "mtus \<Rightarrow> int \<Rightarrow> bytes \<Rightarrow> world \<Rightarrow> (bytes \<times> world) option" where
  "forward_frames m vhci stream w =
     (if stream = [] then Some (stream, w)
      else case skw_h4_stream_next stream of (status, frame) \<Rightarrow>
        let consumed = (case skw_h4_stream_consume stream (frame_size frame) of None \<Rightarrow> stream | Some s \<Rightarrow> s) in
        if status = SKW_H4_INVALID \<or> \<not> controller_accepts m frame then
          Some (stream, request_shutdown True w)
        else if status = SKW_H4_INCOMPLETE then Some (stream, w)
        else if h4_type frame \<noteq> SKW_H4_LOG_PKT then do {
          (ok, w) \<leftarrow> write_vhci_frame vhci (take (frame_size frame) stream) w;
          if \<not> ok then Some (stream, if running w then request_shutdown True w else w)
          else forward_frames m vhci consumed w
        }
        else forward_frames m vhci consumed w)"
  by pat_completeness auto

termination
  by (relation "measure (\<lambda>(m, vhci, stream, w). length stream)") (simp_all add: consumed_shorter)

declare forward_frames.simps [simp del]

interpretation controller: h4_policy "controller_accepts m" for m
  by unfold_locales (auto simp: controller_accepts_def frame_within_limit_def Let_def)

abbreviation controller_framer :: "mtus \<Rightarrow> bytes \<Rightarrow> framing" where
  "controller_framer m \<equiv> h4_framer (controller_accepts m)"

text \<open>The frames for the kernel: all but the controller's log.\<close>

definition kernel_frames :: "bytes list \<Rightarrow> bytes list" where
  "kernel_frames fs = filter (\<lambda>f. f ! 0 \<noteq> SKW_H4_LOG_PKT) fs"

text \<open>\<open>sent\<close> are the first of \<open>frames\<close>, the last of them possibly cut short.\<close>

fun cut_after :: "bytes list \<Rightarrow> bytes list \<Rightarrow> bool" where
  "cut_after [] frames = True"
| "cut_after (s # ss) [] = False"
| "cut_after (s # ss) (f # fs) \<longleftrightarrow> s = f \<and> cut_after ss fs \<or> ss = [] \<and> (\<exists>n < length f. s = take n f)"

lemma cut_after_refl [simp]: "cut_after fs fs"
  by (induction fs) auto

lemma cut_after_append: "cut_after ss fs \<Longrightarrow> cut_after ss (fs @ gs)"
  by (induction ss fs rule: cut_after.induct) auto

lemma cut_after_prefix: "cut_after ss gs \<Longrightarrow> cut_after (fs @ ss) (fs @ gs)"
  by (induction fs) auto

text \<open>What the inner loop does to the kernel's side.\<close>

definition sends :: "int \<Rightarrow> bytes list \<Rightarrow> world \<Rightarrow> world \<Rightarrow> bool" where
  "sends vhci frames w w' \<longleftrightarrow> later w w' \<and> written w' = written w @ map (Pair vhci) frames \<and>
     (\<forall>fd. fd \<noteq> signal_fd w \<longrightarrow> read_from fd w' = read_from fd w)"

lemma sends_Nil [simp]: "sends vhci [] w w"
  by (simp add: sends_def)

lemma looks_sends: "looks w w' \<Longrightarrow> sends vhci [] w w'"
  by (simp add: looks_def sends_def)

lemma sends_trans: "sends vhci fs u v \<Longrightarrow> sends vhci gs v w \<Longrightarrow> sends vhci (fs @ gs) u w"
  by (auto simp: sends_def later_signal_fd intro: later_trans)

lemma one_write_sends: "one_write vhci f w w' \<Longrightarrow> sends vhci [f] w w'"
  by (simp add: one_write_def sends_def)

lemma sends_shutdown: "sends vhci fs w w' \<Longrightarrow> sends vhci fs w (request_shutdown fatal w')"
  by (auto simp: sends_def intro: later_trans)

lemma decode_framer:
  assumes "skw_h4_decode xs = (status, f)"
  shows "controller_framer m xs =
    (if status = SKW_H4_INVALID \<or> \<not> controller_accepts m f then Bad
     else if status = SKW_H4_INCOMPLETE then More else Frame (frame_size f))"
  using assms by (simp add: h4_framer_def)

definition forwarded :: "mtus \<Rightarrow> int \<Rightarrow> bytes \<Rightarrow> world \<Rightarrow> bytes \<Rightarrow> world \<Rightarrow> bool" where
  "forwarded m vhci xs w s w' \<longleftrightarrow>
     (\<exists>fs rest ok sent. unframe (controller_framer m) xs = (fs, rest, ok) \<and>
        cut_after sent (kernel_frames fs) \<and> sends vhci sent w w' \<and>
        (running w' \<longrightarrow> ok \<and> s = rest \<and> sent = kernel_frames fs))"

lemma forwardedI:
  "unframe (controller_framer m) xs = (fs, rest, ok) \<Longrightarrow> cut_after sent (kernel_frames fs) \<Longrightarrow>
   sends vhci sent w w' \<Longrightarrow> (running w' \<Longrightarrow> ok \<and> s = rest \<and> sent = kernel_frames fs) \<Longrightarrow>
   forwarded m vhci xs w s w'"
  unfolding forwarded_def by blast

lemma kernel_frames_simps [simp]:
  "kernel_frames [] = []"
  "kernel_frames (f # fs) = (if f ! 0 \<noteq> SKW_H4_LOG_PKT then [f] else []) @ kernel_frames fs"
  by (simp_all add: kernel_frames_def)

lemma forwarded_first:
  assumes "unframe (controller_framer m) xs = (f # fs, rest, ok)"
    and "unframe (controller_framer m) ys = (fs, rest, ok)"
    and "sends vhci (kernel_frames [f]) w v" "forwarded m vhci ys v s w'"
  shows "forwarded m vhci xs w s w'"
proof -
  obtain sent where p: "cut_after sent (kernel_frames fs)" "sends vhci sent v w'"
    "running w' \<longrightarrow> ok \<and> s = rest \<and> sent = kernel_frames fs"
    using assms(4) by (auto simp: forwarded_def assms(2))
  have c: "kernel_frames (f # fs) = kernel_frames [f] @ kernel_frames fs" by simp
  show ?thesis
    by (rule forwardedI [OF assms(1) _ sends_trans [OF assms(3) p(2)]])
       (use p in \<open>auto simp only: c cut_after_prefix\<close>)
qed

lemma post_forward_frames:
  "post (forward_frames m vhci xs w) (forwarded m vhci xs w)"
proof (induction "length xs" arbitrary: xs w rule: less_induct)
  case less
  show ?case
  proof (cases "xs = []")
    case True
    then have "forward_frames m vhci xs w = Some ([], w)" by (subst forward_frames.simps) simp
    moreover have "forwarded m vhci [] w [] w"
      by (rule forwardedI [OF controller.packets.unframe_Nil, of "[]"]) simp_all
    ultimately show ?thesis using True by simp
  next
    case xs: False
    obtain status f where d: "skw_h4_decode xs = (status, f)" by (cases "skw_h4_decode xs")
    note fr = decode_framer [OF d, of m]
    let ?bad = "status = SKW_H4_INVALID \<or> \<not> controller_accepts m f"
    show ?thesis
    proof (cases "?bad \<or> status = SKW_H4_INCOMPLETE")
      case True
      then have u: "unframe (controller_framer m) xs = ([], xs, \<not> ?bad)"
        by (subst controller.packets.unframe_eq [OF xs]) (auto simp: fr)
      have "forward_frames m vhci xs w = Some (xs, if ?bad then request_shutdown True w else w)"
        using True xs d by (subst forward_frames.simps) (auto simp: skw_h4_stream_next_def Let_def)
      moreover have "forwarded m vhci xs w xs (if ?bad then request_shutdown True w else w)"
        by (rule forwardedI [OF u, of "[]"]) (auto intro: sends_shutdown split: if_splits)
      ultimately show ?thesis by simp
    next
      case False
      then have c: "status = SKW_H4_COMPLETE" by (cases status) auto
      note cc = consume_complete [OF d [unfolded c]]
      define g where "g = take (frame_size f) xs"
      have t: "h4_type f = g ! 0"
        using decode_type [OF xs] d decode_complete_size [OF d [unfolded c]] by (simp add: g_def)
      obtain fs rest ok where u: "unframe (controller_framer m) (drop (frame_size f) xs) = (fs, rest, ok)"
        by (metis prod_cases3)
      have ux: "unframe (controller_framer m) xs = (g # fs, rest, ok)"
        using False u by (subst controller.packets.unframe_eq [OF xs]) (simp add: fr g_def)
      have go_on: "post (forward_frames m vhci (drop (frame_size f) xs) v) (forwarded m vhci xs w)"
        if "sends vhci (kernel_frames [g]) w v" for v
        by (rule post_mono [OF less [OF cc(2)]]) (rule forwarded_first [OF ux u that])
      have step: "forward_frames m vhci xs w =
          (if g ! 0 \<noteq> SKW_H4_LOG_PKT then do {
             (ok, w) \<leftarrow> write_vhci_frame vhci g w;
             if \<not> ok then Some (xs, if running w then request_shutdown True w else w)
             else forward_frames m vhci (drop (frame_size f) xs) w
           }
           else forward_frames m vhci (drop (frame_size f) xs) w)"
        using xs False
        by (subst forward_frames.simps,
            unfold skw_h4_stream_next_def d prod.case Let_def cc(1) option.case t g_def [symmetric])
           simp
      have stop: "forwarded m vhci xs w s (if running v then request_shutdown True v else v)"
        if st: "looks w v \<or> (\<exists>n < length g. one_write vhci (take n g) w v)" and lg: "g ! 0 \<noteq> SKW_H4_LOG_PKT" for s v
      proof -
        obtain sent where "cut_after sent (kernel_frames (g # fs))" "sends vhci sent w v"
          using st
        proof (elim disjE exE conjE)
          assume "looks w v"
          then show thesis using looks_sends by (intro that [of "[]"]) auto
        next
          fix n
          assume "n < length g" "one_write vhci (take n g) w v"
          then show thesis using lg one_write_sends by (intro that [of "[take n g]"]) auto
        qed
        then show ?thesis by (intro forwardedI [OF ux]) (auto intro: sends_shutdown split: if_splits)
      qed
      show ?thesis
      proof (cases "g ! 0 = SKW_H4_LOG_PKT")
        case True
        then show ?thesis using go_on [of w] by (simp add: step)
      next
        case kernel: False
        show ?thesis
          unfolding step
          by (simp add: kernel, rule post_bind [OF post_write_vhci_frame])
             (use kernel stop go_on one_write_sends in \<open>auto split: if_splits\<close>)
      qed
    qed
  qed
qed

text \<open>
  One descriptor's events. The result says whether the loop over the descriptors goes on.
\<close>

definition serve_channel ::
  "mtus \<Rightarrow> int \<Rightarrow> int \<Rightarrow> revent list \<Rightarrow> bytes \<Rightarrow> world \<Rightarrow> ((bytes \<times> bool) \<times> world) option" where
  "serve_channel m vhci fd revents stream w =
     (let hangup = (\<lambda>stream w.
            if set revents \<inter> {POLLERR, POLLHUP} \<noteq> {} then Some ((stream, False), request_shutdown True w)
            else Some ((stream, True), w))
      in if POLLNVAL \<in> set revents then Some ((stream, False), request_shutdown True w)
      else if POLLIN \<in> set revents then
        (let available = SKW_H4_STREAM_CAPACITY - length stream in
         if available = 0 then Some ((stream, False), request_shutdown True w)
         else do {
           (n, w) \<leftarrow> sys_read fd available w;
           case n of
             Inl e \<Rightarrow>
               if e = EINTR \<or> e = EAGAIN then Some ((stream, True), w)
               else Some ((stream, False), request_shutdown True w)
           | Inr bs \<Rightarrow>
               if bs = [] then Some ((stream, False), request_shutdown True w)
               else do {
                 (stream, w) \<leftarrow> forward_frames m vhci (stream @ bs) w;
                 if \<not> running w then Some ((stream, False), w) else hangup stream w
               }
         })
      else hangup stream w)"

text \<open>The loop over the descriptors; \<open>ready\<close> is the number of events still to be served.\<close>

fun serve_channels ::
  "mtus \<Rightarrow> int \<Rightarrow> int list \<Rightarrow> revent list list \<Rightarrow> bytes list \<Rightarrow> nat \<Rightarrow> world \<Rightarrow> (bytes list \<times> world) option" where
  "serve_channels m vhci (fd # fds) (r # rs) (s # streams) ready w =
     (if ready = 0 then Some (s # streams, w)
      else if r = [] then do {
        (streams, w) \<leftarrow> serve_channels m vhci fds rs streams ready w;
        Some (s # streams, w)
      }
      else do {
        ((s, go_on), w) \<leftarrow> serve_channel m vhci fd r s w;
        if \<not> go_on then Some (s # streams, w)
        else do {
          (streams, w) \<leftarrow> serve_channels m vhci fds rs streams (ready - 1) w;
          Some (s # streams, w)
        }
      })"
| "serve_channels m vhci _ _ streams ready w = Some (streams, w)"

lemma forwarded_later: "forwarded m vhci xs w s w' \<Longrightarrow> later w w'"
  by (auto simp: forwarded_def sends_def)

lemma serve_channel_later:
  "post (serve_channel m vhci fd revents s w) (\<lambda>r w'. later w w')"
proof -
  have read: "post (sys_read fd n w) (\<lambda>r w'. later w w')" for n
    by (rule post_mono [OF post_sys_read]) (auto split: sum.splits dest: looks_later takes_later)
  have fwd: "post (forward_frames m vhci xs v) (\<lambda>r w'. later w w')" if "later w v" for xs v
    by (rule post_mono [OF post_forward_frames]) (use that forwarded_later later_trans in blast)
  show ?thesis
    unfolding serve_channel_def Let_def
    by (auto split: sum.splits intro!: post_bind [OF read] post_bind [OF fwd])
qed

lemma serve_channels_later:
  "post (serve_channels m vhci fds rs streams ready w) (\<lambda>r w'. later w w')"
proof (induction m vhci fds rs streams ready w rule: serve_channels.induct)
  case (1 m vhci fd fds r rs s streams ready w)
  have one: "post (serve_channel m vhci fd r s w) (\<lambda>r w'. later w w')" by (rule serve_channel_later)
  have more: "post (serve_channels m vhci fds rs streams (ready - 1) v) (\<lambda>r w'. later w w')"
    if "ready \<noteq> 0" "r \<noteq> []" "later w v" "serve_channel m vhci fd r s w = Some ((s', True), v)" for s' v
    by (rule post_mono [OF 1(2) [OF that(1,2,4)]]) (use that(3) later_trans in auto)
  show ?case
    using 1(1) one more
    by (auto simp: post_iff split: bind_splits if_splits; blast)
qed simp_all

function chip_loop :: "mtus \<Rightarrow> int \<Rightarrow> int list \<Rightarrow> bytes list \<Rightarrow> world \<Rightarrow> (unit \<times> world) option" where
  "chip_loop m vhci fds streams w =
     (if \<not> running w then Some ((), w)
      else do {
        (ready, w) \<leftarrow> sys_poll (length fds) w;
        case ready of
          Inl e \<Rightarrow>
            if e = EINTR then do {
              (_, w) \<leftarrow> consume_signal_request w;
              chip_loop m vhci fds streams w
            }
            else Some ((), request_shutdown True w)
        | Inr revents \<Rightarrow> do {
            (_, w) \<leftarrow> consume_signal_request w;
            if \<not> running w then Some ((), w)
            else do {
              (streams, w) \<leftarrow> serve_channels m vhci fds revents streams (ready_count revents) w;
              chip_loop m vhci fds streams w
            }
          }
      })"
  by pat_completeness auto

termination
  by (relation "inv_image {(w', w). shorter w w'} (\<lambda>(_, _, _, _, w). w)")
     (auto intro!: script_wf dest!: call_progress postD [OF serve_channels_later]
       intro: shorter_later later_trans)

declare chip_loop.simps [simp del]

definition chip_to_kernel :: "mtus \<Rightarrow> int \<Rightarrow> int list \<Rightarrow> world \<Rightarrow> (unit \<times> world) option" where
  "chip_to_kernel m vhci vendor_fds w =
     (let fds = poll_fds [] vendor_fds in
      if fds = [] then Some ((), request_shutdown True w)
      else chip_loop m vhci fds (replicate (length fds) []) w)"

section \<open>Kernel to chip\<close>

definition bridge_hangup :: "revent list \<Rightarrow> bool" where
  "bridge_hangup revents \<longleftrightarrow> set revents \<inter> {POLLERR, POLLHUP} \<noteq> {}"

function kernel_to_chip :: "mtus \<Rightarrow> int \<Rightarrow> int \<Rightarrow> world \<Rightarrow> (unit \<times> world) option" where
  "kernel_to_chip m vhci cmd_fd w =
     (if \<not> running w then Some ((), w)
      else do {
        (ready, w) \<leftarrow> sys_poll 2 w;
        case ready of
          Inl e \<Rightarrow>
            if e = EINTR then do {
              (_, w) \<leftarrow> consume_signal_request w;
              kernel_to_chip m vhci cmd_fd w
            }
            else Some ((), request_shutdown True w)
        | Inr revents \<Rightarrow> do {
            (_, w) \<leftarrow> (if revents ! 1 \<noteq> [] then consume_signal_request w else Some (False, w));
            if \<not> running w then Some ((), w)
            else if ready_count revents = 0 then kernel_to_chip m vhci cmd_fd w
            else if POLLNVAL \<in> set (revents ! 0) then Some ((), request_shutdown True w)
            else if POLLIN \<notin> set (revents ! 0) then
              (if bridge_hangup (revents ! 0) then Some ((), request_shutdown True w)
               else kernel_to_chip m vhci cmd_fd w)
            else do {
              (n, w) \<leftarrow> sys_read vhci SKW_H4_KERNEL_MAX_FRAME w;
              case n of
                Inl e \<Rightarrow>
                  if e = EINTR \<or> e = EAGAIN then kernel_to_chip m vhci cmd_fd w
                  else Some ((), request_shutdown True w)
              | Inr buf \<Rightarrow>
                  if buf = [] then Some ((), request_shutdown True w)
                  else if buf ! 0 = HCI_VENDOR_PKT then
                    (let w = (if bridge_hangup (revents ! 0) then request_shutdown True w else w)
                     in kernel_to_chip m vhci cmd_fd w)
                  else if \<not> validate_host_frame m buf then Some ((), request_shutdown True w)
                  else if cmd_fd < 0 then Some ((), request_shutdown True w)
                  else do {
                    (ok, w) \<leftarrow> write_all cmd_fd buf 0 w;
                    if \<not> ok then Some ((), if \<not> running w then w else request_shutdown True w)
                    else if bridge_hangup (revents ! 0) then Some ((), request_shutdown True w)
                    else kernel_to_chip m vhci cmd_fd w
                  }
            }
          }
      })"
  by pat_completeness auto

termination
  by (relation "inv_image {(w', w). shorter w w'} (\<lambda>(_, _, _, w). w)")
     (auto intro!: script_wf
       dest!: call_progress postD [OF post_write_all [of 0, simplified]] puts_later
       intro: shorter_later later_trans shorter_trans split: if_splits)

declare kernel_to_chip.simps [simp del]

section \<open>The chip's bytes and the kernel's frames\<close>

text \<open>
  \<open>chip_at\<close>: since \<open>w0\<close>, every frame of the bytes read from \<open>c\<close> has been handed over and
  \<open>s\<close> is what is left of them. \<open>chip_end\<close>: so it is but for the last read, of whose frames
  the first ones have been handed over, and of these the last may have been cut short.
\<close>

definition chip_at :: "mtus \<Rightarrow> int \<Rightarrow> int \<Rightarrow> world \<Rightarrow> bytes \<Rightarrow> world \<Rightarrow> bool" where
  "chip_at m vhci c w0 s w \<longleftrightarrow> later w0 w \<and>
     (\<exists>reads fs. read_from c w = read_from c w0 @ reads \<and>
        unframe (controller_framer m) (concat reads) = (fs, s, True) \<and>
        written w = written w0 @ map (Pair vhci) (kernel_frames fs))"

definition chip_end :: "mtus \<Rightarrow> int \<Rightarrow> int \<Rightarrow> world \<Rightarrow> world \<Rightarrow> bool" where
  "chip_end m vhci c w0 w \<longleftrightarrow> later w0 w \<and>
     (\<exists>reads recent fs s gs rest ok sent. read_from c w = read_from c w0 @ reads @ recent \<and> length recent \<le> 1 \<and>
        unframe (controller_framer m) (concat reads) = (fs, s, True) \<and>
        unframe (controller_framer m) (s @ concat recent) = (gs, rest, ok) \<and>
        cut_after sent (kernel_frames gs) \<and>
        written w = written w0 @ map (Pair vhci) (kernel_frames fs @ sent))"

lemma chip_endI:
  assumes "later w0 w" "read_from c w = read_from c w0 @ reads @ recent" "length recent \<le> 1"
    and "unframe (controller_framer m) (concat reads) = (fs, s, True)"
    and "unframe (controller_framer m) (s @ concat recent) = (gs, rest, ok)"
    and "cut_after sent (kernel_frames gs)"
    and "written w = written w0 @ map (Pair vhci) (kernel_frames fs @ sent)"
  shows "chip_end m vhci c w0 w"
  unfolding chip_end_def using assms by blast

lemma chip_at_start: "chip_at m vhci c w [] w"
  unfolding chip_at_def
  by (intro conjI exI [of _ "[]"]) simp_all

lemma chip_at_end:
  assumes "chip_at m vhci c w0 s w"
  shows "chip_end m vhci c w0 w"
proof -
  obtain reads fs where a: "later w0 w" "read_from c w = read_from c w0 @ reads"
    "unframe (controller_framer m) (concat reads) = (fs, s, True)"
    "written w = written w0 @ map (Pair vhci) (kernel_frames fs)"
    using assms by (auto simp: chip_at_def)
  obtain gs rest ok where "unframe (controller_framer m) (s @ concat []) = (gs, rest, ok)"
    by (metis prod_cases3)
  then show ?thesis by (intro chip_endI [where recent = "[]" and sent = "[]", OF a(1) _ _ a(3)]) (use a(2,4) in auto)
qed

lemma chip_at_looks:
  "chip_at m vhci c w0 s w \<Longrightarrow> looks w v \<Longrightarrow> c \<noteq> signal_fd w0 \<Longrightarrow> chip_at m vhci c w0 s v"
  using later_signal_fd [of w0 w] by (auto simp: chip_at_def looks_def intro: later_trans)

lemma chip_end_shutdown: "chip_end m vhci c w0 w \<Longrightarrow> chip_end m vhci c w0 (request_shutdown fatal w)"
  by (auto simp: chip_end_def)

text \<open>One read of the chip.\<close>

definition chunk :: "int \<Rightarrow> bytes \<Rightarrow> world \<Rightarrow> world \<Rightarrow> bool" where
  "chunk c bs u v \<longleftrightarrow> later u v \<and> written v = written u \<and> read_from c v = read_from c u @ [bs]"

lemma chunkI: "takes c bs u v \<Longrightarrow> readlog v = readlog u @ [(c, bs)] \<Longrightarrow> chunk c bs u v"
  by (simp add: chunk_def takes_def read_from_def)

lemma chip_fed:
  assumes at: "chip_at m vhci c w0 s u" and c: "c \<noteq> signal_fd w0"
    and chunk: "chunk c bs u v" and fwd: "forwarded m vhci (s @ bs) v s' w"
  shows "chip_end m vhci c w0 w \<and> (running w \<longrightarrow> chip_at m vhci c w0 s' w)"
proof -
  obtain reads fs where a: "later w0 u" "read_from c u = read_from c w0 @ reads"
    "unframe (controller_framer m) (concat reads) = (fs, s, True)"
    "written u = written w0 @ map (Pair vhci) (kernel_frames fs)"
    using at by (auto simp: chip_at_def)
  have b: "later u v" "written v = written u" "read_from c v = read_from c u @ [bs]"
    using chunk by (auto simp: chunk_def)
  obtain gs rest ok sent where g: "unframe (controller_framer m) (s @ bs) = (gs, rest, ok)"
    "cut_after sent (kernel_frames gs)" "sends vhci sent v w"
    "running w \<longrightarrow> ok \<and> s' = rest \<and> sent = kernel_frames gs"
    using fwd by (auto simp: forwarded_def)
  have sig: "c \<noteq> signal_fd v" using later_signal_fd [OF a(1)] later_signal_fd [OF b(1)] c by simp
  have w: "later w0 w" "read_from c w = read_from c w0 @ (reads @ [bs])"
    "written w = written w0 @ map (Pair vhci) (kernel_frames fs @ sent)"
    using g(3) a b sig later_trans [OF later_trans [OF a(1) b(1)]] by (simp_all add: sends_def)
  have u: "unframe (controller_framer m) (concat (reads @ [bs])) = (fs @ gs, rest, ok)"
    using controller.packets.unframe_append [of m "concat reads" bs] a(3) g(1) by (simp add: feed_def)
  have k: "kernel_frames (fs @ gs) = kernel_frames fs @ kernel_frames gs"
    by (simp add: kernel_frames_def)
  have "chip_end m vhci c w0 w"
    by (rule chip_endI [where recent = "[bs]", OF w(1) _ _ a(3) _ g(2) w(3)]) (use w(2) g(1) in auto)
  moreover have "chip_at m vhci c w0 s' w" if "running w"
    unfolding chip_at_def
    using w u k g(4) that by metis
  ultimately show ?thesis by blast
qed

lemma chip_end_chunk:
  assumes at: "chip_at m vhci c w0 s u" and chunk: "chunk c bs u v"
  shows "chip_end m vhci c w0 v"
proof -
  obtain reads fs where a: "later w0 u" "read_from c u = read_from c w0 @ reads"
    "unframe (controller_framer m) (concat reads) = (fs, s, True)"
    "written u = written w0 @ map (Pair vhci) (kernel_frames fs)"
    using at by (auto simp: chip_at_def)
  obtain gs rest ok where u: "unframe (controller_framer m) (s @ concat [bs]) = (gs, rest, ok)"
    by (metis prod_cases3)
  have "later w0 v" "read_from c v = read_from c w0 @ reads @ [bs]"
    "written v = written w0 @ map (Pair vhci) (kernel_frames fs @ [])"
    using a chunk later_trans by (auto simp: chunk_def)
  from chip_endI [OF this(1,2) _ a(3) u _ this(3)] show ?thesis by simp
qed

lemma rest_not_full:
  assumes "unframe (controller_framer m) xs = (fs, s, True)"
  shows "length s < SKW_H4_STREAM_CAPACITY"
proof (cases "s = []")
  case False
  with controller.packets.unframe_rest [OF assms] have more: "controller_framer m s = More" by simp
  obtain status f where d: "skw_h4_decode s = (status, f)" by (cases "skw_h4_decode s")
  with more have "skw_h4_decode s = (SKW_H4_INCOMPLETE, f)"
    by (auto simp: decode_framer [OF d] split: if_splits)
  with False show ?thesis
    by (elim skw_h4_decode_cases)
       (auto simp: SKW_H4_STREAM_CAPACITY_def split: if_splits dest: h4_header_size_bound)
qed (simp add: SKW_H4_STREAM_CAPACITY_def)

lemma post_serve_channel:
  assumes at: "chip_at m vhci c w0 s u" and c: "c \<noteq> signal_fd w0"
  shows "post (serve_channel m vhci c revents s u) (\<lambda>(s', go_on) w. chip_end m vhci c w0 w \<and>
    (running w \<longrightarrow> go_on \<and> chip_at m vhci c w0 s' w))"
proof -
  have e: "chip_end m vhci c w0 u" by (rule chip_at_end [OF at])
  have looked: "looks u v \<Longrightarrow> chip_at m vhci c w0 s v \<and> chip_end m vhci c w0 v" for v
    using chip_at_looks [OF at _ c] chip_at_end by blast
  have read: "post (sys_read c n u) (\<lambda>r v.
      (case r of Inl e \<Rightarrow> chip_at m vhci c w0 s v \<and> chip_end m vhci c w0 v | Inr bs \<Rightarrow> chunk c bs u v) \<and>
      chip_end m vhci c w0 v)" for n
  proof (rule post_mono [OF post_sys_read])
    fix r v
    assume "shorter u v \<and> (case r of Inl e \<Rightarrow> looks u v
      | Inr bs \<Rightarrow> length bs \<le> n \<and> takes c bs u v \<and> readlog v = readlog u @ [(c, bs)])"
    then show "(case r of Inl e \<Rightarrow> chip_at m vhci c w0 s v \<and> chip_end m vhci c w0 v
        | Inr bs \<Rightarrow> chunk c bs u v) \<and> chip_end m vhci c w0 v"
      using looked chip_end_chunk [OF at] chunkI [of c _ u v] by (cases r; simp; blast)
  qed
  have fwd: "post (forward_frames m vhci (s @ bs) v) (\<lambda>s' w. chip_end m vhci c w0 w \<and>
      (running w \<longrightarrow> chip_at m vhci c w0 s' w))" if "chunk c bs u v" for bs v
    by (rule post_mono [OF post_forward_frames]) (rule chip_fed [OF at c that])
  show ?thesis
    unfolding serve_channel_def Let_def
    using at e
    by (auto split: sum.splits intro!: post_bind [OF read] post_bind [OF fwd] chip_end_shutdown)
qed


lemma post_chip_loop:
  assumes c: "c \<noteq> signal_fd w0"
  shows "chip_at m vhci c w0 s w \<Longrightarrow>
    post (chip_loop m vhci [c] [s] w) (\<lambda>_ w'. chip_end m vhci c w0 w' \<and> \<not> running w')"
proof (induction w arbitrary: s rule: script_induct)
  case (less w)
  let ?P = "\<lambda>(_ :: unit) w'. chip_end m vhci c w0 w' \<and> \<not> running w'"
  let ?A = "\<lambda>v. shorter w v \<and> chip_at m vhci c w0 s v"
  have poll: "post (sys_poll n w) (\<lambda>r v. ?A v \<and> (case r of Inl e \<Rightarrow> True | Inr rs \<Rightarrow> length rs = n))" for n
    by (rule post_mono [OF post_sys_poll]) (use chip_at_looks [OF less.prems _ c] in auto)
  have consume: "post (consume_signal_request u) (\<lambda>r v. ?A v)" if "?A u" for u
    by (rule post_mono [OF post_consume]) (use that chip_at_looks [OF _ _ c] shorter_later looks_later in blast)
  have serve: "post (serve_channels m vhci [c] [r] [s] (ready_count [r]) u) (\<lambda>ss v. shorter w v \<and>
      (\<exists>s'. ss = [s'] \<and> chip_end m vhci c w0 v \<and> (running v \<longrightarrow> chip_at m vhci c w0 s' v)))" if "?A u" for u r
  proof (cases "r = []")
    case True
    then show ?thesis using that chip_at_end by (auto simp: ready_count_def)
  next
    case False
    have one: "post (serve_channel m vhci c r s u) (\<lambda>(s', go_on) v. shorter w v \<and> chip_end m vhci c w0 v \<and>
        (running v \<longrightarrow> go_on \<and> chip_at m vhci c w0 s' v))"
      by (rule post_mono [OF post_conj [OF serve_channel_later post_serve_channel [OF _ c]]])
         (use that shorter_later in auto)
    show ?thesis
      using False by (auto simp: ready_count_def intro!: post_bind [OF one])
  qed
  have ends: "chip_end m vhci c w0 v" if "chip_at m vhci c w0 s v" for v
    by (rule chip_at_end [OF that])
  have again: "post (chip_loop m vhci [c] ss v) ?P"
    if "shorter w v" "\<exists>s'. ss = [s'] \<and> chip_end m vhci c w0 v \<and> (running v \<longrightarrow> chip_at m vhci c w0 s' v)" for ss v
  proof (cases "running v")
    case True
    with that less.IH show ?thesis by blast
  next
    case False
    with that(2) show ?thesis by (subst chip_loop.simps) auto
  qed
  show ?case
  proof (cases "running w")
    case False
    then show ?thesis using chip_at_end [OF less.prems] by (subst chip_loop.simps) simp
  next
    case True
    have len: "length rs = Suc 0 \<Longrightarrow> \<exists>r. rs = [r]" for rs :: "revent list list"
      by (auto simp: length_Suc_conv)
    show ?thesis
      using True
      by (subst chip_loop.simps, simp, intro post_bind [OF poll])
         (auto dest!: len simp del: serve_channels.simps split: sum.splits
           intro!: post_bind [OF consume] post_bind [OF serve] again chip_end_shutdown intro: ends)
  qed
qed


section \<open>The kernel's frames and the chip's bytes\<close>

text \<open>What of the kernel's reads is for the controller.\<close>

definition host_frame :: "mtus \<Rightarrow> bytes \<Rightarrow> bool" where
  "host_frame m b \<longleftrightarrow> b \<noteq> [] \<and> b ! 0 \<noteq> HCI_VENDOR_PKT \<and> validate_host_frame m b"

definition vendor_frame :: "bytes \<Rightarrow> bool" where
  "vendor_frame b \<longleftrightarrow> b \<noteq> [] \<and> b ! 0 = HCI_VENDOR_PKT"

text \<open>All of \<open>frames\<close> in their order, the last of them possibly cut short.\<close>

definition bytes_cut :: "bytes \<Rightarrow> bytes list \<Rightarrow> bool" where
  "bytes_cut out frames \<longleftrightarrow> out = concat frames \<or>
     (\<exists>fs f n. frames = fs @ [f] \<and> n < length f \<and> out = concat fs @ take n f)"

text \<open>
  \<open>host_at\<close>: since \<open>w0\<close>, all that was read was for the controller or for the driver, and
  exactly the former has been sent. \<open>host_end\<close>: so it is but for the last read.
\<close>

definition host_at :: "mtus \<Rightarrow> int \<Rightarrow> int \<Rightarrow> world \<Rightarrow> world \<Rightarrow> bool" where
  "host_at m vhci cmd w0 w \<longleftrightarrow>
     (\<exists>got out. talks cmd out vhci (concat got) w0 w \<and> read_from vhci w = read_from vhci w0 @ got \<and>
        list_all (\<lambda>b. host_frame m b \<or> vendor_frame b) got \<and> out = concat (filter (host_frame m) got))"

definition host_end :: "mtus \<Rightarrow> int \<Rightarrow> int \<Rightarrow> world \<Rightarrow> world \<Rightarrow> bool" where
  "host_end m vhci cmd w0 w \<longleftrightarrow>
     (\<exists>got out. talks cmd out vhci (concat got) w0 w \<and> read_from vhci w = read_from vhci w0 @ got \<and>
        list_all (\<lambda>b. host_frame m b \<or> vendor_frame b) (butlast got) \<and>
        bytes_cut out (filter (host_frame m) got))"

lemma host_at_start: "host_at m vhci cmd w w"
proof -
  have "talks cmd [] vhci (concat []) w w"
    unfolding talks_def by (intro conjI exI [of _ "[]"]) simp_all
  then show ?thesis unfolding host_at_def
    by (intro exI [of _ "[] :: bytes list"] exI [of _ "[] :: bytes"]) simp
qed

lemma host_at_end: "host_at m vhci cmd w0 w \<Longrightarrow> host_end m vhci cmd w0 w"
  unfolding host_at_def host_end_def bytes_cut_def
  by (metis (no_types, lifting) in_set_butlastD list_all_iff)

lemma talks_shutdown: "talks tx out rx inp w v \<Longrightarrow> talks tx out rx inp w (request_shutdown fatal v)"
  by (auto simp: talks_def)

lemma host_end_shutdown: "host_end m vhci cmd w0 w \<Longrightarrow> host_end m vhci cmd w0 (request_shutdown fatal w)"
  unfolding host_end_def using talks_shutdown by fastforce

lemma host_at_shutdown: "host_at m vhci cmd w0 w \<Longrightarrow> host_at m vhci cmd w0 (request_shutdown fatal w)"
  unfolding host_at_def using talks_shutdown by fastforce

lemma host_at_looks:
  assumes "host_at m vhci cmd w0 w" "looks w v" "vhci \<noteq> signal_fd w0"
  shows "host_at m vhci cmd w0 v"
proof -
  obtain got where h: "talks cmd (concat (filter (host_frame m) got)) vhci (concat got) w0 w"
    "read_from vhci w = read_from vhci w0 @ got" "list_all (\<lambda>b. host_frame m b \<or> vendor_frame b) got"
    using assms(1) by (auto simp: host_at_def)
  have sig: "vhci \<noteq> signal_fd w" using later_signal_fd [OF talks_later [OF h(1)]] assms(3) by simp
  then have "talks cmd (concat (filter (host_frame m) got)) vhci (concat got) w0 v"
    using talks_trans [OF h(1) looks_talks [OF assms(2)]] by simp
  moreover have "read_from vhci v = read_from vhci w" using assms(2) sig by (simp add: looks_def)
  ultimately show ?thesis using h unfolding host_at_def by auto
qed

text \<open>A read that is then sent, in part or whole.\<close>

lemma host_sent:
  assumes at: "host_at m vhci cmd w0 u" and sig: "vhci \<noteq> signal_fd w0"
    and read: "takes vhci buf u v" "readlog v = readlog u @ [(vhci, buf)]"
    and put: "puts cmd (take n buf) v w" "n \<le> length buf"
    and hf: "host_frame m buf \<or> n = 0"
  shows "host_end m vhci cmd w0 w"
    "n = length buf \<and> host_frame m buf \<or> n = 0 \<and> vendor_frame buf \<Longrightarrow> host_at m vhci cmd w0 w"
proof -
  obtain got where h: "talks cmd (concat (filter (host_frame m) got)) vhci (concat got) w0 u"
    "read_from vhci u = read_from vhci w0 @ got" "list_all (\<lambda>b. host_frame m b \<or> vendor_frame b) got"
    using at by (auto simp: host_at_def)
  have sv: "vhci \<noteq> signal_fd v"
    using later_signal_fd [OF talks_later [OF h(1)]] later_signal_fd [OF takes_later [OF read(1)]] sig by simp
  have r: "read_from vhci w = read_from vhci w0 @ (got @ [buf])"
    using put(1) sv h(2) read(2) by (simp add: puts_def read_from_def)
  have t: "talks cmd (concat (filter (host_frame m) got) @ take n buf) vhci (concat (got @ [buf])) w0 w"
    using talks_trans [OF talks_trans [OF h(1) takes_talks [OF read(1)]] puts_talks [OF put(1) sv]] by simp
  have disjoint: "\<not> (host_frame m buf \<and> vendor_frame buf)" by (auto simp: host_frame_def vendor_frame_def)
  show "host_at m vhci cmd w0 w" if "n = length buf \<and> host_frame m buf \<or> n = 0 \<and> vendor_frame buf"
  proof -
    have "concat (filter (host_frame m) got) @ take n buf = concat (filter (host_frame m) (got @ [buf]))"
      "list_all (\<lambda>b. host_frame m b \<or> vendor_frame b) (got @ [buf])"
      using that h(3) disjoint by auto
    with r t show ?thesis unfolding host_at_def by metis
  qed
  have "bytes_cut (concat (filter (host_frame m) got) @ take n buf) (filter (host_frame m) (got @ [buf]))"
  proof (cases "host_frame m buf \<and> n < length buf")
    case True
    then show ?thesis unfolding bytes_cut_def by (auto intro!: exI [of _ n])
  next
    case False
    then have "concat (filter (host_frame m) got) @ take n buf = concat (filter (host_frame m) (got @ [buf]))"
      using hf put(2) by auto
    then show ?thesis unfolding bytes_cut_def by blast
  qed
  moreover have "list_all (\<lambda>b. host_frame m b \<or> vendor_frame b) (butlast (got @ [buf]))" using h(3) by simp
  ultimately show "host_end m vhci cmd w0 w" using r t unfolding host_end_def by blast
qed

text \<open>What a read from the kernel allows: nothing, or sending a first part of it.\<close>

definition host_read :: "mtus \<Rightarrow> int \<Rightarrow> int \<Rightarrow> world \<Rightarrow> bytes \<Rightarrow> world \<Rightarrow> bool" where
  "host_read m vhci cmd w0 buf v \<longleftrightarrow> host_end m vhci cmd w0 v \<and>
     (vendor_frame buf \<longrightarrow> host_at m vhci cmd w0 v) \<and>
     (host_frame m buf \<longrightarrow> (\<forall>n x. n \<le> length buf \<longrightarrow> puts cmd (take n buf) v x \<longrightarrow>
        host_end m vhci cmd w0 x \<and> (n = length buf \<longrightarrow> host_at m vhci cmd w0 x)))"

lemma host_readI:
  assumes "host_at m vhci cmd w0 u" "vhci \<noteq> signal_fd w0"
    and "takes vhci buf u v" "readlog v = readlog u @ [(vhci, buf)]"
  shows "host_read m vhci cmd w0 buf v"
proof -
  have p: "puts cmd (take 0 buf) v v" by simp
  show ?thesis
    unfolding host_read_def using host_sent [OF assms p] host_sent [OF assms] by auto
qed

lemma post_kernel_to_chip:
  assumes c: "vhci \<noteq> signal_fd w0"
  shows "host_at m vhci cmd w0 w \<Longrightarrow>
    post (kernel_to_chip m vhci cmd w) (\<lambda>_ w'. host_end m vhci cmd w0 w' \<and> \<not> running w')"
proof (induction w rule: script_induct)
  case (less w)
  let ?P = "\<lambda>(_ :: unit) w'. host_end m vhci cmd w0 w' \<and> \<not> running w'"
  let ?A = "\<lambda>v. shorter w v \<and> host_at m vhci cmd w0 v"
  have poll: "post (sys_poll n w) (\<lambda>r v. ?A v)" for n
    by (rule post_mono [OF post_sys_poll]) (use host_at_looks [OF less.prems _ c] in auto)
  have consume: "post (consume_signal_request u) (\<lambda>r v. ?A v)" if "?A u" for u
    by (rule post_mono [OF post_consume]) (use that host_at_looks [OF _ _ c] shorter_later looks_later in blast)
  have consume_if: "post (if b then consume_signal_request u else Some (False, u)) (\<lambda>r v. ?A v)" if "?A u" for u b
    using consume [OF that] that by simp
  have read: "post (sys_read vhci k u) (\<lambda>r v. shorter w v \<and>
      (case r of Inl e \<Rightarrow> host_at m vhci cmd w0 v | Inr buf \<Rightarrow> host_read m vhci cmd w0 buf v))" if "?A u" for u k
    by (rule post_mono [OF post_sys_read])
       (use that host_at_looks [OF _ _ c] host_readI [OF _ c] shorter_trans in \<open>auto split: sum.splits\<close>)
  have send: "post (write_all cmd buf 0 v) (\<lambda>ok x. shorter w x \<and> host_end m vhci cmd w0 x \<and>
      (ok \<longrightarrow> host_at m vhci cmd w0 x))" if "shorter w v" "host_read m vhci cmd w0 buf v" "host_frame m buf" for buf v
    by (rule post_mono [OF post_write_all [of 0, simplified]])
       (use that puts_later shorter_later in \<open>auto simp: host_read_def\<close>)
  have again: "post (kernel_to_chip m vhci cmd v) ?P" if "?A v" for v
    using less.IH that by blast
  have ends: "host_end m vhci cmd w0 v" if "host_read m vhci cmd w0 buf v" for v buf
    using that by (auto simp: host_read_def)
  have ends_at: "host_end m vhci cmd w0 v" if "host_at m vhci cmd w0 v" for v
    using that by (rule host_at_end)
  have vendor: "host_at m vhci cmd w0 v" if "host_read m vhci cmd w0 buf v" "buf \<noteq> []" "buf ! 0 = HCI_VENDOR_PKT" for v buf
    using that by (auto simp: host_read_def vendor_frame_def)
  show ?case
  proof (cases "running w")
    case False
    then show ?thesis using host_at_end [OF less.prems] by (subst kernel_to_chip.simps) simp
  next
    case True
    show ?thesis
      using True
      by (subst kernel_to_chip.simps, simp, intro post_bind [OF poll],
          auto simp: Let_def host_frame_def split: sum.splits simp del: if_split
            intro!: post_bind [OF consume] post_bind [OF consume_if]
        post_bind [OF read] post_bind [OF send] again host_end_shutdown host_at_shutdown)
         (blast intro: ends ends_at vendor)+
  qed
qed


section \<open>Properties\<close>

lemma validate_host_frame_iff:
  assumes "b \<noteq> []" "skw_h4_decode b = (status, f)"
  shows "validate_host_frame m b \<longleftrightarrow> status = SKW_H4_COMPLETE \<and> frame_size f = length b \<and>
    frame_within_limit f (host_frame_limit m (b ! 0)) \<and> (b ! 0 = SKW_H4_ISO_PKT \<longrightarrow> b ! 4 AND 0xc0 = 0)"
proof -
  have "h4_type f = b ! 0" using decode_type [OF assms(1)] assms(2) by simp
  then show ?thesis by (simp only: validate_host_frame_def assms(2) prod.case) auto
qed

lemma h4_packet_iff:
  assumes "b \<noteq> []" "skw_h4_decode b = (status, f)"
  shows "h4_packet b \<longleftrightarrow> status = SKW_H4_COMPLETE \<and> frame_size f = length b"
  using complete_h4_packet [of b f] h4_packet_complete [of b] assms(2) by (metis prod.inject)

lemma validate_Nil: "\<not> validate_host_frame m []" "\<not> h4_packet []"
  by (simp_all add: validate_host_frame_def skw_h4_decode_def h4_packet_def)

text \<open>
  C37: The host side's validation is exact: a frame from the kernel is accepted if and only
  if it is one complete packet, of a type the host may send, within the size limit of its
  type (the controller's buffer sizes for ACL and SCO) and the 1028 bytes of the kernel's
  buffer, and, for ISO, with none of the two flag bits above its 14-bit size.
\<close>

theorem host_validation_exact:
  "validate_host_frame m b \<longleftrightarrow>
     h4_packet b \<and> 0 < host_frame_limit m (b ! 0) \<and>
     length b \<le> min (host_frame_limit m (b ! 0)) SKW_H4_KERNEL_MAX_FRAME \<and>
     (if b ! 0 = SKW_H4_ISO_PKT then b ! 4 AND 0xc0 = 0 else True)"
proof (cases "b = []")
  case False
  obtain status f where d: "skw_h4_decode b = (status, f)" by (cases "skw_h4_decode b")
  show ?thesis
    unfolding validate_host_frame_iff [OF False d] h4_packet_iff [OF False d] frame_within_limit_def by auto
qed (simp add: validate_Nil)

definition sample_mtus :: mtus where
  "sample_mtus = \<lparr>acl_mtu = 1021, sco_mtu = 64\<rparr>"

text \<open>
  Reassembly always makes progress: whatever the chip sent, once the complete frames are
  taken off, what is left is less than the stream's capacity, so the next read is never
  asked for 0 bytes and the bridge never ends because a frame does not fit.
\<close>

theorem stream_never_fills:
  assumes "unframe (h4_framer (controller_accepts m)) xs = (fs, s, True)"
  shows "length s < SKW_H4_STREAM_CAPACITY"
  by (rule rest_not_full [OF assms])

theorem stream_never_fills_witness:
  "length [2, 0, 0, 100 :: u8] < SKW_H4_STREAM_CAPACITY"
proof -
  have "unframe (h4_framer (controller_accepts sample_mtus)) [4, 0x0e, 1, 9, 2, 0, 0, 100] =
      ([[4, 0x0e, 1, 9]], [2, 0, 0, 100], True)"
    unfolding unframe_def by code_simp
  from stream_never_fills [OF this] show ?thesis .
qed

text \<open>
  C11: Chip to kernel is lossless and in order. When the reader thread returns, a shutdown has
  been requested, and of all bytes read from the controller's descriptor, however they were
  cut into reads, the complete frames, less the controller's log, are exactly what was
  written to the kernel, one write each: all of those up to the last read but one, and of
  those the last read completed a first part, of which at most the final frame is cut short.
\<close>

theorem controller_frames_forwarded:
  assumes "chip_to_kernel m vhci vendor_fds w = Some ((), w')"
    and "poll_fds [] vendor_fds = [c]" and "c \<noteq> signal_fd w"
  shows "\<not> running w' \<and>
    (\<exists>reads recent fs s gs rest ok sent.
        read_from c w' = read_from c w @ reads @ recent \<and> length recent \<le> 1 \<and>
        unframe (h4_framer (controller_accepts m)) (concat reads) = (fs, s, True) \<and>
        unframe (h4_framer (controller_accepts m)) (s @ concat recent) = (gs, rest, ok) \<and>
        cut_after sent (kernel_frames gs) \<and>
        written w' = written w @ map (Pair vhci) (kernel_frames fs @ sent))"
proof -
  have "chip_loop m vhci [c] [[]] w = Some ((), w')"
    using assms(1,2) by (simp add: chip_to_kernel_def)
  from postD [OF post_chip_loop [OF assms(3) chip_at_start] this]
  have e: "chip_end m vhci c w w'" and r: "\<not> running w'" by simp_all
  from e show ?thesis unfolding chip_end_def by (intro conjI [OF r]) (erule conjunct2)
qed

text \<open>A controller on descriptor 10: an event and a log frame in three reads, then a hang-up.\<close>

definition chip_script :: "answer list" where
  "chip_script = [Polled [[POLLIN]], Read_failed EAGAIN, Got [4, 0x0e],
     Polled [[POLLIN]], Read_failed EAGAIN, Got [1, 9, 7, 0], Wrote 4,
     Polled [[POLLIN]], Read_failed EAGAIN, Got [1, 0, 0x55, 4, 0x13, 0], Wrote 3,
     Polled [[POLLHUP]], Read_failed EAGAIN]"

theorem controller_frames_forwarded_witness:
  "\<exists>w'. chip_to_kernel sample_mtus 20 [10, 10, -1, 10] (sample_world chip_script) = Some ((), w') \<and>
     sent_to 20 w' = [[4, 0x0e, 1, 9], [4, 0x13, 0]] \<and> \<not> running w'"
proof -
  let ?w = "sample_world chip_script"
  have "map_option (\<lambda>(u, v). sent_to 20 v) (chip_to_kernel sample_mtus 20 [10, 10, -1, 10] ?w) =
      Some [[4, 0x0e, 1, 9], [4, 0x13, 0]]"
    by code_simp
  then obtain w' where w': "chip_to_kernel sample_mtus 20 [10, 10, -1, 10] ?w = Some ((), w')"
    "sent_to 20 w' = [[4, 0x0e, 1, 9], [4, 0x13, 0]]"
    by auto
  have "poll_fds [] [10, 10, -1, 10 :: int] = [10]" by simp
  from controller_frames_forwarded [OF w'(1) this] w' show ?thesis by (auto simp: sample_world_def)
qed

text \<open>
  C12: Kernel to chip is lossless and in order. When \<open>kernel_to_chip\<close> returns, a shutdown has
  been requested; every read from the kernel but the last was a valid host frame or a frame
  for the driver itself; and the bytes sent to the controller are exactly the valid host
  frames, verbatim and in their order, only the last of them possibly cut short.
\<close>

theorem host_frames_sent:
  assumes "kernel_to_chip m vhci cmd w = Some ((), w')" and "vhci \<noteq> signal_fd w"
  shows "\<not> running w' \<and>
    (\<exists>got out. talks cmd out vhci (concat got) w w' \<and> read_from vhci w' = read_from vhci w @ got \<and>
        list_all (\<lambda>b. host_frame m b \<or> vendor_frame b) (butlast got) \<and>
        bytes_cut out (filter (host_frame m) got))"
  using postD [OF post_kernel_to_chip [OF assms(2) host_at_start] assms(1)]
  unfolding host_end_def by blast

text \<open>A kernel on descriptor 20: a command, a frame for the driver, and one that is malformed.\<close>

definition kernel_script :: "answer list" where
  "kernel_script = [Polled [[POLLIN], []], Got [1, 3, 0x0c, 0], Wrote 1, Wrote 3,
     Polled [[POLLIN], []], Got [0xff, 0],
     Polled [[POLLIN], []], Got [1, 3, 0x0c, 1]]"

theorem host_frames_sent_witness:
  "\<exists>w'. kernel_to_chip sample_mtus 20 10 (sample_world kernel_script) = Some ((), w') \<and>
     sent_to 10 w' = [[1], [3, 0x0c, 0]] \<and> runtime_failed w' \<and> \<not> running w'"
proof -
  let ?w = "sample_world kernel_script"
  have "map_option (\<lambda>(u, v). (sent_to 10 v, runtime_failed v)) (kernel_to_chip sample_mtus 20 10 ?w) =
      Some ([[1], [3, 0x0c, 0]], True)"
    by code_simp
  then obtain w' where w': "kernel_to_chip sample_mtus 20 10 ?w = Some ((), w')"
    "sent_to 10 w' = [[1], [3, 0x0c, 0]]" "runtime_failed w'"
    by auto
  from host_frames_sent [OF w'(1)] w' show ?thesis by (auto simp: sample_world_def)
qed

end
