(* ===== verification/Bridge_Main.thy ===== *)
theory Bridge_Main
  imports Vhci_Bridge
begin

text \<open>
  The life cycle of the vHCI bridge: opening the vendor library and its channels, setting
  the controller up, the two forwarding threads and the release of everything.

  What the vendor library, the loader and the thread calls answer is the record
  \<open>answers\<close>; the calls that are made are a list of \<open>act\<close>s, in their order. The main thread
  runs against the world \<open>w\<close>, the reader thread against \<open>rw\<close>.
\<close>

abbreviation (input) CH_CMD :: nat where "CH_CMD \<equiv> 0"
abbreviation (input) CH_EVT :: nat where "CH_EVT \<equiv> 1"
abbreviation (input) CH_MAX :: nat where "CH_MAX \<equiv> 4"
abbreviation (input) VENDOR_OPEN_ATTEMPTS :: nat where "VENDOR_OPEN_ATTEMPTS \<equiv> 15"

datatype act =
  Signals_installed
| Signals_removed
| Lib_opened
| Lib_closed
| Vendor_init int
| Vendor_power_on
| Channels_open int
| Channels_close
| Vendor_epilog
| Vendor_cleanup
| Adapter_opened int
| Adapter_closed
| Reader_started
| Reader_joined

record answers =
  a_signals :: bool
  a_file :: "bytes option"
  a_dlopen :: bool
  a_dlsym :: bool
  a_init :: int
  a_open :: "nat \<Rightarrow> int \<times> int list"
  a_vhci :: int
  a_thread :: int
  a_join :: int

text \<open>The globals of the program that say what there is to release.\<close>

record held =
  lib_handle :: bool
  vendor_interface :: bool
  vendor_initialized :: bool
  vendor_channels_open :: bool

definition nothing_held :: held where
  "nothing_held = \<lparr>lib_handle = False, vendor_interface = False, vendor_initialized = False,
     vendor_channels_open = False\<rparr>"

definition reset_shutdown_state :: "world \<Rightarrow> world" where
  "reset_shutdown_state w = w\<lparr>runtime_failed := False, running := True\<rparr>"

text \<open>
  \<open>open_vendor_channels\<close> from attempt \<open>attempt\<close> on; \<open>n\<close> is the number of attempts left after
  it. The result is the descriptors, or \<open>None\<close> for -1, and the calls made.
\<close>

primrec open_attempts ::
  "answers \<Rightarrow> nat \<Rightarrow> nat \<Rightarrow> world \<Rightarrow> ((int list option \<times> act list) \<times> world) option" where
  "open_attempts a 0 attempt w =
     (case a_open a attempt of (r, fds) \<Rightarrow>
        if r > 0 then Some ((Some fds, [Channels_open r]), w)
        else Some ((None, [Channels_open r, Channels_close]), w))"
| "open_attempts a (Suc n) attempt w =
     (case a_open a attempt of (r, fds) \<Rightarrow>
        if r > 0 then Some ((Some fds, [Channels_open r]), w)
        else if \<not> running w then Some ((None, [Channels_open r, Channels_close]), w)
        else do {
          (ready, w) \<leftarrow> sys_poll 1 w;
          (_, w) \<leftarrow> (case ready of
              Inr revents \<Rightarrow> if revents ! 0 \<noteq> [] then consume_signal_request w else Some (False, w)
            | Inl _ \<Rightarrow> Some (False, w));
          if \<not> running w \<or> (case ready of Inl e \<Rightarrow> e \<noteq> EINTR | Inr _ \<Rightarrow> False)
          then Some ((None, [Channels_open r, Channels_close]), w)
          else do {
            ((fds, log), w) \<leftarrow> open_attempts a n (attempt + 1) w;
            Some ((fds, [Channels_open r, Channels_close] @ log), w)
          }
        })"

definition open_vendor_channels :: "answers \<Rightarrow> world \<Rightarrow> ((int list option \<times> act list) \<times> world) option" where
  "open_vendor_channels a w = open_attempts a (VENDOR_OPEN_ATTEMPTS - 1) 1 w"

text \<open>
  \<open>init_vendor_library\<close>: the descriptors and buffer sizes when it returned 0, what is held
  afterwards in any case, and the calls made.
\<close>

definition init_vendor_library ::
  "answers \<Rightarrow> world \<Rightarrow> (((int list \<times> mtus) option \<times> held \<times> act list) \<times> world) option" where
  "init_vendor_library a w =
     (case read_bdaddr_file (a_file a) of
        None \<Rightarrow> Some ((None, nothing_held, []), w)
      | Some local_bdaddr \<Rightarrow>
          if \<not> a_dlopen a then Some ((None, nothing_held, []), w)
          else let h = nothing_held\<lparr>lib_handle := True\<rparr> in
            if \<not> a_dlsym a then Some ((None, h, [Lib_opened]), w)
            else let h = h\<lparr>vendor_interface := True\<rparr>; log = [Lib_opened, Vendor_init (a_init a)] in
              if a_init a \<noteq> 0 then Some ((None, h, log), w)
              else let h = h\<lparr>vendor_initialized := True\<rparr>; log = log @ [Vendor_power_on] in do {
                ((fds, opens), w) \<leftarrow> open_vendor_channels a w;
                let log = log @ opens in
                case fds of
                  None \<Rightarrow> Some ((None, h, log), w)
                | Some fds \<Rightarrow>
                    let h = h\<lparr>vendor_channels_open := True\<rparr> in
                    if fds ! CH_CMD < 0 \<or> fds ! CH_EVT < 0 then Some ((None, h, log), w)
                    else do {
                      (ok, w) \<leftarrow> configure_controller_address (fds ! CH_CMD) (fds ! CH_EVT) local_bdaddr w;
                      if \<not> ok then Some ((None, h, log), w)
                      else do {
                        (m, w) \<leftarrow> read_controller_buffer_sizes (fds ! CH_CMD) (fds ! CH_EVT) w;
                        Some ((map_option (Pair fds) m, h, log), w)
                      }
                    }
              })"

definition cleanup_vendor_library :: "held \<Rightarrow> act list" where
  "cleanup_vendor_library h =
     (if vendor_interface h \<and> vendor_channels_open h then [Channels_close] else []) @
     (if vendor_interface h \<and> vendor_initialized h then [Vendor_epilog, Vendor_cleanup] else []) @
     (if lib_handle h then [Lib_closed] else [])"

text \<open>\<open>main\<close>: the exit status and the calls made.\<close>

definition vhci_main :: "bytes list \<Rightarrow> answers \<Rightarrow> world \<Rightarrow> world \<Rightarrow> (int \<times> act list) option" where
  "vhci_main args a w rw =
     (if args = [ascii ''--version''] then Some (0, [])
      else if args \<noteq> [] then Some (2, [])
      else let w = reset_shutdown_state w in
        if \<not> a_signals a then Some (1, [])
        else do {
          ((r, h, log), w) \<leftarrow> init_vendor_library a w;
          let log = [Signals_installed] @ log; release = cleanup_vendor_library h @ [Signals_removed] in
          case r of
            None \<Rightarrow> Some (1, log @ release)
          | Some (fds, m) \<Rightarrow>
              if a_vhci a < 0 then Some (1, log @ release)
              else let vhci = a_vhci a; log = log @ [Adapter_opened vhci] in
                if a_thread a \<noteq> 0 then Some (1, log @ [Adapter_closed] @ release)
                else do {
                  (_, w) \<leftarrow> kernel_to_chip m vhci (fds ! CH_CMD) w;
                  (_, rw) \<leftarrow> chip_to_kernel m vhci fds rw;
                  let failed = runtime_failed w \<or> runtime_failed rw \<or> a_join a \<noteq> 0;
                      log = log @ [Reader_started, Reader_joined, Adapter_closed] @ release in
                  Some (if failed then 1 else 0, log)
                }
        })"

section \<open>Releasing what is held\<close>

text \<open>
  The protocol of the calls: what is held before and after each, \<open>None\<close> for a call out of
  place (a second opening, a release of what is not held, a library closed under an open
  channel). A failed opening of the channels may leave a part open until they are closed.
\<close>

datatype resource = Signals | Library | Vendor | Channels | Adapter | Reader

fun act_step :: "act \<Rightarrow> resource list \<Rightarrow> resource list option" where
  "act_step Signals_installed hs = (if hs = [] then Some [Signals] else None)"
| "act_step Signals_removed hs = (if hs = [Signals] then Some [] else None)"
| "act_step Lib_opened hs = (if hs = [Signals] then Some [Library, Signals] else None)"
| "act_step Lib_closed hs = (if hs = [Library, Signals] then Some [Signals] else None)"
| "act_step (Vendor_init r) hs =
     (if hs = [Library, Signals] then Some (if r = 0 then [Vendor, Library, Signals] else hs) else None)"
| "act_step Vendor_power_on hs = (if hs = [Vendor, Library, Signals] then Some hs else None)"
| "act_step (Channels_open r) hs =
     (if hs = [Vendor, Library, Signals] then Some [Channels, Vendor, Library, Signals] else None)"
| "act_step Channels_close hs =
     (if hs = [Channels, Vendor, Library, Signals] then Some [Vendor, Library, Signals] else None)"
| "act_step Vendor_epilog hs = (if hs = [Vendor, Library, Signals] then Some hs else None)"
| "act_step Vendor_cleanup hs = (if hs = [Vendor, Library, Signals] then Some [Library, Signals] else None)"
| "act_step (Adapter_opened fd) hs =
     (if hs = [Channels, Vendor, Library, Signals] then Some (Adapter # hs) else None)"
| "act_step Adapter_closed hs =
     (if hs = [Adapter, Channels, Vendor, Library, Signals] then Some (tl hs) else None)"
| "act_step Reader_started hs =
     (if hs = [Adapter, Channels, Vendor, Library, Signals] then Some (Reader # hs) else None)"
| "act_step Reader_joined hs =
     (if hs = [Reader, Adapter, Channels, Vendor, Library, Signals] then Some (tl hs) else None)"

fun act_run :: "act list \<Rightarrow> resource list \<Rightarrow> resource list option" where
  "act_run [] hs = Some hs"
| "act_run (x # xs) hs = (case act_step x hs of None \<Rightarrow> None | Some hs \<Rightarrow> act_run xs hs)"

lemma act_run_append:
  "act_run (xs @ ys) hs = (case act_run xs hs of None \<Rightarrow> None | Some hs \<Rightarrow> act_run ys hs)"
  by (induction xs arbitrary: hs) (auto split: option.splits)

definition held_stack :: "held \<Rightarrow> resource list" where
  "held_stack h =
     (if vendor_channels_open h then [Channels] else []) @ (if vendor_initialized h then [Vendor] else []) @
     (if lib_handle h then [Library] else []) @ [Signals]"

text \<open>The globals describe a stack: a part is held only on top of the parts it needs.\<close>

definition wf_held :: "held \<Rightarrow> bool" where
  "wf_held h \<longleftrightarrow> (vendor_channels_open h \<longrightarrow> vendor_initialized h) \<and>
     (vendor_initialized h \<longrightarrow> vendor_interface h) \<and> (vendor_interface h \<longrightarrow> lib_handle h)"

lemma cleanup_releases: "wf_held h \<Longrightarrow> act_run (cleanup_vendor_library h) (held_stack h) = Some [Signals]"
  by (auto simp: wf_held_def cleanup_vendor_library_def held_stack_def)

lemma open_attempts_protocol:
  "open_attempts a n attempt w = Some ((fds, log), w') \<Longrightarrow>
   act_run log [Vendor, Library, Signals] =
     Some (if fds = None then [Vendor, Library, Signals] else [Channels, Vendor, Library, Signals])"
proof (induction n arbitrary: attempt w log fds)
  case 0
  then show ?case by (auto split: prod.splits if_splits)
next
  case (Suc n)
  then show ?case by (auto split: prod.splits if_splits bind_splits)
qed

lemma init_protocol:
  assumes "init_vendor_library a w = Some ((r, h, log), w')"
  shows "wf_held h" "act_run log [Signals] = Some (held_stack h)" "r \<noteq> None \<Longrightarrow> vendor_channels_open h"
proof -
  have "wf_held h \<and> act_run log [Signals] = Some (held_stack h) \<and> (r \<noteq> None \<longrightarrow> vendor_channels_open h)"
    using assms
    by (auto simp: init_vendor_library_def wf_held_def held_stack_def nothing_held_def open_vendor_channels_def
        act_run_append Let_def dest!: open_attempts_protocol split: option.splits if_splits bind_splits)
  then show "wf_held h" "act_run log [Signals] = Some (held_stack h)" "r \<noteq> None \<Longrightarrow> vendor_channels_open h"
    by blast+
qed

section \<open>Properties\<close>

lemma post_open_attempts:
  "post (open_attempts a n attempt w) (\<lambda>(fds, log) w'. looks w w' \<and>
     length (filter (\<lambda>x. \<exists>r. x = Channels_open r) log) \<le> Suc n)"
proof (induction n arbitrary: attempt w)
  case (Suc n)
  have poll: "post (sys_poll k w) (\<lambda>r v. looks w v)" for k
    by (rule post_mono [OF post_sys_poll]) simp
  have drain: "post (case ready of Inr revents \<Rightarrow> if revents ! 0 \<noteq> [] then consume_signal_request v else Some (False, v)
      | Inl e \<Rightarrow> Some (False, v)) (\<lambda>_ v'. looks w v')" if "looks w v" for ready v
    using that by (auto split: sum.splits intro: looks_trans post_mono [OF post_consume])
  have rest: "post (open_attempts a n k v) (\<lambda>(fds, log) w'. looks w w' \<and>
      length (filter (\<lambda>x. \<exists>r. x = Channels_open r) log) \<le> Suc n)" if "looks w v" for k v
    by (rule post_mono [OF Suc.IH]) (use that looks_trans in auto)
  show ?case
    by (auto split: prod.splits intro!: post_bind [OF poll] post_bind [OF drain] post_bind [OF rest])
qed (auto split: prod.splits)

lemma post_open_vendor_channels: "post (open_vendor_channels a w) (\<lambda>_ w'. looks w w')"
  unfolding open_vendor_channels_def by (rule post_mono [OF post_open_attempts]) auto

text \<open>The order in which \<open>main\<close> takes and releases its resources.\<close>

lemma main_protocol:
  assumes "vhci_main args a w rw = Some (status, log)"
  shows "act_run log [] = Some [] \<and>
    (status = 0 \<longrightarrow> args = [ascii ''--version''] \<or> a_join a = 0 \<and> Reader_joined \<in> set log)"
proof -
  have "act_run ([Signals_installed] @ l @ cleanup_vendor_library h @ [Signals_removed]) [] = Some []"
    if "init_vendor_library a v = Some ((r, h, l), v')" for v r h l v'
    using init_protocol [OF that] cleanup_releases [of h] by (simp add: act_run_append)
  moreover have "act_run ([Signals_installed] @ l @ Adapter_opened fd # mid @ Adapter_closed #
      cleanup_vendor_library h @ [Signals_removed]) [] = Some []"
    if "init_vendor_library a v = Some ((Some x, h, l), v')" "mid = [] \<or> mid = [Reader_started, Reader_joined]"
    for v x h l v' fd mid
  proof -
    note p = init_protocol [OF that(1)]
    have s: "held_stack h = [Channels, Vendor, Library, Signals]"
      using p(1,3) by (simp add: held_stack_def wf_held_def)
    show ?thesis
      using that(2) p(2) cleanup_releases [OF p(1)] by (auto simp: act_run_append s)
  qed
  note init = calculation this
  show ?thesis
    using assms init(1) init(2) [where mid = "[]"] init(2) [where mid = "[Reader_started, Reader_joined]"]
    unfolding vhci_main_def Let_def
    by (auto split: if_splits option.splits bind_splits)
qed

text \<open>
  C6: Whatever fails, everything is released, in the right order and once: for every return
  of \<open>main\<close>, the calls it made follow the protocol of the resources and end with nothing
  held. An exit status of 0 means that the bridge ran and its reader thread was joined.
\<close>

theorem everything_released:
  assumes "vhci_main args a w rw = Some (status, log)"
  shows "act_run log [] = Some [] \<and>
    (status = 0 \<longrightarrow> args = [ascii ''--version''] \<or> a_join a = 0 \<and> Reader_joined \<in> set log)"
  by (rule main_protocol [OF assms])

text \<open>A board on which everything works until the kernel's side hangs up.\<close>

definition sample_answers :: answers where
  "sample_answers = \<lparr>a_signals = True, a_file = Some (ascii ''11:22:33:44:55:66''), a_dlopen = True,
     a_dlsym = True, a_init = 0, a_open = (\<lambda>k. if k < 3 then (0, [-1, -1, -1, -1]) else (4, [10, 10, 10, 10])),
     a_vhci = 20, a_thread = 0, a_join = 0\<rparr>"

definition main_script :: "answer list" where
  "main_script = [Polled [[]], Polled [[]]] @ address_script @
     event_script [4, 1, 0x05, 0x10, 0, 0xfd, 0x03, 0x40, 0, 4, 0, 8] @ [Polled [[POLLHUP], []]]"

definition reader_script :: "answer list" where
  "reader_script = [Peer True, Polled [[]], Read_failed EAGAIN]"

lemma sample_run:
  "\<exists>log. vhci_main [] sample_answers (sample_world main_script) (sample_world reader_script) = Some (1, log)"
proof -
  have "map_option fst (vhci_main [] sample_answers (sample_world main_script) (sample_world reader_script)) = Some 1"
    by code_simp
  then show ?thesis by auto
qed

theorem everything_released_witness:
  "\<exists>log. vhci_main [] sample_answers (sample_world main_script) (sample_world reader_script) = Some (1, log) \<and>
     act_run log [] = Some []"
proof -
  obtain log where r: "vhci_main [] sample_answers (sample_world main_script) (sample_world reader_script) = Some (1, log)"
    using sample_run by blast
  from everything_released [OF r] r show ?thesis by blast
qed

text \<open>
  C38: Opening the vendor channels is tried at most 15 times, and every attempt that failed
  has been closed before the next one, and before giving up.
\<close>

theorem open_attempts_bounded:
  assumes "open_vendor_channels a w = Some ((fds, log), w')"
  shows "length (filter (\<lambda>x. \<exists>r. x = Channels_open r) log) \<le> 15 \<and>
    act_run log [Vendor, Library, Signals] =
      Some (if fds = None then [Vendor, Library, Signals] else [Channels, Vendor, Library, Signals])"
  using postD [OF post_open_attempts assms [unfolded open_vendor_channels_def]]
    open_attempts_protocol [OF assms [unfolded open_vendor_channels_def]] by simp

theorem open_attempts_bounded_witness:
  "act_run [Channels_open 0, Channels_close, Channels_open 0, Channels_close, Channels_open 4]
     [Vendor, Library, Signals] = Some [Channels, Vendor, Library, Signals]"
proof -
  have "map_option fst (open_vendor_channels sample_answers (sample_world [Polled [[]], Polled [[]]])) =
      Some (Some [10, 10, 10, 10],
        [Channels_open 0, Channels_close, Channels_open 0, Channels_close, Channels_open 4])"
    by code_simp
  then obtain w' where "open_vendor_channels sample_answers (sample_world [Polled [[]], Polled [[]]]) =
      Some ((Some [10, 10, 10, 10],
        [Channels_open 0, Channels_close, Channels_open 0, Channels_close, Channels_open 4]), w')"
    by auto
  from open_attempts_bounded [OF this] show ?thesis by simp
qed

text \<open>
  C23: No traffic is bridged before the controller is set up: when
  \<open>init_vendor_library\<close> succeeds, the address is the one of the file, the only bytes sent so far are the three
  commands that set and read back that address and the query of the buffer sizes, every one
  of them was answered with success, and the buffer sizes are those the controller reported,
  and small enough for the frames of the kernel's interface and of the vendor library.
\<close>

theorem bridged_only_configured:
  assumes "init_vendor_library a w = Some ((Some (fds, m), h, log), w')"
    and "fds ! CH_EVT \<noteq> signal_fd w"
  shows "\<exists>addr e1 e2 e3 e4 result. read_bdaddr_file (a_file a) = Some addr \<and>
    talks (fds ! CH_CMD)
      (command_packet HCI_WRITE_BD_ADDR addr @ command_packet HCI_RESET [] @
       command_packet HCI_READ_BD_ADDR [] @ command_packet HCI_READ_BUFFER_SIZE [])
      (fds ! CH_EVT) (e1 @ e2 @ e3 @ e4) w w' \<and>
    completes HCI_WRITE_BD_ADDR [] e1 \<and> completes HCI_RESET [] e2 \<and>
    completes HCI_READ_BD_ADDR addr e3 \<and> completes HCI_READ_BUFFER_SIZE result e4 \<and>
    acl_mtu m = unat (u16_at result 0) \<and> sco_mtu m = unat (result ! 2) \<and> 0 < acl_mtu m \<and>
    acl_mtu m + 5 \<le> SKW_H4_KERNEL_MAX_FRAME \<and> sco_mtu m + 4 \<le> SKW_H4_SCO_MAX_FRAME"
proof -
  obtain addr w1 w2 opens where i: "read_bdaddr_file (a_file a) = Some addr"
    "open_vendor_channels a w = Some ((Some fds, opens), w1)"
    "configure_controller_address (fds ! CH_CMD) (fds ! CH_EVT) addr w1 = Some (True, w2)"
    "read_controller_buffer_sizes (fds ! CH_CMD) (fds ! CH_EVT) w2 = Some (Some m, w')"
    using assms(1)
    by (auto simp: init_vendor_library_def Let_def split: option.splits if_splits bind_splits)
  have l: "looks w w1" using postD [OF post_open_vendor_channels i(2)] .
  have s1: "fds ! CH_EVT \<noteq> signal_fd w1"
    using assms(2) later_signal_fd [OF looks_later [OF l]] by simp
  from postD [OF post_configure [OF s1] i(3) [unfolded configure_controller_address_def]]
  obtain e1 e2 e3 where c: "talks (fds ! CH_CMD)
      (command_packet HCI_WRITE_BD_ADDR addr @ command_packet HCI_RESET [] @ command_packet HCI_READ_BD_ADDR [])
      (fds ! CH_EVT) (e1 @ e2 @ e3) w1 w2"
    "completes HCI_WRITE_BD_ADDR [] e1" "completes HCI_RESET [] e2" "completes HCI_READ_BD_ADDR addr e3"
    by auto
  have s2: "fds ! CH_EVT \<noteq> signal_fd w2" using s1 later_signal_fd [OF talks_later [OF c(1)]] by simp
  from postD [OF post_buffer_sizes [OF s2] i(4) [unfolded read_controller_buffer_sizes_def]]
  obtain result e4 where b: "talks (fds ! CH_CMD) (command_packet HCI_READ_BUFFER_SIZE []) (fds ! CH_EVT) e4 w2 w'"
    "completes HCI_READ_BUFFER_SIZE result e4" "acl_mtu m = unat (u16_at result 0)" "sco_mtu m = unat (result ! 2)"
    "0 < acl_mtu m" "acl_mtu m + 5 \<le> SKW_H4_KERNEL_MAX_FRAME" "sco_mtu m + 4 \<le> SKW_H4_SCO_MAX_FRAME"
    by auto
  show ?thesis
    by (rule exI [of _ addr], rule exI [of _ e1], rule exI [of _ e2], rule exI [of _ e3], rule exI [of _ e4],
        rule exI [of _ result])
       (use talks_trans [OF looks_talks [OF l assms(2)] talks_trans [OF c(1) b(1)]] i(1) c(2-4) b(2-7) in simp)
qed

theorem bridged_only_configured_witness:
  "\<exists>m h log w' e1 e2 e3 e4 result. init_vendor_library sample_answers (sample_world main_script) =
      Some ((Some ([10, 10, 10, 10], m), h, log), w') \<and>
    talks 10 (command_packet HCI_WRITE_BD_ADDR sample_addr @ command_packet HCI_RESET [] @
       command_packet HCI_READ_BD_ADDR [] @ command_packet HCI_READ_BUFFER_SIZE []) 10 (e1 @ e2 @ e3 @ e4)
      (sample_world main_script) w' \<and>
    acl_mtu m = unat (u16_at result 0)"
proof -
  have "map_option (\<lambda>((r, h, log), w'). map_option fst r) (init_vendor_library sample_answers (sample_world main_script)) =
      Some (Some [10, 10, 10, 10])"
    by code_simp
  then obtain m h log w' where r: "init_vendor_library sample_answers (sample_world main_script) =
      Some ((Some ([10, 10, 10, 10], m), h, log), w')"
    by auto
  have a: "read_bdaddr_file (a_file sample_answers) = Some sample_addr" by code_simp
  have "[10, 10, 10, 10 :: int] ! CH_EVT \<noteq> signal_fd (sample_world main_script)"
    by (simp add: sample_world_def)
  from bridged_only_configured [OF r this] a r show ?thesis by auto
qed

end
