(* ===== verification/Skw_Log.thy ===== *)
theory Skw_Log
  imports Prelude
begin

text \<open>
  The files of the vendor library's two logs, and the log of the controller
  (\<^verbatim>\<open>boards/s905x5m/userland/skwbt/src/skw_log.c\<close>).

  A file system is a map from paths to contents, with the descriptors that are open for
  appending. Every call of the system takes the next outcome of an environment: whether it
  fails, which number it returns, and what the clock shows. \<open>last_errno\<close> is the C library's
  \<open>errno\<close>, which keeps the code of the last call that failed.
\<close>

unbundle bit_operations_syntax

section \<open>Files\<close>

record outcome =
  failed :: "nat option"
  number :: nat
  tv_sec :: int
  tv_usec :: int
  stamp :: bytes
  tm_sec :: u8
  tm_min :: u8
  tm_hour :: u8
  tm_mday :: u8
  random :: nat

type_synonym environment = "nat \<Rightarrow> outcome"

record logs =
  files :: "bytes \<rightharpoonup> bytes"
  open_files :: "int \<rightharpoonup> bytes"
  calls :: nat
  last_errno :: nat
  hci_btsnoop_fd :: int
  btsnoop_rev_length :: u32
  btsnoop_cnts :: u32
  skwlog_fp :: int
  skwlog_rev_length :: u32
  skwlog_cnts :: u32

text \<open>The settings that \<open>load_skwbt_stack_conf\<close> reads.\<close>

record log_conf =
  skw_btsnoop_path :: bytes
  btsnoop_save_log :: bool
  btsnoop_log_en :: bool
  btcp_log_en :: bool
  skwlog_slice :: bool

definition SKW_LOG_DEFAULT_SIZE :: nat where "SKW_LOG_DEFAULT_SIZE = 300 * 1024 * 1024"

abbreviation (input) ENOENT :: nat where "ENOENT \<equiv> 2"
abbreviation (input) EBADF :: nat where "EBADF \<equiv> 9"

definition next_outcome :: "environment \<Rightarrow> logs \<Rightarrow> outcome \<times> logs" where
  "next_outcome e s = (e (calls s), s\<lparr>calls := calls s + 1\<rparr>)"

definition fails :: "nat \<Rightarrow> logs \<Rightarrow> logs" where
  "fails n s = s\<lparr>last_errno := n\<rparr>"

definition file_stat :: "environment \<Rightarrow> bytes \<Rightarrow> logs \<Rightarrow> bool \<times> logs" where
  "file_stat e path s =
     (let (r, s) = next_outcome e s in
      case failed r of
        Some n \<Rightarrow> (False, fails n s)
      | None \<Rightarrow> if files s path = None then (False, fails ENOENT s) else (True, s))"

definition open_read :: "environment \<Rightarrow> bytes \<Rightarrow> logs \<Rightarrow> int \<times> logs" where
  "open_read e path s =
     (let (r, s) = next_outcome e s in
      case failed r of
        Some n \<Rightarrow> (-1, fails n s)
      | None \<Rightarrow> if files s path = None then (-1, fails ENOENT s) else (int (number r), s))"

text \<open>\<open>(int)buf.st_size\<close>\<close>

definition file_size :: "bytes \<Rightarrow> logs \<Rightarrow> int" where
  "file_size path s = (case files s path of None \<Rightarrow> 0 | Some b \<Rightarrow> sint (word_of_nat (length b) :: u32))"

definition remove_file :: "environment \<Rightarrow> bytes \<Rightarrow> logs \<Rightarrow> logs" where
  "remove_file e path s =
     (let (r, s) = next_outcome e s in
      case failed r of
        Some n \<Rightarrow> fails n s
      | None \<Rightarrow>
          if files s path = None then fails ENOENT s
          else s\<lparr>files := (files s)(path := None),
                 open_files := (\<lambda>fd. if open_files s fd = Some path then None else open_files s fd)\<rparr>)"

definition rename_file :: "environment \<Rightarrow> bytes \<Rightarrow> bytes \<Rightarrow> logs \<Rightarrow> bool \<times> logs" where
  "rename_file e from to s =
     (let (r, s) = next_outcome e s in
      case failed r of
        Some n \<Rightarrow> (False, fails n s)
      | None \<Rightarrow> (case files s from of
          None \<Rightarrow> (False, fails ENOENT s)
        | Some b \<Rightarrow> (True, if from = to then s else
            s\<lparr>files := (files s)(from := None, to := Some b),
              open_files := (\<lambda>fd. if open_files s fd = Some from then Some to
                else if open_files s fd = Some to then None else open_files s fd)\<rparr>)))"

definition open_append :: "environment \<Rightarrow> bytes \<Rightarrow> logs \<Rightarrow> int \<times> logs" where
  "open_append e path s =
     (let (r, s) = next_outcome e s in
      case failed r of
        Some n \<Rightarrow> (-1, fails n s)
      | None \<Rightarrow> (int (number r),
          s\<lparr>files := (if files s path = None then (files s)(path := Some []) else files s),
            open_files := (open_files s)(int (number r) := Some path)\<rparr>))"

definition close_file :: "int \<Rightarrow> logs \<Rightarrow> logs" where
  "close_file fd s = (if open_files s fd = None then fails EBADF s
     else s\<lparr>open_files := (open_files s)(fd := None)\<rparr>)"

text \<open>A write may take only a part of the data; the callers do not look.\<close>

definition write_file :: "environment \<Rightarrow> int \<Rightarrow> bytes \<Rightarrow> logs \<Rightarrow> logs" where
  "write_file e fd data s =
     (let (r, s) = next_outcome e s in
      case failed r of
        Some n \<Rightarrow> fails n s
      | None \<Rightarrow> (case open_files s fd of
          None \<Rightarrow> fails EBADF s
        | Some path \<Rightarrow> s\<lparr>files := (files s)(path := Some (case_option [] id (files s path) @ take (number r) data))\<rparr>))"

text \<open>\<open>%0wd\<close>\<close>

definition padded_decimal :: "nat \<Rightarrow> int \<Rightarrow> bytes" where
  "padded_decimal w i =
     (let d = decimal (nat \<bar>i\<bar>); sign = (if i < 0 then [45] else [])
      in sign @ replicate (w - length sign - length d) 48 @ d)"

section \<open>The log of the controller\<close>

text \<open>The directory of the path: what stands before its last separator but the first character.\<close>

primrec log_dir :: "bytes \<Rightarrow> nat \<Rightarrow> bytes" where
  "log_dir path 0 = []"
| "log_dir path (Suc i) =
     (if path ! Suc i = 0x2f \<or> path ! Suc i = 0x5c then take (Suc i) path else log_dir path i)"

definition log_path :: "log_conf \<Rightarrow> bytes" where
  "log_path c = log_dir (skw_btsnoop_path c) (length (skw_btsnoop_path c) - 1) @ ascii ''/skwlog.log''"

definition skwlog_header :: bytes where
  "skwlog_header = ascii ''skwcplog'' @ [0, 1, 0, 2, 0, 0, 3, 0xea]"

text \<open>The files \<open>skwlog_open\<close> finds: what becomes of an old one, and whether a header is due.\<close>

definition keep_old_log :: "environment \<Rightarrow> log_conf \<Rightarrow> bool \<Rightarrow> logs \<Rightarrow> bool \<times> logs" where
  "keep_old_log e c new_file s =
     (let base = log_dir (skw_btsnoop_path c) (length (skw_btsnoop_path c) - 1);
          size = file_size (log_path c) s;
          s = (if skwlog_slice c then
                 if new_file then
                   (let last = base @ ascii ''/skwlog-last.log''
                    in snd (rename_file e (log_path c) last (remove_file e last s)))
                 else s\<lparr>skwlog_rev_length := word_of_int size\<rparr>
               else if size > 16 + 12 then
                 (let (now, s) = next_outcome e s;
                      (r, s) = next_outcome e s
                  in snd (rename_file e (log_path c)
                       (base @ ascii ''/skwlog-'' @ stamp now @ ascii ''_'' @
                        padded_decimal 3 (int (random r mod 1000)) @ ascii ''-'' @
                        padded_decimal 2 (sint (skwlog_cnts s)) @ ascii ''.log'') s))
               else s)
      in (new_file \<or> size = 0, s))"

definition skwlog_open :: "environment \<Rightarrow> log_conf \<Rightarrow> bool \<Rightarrow> logs \<Rightarrow> logs" where
  "skwlog_open e c new_file s =
     (if \<not> btcp_log_en c then s
      else
        let (present, s) = file_stat e (log_path c) s;
            (fd, s) = (if present then open_read e (log_path c) s else (-1, s));
            (new_file, s) = (if fd > 0 then keep_old_log e c new_file s else (True, s));
            (fp, s) = open_append e (log_path c) s;
            s = s\<lparr>skwlog_fp := fp\<rparr>;
            s = (if fp > 0 \<and> new_file then write_file e fp skwlog_header s else s)
        in s\<lparr>skwlog_cnts := skwlog_cnts s + 1\<rparr>)"

definition skwlog_write :: "environment \<Rightarrow> log_conf \<Rightarrow> bytes \<Rightarrow> logs \<Rightarrow> logs" where
  "skwlog_write e c buffer s =
     (if skwlog_fp s > 0 then
        let s = write_file e (skwlog_fp s) buffer s;
            s = s\<lparr>skwlog_rev_length := skwlog_rev_length s + word_of_nat (length buffer)\<rparr>
        in if unat (skwlog_rev_length s) \<ge> SKW_LOG_DEFAULT_SIZE
           then skwlog_open e c True ((close_file (skwlog_fp s) (s\<lparr>skwlog_rev_length := 0\<rparr>))\<lparr>skwlog_fp := -1\<rparr>)
           else s
      else s)"

definition skwlog_print_current_time :: "environment \<Rightarrow> log_conf \<Rightarrow> logs \<Rightarrow> logs" where
  "skwlog_print_current_time e c s =
     (let (now, s) = next_outcome e s
      in skwlog_write e c ([0x07, 0xFF, 0x08, 0x00, 0x01, 0xD0, 0x55, 0x55] @
           [tm_sec now, tm_min now, tm_hour now, tm_mday now]) s)"

definition skwlog_reopen :: "environment \<Rightarrow> log_conf \<Rightarrow> bool \<Rightarrow> logs \<Rightarrow> logs" where
  "skwlog_reopen e c new_file s =
     (let s = s\<lparr>skwlog_rev_length := 0\<rparr>;
          s = (if skwlog_fp s \<noteq> -1 then close_file (skwlog_fp s) s else s);
          s = skwlog_open e c new_file s
      in if skwlog_fp s > 0 then skwlog_print_current_time e c s else s)"

definition skwlog_init :: "environment \<Rightarrow> log_conf \<Rightarrow> logs \<Rightarrow> logs" where
  "skwlog_init e c s =
     (let s = s\<lparr>skwlog_fp := -1, skwlog_rev_length := 0, skwlog_cnts := 0\<rparr>
      in if btcp_log_en c \<and> (\<not> btsnoop_save_log c \<or> \<not> skwlog_slice c) then
           (let s = skwlog_open e c True s
            in if skwlog_fp s > 0 then skwlog_print_current_time e c s else s)
         else s)"

definition skwlog_close :: "logs \<Rightarrow> logs" where
  "skwlog_close s =
     (let s = (if skwlog_fp s \<noteq> -1 then close_file (skwlog_fp s) s else s)
      in s\<lparr>skwlog_fp := -1, skwlog_rev_length := 0, skwlog_cnts := 0\<rparr>)"

section \<open>What the log keeps\<close>

text \<open>An environment where no call fails and every write is complete.\<close>

definition all_well :: "environment \<Rightarrow> bool" where
  "all_well e \<longleftrightarrow> (\<forall>n. failed (e n) = None \<and> number (e n) \<ge> 2 ^ 17)"

lemma all_wellD:
  assumes "all_well e"
  shows "failed (e n) = None" "2 ^ 17 \<le> number (e n)"
  using assms unfolding all_well_def by simp_all

text \<open>The log is open and its file holds \<open>d\<close>.\<close>

definition logging_to :: "log_conf \<Rightarrow> bytes \<Rightarrow> logs \<Rightarrow> bool" where
  "logging_to c d s \<longleftrightarrow> skwlog_fp s > 0 \<and> open_files s (skwlog_fp s) = Some (log_path c) \<and>
     files s (log_path c) = Some d"

text \<open>What of an old log stays in front of the new one.\<close>

definition kept_log :: "log_conf \<Rightarrow> bytes option \<Rightarrow> bytes" where
  "kept_log c old = (case old of None \<Rightarrow> [] | Some d \<Rightarrow> if skwlog_slice c \<or> length d > 16 + 12 then [] else d)"

text \<open>The record of the time of day.\<close>

definition time_record :: "bytes \<Rightarrow> bytes" where
  "time_record time = [0x07, 0xFF, 0x08, 0x00, 0x01, 0xD0, 0x55, 0x55] @ time"

lemma length_skwlog_header: "length skwlog_header = 16"
  by (simp add: skwlog_header_def)

text \<open>The names of the moved logs differ from the name of the log.\<close>

lemma log_path_other:
  "log_dir (skw_btsnoop_path c) n @ ascii ''/skwlog-last.log'' \<noteq> log_dir (skw_btsnoop_path c) n @ ascii ''/skwlog.log''"
  "log_dir (skw_btsnoop_path c) n @ ascii ''/skwlog-'' @ xs \<noteq> log_dir (skw_btsnoop_path c) n @ ascii ''/skwlog.log''"
  by simp_all

lemma rename_moves:
  assumes "failed (e (calls s)) = None" "files s from = Some d" "from \<noteq> to"
  shows "files (snd (rename_file e from to s)) from = None"
    and "files (snd (rename_file e from to s)) to = Some d"
    and "skwlog_rev_length (snd (rename_file e from to s)) = skwlog_rev_length s"
  using assms by (simp_all add: rename_file_def next_outcome_def)

lemma remove_other:
  "path \<noteq> to \<Longrightarrow> files (remove_file e to s) path = files s path"
  "skwlog_rev_length (remove_file e to s) = skwlog_rev_length s"
  by (simp_all add: remove_file_def next_outcome_def fails_def split: option.split)

lemma keep_old_log_moves:
  assumes e: "all_well e" and old: "files s (log_path c) = Some d" "length d < 2 ^ 31"
  obtains t where "keep_old_log e c True s = (True, t)"
    "files t (log_path c) = (if skwlog_slice c \<or> length d > 16 + 12 then None else Some d)"
    "skwlog_rev_length t = skwlog_rev_length s"
    "kept_log c (Some d) = d \<or> (\<exists>path. path \<noteq> log_path c \<and> files t path = Some d)"
proof -
  note result = that
  let ?base = "log_dir (skw_btsnoop_path c) (length (skw_btsnoop_path c) - 1)"
  have size: "file_size (log_path c) s = int (length d)"
    using old by (simp add: file_size_def signed_of_nat signed_take_bit_int_eq_self)
  have moved: thesis
    if "keep_old_log e c True s = (True, snd (rename_file e (log_path c) to u))" "log_path c \<noteq> to"
      "files u (log_path c) = Some d" "skwlog_rev_length u = skwlog_rev_length s"
      "skwlog_slice c \<or> length d > 16 + 12" for to u
  proof (rule result [OF that(1)])
    note r = rename_moves [where e = e and s = u, OF all_wellD(1) [OF e] that(3,2)]
    show "files (snd (rename_file e (log_path c) to u)) (log_path c) =
        (if skwlog_slice c \<or> length d > 16 + 12 then None else Some d)"
      "skwlog_rev_length (snd (rename_file e (log_path c) to u)) = skwlog_rev_length s"
      using r that(4,5) by auto
    show "kept_log c (Some d) = d \<or>
        (\<exists>path. path \<noteq> log_path c \<and> files (snd (rename_file e (log_path c) to u)) path = Some d)"
      using r(2) that(2) by metis
  qed
  show thesis
  proof (cases "skwlog_slice c")
    case True
    show thesis
      by (rule moved [of "?base @ ascii ''/skwlog-last.log''" "remove_file e (?base @ ascii ''/skwlog-last.log'') s"])
         (use True old remove_other in \<open>simp_all add: keep_old_log_def log_path_def Let_def\<close>)
  next
    case False
    show thesis
    proof (cases "length d > 16 + 12")
      case True
      show thesis
        by (rule moved [of "?base @ ascii ''/skwlog-'' @ stamp (e (calls s)) @ ascii ''_'' @
               padded_decimal 3 (int (random (e (Suc (calls s))) mod 1000)) @ ascii ''-'' @
               padded_decimal 2 (sint (skwlog_cnts s)) @ ascii ''.log''" "s\<lparr>calls := Suc (Suc (calls s))\<rparr>"])
           (use True False old size in \<open>simp_all add: keep_old_log_def next_outcome_def log_path_def Let_def\<close>)
    next
      case small: False
      with False size have "keep_old_log e c True s = (True, s)"
        by (simp add: keep_old_log_def Let_def)
      then show thesis using small False old by (intro result) (simp_all add: kept_log_def)
    qed
  qed
qed

lemma open_append_logs:
  assumes "all_well e" "open_append e (log_path c) s = (fp, t)" "u = t\<lparr>skwlog_fp := fp\<rparr>"
  shows "0 < fp" "logging_to c (case_option [] id (files s (log_path c))) u"
    "skwlog_rev_length u = skwlog_rev_length s"
    "\<And>path. path \<noteq> log_path c \<Longrightarrow> files u path = files s path"
  using assms all_wellD [OF assms(1), of "calls s"]
  by (auto simp: open_append_def next_outcome_def logging_to_def split: option.split)

lemma write_logs:
  assumes "all_well e" "logging_to c d s" "length data \<le> 2 ^ 17"
  shows "logging_to c (d @ data) (write_file e (skwlog_fp s) data s)"
    and "skwlog_rev_length (write_file e (skwlog_fp s) data s) = skwlog_rev_length s"
    and "path \<noteq> log_path c \<Longrightarrow> files (write_file e (skwlog_fp s) data s) path = files s path"
proof -
  have "length data \<le> number (e (calls s))" using all_wellD(2) [OF assms(1), of "calls s"] assms(3) by linarith
  with assms(2) all_wellD(1) [OF assms(1)] show
    "logging_to c (d @ data) (write_file e (skwlog_fp s) data s)"
    "skwlog_rev_length (write_file e (skwlog_fp s) data s) = skwlog_rev_length s"
    "path \<noteq> log_path c \<Longrightarrow> files (write_file e (skwlog_fp s) data s) path = files s path"
    by (simp_all add: logging_to_def write_file_def next_outcome_def)
qed

text \<open>Opening a new log.\<close>

lemma skwlog_open_logs:
  assumes e: "all_well e" and c: "btcp_log_en c"
    and old: "\<forall>d. files s (log_path c) = Some d \<longrightarrow> length d < 2 ^ 31"
  shows "logging_to c (kept_log c (files s (log_path c)) @ skwlog_header) (skwlog_open e c True s)"
    and "skwlog_rev_length (skwlog_open e c True s) = skwlog_rev_length s"
    and "files s (log_path c) = Some d \<Longrightarrow> kept_log c (Some d) = d \<or>
      (\<exists>path. path \<noteq> log_path c \<and> files (skwlog_open e c True s) path = Some d)"
proof -
  let ?s = "s\<lparr>calls := Suc (Suc (calls s))\<rparr>"
  let ?b = "kept_log c (files s (log_path c))"
  obtain t where t: "case_option [] id (files t (log_path c)) = ?b" "skwlog_rev_length t = skwlog_rev_length s"
    "skwlog_open e c True s = (let (fp, u) = open_append e (log_path c) t; u = u\<lparr>skwlog_fp := fp\<rparr>;
       u = (if fp > 0 then write_file e fp skwlog_header u else u) in u\<lparr>skwlog_cnts := skwlog_cnts u + 1\<rparr>)"
    "\<forall>d. files s (log_path c) = Some d \<longrightarrow> kept_log c (Some d) = d \<or>
      (\<exists>path. path \<noteq> log_path c \<and> files t path = Some d)"
  proof (cases "files s (log_path c)")
    case None
    show thesis
      by (rule that [of "s\<lparr>calls := Suc (calls s), last_errno := ENOENT\<rparr>"])
         (use None c all_wellD(1) [OF e] in \<open>simp_all add: skwlog_open_def file_stat_def next_outcome_def
            fails_def kept_log_def\<close>)
  next
    case (Some d)
    have "files ?s (log_path c) = Some d" using Some by simp
    from keep_old_log_moves [OF e this] old Some obtain t where k: "keep_old_log e c True ?s = (True, t)"
      "files t (log_path c) = (if skwlog_slice c \<or> length d > 16 + 12 then None else Some d)"
      "skwlog_rev_length t = skwlog_rev_length ?s"
      "kept_log c (Some d) = d \<or> (\<exists>path. path \<noteq> log_path c \<and> files t path = Some d)"
      by metis
    have "0 < number (e (Suc (calls s)))" using all_wellD(2) [OF e, of "Suc (calls s)"] by simp
    then have "skwlog_open e c True s = (let (fp, u) = open_append e (log_path c) t; u = u\<lparr>skwlog_fp := fp\<rparr>;
       u = (if fp > 0 then write_file e fp skwlog_header u else u) in u\<lparr>skwlog_cnts := skwlog_cnts u + 1\<rparr>)"
      using Some c all_wellD(1) [OF e] k(1)
      by (simp add: skwlog_open_def file_stat_def open_read_def next_outcome_def)
    then show thesis using that [of t] k Some by (simp add: kept_log_def)
  qed
  obtain fp u where a: "open_append e (log_path c) t = (fp, u)" by fastforce
  define v where "v = u\<lparr>skwlog_fp := fp\<rparr>"
  note v = open_append_logs [OF e a v_def]
  have "length skwlog_header \<le> 2 ^ 17" by (simp add: length_skwlog_header)
  note w = write_logs [OF e v(2) this]
  have o: "skwlog_open e c True s = (write_file e (skwlog_fp v) skwlog_header v)\<lparr>skwlog_cnts :=
      skwlog_cnts (write_file e (skwlog_fp v) skwlog_header v) + 1\<rparr>"
    using v(1) by (simp add: t(3) a v_def Let_def)
  show "logging_to c (?b @ skwlog_header) (skwlog_open e c True s)"
    using w(1) t(1) by (simp add: o logging_to_def)
  show "skwlog_rev_length (skwlog_open e c True s) = skwlog_rev_length s"
    using w(2) v(3) t(2) by (simp add: o)
  show "kept_log c (Some d) = d \<or> (\<exists>path. path \<noteq> log_path c \<and> files (skwlog_open e c True s) path = Some d)"
    if "files s (log_path c) = Some d"
    using t(4) that w(3) v(4) by (auto simp: o)
qed

text \<open>Writing below the limit.\<close>

lemma skwlog_write_logs:
  assumes e: "all_well e" and s: "logging_to c d s" and data: "length data \<le> 2 ^ 17"
    and rev: "unat (skwlog_rev_length s) + length data < SKW_LOG_DEFAULT_SIZE"
  shows "logging_to c (d @ data) (skwlog_write e c data s)"
    and "unat (skwlog_rev_length (skwlog_write e c data s)) = unat (skwlog_rev_length s) + length data"
    and "path \<noteq> log_path c \<Longrightarrow> files (skwlog_write e c data s) path = files s path"
proof -
  let ?v = "write_file e (skwlog_fp s) data s"
  have r: "unat (skwlog_rev_length s + word_of_nat (length data)) = unat (skwlog_rev_length s) + length data"
    using rev by (simp add: SKW_LOG_DEFAULT_SIZE_def unat_word_ariths unat_of_nat take_bit_nat_eq_self)
  note w = write_logs [OF e s data]
  have "skwlog_write e c data s = ?v\<lparr>skwlog_rev_length := skwlog_rev_length s + word_of_nat (length data)\<rparr>"
    using s rev r w(2) by (simp add: skwlog_write_def logging_to_def)
  then show "logging_to c (d @ data) (skwlog_write e c data s)"
    "unat (skwlog_rev_length (skwlog_write e c data s)) = unat (skwlog_rev_length s) + length data"
    "path \<noteq> log_path c \<Longrightarrow> files (skwlog_write e c data s) path = files s path"
    using w r by (simp_all add: logging_to_def)
qed

lemma skwlog_writes_log:
  assumes e: "all_well e"
  shows "logging_to c d s \<Longrightarrow> \<forall>data\<in>set ds. length data \<le> 2 ^ 17 \<Longrightarrow>
    unat (skwlog_rev_length s) + length (concat ds) < SKW_LOG_DEFAULT_SIZE \<Longrightarrow>
    files (fold (skwlog_write e c) ds s) (log_path c) = Some (d @ concat ds) \<and>
    (\<forall>path. path \<noteq> log_path c \<longrightarrow> files (fold (skwlog_write e c) ds s) path = files s path)"
proof (induction ds arbitrary: d s)
  case Nil
  then show ?case by (simp add: logging_to_def)
next
  case (Cons x ds)
  then have x: "length x \<le> 2 ^ 17" "unat (skwlog_rev_length s) + length x < SKW_LOG_DEFAULT_SIZE" by simp_all
  note w = skwlog_write_logs [OF e Cons.prems(1) x]
  show ?case using Cons.IH [OF w(1)] Cons.prems(2,3) w(2,3) by (simp add: add.assoc)
qed

section \<open>Properties\<close>


text \<open>Outcomes with which every call succeeds, and the state before the first call.\<close>

definition snoop_samples :: "environment" where
  "snoop_samples = (\<lambda>_. \<lparr>failed = None, number = 200000, tv_sec = 1, tv_usec = 5, stamp = [], tm_sec = 0,
     tm_min = 0, tm_hour = 0, tm_mday = 1, random = 0\<rparr>)"

definition no_logs :: "(bytes \<rightharpoonup> bytes) \<Rightarrow> logs" where
  "no_logs fs = \<lparr>files = fs, open_files = (\<lambda>_. None), calls = 0, last_errno = 0, hci_btsnoop_fd = -1,
     btsnoop_rev_length = 0, btsnoop_cnts = 0, skwlog_fp = -1, skwlog_rev_length = 0, skwlog_cnts = 0\<rparr>"

definition sample_log_conf :: log_conf where
  "sample_log_conf = \<lparr>skw_btsnoop_path = ascii ''/a/b'', btsnoop_save_log = False, btsnoop_log_en = False,
     btcp_log_en = True, skwlog_slice = False\<rparr>"


end
