(* ===== verification/Scom_Ports.thy ===== *)
theory Scom_Ports
  imports Effects Skw_H4
begin

text \<open>
  The ports of the vendor library (\<^verbatim>\<open>boards/s905x5m/userland/skwbt/src/scom_vendor.c\<close>):
  their state, the flags the threads share, stopping a port, and the system calls.

  A thread runs against a script of the answers to its system calls, in their order. The
  other threads appear in it as \<open>Driver_stopped\<close> and \<open>Thread_stopped\<close> entries: one of the
  two flags of a port has been cleared at that point. Waking and shutting down a descriptor,
  and what is handed to the two log writers, are events, in their order.
\<close>

abbreviation (input) BT_COM_PORT_CMDEVT :: nat where "BT_COM_PORT_CMDEVT \<equiv> 0"
abbreviation (input) BT_COM_PORT_ACL :: nat where "BT_COM_PORT_ACL \<equiv> 1"
abbreviation (input) BT_COM_PORT_AUDIO :: nat where "BT_COM_PORT_AUDIO \<equiv> 2"
abbreviation (input) BT_COM_PORT_ISO :: nat where "BT_COM_PORT_ISO \<equiv> 3"
abbreviation (input) BT_COM_PORT_SIZE :: nat where "BT_COM_PORT_SIZE \<equiv> 4"
abbreviation (input) DEVICE_NODE_MAX_LEN :: nat where "DEVICE_NODE_MAX_LEN \<equiv> 64"

section \<open>The state of a port\<close>

record port =
  dev_fd :: int
  uart_fd :: "int \<times> int"
  wake_fd :: "int \<times> int"
  epoll_fd :: int
  port_name :: bytes
  thread_socket_started :: bool
  thread_uart_started :: bool
  thread_running :: bool
  recv_comm_thread_running :: bool
  is_busying :: bool
  driver_state :: bool

datatype reply =
  Wrote nat
| Write_failed errno
| Got bytes
| Read_failed errno
| Polled "revent list list"
| Poll_failed errno
| Epolled "(bool \<times> revent list) list"
| Driver_stopped nat
| Thread_stopped nat

datatype scom_event =
  Woken int
| Shut_down int
| Ioctl_stop int
| Opened nat int
| Closed nat int
| Power_closed int
| Started_uart nat
| Joined_uart nat
| Started_socket nat
| Joined_socket nat
| Captured bytes bool
| Log_written bytes

record transport =
  script :: "reply list"
  ports :: "port list"
  host_stream :: bytes
  pkt_cnts :: u8
  sent :: "(int \<times> bytes) list"
  received :: "(int \<times> bytes) list"
  events :: "scom_event list"

text \<open>The globals of the vendor library the transport reads.\<close>

record scom_conf =
  skwbt_transtype :: u8
  skwbtuartonly :: bool
  skwbtNoSleep :: bool
  btpw_fp :: int

abbreviation (input) SKWBT_TRANS_TYPE_H4 :: u8 where "SKWBT_TRANS_TYPE_H4 \<equiv> 0x01"
abbreviation (input) SKWBT_TRANS_TYPE_UART :: u8 where "SKWBT_TRANS_TYPE_UART \<equiv> 0x10"
abbreviation (input) SKWBT_TRANS_TYPE_SDIO :: u8 where "SKWBT_TRANS_TYPE_SDIO \<equiv> 0x20"
abbreviation (input) SKWBT_TRANS_TYPE_USB :: u8 where "SKWBT_TRANS_TYPE_USB \<equiv> 0x40"

unbundle bit_operations_syntax

definition idle_port :: port where
  "idle_port = \<lparr>dev_fd = -1, uart_fd = (-1, -1), wake_fd = (-1, -1), epoll_fd = -1, port_name = [],
     thread_socket_started = False, thread_uart_started = False, thread_running = False,
     recv_comm_thread_running = False, is_busying = False, driver_state = False\<rparr>"

text \<open>\<open>scomm_vendor_init\<close>.\<close>

definition scomm_vendor_init :: "transport \<Rightarrow> transport" where
  "scomm_vendor_init t = t\<lparr>host_stream := [], ports := replicate BT_COM_PORT_SIZE idle_port\<rparr>"

definition set_port :: "nat \<Rightarrow> (port \<Rightarrow> port) \<Rightarrow> transport \<Rightarrow> transport" where
  "set_port p f t = t\<lparr>ports := (ports t)[p := f (ports t ! p)]\<rparr>"

definition note_event :: "scom_event \<Rightarrow> transport \<Rightarrow> transport" where
  "note_event e t = t\<lparr>events := events t @ [e]\<rparr>"

text \<open>
  \<open>scomm_vendor_set_port_name\<close>: 64 bytes are cleared, and the name is copied without its
  end; \<open>None\<close> is a name that does not fit or a port that does not exist.
\<close>

definition scomm_vendor_set_port_name :: "nat \<Rightarrow> bytes \<Rightarrow> transport \<Rightarrow> transport option" where
  "scomm_vendor_set_port_name p name t =
     (if p < BT_COM_PORT_SIZE \<and> length name \<le> DEVICE_NODE_MAX_LEN
      then Some (set_port p (\<lambda>s. s\<lparr>port_name := name\<rparr>) t) else None)"

definition scomm_vendor_check_port_valid :: "nat \<Rightarrow> transport \<Rightarrow> bool" where
  "scomm_vendor_check_port_valid p t \<longleftrightarrow> port_name (ports t ! p) \<noteq> []"

section \<open>Stopping\<close>

definition wake_port :: "nat \<Rightarrow> transport \<Rightarrow> transport" where
  "wake_port p t =
     (if fst (wake_fd (ports t ! p)) \<ge> 0 then note_event (Woken (fst (wake_fd (ports t ! p)))) t else t)"

definition stop_port :: "nat \<Rightarrow> transport \<Rightarrow> transport" where
  "stop_port p t =
     (let t = set_port p (\<lambda>s. s\<lparr>driver_state := False\<rparr>) t;
          t = set_port p (\<lambda>s. s\<lparr>thread_running := False\<rparr>) t;
          t = wake_port p t
      in if snd (uart_fd (ports t ! p)) \<ge> 0 then note_event (Shut_down (snd (uart_fd (ports t ! p)))) t else t)"

definition scomm_vendor_fail_transport :: "nat \<Rightarrow> transport \<Rightarrow> transport" where
  "scomm_vendor_fail_transport failed_port t =
     (let t = stop_port failed_port t in
      if failed_port \<noteq> BT_COM_PORT_CMDEVT then stop_port BT_COM_PORT_CMDEVT t else t)"

section \<open>System calls\<close>

fun next_reply :: "reply list \<Rightarrow> transport \<Rightarrow> (reply \<times> transport) option" where
  "next_reply [] t = None"
| "next_reply (Driver_stopped p # rs) t = next_reply rs (set_port p (\<lambda>s. s\<lparr>driver_state := False\<rparr>) t)"
| "next_reply (Thread_stopped p # rs) t = next_reply rs (set_port p (\<lambda>s. s\<lparr>thread_running := False\<rparr>) t)"
| "next_reply (r # rs) t = Some (r, t\<lparr>script := rs\<rparr>)"

definition call_write :: "int \<Rightarrow> bytes \<Rightarrow> transport \<Rightarrow> ((errno + nat) \<times> transport) option" where
  "call_write fd buf t =
     (case next_reply (script t) t of
        Some (Wrote n, t) \<Rightarrow>
          if n \<le> length buf then Some (Inr n, t\<lparr>sent := sent t @ [(fd, take n buf)]\<rparr>) else None
      | Some (Write_failed e, t) \<Rightarrow> Some (Inl e, t)
      | _ \<Rightarrow> None)"

definition call_read :: "int \<Rightarrow> nat \<Rightarrow> transport \<Rightarrow> ((errno + bytes) \<times> transport) option" where
  "call_read fd capacity t =
     (case next_reply (script t) t of
        Some (Got bs, t) \<Rightarrow>
          if length bs \<le> capacity then Some (Inr bs, t\<lparr>received := received t @ [(fd, bs)]\<rparr>) else None
      | Some (Read_failed e, t) \<Rightarrow> Some (Inl e, t)
      | _ \<Rightarrow> None)"

definition call_poll :: "nat \<Rightarrow> transport \<Rightarrow> ((errno + revent list list) \<times> transport) option" where
  "call_poll nfds t =
     (case next_reply (script t) t of
        Some (Polled rs, t) \<Rightarrow> if length rs = nfds then Some (Inr rs, t) else None
      | Some (Poll_failed e, t) \<Rightarrow> Some (Inl e, t)
      | _ \<Rightarrow> None)"

text \<open>Each ready entry of an epoll set: whether it is the socket object, and its events.\<close>

definition call_epoll_wait :: "transport \<Rightarrow> ((errno + (bool \<times> revent list) list) \<times> transport) option" where
  "call_epoll_wait t =
     (case next_reply (script t) t of
        Some (Epolled es, t) \<Rightarrow> if length es \<le> 32 then Some (Inr es, t) else None
      | Some (Poll_failed e, t) \<Rightarrow> Some (Inl e, t)
      | _ \<Rightarrow> None)"

section \<open>What calls change\<close>

text \<open>Of the ports, calls clear at most running flags.\<close>

definition flag_cleared :: "port \<Rightarrow> port \<Rightarrow> bool" where
  "flag_cleared p q \<longleftrightarrow> dev_fd q = dev_fd p \<and> uart_fd q = uart_fd p \<and> wake_fd q = wake_fd p \<and>
     epoll_fd q = epoll_fd p \<and> port_name q = port_name p \<and>
     thread_socket_started q = thread_socket_started p \<and> thread_uart_started q = thread_uart_started p \<and>
     (thread_running q \<longrightarrow> thread_running p) \<and> (driver_state q \<longrightarrow> driver_state p)"

definition flags_cleared :: "port list \<Rightarrow> port list \<Rightarrow> bool" where
  "flags_cleared = list_all2 flag_cleared"

lemma flags_cleared_refl [simp]: "flags_cleared ps ps"
  by (simp add: flags_cleared_def flag_cleared_def list_all2_same)

lemma flags_cleared_trans: "flags_cleared ps qs \<Longrightarrow> flags_cleared qs rs \<Longrightarrow> flags_cleared ps rs"
  unfolding flags_cleared_def
  by (rule list_all2_trans [where ?P1.0 = flag_cleared and ?P2.0 = flag_cleared]) (auto simp: flag_cleared_def)

lemma flags_cleared_set: "flag_cleared (ps ! p) q \<Longrightarrow> flags_cleared ps (ps[p := q])"
  by (cases "p < length ps")
     (auto simp: flags_cleared_def list_all2_conv_all_nth nth_list_update flag_cleared_def)

lemma flags_cleared_length: "flags_cleared ps qs \<Longrightarrow> length qs = length ps"
  by (simp add: flags_cleared_def list_all2_lengthD)

lemma flags_cleared_nth:
  assumes "flags_cleared ps qs" "p < length ps"
  shows "flag_cleared (ps ! p) (qs ! p)"
  using assms by (simp add: flags_cleared_def list_all2_conv_all_nth)

text \<open>\<open>acts ws rs es t t'\<close>: from \<open>t\<close> to \<open>t'\<close>, \<open>ws\<close> was written, \<open>rs\<close> read, and \<open>es\<close> happened.\<close>

definition acts ::
  "(int \<times> bytes) list \<Rightarrow> (int \<times> bytes) list \<Rightarrow> scom_event list \<Rightarrow> transport \<Rightarrow> transport \<Rightarrow> bool" where
  "acts ws rs es t t' \<longleftrightarrow> flags_cleared (ports t) (ports t') \<and> host_stream t' = host_stream t \<and>
     length (script t') \<le> length (script t) \<and>
     sent t' = sent t @ ws \<and> received t' = received t @ rs \<and> events t' = events t @ es"

lemma acts_refl [simp]: "acts [] [] [] t t"
  by (simp add: acts_def)

lemma acts_trans:
  "acts ws rs es t u \<Longrightarrow> acts ws' rs' es' u v \<Longrightarrow> acts (ws @ ws') (rs @ rs') (es @ es') t v"
  by (auto simp: acts_def intro: flags_cleared_trans)

lemma acts_quiet: "acts [] [] [] t u \<Longrightarrow> acts ws rs es u v \<Longrightarrow> acts ws rs es t v"
  by (drule (1) acts_trans) simp

lemma acts_nth:
  assumes "acts ws rs es t t'" "p < length (ports t)"
  shows "dev_fd (ports t' ! p) = dev_fd (ports t ! p)" "uart_fd (ports t' ! p) = uart_fd (ports t ! p)"
    "thread_running (ports t' ! p) \<Longrightarrow> thread_running (ports t ! p)" "p < length (ports t')"
  using flags_cleared_nth [of "ports t" "ports t'" p] flags_cleared_length [of "ports t" "ports t'"] assms
  by (auto simp: acts_def flag_cleared_def)

lemma acts_length: "acts ws rs es t t' \<Longrightarrow> length (ports t') = length (ports t)"
  by (simp add: acts_def flags_cleared_length)

lemma acts_note [simp]: "acts [] [] [e] t (note_event e t)"
  by (simp add: acts_def note_event_def)

lemma acts_set_port: "(\<And>s. flag_cleared s (f s)) \<Longrightarrow> acts [] [] [] t (set_port p f t)"
  by (simp add: acts_def set_port_def flags_cleared_set)

lemma acts_clear [simp]:
  "acts [] [] [] t (set_port p (\<lambda>s. s\<lparr>driver_state := False\<rparr>) t)"
  "acts [] [] [] t (set_port p (\<lambda>s. s\<lparr>thread_running := False\<rparr>) t)"
  by (simp_all add: acts_set_port flag_cleared_def)

text \<open>What the events say was handed to the log of the controller.\<close>

definition logged :: "scom_event list \<Rightarrow> bytes list" where
  "logged es = concat (map (\<lambda>e. case e of Log_written b \<Rightarrow> [b] | _ \<Rightarrow> []) es)"

lemma logged_simps [simp]:
  "logged [] = []" "logged (es @ fs) = logged es @ logged fs"
  "logged (Log_written b # es) = b # logged es" "logged (Captured b d # es) = logged es"
  "logged (Woken fd # es) = logged es" "logged (Shut_down fd # es) = logged es"
  by (simp_all add: logged_def)

text \<open>Stopping is quiet but for the two wake-ups.\<close>

definition stops :: "transport \<Rightarrow> transport \<Rightarrow> bool" where
  "stops t v \<longleftrightarrow> (\<exists>es. acts [] [] es t v \<and> logged es = [])"

lemma stops_refl: "acts [] [] [] t v \<Longrightarrow> stops t v"
  unfolding stops_def by (intro exI [of _ "[]"]) simp

lemma stops_trans: "stops t u \<Longrightarrow> stops u v \<Longrightarrow> stops t v"
  unfolding stops_def by (metis acts_trans append_Nil append_Nil2 logged_simps(2))

lemma stops_note: "stops t u \<Longrightarrow> logged [e] = [] \<Longrightarrow> stops t (note_event e u)"
  using stops_trans [of t u "note_event e u"] acts_note [of e u] unfolding stops_def by blast

lemma wake_port_stops: "stops t u \<Longrightarrow> stops t (wake_port p u)"
  by (simp add: wake_port_def stops_note)

lemma stop_port_stops: "stops t (stop_port p t)"
proof -
  let ?u = "set_port p (\<lambda>s. s\<lparr>thread_running := False\<rparr>) (set_port p (\<lambda>s. s\<lparr>driver_state := False\<rparr>) t)"
  have "stops t ?u" by (rule stops_refl [OF acts_quiet [OF acts_clear(1) acts_clear(2)]])
  then have "stops t (wake_port p ?u)" by (rule wake_port_stops)
  then show ?thesis by (simp add: stop_port_def Let_def stops_note)
qed

lemma fail_transport_stops: "stops t (scomm_vendor_fail_transport p t)"
  using stop_port_stops stops_trans [OF stop_port_stops stop_port_stops]
  by (simp add: scomm_vendor_fail_transport_def Let_def)

lemma stop_port_acts: "\<exists>es. acts [] [] es t (stop_port p t)"
  using stop_port_stops unfolding stops_def by blast

lemma fail_transport_acts: "\<exists>es. acts [] [] es t (scomm_vendor_fail_transport p t)"
  using fail_transport_stops unfolding stops_def by blast

lemma stop_port_stopped:
  "p < length (ports t) \<Longrightarrow> \<not> thread_running (ports (stop_port p t) ! p)"
  by (simp add: stop_port_def wake_port_def set_port_def note_event_def Let_def)

lemma fail_transport_stopped:
  assumes "p < length (ports t)"
  shows "\<not> thread_running (ports (scomm_vendor_fail_transport p t) ! p)"
proof -
  obtain es where "acts [] [] es (stop_port p t) (stop_port 0 (stop_port p t))" using stop_port_acts by blast
  moreover obtain es' where "acts [] [] es' t (stop_port p t)" using stop_port_acts by blast
  ultimately show ?thesis
    unfolding scomm_vendor_fail_transport_def Let_def
    using stop_port_stopped [OF assms] acts_nth(3,4) assms by auto
qed

text \<open>\<open>fewer\<close> is what ends the loops: they make at least one call per round.\<close>

definition fewer :: "transport \<Rightarrow> transport \<Rightarrow> bool" where
  "fewer t t' \<longleftrightarrow> length (script t') < length (script t)"

lemma fewer_acts: "fewer t u \<Longrightarrow> acts ws rs es u v \<Longrightarrow> fewer t v"
  by (simp add: fewer_def acts_def)

lemma fewer_trans: "fewer t u \<Longrightarrow> fewer u v \<Longrightarrow> fewer t v"
  by (simp add: fewer_def)

lemma transport_induct [case_names less]:
  "(\<And>t. (\<And>t'. fewer t t' \<Longrightarrow> P t') \<Longrightarrow> P t) \<Longrightarrow> P t"
  using measure_induct_rule [of "\<lambda>t. length (script t)" P] unfolding fewer_def by blast

lemma wf_transport [script_wf]: "wf {(t', t). fewer t t'}"
proof -
  have "{(t', t). fewer t t'} = measure (\<lambda>t. length (script t))"
    by (auto simp: fewer_def)
  then show ?thesis by (metis wf_measure)
qed

lemma next_reply_acts:
  "next_reply rs t = Some (r, t') \<Longrightarrow> length (script t) \<ge> length rs \<Longrightarrow>
   acts [] [] [] t t' \<and> length (script t') < length rs"
proof (induction rs t arbitrary: t' rule: next_reply.induct)
  case (2 p rs t)
  have "acts [] [] [] (set_port p (\<lambda>s. s\<lparr>driver_state := False\<rparr>) t) t' \<and> length (script t') < length rs"
    using 2 by (intro "2.IH") (simp_all add: set_port_def)
  then show ?case using acts_quiet [OF acts_clear(1)] by fastforce
next
  case (3 p rs t)
  have "acts [] [] [] (set_port p (\<lambda>s. s\<lparr>thread_running := False\<rparr>) t) t' \<and> length (script t') < length rs"
    using 3 by (intro "3.IH") (simp_all add: set_port_def)
  then show ?case using acts_quiet [OF acts_clear(2)] by fastforce
qed (auto simp: acts_def)

lemma next_reply_quiet:
  assumes "next_reply (script t) t = Some (r, t')"
  shows "acts [] [] [] t t' \<and> fewer t t'"
  using next_reply_acts [OF assms] by (simp add: fewer_def)

lemma post_call_write:
  "post (call_write fd buf t) (\<lambda>r t'. fewer t t' \<and>
     (case r of Inl e \<Rightarrow> acts [] [] [] t t'
      | Inr n \<Rightarrow> n \<le> length buf \<and> acts [(fd, take n buf)] [] [] t t'))"
  unfolding call_write_def
  by (auto simp: post_def acts_def fewer_def split: option.splits reply.splits dest!: next_reply_quiet)

lemma post_call_read:
  "post (call_read fd capacity t) (\<lambda>r t'. fewer t t' \<and>
     (case r of Inl e \<Rightarrow> acts [] [] [] t t'
      | Inr bs \<Rightarrow> length bs \<le> capacity \<and> acts [] [(fd, bs)] [] t t'))"
  unfolding call_read_def
  by (auto simp: post_def acts_def fewer_def split: option.splits reply.splits dest!: next_reply_quiet)

lemma post_call_poll:
  "post (call_poll nfds t) (\<lambda>r t'. fewer t t' \<and> acts [] [] [] t t' \<and>
     (case r of Inl e \<Rightarrow> True | Inr rs \<Rightarrow> length rs = nfds))"
  unfolding call_poll_def
  by (auto simp: post_def split: option.splits reply.splits dest!: next_reply_quiet)

lemma post_call_epoll_wait:
  "post (call_epoll_wait t) (\<lambda>r t'. fewer t t' \<and> acts [] [] [] t t')"
  unfolding call_epoll_wait_def
  by (auto simp: post_def split: option.splits reply.splits dest!: next_reply_quiet)

lemmas call_shorter [call_progress] = postD [OF post_call_write] postD [OF post_call_read]
  postD [OF post_call_poll] postD [OF post_call_epoll_wait]

end
