(* ===== verification/Vendor_Conf.thy ===== *)
theory Vendor_Conf
  imports Skw_Log Scom_Ports
begin

text \<open>
  The configuration file of the vendor library
  (\<^verbatim>\<open>boards/s905x5m/userland/skwbt/src/bt_vendor_skw.c\<close>): its lines, the device nodes of the
  ports, and the settings of the transport and of the logs. A file is its bytes, or \<open>None\<close>
  when it cannot be opened; a line is the C string that \<open>fgets\<close> leaves in its buffer.
\<close>

section \<open>Lines\<close>

definition isspace :: "u8 \<Rightarrow> bool" where
  "isspace b \<longleftrightarrow> b = 32 \<or> 9 \<le> b \<and> b \<le> 13"

definition trim :: "bytes \<Rightarrow> bytes" where
  "trim str =
     (let str = dropWhile isspace str in
      if str = [] then str else rev (dropWhile isspace (rev str)))"

text \<open>\<open>fgets\<close> with a buffer of 1024 bytes.\<close>

definition fgets_line :: "bytes \<Rightarrow> bytes" where
  "fgets_line text =
     (let t = take 1023 text in takeWhile (\<lambda>b. b \<noteq> 10) t @ (if 10 \<in> set t then [10] else []))"

lemma fgets_line_progress: "b \<noteq> [] \<Longrightarrow> fgets_line b \<noteq> []"
  by (cases b) (simp_all add: fgets_line_def)

function conf_lines :: "bytes \<Rightarrow> bytes list" where
  "conf_lines text =
     (if text = [] then [] else cstr (fgets_line text) # conf_lines (drop (length (fgets_line text)) text))"
  by pat_completeness auto
termination
  by (relation "measure length") (simp_all add: fgets_line_progress)

declare conf_lines.simps [simp del]

text \<open>What a line says: the two loaders share the way they split it.\<close>

datatype line_kind = Skipped | No_separator | Setting bytes bytes

definition conf_line :: "bytes \<Rightarrow> line_kind" where
  "conf_line line =
     (let line_ptr = trim line in
      if line_ptr = [] \<or> hd line_ptr = 0x23 \<or> hd line_ptr = 0x5b then Skipped
      else if 0x3d \<notin> set line_ptr then No_separator
      else Setting (trim (takeWhile (\<lambda>b. b \<noteq> 0x3d) line_ptr)) (trim (tl (dropWhile (\<lambda>b. b \<noteq> 0x3d) line_ptr))))"

section \<open>The device nodes\<close>

text \<open>
  The loop of \<open>load_skwbt_conf\<close>: whether it reached the end of the file, and the nodes.
  \<open>None\<close> is a fifth node, or a name that is too long for its array.
\<close>

fun load_nodes :: "bytes list \<Rightarrow> nat \<Rightarrow> bytes list \<Rightarrow> transport \<Rightarrow> (bool \<times> bytes list \<times> transport) option" where
  "load_nodes [] port_index nodes t = Some (True, nodes, t)"
| "load_nodes (line # rest) port_index nodes t =
     (case conf_line line of
        Skipped \<Rightarrow> load_nodes rest port_index nodes t
      | No_separator \<Rightarrow> Some (False, nodes, t)
      | Setting key value \<Rightarrow>
          if key = ascii ''BtDeviceNode'' then
            if port_index < BT_COM_PORT_SIZE \<and> length value < DEVICE_NODE_MAX_LEN then
              Option.bind (scomm_vendor_set_port_name port_index value t)
                (load_nodes rest (port_index + 1) (nodes[port_index := value]))
            else None
          else load_nodes rest port_index nodes t)"

definition load_skwbt_conf :: "bytes option \<Rightarrow> u8 \<Rightarrow> transport \<Rightarrow> (u8 \<times> bytes list \<times> transport) option" where
  "load_skwbt_conf file transtype t =
     (let nodes = replicate BT_COM_PORT_SIZE [] in
      case file of
        None \<Rightarrow> Some (transtype, nodes[0 := ascii ''/dev/ttyS0''], t)
      | Some text \<Rightarrow> do {
          (complete, nodes, t) \<leftarrow> load_nodes (conf_lines text) BT_COM_PORT_CMDEVT nodes t;
          if \<not> complete then Some (transtype, nodes, t)
          else if nodes ! 0 \<noteq> [] \<and> hd (nodes ! 0) = 0x3f then do {
            let nodes = nodes[0 := tl (nodes ! 0)];
            t \<leftarrow> scomm_vendor_set_port_name 0 (nodes ! 0) t;
            Some (SKWBT_TRANS_TYPE_H4 OR SKWBT_TRANS_TYPE_UART, nodes, t)
          }
          else Some (SKWBT_TRANS_TYPE_H4, nodes, t)
        })"

section \<open>The settings\<close>

record settings =
  transport_conf :: scom_conf
  logging :: log_conf
  skwdriverlog_en :: bool

definition apply_setting :: "bytes \<Rightarrow> bytes \<Rightarrow> settings \<Rightarrow> settings" where
  "apply_setting key value s =
     (let l = logging s; true = (value = ascii ''true''); false = (value = ascii ''false'') in
      if key = ascii ''SkwBtsnoopDump'' then s\<lparr>logging := l\<lparr>btsnoop_log_en := true\<rparr>\<rparr>
      else if key = ascii ''BtSnoopFileName'' then s\<lparr>logging := l\<lparr>skw_btsnoop_path := value\<rparr>\<rparr>
      else if key = ascii ''BtSnoopSaveLog'' then s\<lparr>logging := l\<lparr>btsnoop_save_log := true\<rparr>\<rparr>
      else if key = ascii ''SkwBtcplog'' then s\<lparr>logging := l\<lparr>btcp_log_en := true\<rparr>\<rparr>
      else if key = ascii ''SkwLogSlice'' then s\<lparr>logging := l\<lparr>skwlog_slice := true\<rparr>\<rparr>
      else if key = ascii ''SkwBtDrvlog'' then (if false then s\<lparr>skwdriverlog_en := False\<rparr> else s)
      else if key = ascii ''SkwBtUartOnly'' then
        (if false then s\<lparr>transport_conf := (transport_conf s)\<lparr>skwbtuartonly := False\<rparr>\<rparr> else s)
      else if key = ascii ''SkwBtNoSleep'' then
        (if true then s\<lparr>transport_conf := (transport_conf s)\<lparr>skwbtNoSleep := True\<rparr>\<rparr> else s)
      else s)"

definition apply_line :: "bytes \<Rightarrow> settings \<Rightarrow> settings" where
  "apply_line line s = (case conf_line line of Setting key value \<Rightarrow> apply_setting key value s | _ \<Rightarrow> s)"

definition load_skwbt_stack_conf :: "bytes option \<Rightarrow> settings \<Rightarrow> settings" where
  "load_skwbt_stack_conf file s =
     (case file of None \<Rightarrow> s | Some text \<Rightarrow> fold apply_line (conf_lines text) s)"

section \<open>What a file says\<close>

text \<open>The values that lines give to a key, in their order.\<close>

definition values_of :: "string \<Rightarrow> bytes list \<Rightarrow> bytes list" where
  "values_of key ls =
     concat (map (\<lambda>l. case conf_line l of Setting k v \<Rightarrow> if k = ascii key then [v] else [] | _ \<Rightarrow> []) ls)"

lemma values_of_simps [simp]:
  "values_of key [] = []"
  "values_of key (l # ls) =
     (case conf_line l of Setting k v \<Rightarrow> if k = ascii key then v # values_of key ls else values_of key ls
      | _ \<Rightarrow> values_of key ls)"
  "values_of key (ls @ ls') = values_of key ls @ values_of key ls'"
  by (auto simp: values_of_def split: line_kind.split)

text \<open>A switch has the value that was given last, or the value from before.\<close>

definition switch :: "bytes list \<Rightarrow> bool \<Rightarrow> bool" where
  "switch vs old = (if vs = [] then old else last vs = ascii ''true'')"

lemma switch_simps [simp]: "switch [] old = old" "switch (vs @ [v]) old = (v = ascii ''true'')"
  by (simp_all add: switch_def)

lemma fold_settings:
  fixes ls s
  defines "s' \<equiv> fold apply_line ls s"
  shows "btsnoop_log_en (logging s') = switch (values_of ''SkwBtsnoopDump'' ls) (btsnoop_log_en (logging s)) \<and>
    btsnoop_save_log (logging s') = switch (values_of ''BtSnoopSaveLog'' ls) (btsnoop_save_log (logging s)) \<and>
    btcp_log_en (logging s') = switch (values_of ''SkwBtcplog'' ls) (btcp_log_en (logging s)) \<and>
    skwlog_slice (logging s') = switch (values_of ''SkwLogSlice'' ls) (skwlog_slice (logging s)) \<and>
    skw_btsnoop_path (logging s') = last (skw_btsnoop_path (logging s) # values_of ''BtSnoopFileName'' ls) \<and>
    skwdriverlog_en s' = (skwdriverlog_en s \<and> ascii ''false'' \<notin> set (values_of ''SkwBtDrvlog'' ls)) \<and>
    transport_conf s' = (transport_conf s)\<lparr>
      skwbtuartonly := skwbtuartonly (transport_conf s) \<and> ascii ''false'' \<notin> set (values_of ''SkwBtUartOnly'' ls),
      skwbtNoSleep := skwbtNoSleep (transport_conf s) \<or> ascii ''true'' \<in> set (values_of ''SkwBtNoSleep'' ls)\<rparr>"
  unfolding s'_def
proof (induction ls rule: rev_induct)
  case (snoc l ls)
  let ?s = "fold apply_line ls s"
  show ?case
  proof (cases "conf_line l")
    case (Setting k v)
    then have f: "fold apply_line (ls @ [l]) s = apply_setting k v ?s" by (simp add: apply_line_def)
    show ?thesis
      unfolding f values_of_simps Setting line_kind.case
      using snoc.IH by (simp add: apply_setting_def Let_def)
  qed (use snoc.IH in \<open>simp_all add: apply_line_def\<close>)
qed simp

text \<open>The nodes: only the lines before the first one without a separator count.\<close>

definition read_lines :: "bytes list \<Rightarrow> bytes list" where
  "read_lines ls = takeWhile (\<lambda>l. conf_line l \<noteq> No_separator) ls"

definition node_names :: "bytes list \<Rightarrow> bytes list" where
  "node_names ls = values_of ''BtDeviceNode'' (read_lines ls)"

lemma node_names_simps [simp]:
  "node_names [] = []"
  "node_names (l # ls) =
     (case conf_line l of
        Skipped \<Rightarrow> node_names ls
      | No_separator \<Rightarrow> []
      | Setting k v \<Rightarrow> if k = ascii ''BtDeviceNode'' then v # node_names ls else node_names ls)"
  by (auto simp: node_names_def read_lines_def split: line_kind.split)

primrec name_ports :: "nat \<Rightarrow> bytes list \<Rightarrow> transport \<Rightarrow> transport" where
  "name_ports p [] t = t"
| "name_ports p (n # ns) t = name_ports (Suc p) ns (set_port p (\<lambda>s. s\<lparr>port_name := n\<rparr>) t)"

lemma length_name_ports [simp]: "length (ports (name_ports p ns t)) = length (ports t)"
  by (induction ns arbitrary: p t) (simp_all add: set_port_def)

lemma name_ports_nth:
  "p + length ns \<le> length (ports t) \<Longrightarrow>
   port_name (ports (name_ports p ns t) ! q) =
     (if p \<le> q \<and> q < p + length ns then ns ! (q - p) else port_name (ports t ! q))"
proof (induction ns arbitrary: p t)
  case (Cons n ns)
  let ?t = "set_port p (\<lambda>s. s\<lparr>port_name := n\<rparr>) t"
  have "Suc p + length ns \<le> length (ports ?t)" using Cons.prems by (simp add: set_port_def)
  from Cons.IH [OF this] show ?case
    using Cons.prems by (cases "q = p") (auto simp: set_port_def nth_Cons')
qed auto

lemma load_nodes_names:
  "port_index \<le> BT_COM_PORT_SIZE \<Longrightarrow> length nodes = BT_COM_PORT_SIZE \<Longrightarrow>
   load_nodes ls port_index nodes t =
     (if port_index + length (node_names ls) \<le> BT_COM_PORT_SIZE \<and>
         (\<forall>n\<in>set (node_names ls). length n < DEVICE_NODE_MAX_LEN)
      then Some (read_lines ls = ls,
        take port_index nodes @ node_names ls @ drop (port_index + length (node_names ls)) nodes,
        name_ports port_index (node_names ls) t)
      else None)"
proof (induction ls arbitrary: port_index nodes t)
  case Nil
  then show ?case by (simp add: read_lines_def)
next
  case (Cons l ls)
  show ?case
  proof (cases "conf_line l")
    case Skipped
    with Cons show ?thesis by (simp add: read_lines_def)
  next
    case No_separator
    with Cons.prems show ?thesis by (simp add: read_lines_def)
  next
    case (Setting k v)
    show ?thesis
    proof (cases "k = ascii ''BtDeviceNode''")
      case False
      with Cons Setting show ?thesis by (simp add: read_lines_def)
    next
      case True
      show ?thesis
      proof (cases "port_index < 4 \<and> length v < 64")
        case ok: True
        let ?t = "set_port port_index (\<lambda>s. s\<lparr>port_name := v\<rparr>) t"
        have ih: "load_nodes ls (Suc port_index) (nodes[port_index := v]) ?t =
           (if Suc port_index + length (node_names ls) \<le> 4 \<and> (\<forall>n\<in>set (node_names ls). length n < 64)
            then Some (read_lines ls = ls,
              take (Suc port_index) (nodes[port_index := v]) @ node_names ls @
                drop (Suc port_index + length (node_names ls)) (nodes[port_index := v]),
              name_ports (Suc port_index) (node_names ls) ?t)
            else None)"
          by (rule Cons.IH) (use ok Cons.prems in simp_all)
        have n: "take (Suc port_index) (nodes[port_index := v]) = take port_index nodes @ [v]"
          using ok Cons.prems by (simp add: take_Suc_conv_app_nth)
        have "load_nodes (l # ls) port_index nodes t = load_nodes ls (Suc port_index) (nodes[port_index := v]) ?t"
          using ok Setting True by (simp add: scomm_vendor_set_port_name_def)
        then show ?thesis
          unfolding ih n using ok Setting True by (simp add: read_lines_def)
      next
        case False
        then show ?thesis using Setting True Cons.prems by (auto simp: read_lines_def)
      qed
    qed
  qed
qed

definition uart_marked :: "bytes \<Rightarrow> bool" where
  "uart_marked n \<longleftrightarrow> n \<noteq> [] \<and> hd n = 0x3f"

section \<open>Properties\<close>

text \<open>
  The settings of the vendor library are what its configuration file says. A switch of the
  logs is on when the last line that sets it says true, and keeps its value without such a
  line; the path of the capture is the one given last. The messages of the driver and the
  waking of the device can only be switched off, and the sleep of the device only be disabled,
  by any of the lines that name them. Nothing else changes.
\<close>

theorem settings_loaded:
  "let s' = load_skwbt_stack_conf (Some body) s; ls = conf_lines body in
   btsnoop_log_en (logging s') = switch (values_of ''SkwBtsnoopDump'' ls) (btsnoop_log_en (logging s)) \<and>
   btsnoop_save_log (logging s') = switch (values_of ''BtSnoopSaveLog'' ls) (btsnoop_save_log (logging s)) \<and>
   btcp_log_en (logging s') = switch (values_of ''SkwBtcplog'' ls) (btcp_log_en (logging s)) \<and>
   skwlog_slice (logging s') = switch (values_of ''SkwLogSlice'' ls) (skwlog_slice (logging s)) \<and>
   skw_btsnoop_path (logging s') = last (skw_btsnoop_path (logging s) # values_of ''BtSnoopFileName'' ls) \<and>
   skwdriverlog_en s' = (skwdriverlog_en s \<and> ascii ''false'' \<notin> set (values_of ''SkwBtDrvlog'' ls)) \<and>
   transport_conf s' = (transport_conf s)\<lparr>
     skwbtuartonly := skwbtuartonly (transport_conf s) \<and> ascii ''false'' \<notin> set (values_of ''SkwBtUartOnly'' ls),
     skwbtNoSleep := skwbtNoSleep (transport_conf s) \<or> ascii ''true'' \<in> set (values_of ''SkwBtNoSleep'' ls)\<rparr>"
  unfolding Let_def load_skwbt_stack_conf_def option.case by (rule fold_settings)

text \<open>
  C39: The ports get the device nodes of the configuration file in the order of its lines, and
  the transport type says whether the first node is marked as a serial line, a mark that is
  not part of its name. Only the lines before the first one without a separator count, and
  such a line also leaves the type of the transport and the mark as they are. More than four
  nodes, or a node of 64 bytes or more, are written outside their arrays, and nothing else is.
\<close>

theorem device_nodes_loaded:
  assumes "length (ports t) = BT_COM_PORT_SIZE"
  shows "let ls = conf_lines body; names = node_names ls; complete = (read_lines ls = ls) in
    case load_skwbt_conf (Some body) transtype t of
      None \<Rightarrow> length names > BT_COM_PORT_SIZE \<or> (\<exists>n\<in>set names. length n \<ge> DEVICE_NODE_MAX_LEN)
    | Some (transtype', _, t') \<Rightarrow>
        length names \<le> BT_COM_PORT_SIZE \<and> (\<forall>n\<in>set names. length n < DEVICE_NODE_MAX_LEN) \<and>
        transtype' = (if \<not> complete then transtype
          else if names \<noteq> [] \<and> uart_marked (hd names) then SKWBT_TRANS_TYPE_H4 OR SKWBT_TRANS_TYPE_UART
          else SKWBT_TRANS_TYPE_H4) \<and>
        (\<forall>q<BT_COM_PORT_SIZE. port_name (ports t' ! q) =
          (if q \<ge> length names then port_name (ports t ! q)
           else if q = 0 \<and> complete \<and> uart_marked (hd names) then tl (hd names)
           else names ! q))"
proof -
  let ?ls = "conf_lines body"
  let ?names = "node_names ?ls"
  let ?nodes = "?names @ drop (length ?names) (replicate 4 []) :: bytes list"
  have l: "load_nodes ?ls 0 (replicate 4 []) t =
      (if length ?names \<le> 4 \<and> (\<forall>n\<in>set ?names. length n < 64)
       then Some (read_lines ?ls = ?ls, ?nodes, name_ports 0 ?names t) else None)"
    using load_nodes_names [of 0 "replicate 4 []" ?ls t] by simp
  show ?thesis
  proof (cases "length ?names \<le> 4 \<and> (\<forall>n\<in>set ?names. length n < 64)")
    case False
    then show ?thesis unfolding load_skwbt_conf_def Let_def option.case l by (auto simp: not_le not_less)
  next
    case True
    have p: "port_name (ports (name_ports 0 ?names t) ! q) =
        (if q < length ?names then ?names ! q else port_name (ports t ! q))" for q
      using name_ports_nth [of 0 ?names t q] True assms by simp
    have n: "?nodes ! 0 = (if ?names = [] then [] else hd ?names)"
      by (cases ?names) (simp_all add: nth_append)
    have "length (tl (hd ?names)) \<le> 64" if "?names \<noteq> []"
    proof -
      have "length (hd ?names) < 64" using True that by simp
      then show ?thesis by simp
    qed
    then show ?thesis
      unfolding load_skwbt_conf_def Let_def option.case l
      using True assms p n
      by (auto simp: uart_marked_def scomm_vendor_set_port_name_def set_port_def nth_list_update hd_conv_nth)
  qed
qed

definition shipped_conf :: bytes where
  "shipped_conf = ascii ''BtDeviceNode=/dev/BTCMD'' @ [10] @ ascii ''BtDeviceNode=/dev/BTDATA'' @ [10] @ ascii ''#ISO''"

definition fresh_ports :: transport where
  "fresh_ports = scomm_vendor_init \<lparr>script = [], ports = [], host_stream = [], pkt_cnts = 0, sent = [],
     received = [], events = []\<rparr>"

theorem device_nodes_loaded_witness:
  "\<exists>nodes t. load_skwbt_conf (Some shipped_conf) 0 fresh_ports = Some (1, nodes, t) \<and>
     (\<forall>q<4. port_name (ports t ! q) = [ascii ''/dev/BTCMD'', ascii ''/dev/BTDATA'', [], []] ! q)"
proof -
  have n: "node_names (conf_lines shipped_conf) = [ascii ''/dev/BTCMD'', ascii ''/dev/BTDATA'']"
    "read_lines (conf_lines shipped_conf) = conf_lines shipped_conf"
    by code_simp+
  have f: "length (ports fresh_ports) = 4" "\<forall>q<4. port_name (ports fresh_ports ! q) = []" by code_simp+
  have u: "\<not> uart_marked (ascii ''/dev/BTCMD'')" by code_simp
  have w: "[ascii ''/dev/BTCMD'', ascii ''/dev/BTDATA'', [], []] ! q =
      (if q \<ge> 2 then [] else [ascii ''/dev/BTCMD'', ascii ''/dev/BTDATA''] ! q)" if "q < 4" for q
    using that by (auto simp: less_Suc_eq numeral_eq_Suc)
  show ?thesis
    using device_nodes_loaded [OF f(1), of shipped_conf 0] f(2) u w
    by (cases "load_skwbt_conf (Some shipped_conf) 0 fresh_ports") (auto simp: Let_def n)
qed

end
