(* ===== verification/Skw_Btsnoop.thy ===== *)
theory Skw_Btsnoop
  imports Skw_Log Skw_H4
begin

text \<open>
  The capture of the HCI traffic (\<^verbatim>\<open>boards/s905x5m/userland/skwbt/src/skw_btsnoop.c\<close>): its
  file, the records of the packets, and the rotation of old files.
\<close>

section \<open>The file\<close>

definition BTSNOOP_EPOCH_DELTA :: u64 where "BTSNOOP_EPOCH_DELTA = 0x00dcddb30f2f8000"

definition btsnoop_header :: bytes where
  "btsnoop_header = ascii ''btsnoop'' @ [0, 0, 0, 0, 1, 0, 0, 3, 0xea]"

definition skw_btsnoop_timestamp :: "environment \<Rightarrow> logs \<Rightarrow> u64 \<times> logs" where
  "skw_btsnoop_timestamp e s =
     (let (now, s) = next_outcome e s
      in (word_of_int (tv_sec now * 1000 * 1000 + tv_usec now) + BTSNOOP_EPOCH_DELTA, s))"

text \<open>
  What \<open>skw_btsnoop_open\<close> does with the old file when logs are kept: \<open>None\<close> for the early
  return, or whether the file is new.
\<close>

definition sliced_snoop :: "environment \<Rightarrow> log_conf \<Rightarrow> int \<Rightarrow> logs \<Rightarrow> bool option \<times> logs" where
  "sliced_snoop e c len s =
     (if len > int SKW_LOG_DEFAULT_SIZE then
        let last = skw_btsnoop_path c @ ascii ''.last'';
            (renamed, s) = rename_file e (skw_btsnoop_path c) last (remove_file e last s)
        in if renamed \<and> last_errno s \<noteq> ENOENT then (None, s)
           else (Some True, skwlog_reopen e c True s)
      else
        let s = s\<lparr>btsnoop_rev_length := word_of_int len\<rparr>;
            new_file = (len \<le> 16)
        in (Some new_file, skwlog_reopen e c new_file s))"

definition dated_snoop :: "environment \<Rightarrow> log_conf \<Rightarrow> logs \<Rightarrow> logs" where
  "dated_snoop e c s =
     (let (now, s) = next_outcome e s;
          (timestamp, s) = skw_btsnoop_timestamp e s;
          usec = unat (timestamp - BTSNOOP_EPOCH_DELTA) mod 1000000;
          last = skw_btsnoop_path c @ ascii ''.'' @ stamp now @ ascii ''_'' @ decimal usec @ ascii ''-'' @
            padded_decimal 2 (sint (btsnoop_cnts s));
          s = s\<lparr>btsnoop_cnts := btsnoop_cnts s + 1\<rparr>
      in snd (rename_file e (skw_btsnoop_path c) last s))"

definition kept_snoop :: "environment \<Rightarrow> log_conf \<Rightarrow> logs \<Rightarrow> bool option \<times> logs" where
  "kept_snoop e c s =
     (let (present, s) = file_stat e (skw_btsnoop_path c) s;
          (fd, s) = (if present then open_read e (skw_btsnoop_path c) s else (-1, s)) in
      if fd > 0 then
        let size = file_size (skw_btsnoop_path c) s in
        if skwlog_slice c then sliced_snoop e c size s
        else (Some True, if size > 16 then dated_snoop e c s else s)
      else (Some True, if skwlog_slice c then skwlog_reopen e c True s else s))"

definition skw_btsnoop_open :: "environment \<Rightarrow> log_conf \<Rightarrow> logs \<Rightarrow> logs" where
  "skw_btsnoop_open e c s =
     (let s = s\<lparr>btsnoop_rev_length := 0\<rparr> in
      if hci_btsnoop_fd s \<noteq> -1 \<or> \<not> btsnoop_log_en c then s
      else
        let (new_file, s) =
          (if btsnoop_save_log c then kept_snoop e c s
           else (Some True, snd (rename_file e (skw_btsnoop_path c) (skw_btsnoop_path c @ ascii ''.last'') s)))
        in case new_file of
          None \<Rightarrow> s
        | Some new_file \<Rightarrow>
            let (fd, s) = open_append e (skw_btsnoop_path c) s;
                s = s\<lparr>hci_btsnoop_fd := fd\<rparr>
            in if fd < 0 then s
               else if new_file then write_file e fd btsnoop_header s else s)"

definition skw_btsnoop_init :: "environment \<Rightarrow> log_conf \<Rightarrow> logs \<Rightarrow> logs" where
  "skw_btsnoop_init e c s = skw_btsnoop_open e c (s\<lparr>btsnoop_cnts := 0\<rparr>)"

definition skw_btsnoop_close :: "logs \<Rightarrow> logs" where
  "skw_btsnoop_close s =
     (let s = (if hci_btsnoop_fd s \<noteq> -1 then close_file (hci_btsnoop_fd s) s else s)
      in s\<lparr>hci_btsnoop_fd := -1\<rparr>)"

section \<open>The records\<close>

definition skw_btsnoop_write :: "environment \<Rightarrow> bytes \<Rightarrow> logs \<Rightarrow> logs" where
  "skw_btsnoop_write e data s =
     (if hci_btsnoop_fd s \<noteq> -1 then write_file e (hci_btsnoop_fd s) data s else s)"

text \<open>\<open>htonl\<close>, and the four bytes as they are written.\<close>

definition be32 :: "u32 \<Rightarrow> bytes" where
  "be32 v = [ucast (drop_bit 24 v), ucast (drop_bit 16 v), ucast (drop_bit 8 v), ucast v]"

text \<open>The length of the packet at \<open>packet\<close> and the flags of its record.\<close>

definition capture_length :: "bytes \<Rightarrow> bool \<Rightarrow> (nat \<times> u32) option" where
  "capture_length packet is_received =
     (let pkt_type = packet ! 0;
          direction = (if is_received then 1 else 0) in
      if pkt_type = 0x01 then Some (unat (packet ! 3) + 4, 2)
      else if pkt_type = 0x02 \<or> pkt_type = 0x05 then
        Some (unat (packet ! 4) * 2 ^ 8 + unat (packet ! 3) + 5, direction)
      else if pkt_type = 0x03 then Some (unat (packet ! 3) + 4, direction)
      else if pkt_type = 0x04 \<or> pkt_type = 0x07 then Some (unat (packet ! 2) + 3, 3)
      else None)"

text \<open>
  \<open>skw_btsnoop_capture\<close> of the packet at the head of a buffer. It is given no length, and
  \<open>None\<close> is a packet whose length leads out of the buffer.
\<close>

definition skw_btsnoop_capture :: "environment \<Rightarrow> log_conf \<Rightarrow> bytes \<Rightarrow> bool \<Rightarrow> logs \<Rightarrow> logs option" where
  "skw_btsnoop_capture e c packet is_received s =
     (if \<not> btsnoop_log_en c \<or> hci_btsnoop_fd s = -1 then Some s
      else case capture_length packet is_received of
        None \<Rightarrow> Some s
      | Some (n, flags) \<Rightarrow>
          if n > length packet then None
          else
            let s = s\<lparr>btsnoop_rev_length := btsnoop_rev_length s + word_of_nat n\<rparr>;
                (timestamp, s) = skw_btsnoop_timestamp e s;
                s = fold (skw_btsnoop_write e)
                  [be32 (word_of_nat n), be32 (word_of_nat n), be32 flags, be32 0,
                   be32 (ucast (drop_bit 32 timestamp)), be32 (ucast timestamp), take n packet] s
            in Some (if unat (btsnoop_rev_length s) \<ge> SKW_LOG_DEFAULT_SIZE
                     then skw_btsnoop_open e c ((close_file (hci_btsnoop_fd s) s)\<lparr>hci_btsnoop_fd := -1\<rparr>)
                     else s))"

section \<open>Reading a capture\<close>

definition be32_at :: "bytes \<Rightarrow> nat \<Rightarrow> u32" where
  "be32_at d i = push_bit 24 (ucast (d ! i)) OR push_bit 16 (ucast (d ! (i + 1))) OR
     push_bit 8 (ucast (d ! (i + 2))) OR ucast (d ! (i + 3))"

text \<open>A record as a reader sees it: the flags, the time and the packet.\<close>

type_synonym snoop_entry = "u32 \<times> u64 \<times> bytes"

function read_snoop_records :: "bytes \<Rightarrow> snoop_entry list option" where
  "read_snoop_records d =
     (if d = [] then Some []
      else if length d < 24 then None
      else
        let n = unat (be32_at d 4) in
        if length d < 24 + n then None
        else do {
          rest \<leftarrow> read_snoop_records (drop (24 + n) d);
          Some ((be32_at d 8, push_bit 32 (ucast (be32_at d 16)) OR ucast (be32_at d 20),
                 take n (drop 24 d)) # rest)
        })"
  by pat_completeness auto
termination
  by (relation "measure length") auto

declare read_snoop_records.simps [simp del]

definition read_snoop_file :: "bytes \<Rightarrow> snoop_entry list option" where
  "read_snoop_file d =
     (if take 16 d = btsnoop_header then read_snoop_records (drop 16 d) else None)"

definition snoop_record :: "snoop_entry \<Rightarrow> bytes" where
  "snoop_record r = (case r of (flags, timestamp, packet) \<Rightarrow>
     be32 (word_of_nat (length packet)) @ be32 (word_of_nat (length packet)) @ be32 flags @ be32 0 @
     be32 (ucast (drop_bit 32 timestamp)) @ be32 (ucast timestamp) @ packet)"

lemma length_be32 [simp]: "length (be32 v) = 4"
  by (simp add: be32_def)

lemma be32_at_be32: "be32_at (a @ be32 v @ b) (length a) = v"
proof (rule bit_word_eqI)
  fix n assume "n < LENGTH(32)"
  then consider "n < 8" | "8 \<le> n \<and> n < 16" | "16 \<le> n \<and> n < 24" | "24 \<le> n \<and> n < 32" by force
  then show "bit (be32_at (a @ be32 v @ b) (length a)) n = bit v n"
    by cases (auto simp: be32_at_def be32_def bit_simps nth_append)
qed

lemma be32_at_parts:
  "length a = i \<Longrightarrow> d = a @ be32 v @ b \<Longrightarrow> be32_at d i = v"
  using be32_at_be32 by blast

lemma word_halves: "push_bit 32 (ucast (ucast (drop_bit 32 v) :: u32)) OR ucast (ucast v :: u32) = (v :: u64)"
proof (rule bit_word_eqI)
  fix n assume "n < LENGTH(64)"
  then show "bit (push_bit 32 (ucast (ucast (drop_bit 32 v) :: u32)) OR ucast (ucast v :: u32) :: u64) n = bit v n"
    by (cases "n < 32") (auto simp: bit_simps)
qed

lemma read_snoop_records_Nil [simp]: "read_snoop_records [] = Some []"
  by (subst read_snoop_records.simps) simp

lemma read_snoop_record:
  assumes "length packet < 2 ^ 32"
  shows "read_snoop_records (snoop_record (flags, timestamp, packet) @ d) =
    map_option (Cons (flags, timestamp, packet)) (read_snoop_records d)"
proof -
  let ?n = "be32 (word_of_nat (length packet))"
  let ?hi = "be32 (ucast (drop_bit 32 timestamp))"
  let ?lo = "be32 (ucast timestamp)"
  let ?all = "?n @ ?n @ be32 flags @ be32 0 @ ?hi @ ?lo @ packet @ d"
  have n: "be32_at ?all 4 = word_of_nat (length packet)"
    by (rule be32_at_parts [of ?n _ _ _ "be32 flags @ be32 0 @ ?hi @ ?lo @ packet @ d"]) simp_all
  have f: "be32_at ?all 8 = flags"
    by (rule be32_at_parts [of "?n @ ?n" _ _ _ "be32 0 @ ?hi @ ?lo @ packet @ d"]) simp_all
  have h: "be32_at ?all 16 = ucast (drop_bit 32 timestamp)"
    by (rule be32_at_parts [of "?n @ ?n @ be32 flags @ be32 0" _ _ _ "?lo @ packet @ d"]) simp_all
  have l: "be32_at ?all 20 = ucast timestamp"
    by (rule be32_at_parts [of "?n @ ?n @ be32 flags @ be32 0 @ ?hi" _ _ _ "packet @ d"]) simp_all
  have u: "unat (word_of_nat (length packet) :: u32) = length packet"
    using assms by (simp add: unat_of_nat take_bit_nat_eq_self)
  have all: "snoop_record (flags, timestamp, packet) @ d = ?all"
    by (simp add: snoop_record_def)
  have "length ?all = 24 + length packet + length d" by simp
  then have len: "\<not> length ?all < 24" "\<not> length ?all < 24 + length packet" by linarith+
  then have "?all \<noteq> []" by (metis list.size(3) zero_less_numeral)
  note len = this len
  have d: "drop (24 + length packet) ?all = d" "take (length packet) (drop 24 ?all) = packet"
    by simp_all
  show ?thesis
    unfolding all
    by (subst read_snoop_records.simps)
       (use len in \<open>simp only: n f h l u d Let_def if_False word_halves map_conv_bind_option o_def\<close>)
qed

lemma read_snoop_records_all:
  "\<forall>(flags, timestamp, packet) \<in> set rs. length packet < 2 ^ 32 \<Longrightarrow>
   read_snoop_records (concat (map snoop_record rs)) = Some rs"
proof (induction rs)
  case (Cons r rs)
  then show ?case by (cases r) (simp add: read_snoop_record)
qed simp

lemma length_btsnoop_header: "length btsnoop_header = 16"
  by (simp add: btsnoop_header_def)

lemma read_snoop_file_records:
  assumes "\<forall>(flags, timestamp, packet) \<in> set rs. length packet < 2 ^ 32"
  shows "read_snoop_file (btsnoop_header @ concat (map snoop_record rs)) = Some rs"
  using read_snoop_records_all [OF assms] by (simp add: read_snoop_file_def length_btsnoop_header)

section \<open>What a capture writes\<close>

definition capturing :: "log_conf \<Rightarrow> bytes \<Rightarrow> logs \<Rightarrow> bool" where
  "capturing c d s \<longleftrightarrow> hci_btsnoop_fd s \<noteq> -1 \<and> open_files s (hci_btsnoop_fd s) = Some (skw_btsnoop_path c) \<and>
     files s (skw_btsnoop_path c) = Some d"

lemma capturing_write:
  assumes "all_well e" "capturing c d s" "length data \<le> 2 ^ 17"
  shows "capturing c (d @ data) (skw_btsnoop_write e data s)"
    and "btsnoop_rev_length (skw_btsnoop_write e data s) = btsnoop_rev_length s"
proof -
  have "failed (e (calls s)) = None" "length data \<le> number (e (calls s))"
    using assms(1,3) le_trans unfolding all_well_def by blast+
  with assms(2) show "capturing c (d @ data) (skw_btsnoop_write e data s)"
    "btsnoop_rev_length (skw_btsnoop_write e data s) = btsnoop_rev_length s"
    by (simp_all add: capturing_def skw_btsnoop_write_def write_file_def next_outcome_def)
qed

lemma capturing_writes:
  assumes "all_well e" "capturing c d s" "\<forall>data\<in>set ds. length data \<le> 2 ^ 17"
  shows "capturing c (d @ concat ds) (fold (skw_btsnoop_write e) ds s) \<and>
    btsnoop_rev_length (fold (skw_btsnoop_write e) ds s) = btsnoop_rev_length s"
  using assms(2,3)
proof (induction ds arbitrary: d s)
  case (Cons x ds)
  then have "capturing c (d @ x) (skw_btsnoop_write e x s)"
    "btsnoop_rev_length (skw_btsnoop_write e x s) = btsnoop_rev_length s"
    using capturing_write [OF assms(1)] by simp_all
  with Cons.IH [OF this(1)] Cons.prems(2) show ?case by simp
qed simp

lemma capture_length_bound: "capture_length packet is_received = Some (n, flags) \<Longrightarrow> n \<le> 65540"
  using u8_less [of "packet ! 2"] u8_less [of "packet ! 3"] u8_less [of "packet ! 4"]
  by (auto simp: capture_length_def Let_def split: if_splits)

lemma capture_records:
  assumes e: "all_well e" and c: "btsnoop_log_en c" and s: "capturing c d s"
    and p: "capture_length packet is_received = Some (n, flags)" "n \<le> length packet"
    and rev: "unat (btsnoop_rev_length s) + n < SKW_LOG_DEFAULT_SIZE"
  obtains s' timestamp where "skw_btsnoop_capture e c packet is_received s = Some s'"
    "capturing c (d @ snoop_record (flags, timestamp, take n packet)) s'"
    "unat (btsnoop_rev_length s') = unat (btsnoop_rev_length s) + n"
proof -
  obtain timestamp u where t: "skw_btsnoop_timestamp e
      (s\<lparr>btsnoop_rev_length := btsnoop_rev_length s + word_of_nat n\<rparr>) = (timestamp, u)"
    by fastforce
  let ?ds = "[be32 (word_of_nat n), be32 (word_of_nat n), be32 flags, be32 0,
                   be32 (ucast (drop_bit 32 timestamp)), be32 (ucast timestamp), take n packet]"
  let ?v = "fold (skw_btsnoop_write e) ?ds u"
  have u: "capturing c d u" "btsnoop_rev_length u = btsnoop_rev_length s + word_of_nat n"
    using t s by (auto simp: skw_btsnoop_timestamp_def next_outcome_def capturing_def)
  have "\<forall>data\<in>set ?ds. length data \<le> 2 ^ 17"
    using capture_length_bound [OF p(1)] by simp
  then have v: "capturing c (d @ concat ?ds) ?v" "btsnoop_rev_length ?v = btsnoop_rev_length u"
    using capturing_writes [OF e u(1)] by blast+
  have "unat (btsnoop_rev_length s + word_of_nat n) = unat (btsnoop_rev_length s) + n"
    using rev by (simp add: SKW_LOG_DEFAULT_SIZE_def unat_word_ariths unat_of_nat take_bit_nat_eq_self)
  then have r: "unat (btsnoop_rev_length ?v) = unat (btsnoop_rev_length s) + n"
    by (simp only: v(2) u(2))
  have "skw_btsnoop_capture e c packet is_received s = Some ?v"
    unfolding skw_btsnoop_capture_def p(1) option.case prod.case Let_def t r
    using c s p(2) rev by (simp add: capturing_def)
  moreover have "d @ concat ?ds = d @ snoop_record (flags, timestamp, take n packet)"
    using p(2) by (simp add: snoop_record_def)
  ultimately show thesis using that v(1) r by metis
qed

section \<open>Frames\<close>

text \<open>The frame at the head of a buffer, and what the top bits of an isochronous length add.\<close>

definition whole_frame :: "bytes \<Rightarrow> bytes option" where
  "whole_frame d =
     (case skw_h4_decode d of
        (SKW_H4_COMPLETE, f) \<Rightarrow> if h4_type f = SKW_H4_LOG_PKT then None else Some (take (frame_size f) d)
      | _ \<Rightarrow> None)"

definition iso_flags :: "bytes \<Rightarrow> nat" where
  "iso_flags d = (if d ! 0 = SKW_H4_ISO_PKT then unat (d ! 4) div 64 else 0)"

text \<open>The flags of the file format: bit 0 is the direction, bit 1 marks commands and events.\<close>

definition snoop_flags :: "bytes \<Rightarrow> bool \<Rightarrow> u32" where
  "snoop_flags d is_received =
     (if is_received then 1 else 0) OR
     (if d ! 0 = SKW_H4_COMMAND_PKT \<or> d ! 0 = SKW_H4_EVENT_PKT then 2 else 0)"

definition well_directed :: "bytes \<Rightarrow> bool \<Rightarrow> bool" where
  "well_directed d is_received \<longleftrightarrow>
     (d ! 0 = SKW_H4_COMMAND_PKT \<longrightarrow> \<not> is_received) \<and> (d ! 0 = SKW_H4_EVENT_PKT \<longrightarrow> is_received)"

lemma whole_frame_cases:
  assumes "whole_frame d = Some x"
  obtains h p where "h4_header_size (d ! 0) = Some h" "h4_payload_size (d ! 0) d = Some p"
    "d ! 0 \<noteq> SKW_H4_LOG_PKT" "x = take (h + p) d" "h + p \<le> length d" "h + p \<le> SKW_H4_STREAM_CAPACITY"
proof (cases "d = []")
  case True
  with assms show ?thesis by (simp add: whole_frame_def skw_h4_decode_def)
next
  case False
  then show ?thesis
    using assms that
    by (cases rule: skw_h4_decode_cases) (auto simp: whole_frame_def split: if_splits)
qed

lemma capture_length_frame:
  assumes "whole_frame d = Some x"
  shows "\<exists>flags. capture_length d is_received = Some (length x + 16384 * iso_flags d, flags) \<and>
    (well_directed d is_received \<longrightarrow> flags = snoop_flags d is_received)"
proof -
  from assms obtain h p where f: "h4_header_size (d ! 0) = Some h" "h4_payload_size (d ! 0) d = Some p"
    "d ! 0 \<noteq> SKW_H4_LOG_PKT" "x = take (h + p) d" "h + p \<le> length d"
    by (rule whole_frame_cases)
  then have "length x = h + p" by simp
  moreover have "unat (u16_at d 3 AND 0x3fff) + 16384 * (unat (d ! 4) div 64) =
      256 * unat (d ! 4) + unat (d ! 3)"
  proof -
    let ?n = "unat (d ! 3) + 256 * unat (d ! 4)"
    have "?n div 16384 = ?n div 256 div 64" by (simp add: div_mult2_eq [symmetric])
    also have "\<dots> = unat (d ! 4) div 64" using u8_less [of "d ! 3"] by simp
    finally show ?thesis
      using div_mult_mod_eq [of ?n 16384] by (simp add: u16_low unat_u16_at)
  qed
  ultimately show ?thesis
    using f(1,2,3)
    by (auto simp: capture_length_def h4_header_size_def h4_payload_size_def iso_flags_def pkt_defs
        well_directed_def snoop_flags_def unat_u16_at Let_def split: if_splits)
qed

primrec capture_all :: "environment \<Rightarrow> log_conf \<Rightarrow> (bytes \<times> bool) list \<Rightarrow> logs \<Rightarrow> logs option" where
  "capture_all e c [] s = Some s"
| "capture_all e c (p # ps) s =
     Option.bind (skw_btsnoop_capture e c (fst p) (snd p) s) (capture_all e c ps)"

definition frames_of :: "(bytes \<times> bool) list \<Rightarrow> bytes list" where
  "frames_of ps = map (\<lambda>p. the (whole_frame (fst p))) ps"

text \<open>A packet that is captured exactly: a whole frame in the right direction without such bits.\<close>

definition captured_exactly :: "bytes \<times> bool \<Rightarrow> bool" where
  "captured_exactly p \<longleftrightarrow> whole_frame (fst p) \<noteq> None \<and> well_directed (fst p) (snd p) \<and> iso_flags (fst p) = 0"

lemma capture_exact:
  assumes e: "all_well e" and c: "btsnoop_log_en c" and s: "capturing c d s"
    and p: "captured_exactly p"
    and rev: "unat (btsnoop_rev_length s) + length (the (whole_frame (fst p))) < SKW_LOG_DEFAULT_SIZE"
  obtains s' timestamp where "skw_btsnoop_capture e c (fst p) (snd p) s = Some s'"
    "capturing c (d @ snoop_record (snoop_flags (fst p) (snd p), timestamp, the (whole_frame (fst p)))) s'"
    "unat (btsnoop_rev_length s') = unat (btsnoop_rev_length s) + length (the (whole_frame (fst p)))"
proof -
  obtain x where x: "whole_frame (fst p) = Some x" using p by (auto simp: captured_exactly_def)
  obtain h q where h: "x = take (h + q) (fst p)" "h + q \<le> length (fst p)"
    using x by (rule whole_frame_cases)
  have l: "capture_length (fst p) (snd p) = Some (length x, snoop_flags (fst p) (snd p))"
    using capture_length_frame [OF x, of "snd p"] p by (simp add: captured_exactly_def)
  have n: "length x \<le> length (fst p)" "take (length x) (fst p) = x"
    using h by simp_all
  have r: "unat (btsnoop_rev_length s) + length x < SKW_LOG_DEFAULT_SIZE"
    using rev x by simp
  show thesis
    using capture_records [OF e c s l n(1) r] that unfolding n(2) x option.sel by metis
qed

lemma capture_all_records:
  assumes e: "all_well e" and c: "btsnoop_log_en c"
  shows "capturing c d s \<Longrightarrow> \<forall>p\<in>set ps. captured_exactly p \<Longrightarrow>
    unat (btsnoop_rev_length s) + length (concat (frames_of ps)) < SKW_LOG_DEFAULT_SIZE \<Longrightarrow>
    \<exists>s' rs. capture_all e c ps s = Some s' \<and> capturing c (d @ concat (map snoop_record rs)) s' \<and>
      map (\<lambda>(flags, _, packet). (flags, packet)) rs =
        zip (map (\<lambda>p. snoop_flags (fst p) (snd p)) ps) (frames_of ps)"
proof (induction ps arbitrary: d s)
  case Nil
  then show ?case by (intro exI [of _ s] exI [of _ "[] :: snoop_entry list"]) (simp add: frames_of_def)
next
  case (Cons p ps)
  have p: "captured_exactly p" using Cons.prems(2) by simp
  have r: "unat (btsnoop_rev_length s) + length (the (whole_frame (fst p))) < SKW_LOG_DEFAULT_SIZE"
    using Cons.prems(3) by (simp add: frames_of_def)
  obtain u timestamp where u: "skw_btsnoop_capture e c (fst p) (snd p) s = Some u"
    "capturing c (d @ snoop_record (snoop_flags (fst p) (snd p), timestamp, the (whole_frame (fst p)))) u"
    "unat (btsnoop_rev_length u) = unat (btsnoop_rev_length s) + length (the (whole_frame (fst p)))"
    using capture_exact [OF e c Cons.prems(1) p r] by blast
  have "unat (btsnoop_rev_length u) + length (concat (frames_of ps)) < SKW_LOG_DEFAULT_SIZE"
    using Cons.prems(3) u(3) by (simp add: frames_of_def)
  then obtain s' rs where "capture_all e c ps u = Some s'"
    "capturing c ((d @ snoop_record (snoop_flags (fst p) (snd p), timestamp, the (whole_frame (fst p)))) @
      concat (map snoop_record rs)) s'"
    "map (\<lambda>(flags, _, packet). (flags, packet)) rs =
        zip (map (\<lambda>p. snoop_flags (fst p) (snd p)) ps) (frames_of ps)"
    using Cons.IH [OF u(2)] Cons.prems(2) by auto
  then show ?case
    using u(1)
    by (intro exI [of _ s'] exI [of _ "(snoop_flags (fst p) (snd p), timestamp, the (whole_frame (fst p))) # rs"])
       (simp add: frames_of_def)
qed

text \<open>Opening without keeping logs starts an empty capture.\<close>

lemma open_captures:
  assumes e: "all_well e" and c: "btsnoop_log_en c" "\<not> btsnoop_save_log c" and s: "hci_btsnoop_fd s = -1"
  shows "capturing c btsnoop_header (skw_btsnoop_open e c s)"
    and "btsnoop_rev_length (skw_btsnoop_open e c s) = 0"
proof -
  have w: "failed (e n) = None" "number (e n) \<ge> 16" for n
  proof -
    have "failed (e n) = None \<and> 2 ^ 17 \<le> number (e n)" using e by (simp only: all_well_def)
    then show "failed (e n) = None" "number (e n) \<ge> 16" by simp_all
  qed
  have "skw_btsnoop_path c \<noteq> skw_btsnoop_path c @ ascii ''.last''" by simp
  then show "capturing c btsnoop_header (skw_btsnoop_open e c s)"
    "btsnoop_rev_length (skw_btsnoop_open e c s) = 0"
    using c s w(1) w(2)
    by (auto simp: skw_btsnoop_open_def rename_file_def open_append_def write_file_def next_outcome_def
        capturing_def fails_def length_btsnoop_header Let_def split: option.splits)
qed

lemma entries_split:
  "map (\<lambda>(flags, _, packet). (flags, packet)) rs = zip fs xs \<Longrightarrow> length fs = length xs \<Longrightarrow>
   map (\<lambda>(flags, _, packet). packet) rs = xs"
  by (metis (mono_tags, lifting) case_prod_unfold map_eq_conv map_map map_snd_zip comp_apply snd_conv)

text \<open>Without failures, renaming an old capture away either ends the capture or starts a new one.\<close>

lemma skwlog_snoop_fd [simp]:
  "hci_btsnoop_fd (write_file e fd data s) = hci_btsnoop_fd s"
  "hci_btsnoop_fd (close_file fd s) = hci_btsnoop_fd s"
  "hci_btsnoop_fd (remove_file e path s) = hci_btsnoop_fd s"
  "hci_btsnoop_fd (snd (rename_file e path to s)) = hci_btsnoop_fd s"
  "hci_btsnoop_fd (snd (open_append e path s)) = hci_btsnoop_fd s"
  by (simp_all add: write_file_def close_file_def remove_file_def rename_file_def open_append_def
      next_outcome_def fails_def split: option.split)

lemma open_append_fd:
  "failed (e (calls s)) = None \<Longrightarrow> fst (open_append e path s) = int (number (e (calls s)))"
  by (simp add: open_append_def next_outcome_def)

definition snoop_conf :: "bool \<Rightarrow> log_conf" where
  "snoop_conf keep = \<lparr>skw_btsnoop_path = [0x2f, 0x62], btsnoop_save_log = keep, btsnoop_log_en = True,
     btcp_log_en = False, skwlog_slice = keep\<rparr>"

section \<open>Properties\<close>



text \<open>
  The capture of a frame that the reassembly has accepted stays inside the reassembly
  buffer exactly when the frame is not an isochronous one with bits set above its length: the
  decoder masks those bits out of the length, the capture does not, and reads and stores
  at least 16384 bytes of a buffer of 4096.
\<close>

theorem iso_capture_overreads:
  assumes "btsnoop_log_en c" "hci_btsnoop_fd s \<noteq> -1"
    and "whole_frame buffer = Some x" "length buffer \<le> SKW_H4_STREAM_CAPACITY"
  shows "skw_btsnoop_capture e c buffer is_received s = None \<longleftrightarrow> iso_flags buffer > 0"
proof -
  obtain flags where n: "capture_length buffer is_received = Some (length x + 16384 * iso_flags buffer, flags)"
    using capture_length_frame [OF assms(3)] by blast
  obtain h p where x: "x = take (h + p) buffer" "h + p \<le> length buffer"
    using assms(3) by (rule whole_frame_cases)
  have "length x + 16384 * iso_flags buffer > length buffer \<longleftrightarrow> iso_flags buffer > 0"
    using x assms(4) by (cases "iso_flags buffer") (simp_all add: SKW_H4_STREAM_CAPACITY_def)
  then show ?thesis
    using assms(1,2) n by (simp add: skw_btsnoop_capture_def Let_def split: prod.split)
qed

theorem iso_capture_overreads_witness:
  "skw_btsnoop_capture snoop_samples (snoop_conf False) [5, 0, 0, 0, 0x40] True
     ((no_logs Map.empty)\<lparr>hci_btsnoop_fd := 3\<rparr>) = None"
proof -
  have "whole_frame [5, 0, 0, 0, 0x40] = Some [5, 0, 0, 0, 0x40]" "iso_flags [5, 0, 0, 0, 0x40] > 0"
    by code_simp+
  then show ?thesis
    using iso_capture_overreads [of "snoop_conf False" "(no_logs Map.empty)\<lparr>hci_btsnoop_fd := 3\<rparr>"
        "[5, 0, 0, 0, 0x40]" "[5, 0, 0, 0, 0x40]" snoop_samples True]
    by (simp add: snoop_conf_def SKW_H4_STREAM_CAPACITY_def)
qed

text \<open>
  When logs are kept in slices and the capture file has outgrown the limit, opening the
  capture moves the file away and then gives up, although every call has succeeded, exactly
  when an older slice existed and the last error of the process, whenever it occurred, was not
  a missing file: the success of the renaming is taken for its failure. Nothing is captured
  from then on. Otherwise a new file is opened.
\<close>

theorem rotation_ends_capture:
  assumes well: "\<And>n. failed (e n) = None \<and> 0 < number (e n)"
    and c: "btsnoop_log_en c" "btsnoop_save_log c" "skwlog_slice c"
    and s: "hci_btsnoop_fd s = -1" "files s (skw_btsnoop_path c) = Some d"
    and d: "SKW_LOG_DEFAULT_SIZE < length d" "length d < 2 ^ 31"
  shows "(hci_btsnoop_fd (skw_btsnoop_open e c s) = -1 \<longleftrightarrow>
      files s (skw_btsnoop_path c @ ascii ''.last'') \<noteq> None \<and> last_errno s \<noteq> ENOENT) \<and>
    (hci_btsnoop_fd (skw_btsnoop_open e c s) = -1 \<longrightarrow>
      (\<forall>packet is_received. skw_btsnoop_capture e c packet is_received (skw_btsnoop_open e c s) =
        Some (skw_btsnoop_open e c s)))"
proof -
  let ?last = "skw_btsnoop_path c @ ascii ''.last''"
  let ?s = "s\<lparr>btsnoop_rev_length := 0, calls := calls s + 2\<rparr>"
  let ?r = "remove_file e ?last ?s"
  let ?u = "snd (rename_file e (skw_btsnoop_path c) ?last ?r)"
  have f: "failed (e n) = None" "0 < number (e n)" for n using well by auto
  have ne: "skw_btsnoop_path c \<noteq> ?last" by simp
  have size: "file_size (skw_btsnoop_path c) ?s = int (length d)"
    using s(2) d(2) by (simp add: file_size_def signed_of_nat signed_take_bit_int_eq_self)
  have r: "files ?r (skw_btsnoop_path c) = Some d"
    "last_errno ?r = (if files s ?last = None then ENOENT else last_errno s)"
    using f ne s(2) by (simp_all add: remove_file_def next_outcome_def fails_def)
  have u: "fst (rename_file e (skw_btsnoop_path c) ?last ?r)" "last_errno ?u = last_errno ?r"
    "hci_btsnoop_fd ?u = -1"
    using f r s(1) ne by (simp_all add: rename_file_def next_outcome_def)
  have k: "kept_snoop e c (s\<lparr>btsnoop_rev_length := 0\<rparr>) =
      (if files s ?last \<noteq> None \<and> last_errno s \<noteq> ENOENT then (None, ?u) else (Some True, skwlog_reopen e c True ?u))"
    using f s(2) c(3) size d(1) u r
    by (auto simp: kept_snoop_def file_stat_def open_read_def next_outcome_def sliced_snoop_def split_beta Let_def)
  have fd: "hci_btsnoop_fd (skw_btsnoop_open e c s) = -1 \<longleftrightarrow> files s ?last \<noteq> None \<and> last_errno s \<noteq> ENOENT"
    using c s(1) u(3) f
    by (auto simp: skw_btsnoop_open_def k Let_def split_beta open_append_fd)
  then show ?thesis by (simp add: skw_btsnoop_capture_def)
qed

theorem rotation_ends_capture_witness:
  "hci_btsnoop_fd (skw_btsnoop_open snoop_samples (snoop_conf True)
     (no_logs [[0x2f, 0x62] \<mapsto> replicate (Suc SKW_LOG_DEFAULT_SIZE) 0,
               [0x2f, 0x62, 0x2e, 0x6c, 0x61, 0x73, 0x74] \<mapsto> []])) = -1"
  using rotation_ends_capture [of snoop_samples "snoop_conf True"
      "no_logs [[0x2f, 0x62] \<mapsto> replicate (Suc SKW_LOG_DEFAULT_SIZE) 0,
               [0x2f, 0x62, 0x2e, 0x6c, 0x61, 0x73, 0x74] \<mapsto> []]"
      "replicate (Suc SKW_LOG_DEFAULT_SIZE) 0"]
  by (simp add: snoop_samples_def snoop_conf_def no_logs_def SKW_LOG_DEFAULT_SIZE_def
      del: replicate.simps replicate_Suc)

end
