(* ===== verification/Scom_Lifecycle.thy ===== *)
theory Scom_Lifecycle
  imports Scom_Ports "HOL-Library.Multiset"
begin

text \<open>
  Opening and closing a port of the vendor library: its device, the serial settings, the
  socket pairs and the two threads. What the calls answer is a record; the descriptors that
  are opened and closed and the threads that are started and joined are events, and a ledger
  over the events says what a port holds.
\<close>

section \<open>Descriptors\<close>

text \<open>\<open>set_nonblocking_cloexec\<close>: the answers of the four \<open>fcntl\<close> calls; the flags set.\<close>

record fcntl_io =
  getfl :: int
  setfl :: int
  getfd :: int
  setfd :: int

abbreviation (input) O_NONBLOCK :: int where "O_NONBLOCK \<equiv> 0x800"
abbreviation (input) FD_CLOEXEC :: int where "FD_CLOEXEC \<equiv> 1"

definition set_nonblocking_cloexec :: "fcntl_io \<Rightarrow> (int \<times> int) option" where
  "set_nonblocking_cloexec io =
     (if getfl io < 0 \<or> setfl io < 0 then None
      else if getfd io < 0 \<or> setfd io < 0 then None
      else Some (getfl io OR O_NONBLOCK, getfd io OR FD_CLOEXEC))"

text \<open>\<open>close_owned_fd\<close> on a field of a port: \<open>get\<close> reads it, \<open>forget\<close> stores -1.\<close>

definition close_owned_fd :: "(port \<Rightarrow> int) \<Rightarrow> (port \<Rightarrow> port) \<Rightarrow> nat \<Rightarrow> transport \<Rightarrow> transport" where
  "close_owned_fd get forget p t =
     (let owned = get (ports t ! p); t = set_port p forget t
      in if owned \<ge> 0 then note_event (Closed p owned) t else t)"

abbreviation close_dev :: "nat \<Rightarrow> transport \<Rightarrow> transport" where
  "close_dev \<equiv> close_owned_fd dev_fd (\<lambda>s. s\<lparr>dev_fd := -1\<rparr>)"

definition open_fd :: "nat \<Rightarrow> int \<Rightarrow> transport \<Rightarrow> transport" where
  "open_fd p fd t = (if fd \<ge> 0 then note_event (Opened p fd) t else t)"

section \<open>Opening a device\<close>

definition scomm_vendor_usbsdio_open :: "int \<Rightarrow> fcntl_io \<Rightarrow> nat \<Rightarrow> transport \<Rightarrow> int \<times> transport" where
  "scomm_vendor_usbsdio_open opened io p t =
     (let t = open_fd p opened (set_port p (\<lambda>s. s\<lparr>dev_fd := opened\<rparr>) t) in
      if opened = -1 then (-1, t)
      else if set_nonblocking_cloexec io = None then (-1, close_dev p t)
      else (opened, t))"

text \<open>The serial settings: of \<open>termios\<close>, the control flags and the two speeds.\<close>

record termios =
  c_cflag :: u32
  ospeed :: u32
  ispeed :: u32

record userial_cfg =
  cfg_fmt :: u16
  cfg_baud :: nat
  cfg_hw_fctrl :: bool

definition CSIZE :: u32 where "CSIZE = 0x30"
definition CS8 :: u32 where "CS8 = 0x30"
definition CS7 :: u32 where "CS7 = 0x20"
definition CS6 :: u32 where "CS6 = 0x10"
definition CS5 :: u32 where "CS5 = 0x00"
definition CSTOPB :: u32 where "CSTOPB = 0x40"
definition PARENB :: u32 where "PARENB = 0x100"
definition PARODD :: u32 where "PARODD = 0x200"
definition CRTSCTS :: u32 where "CRTSCTS = 0x80000000"

lemmas termios_defs = CSIZE_def CS8_def CS7_def CS6_def CS5_def CSTOPB_def PARENB_def PARODD_def CRTSCTS_def

text \<open>The library's \<open>cfmakeraw\<close> on the control flags.\<close>

definition cfmakeraw :: "u32 \<Rightarrow> u32" where
  "cfmakeraw c = (c AND NOT (CSIZE OR PARENB)) OR CS8"

text \<open>\<open>scomm_vendor_tcio_baud\<close>: the speed code of the terminal, and whether it is known.\<close>

definition scomm_vendor_tcio_baud :: "nat \<Rightarrow> u32 \<times> bool" where
  "scomm_vendor_tcio_baud b =
     (if b = 7 then (0x1002, True)
      else if b = 15 then (0x100f, True)
      else if b = 14 then (0x100d, True)
      else if b = 13 then (0x100b, True)
      else if b = 11 then (0x1008, True)
      else if b = 12 then (0x100a, True)
      else if b = 10 then (0x1007, True)
      else if b = 9 then (0x1004, True)
      else if b = 8 then (0x1003, True)
      else if b = 6 then (0x1001, True)
      else if b = 5 then (0x0e, True)
      else if b = 4 then (0x0d, True)
      else if b = 2 then (0x09, True)
      else if b = 1 then (0x08, True)
      else (0x1002, False))"

text \<open>The settings given to the terminal, \<open>None\<close> when the configuration is refused.\<close>

definition uart_settings :: "userial_cfg \<Rightarrow> termios \<Rightarrow> termios option" where
  "uart_settings cfg initial =
     (case scomm_vendor_tcio_baud (cfg_baud cfg) of
        (_, False) \<Rightarrow> None
      | (baud, True) \<Rightarrow>
        let fmt = cfg_fmt cfg;
            data_bits = (if fmt AND 0x200 \<noteq> 0 then Some CS8 else if fmt AND 0x100 \<noteq> 0 then Some CS7
              else if fmt AND 0x80 \<noteq> 0 then Some CS6 else if fmt AND 0x40 \<noteq> 0 then Some CS5 else None);
            parity = (if fmt AND 0x8 \<noteq> 0 then Some 0 else if fmt AND 0x10 \<noteq> 0 then Some PARENB
              else if fmt AND 0x20 \<noteq> 0 then Some (PARENB OR PARODD) else None);
            stop_bits = (if fmt AND 1 \<noteq> 0 then Some 0 else if fmt AND 4 \<noteq> 0 then Some CSTOPB else None)
        in do {
          data_bits \<leftarrow> data_bits;
          parity \<leftarrow> parity;
          stop_bits \<leftarrow> stop_bits;
          let c = cfmakeraw (c_cflag initial);
          let c = (if cfg_hw_fctrl cfg then c OR (CRTSCTS OR stop_bits OR parity)
                   else (c AND NOT CRTSCTS) OR (stop_bits OR parity));
          let c = (c AND NOT CSIZE) OR data_bits;
          Some (initial\<lparr>c_cflag := c, ospeed := baud, ispeed := baud\<rparr>)
        })"

definition userial_H4_cfg :: userial_cfg where
  "userial_H4_cfg = \<lparr>cfg_fmt = 0x200 OR 0x8 OR 0x1, cfg_baud = 14, cfg_hw_fctrl = True\<rparr>"

text \<open>\<open>scomm_vendor_uart_open\<close>: the descriptor, and the settings the terminal got last.\<close>

definition scomm_vendor_uart_open ::
  "int \<Rightarrow> fcntl_io \<Rightarrow> termios \<Rightarrow> nat \<Rightarrow> transport \<Rightarrow> (int \<times> termios option) \<times> transport" where
  "scomm_vendor_uart_open opened io initial p t =
     (let t = set_port p (\<lambda>s. s\<lparr>dev_fd := -1\<rparr>) t in
      case uart_settings userial_H4_cfg initial of
        None \<Rightarrow> ((-1, None), t)
      | Some settings \<Rightarrow>
          let t = open_fd p opened (set_port p (\<lambda>s. s\<lparr>dev_fd := opened\<rparr>) t) in
          if opened = -1 then ((-1, None), t)
          else if set_nonblocking_cloexec io = None then ((-1, None), close_dev p t)
          else ((opened, Some settings), t))"

section \<open>The sockets and threads of a port\<close>

record open_io =
  o_uart :: "(int \<times> int) option"
  o_wake :: "(int \<times> int) option"
  o_fcntl :: "nat \<Rightarrow> fcntl_io"
  o_epoll :: int
  o_attr_init :: int
  o_attr_detach :: int
  o_epoll_add :: "nat \<Rightarrow> int"
  o_thread_socket :: int
  o_thread_uart :: int
  o_looks :: "nat \<Rightarrow> bool \<times> bool"

text \<open>The wait for the thread: whether to go on, and whether it has started, at each look.\<close>

primrec wait_started :: "(nat \<Rightarrow> bool \<times> bool) \<Rightarrow> nat \<Rightarrow> nat \<Rightarrow> nat" where
  "wait_started looks 0 attempts = attempts"
| "wait_started looks (Suc n) attempts =
     (case looks attempts of (up, started) \<Rightarrow>
        if up \<and> \<not> started then wait_started looks n (attempts + 1) else attempts)"

definition join_threads :: "nat \<Rightarrow> transport \<Rightarrow> transport" where
  "join_threads p t =
     (let t = (if thread_uart_started (ports t ! p)
               then set_port p (\<lambda>s. s\<lparr>thread_uart_started := False\<rparr>) (note_event (Joined_uart p) t) else t)
      in if thread_socket_started (ports t ! p)
         then set_port p (\<lambda>s. s\<lparr>thread_socket_started := False\<rparr>) (note_event (Joined_socket p) t) else t)"

definition scomm_vendor_socket_close :: "nat \<Rightarrow> transport \<Rightarrow> transport" where
  "scomm_vendor_socket_close p t =
     (let t = close_owned_fd epoll_fd (\<lambda>s. s\<lparr>epoll_fd := -1\<rparr>) p t;
          t = close_owned_fd (\<lambda>s. fst (uart_fd s)) (\<lambda>s. s\<lparr>uart_fd := (-1, snd (uart_fd s))\<rparr>) p t;
          t = close_owned_fd (\<lambda>s. snd (uart_fd s)) (\<lambda>s. s\<lparr>uart_fd := (fst (uart_fd s), -1)\<rparr>) p t;
          t = close_owned_fd (\<lambda>s. fst (wake_fd s)) (\<lambda>s. s\<lparr>wake_fd := (-1, snd (wake_fd s))\<rparr>) p t
      in close_owned_fd (\<lambda>s. snd (wake_fd s)) (\<lambda>s. s\<lparr>wake_fd := (fst (wake_fd s), -1)\<rparr>) p t)"

definition socket_open_fail :: "nat \<Rightarrow> transport \<Rightarrow> int \<times> transport" where
  "socket_open_fail p t = (-1, scomm_vendor_socket_close p (join_threads p (stop_port p t)))"

text \<open>The threads of a port whose descriptors are open; only port 0 reads from the host.\<close>

definition start_threads :: "open_io \<Rightarrow> nat \<Rightarrow> transport \<Rightarrow> int \<times> transport" where
  "start_threads io p t =
     (if p = 0 \<and> (o_epoll_add io 0 = -1 \<or> o_epoll_add io 1 = -1 \<or> o_thread_socket io \<noteq> 0) then socket_open_fail p t
      else let t = (if p = 0 then note_event (Started_socket p) (set_port p (\<lambda>s. s\<lparr>thread_socket_started := True\<rparr>) t)
                    else t) in
      if o_thread_uart io \<noteq> 0 then socket_open_fail p t
      else let t = note_event (Started_uart p) (set_port p (\<lambda>s. s\<lparr>thread_uart_started := True\<rparr>) t);
               (up, started) = o_looks io (Suc (wait_started (o_looks io) 5000 0)) in
      if \<not> started then socket_open_fail p t
      else (fst (uart_fd (ports t ! p)),
            set_port p (\<lambda>s. s\<lparr>driver_state := True, recv_comm_thread_running := True, thread_running := up\<rparr>) t))"

definition scomm_vendor_socket_open :: "open_io \<Rightarrow> nat \<Rightarrow> transport \<Rightarrow> int \<times> transport" where
  "scomm_vendor_socket_open io p t =
     (case o_uart io of
        None \<Rightarrow> (-1, t)
      | Some uart \<Rightarrow>
        let t = open_fd p (snd uart) (open_fd p (fst uart) (set_port p (\<lambda>s. s\<lparr>uart_fd := uart\<rparr>) t)) in
        case o_wake io of
          None \<Rightarrow> socket_open_fail p t
        | Some wake \<Rightarrow>
          let t = open_fd p (snd wake) (open_fd p (fst wake) (set_port p (\<lambda>s. s\<lparr>wake_fd := wake\<rparr>) t)) in
          if \<exists>i\<in>{0..<4}. set_nonblocking_cloexec (o_fcntl io i) = None then socket_open_fail p t
          else let t = open_fd p (o_epoll io) (set_port p (\<lambda>s. s\<lparr>epoll_fd := o_epoll io\<rparr>) t) in
          if o_epoll io = -1 then socket_open_fail p t
          else let t = set_port p (\<lambda>s. s\<lparr>thread_running := True, recv_comm_thread_running := False,
                 driver_state := False, thread_socket_started := False, thread_uart_started := False\<rparr>) t in
          if o_attr_init io \<noteq> 0 \<or> o_attr_detach io \<noteq> 0 then socket_open_fail p t
          else start_threads io p (if p = 0 then t\<lparr>host_stream := []\<rparr> else t))"

section \<open>Closing\<close>

definition scomm_vendor_port_close :: "nat \<Rightarrow> transport \<Rightarrow> transport" where
  "scomm_vendor_port_close p t =
     (let t = stop_port p t;
          t = (if dev_fd (ports t ! p) \<ge> 0 then note_event (Ioctl_stop (dev_fd (ports t ! p))) t else t);
          t = join_threads p t;
          t = close_dev p t;
          t = scomm_vendor_socket_close p t
      in set_port p (\<lambda>s. s\<lparr>recv_comm_thread_running := False\<rparr>) t)"

text \<open>\<open>scomm_vendor_close\<close>: all ports are stopped before the first is joined; \<open>btpw_fp\<close> last.\<close>

definition scomm_vendor_close :: "scom_conf \<Rightarrow> transport \<Rightarrow> scom_conf \<times> transport" where
  "scomm_vendor_close c t =
     (let t = fold stop_port [0..<BT_COM_PORT_SIZE] t;
          t = fold scomm_vendor_port_close [0..<BT_COM_PORT_SIZE] t
      in if btpw_fp c \<ge> 0 then (c\<lparr>btpw_fp := -1\<rparr>, note_event (Power_closed (btpw_fp c)) t) else (c, t))"

section \<open>Texts\<close>

definition hex2char :: "int \<Rightarrow> u8" where
  "hex2char num =
     (if num \<ge> 0 \<and> num \<le> 9 then word_of_int (num + 48)
      else if num > 9 \<and> num \<le> 15 then word_of_int (num - 10 + 65)
      else 0)"

definition hex2String :: "bytes \<Rightarrow> bytes" where
  "hex2String hex = concat (map (\<lambda>b. [hex2char (uint (drop_bit 4 (b AND 0xf0))), hex2char (uint (b AND 0x0f))]) hex)"

section \<open>What a port holds\<close>

text \<open>
  The account of a port: the descriptors it holds, whether its device thread runs and whether
  its socket thread runs. The ledger enters the events in their order, and refuses to close a
  descriptor that is not held or that a thread of the port may still use, to start a thread
  twice, and to join one that does not run.
\<close>

type_synonym account = "int multiset \<times> bool \<times> bool"
type_synonym ledger = "nat \<Rightarrow> account"

definition no_account :: account where
  "no_account = ({#}, False, False)"

fun enter :: "scom_event \<Rightarrow> ledger \<Rightarrow> ledger option" where
  "enter (Opened p fd) b = (case b p of (m, u, s) \<Rightarrow> Some (b(p := (add_mset fd m, u, s))))"
| "enter (Closed p fd) b = (case b p of (m, u, s) \<Rightarrow>
     if fd \<in># m \<and> \<not> u \<and> \<not> s then Some (b(p := (m - {#fd#}, u, s))) else None)"
| "enter (Started_uart p) b = (case b p of (m, u, s) \<Rightarrow> if u then None else Some (b(p := (m, True, s))))"
| "enter (Joined_uart p) b = (case b p of (m, u, s) \<Rightarrow> if u then Some (b(p := (m, False, s))) else None)"
| "enter (Started_socket p) b = (case b p of (m, u, s) \<Rightarrow> if s then None else Some (b(p := (m, u, True))))"
| "enter (Joined_socket p) b = (case b p of (m, u, s) \<Rightarrow> if s then Some (b(p := (m, u, False))) else None)"
| "enter _ b = Some b"

definition entered :: "scom_event list \<Rightarrow> ledger option" where
  "entered es = fold (\<lambda>e b. Option.bind b (enter e)) es (Some (\<lambda>_. no_account))"

text \<open>What the fields of the ports say.\<close>

definition opened_fd :: "int \<Rightarrow> int multiset" where
  "opened_fd fd = (if fd \<ge> 0 then {#fd#} else {#})"

definition fds_held :: "port \<Rightarrow> int multiset" where
  "fds_held s = opened_fd (dev_fd s) + (opened_fd (fst (uart_fd s)) + (opened_fd (snd (uart_fd s)) +
     (opened_fd (fst (wake_fd s)) + (opened_fd (snd (wake_fd s)) + opened_fd (epoll_fd s)))))"

definition account :: "port \<Rightarrow> account" where
  "account s = (fds_held s, thread_uart_started s, thread_socket_started s)"

definition accounts :: "transport \<Rightarrow> ledger" where
  "accounts t = (\<lambda>p. if p < length (ports t) then account (ports t ! p) else no_account)"

definition balanced :: "transport \<Rightarrow> bool" where
  "balanced t \<longleftrightarrow> entered (events t) = Some (accounts t)"

subsection \<open>Entries and fields\<close>

lemma entered_Nil [simp]: "entered [] = Some (\<lambda>_. no_account)"
  by (simp add: entered_def)

lemma entered_snoc [simp]: "entered (es @ [e]) = Option.bind (entered es) (enter e)"
  by (simp add: entered_def)

lemma events_note [simp]: "events (note_event e t) = events t @ [e]" "ports (note_event e t) = ports t"
  by (simp_all add: note_event_def)

lemma events_set_port [simp]: "events (set_port p f t) = events t"
  by (simp add: set_port_def)

lemma ports_set_port [simp]:
  "length (ports (set_port p f t)) = length (ports t)"
  "p < length (ports t) \<Longrightarrow> ports (set_port p f t) ! p = f (ports t ! p)"
  "q \<noteq> p \<Longrightarrow> ports (set_port p f t) ! q = ports t ! q"
  by (simp_all add: set_port_def)

lemma accounts_note [simp]: "accounts (note_event e t) = accounts t"
  by (simp add: accounts_def fun_eq_iff)

lemma accounts_set_port:
  "p < length (ports t) \<Longrightarrow> accounts (set_port p f t) = (accounts t)(p := account (f (ports t ! p)))"
  by (auto simp: accounts_def fun_eq_iff set_port_def nth_list_update)

lemma accounts_at: "p < length (ports t) \<Longrightarrow> accounts t p = account (ports t ! p)"
  by (simp add: accounts_def)

lemma accounts_same:
  assumes "p < length (ports t)" "account (f (ports t ! p)) = account (ports t ! p)"
  shows "accounts (set_port p f t) = accounts t"
  using assms by (simp add: accounts_set_port) (simp add: accounts_def fun_eq_iff)

lemma balanced_set_port:
  assumes "balanced t" "p < length (ports t)" "account (f (ports t ! p)) = account (ports t ! p)"
  shows "balanced (set_port p f t)"
  using assms by (simp add: balanced_def accounts_same)

text \<open>An event on a port goes with the change of the field it is about.\<close>

lemma balanced_note:
  assumes "balanced t" "p < length (ports t)"
    "enter e (accounts t) = Some ((accounts t)(p := account (f (ports t ! p))))"
  shows "balanced (note_event e (set_port p f t))" "balanced (set_port p f (note_event e t))"
  using assms by (simp_all add: balanced_def accounts_set_port)

lemma balanced_quiet:
  assumes "balanced t" "enter e (accounts t) = Some (accounts t)"
  shows "balanced (note_event e t)"
  using assms by (simp add: balanced_def)

lemma balanced_wake_port: "balanced t \<Longrightarrow> balanced (wake_port p t)"
  by (simp add: wake_port_def balanced_quiet)

lemma ports_wake_port [simp]: "ports (wake_port p t) = ports t"
  by (simp add: wake_port_def)

lemma balanced_stop_port:
  assumes "balanced t" "p < length (ports t)"
  shows "balanced (stop_port p t)"
proof -
  let ?u = "set_port p (\<lambda>s. s\<lparr>thread_running := False\<rparr>) (set_port p (\<lambda>s. s\<lparr>driver_state := False\<rparr>) t)"
  have "balanced ?u"
    using assms by (intro balanced_set_port) (simp_all add: account_def fds_held_def)
  then have "balanced (wake_port p ?u)" by (rule balanced_wake_port)
  then show ?thesis by (simp add: stop_port_def Let_def balanced_quiet)
qed

lemma ports_stop_port:
  assumes "p < length (ports t)"
  shows "ports (stop_port p t) ! p = (ports t ! p)\<lparr>driver_state := False, thread_running := False\<rparr>"
    "q \<noteq> p \<Longrightarrow> ports (stop_port p t) ! q = ports t ! q"
    "length (ports (stop_port p t)) = length (ports t)"
  using assms by (simp_all add: stop_port_def Let_def)

lemma accounts_stop_port:
  assumes "p < length (ports t)"
  shows "accounts (stop_port p t) = accounts t"
proof
  fix q
  show "accounts (stop_port p t) q = accounts t q"
    using assms by (cases "q = p") (simp_all add: accounts_def ports_stop_port account_def fds_held_def)
qed

subsection \<open>Closing\<close>

text \<open>
  A descriptor field: closing it enters the descriptor and forgets it.
\<close>

definition fd_field :: "(port \<Rightarrow> int) \<Rightarrow> (port \<Rightarrow> port) \<Rightarrow> bool" where
  "fd_field get forget \<longleftrightarrow> (\<forall>s. fds_held s = opened_fd (get s) + fds_held (forget s) \<and>
     thread_uart_started (forget s) = thread_uart_started s \<and>
     thread_socket_started (forget s) = thread_socket_started s)"

lemma fd_fieldD:
  assumes "fd_field get forget"
  shows "opened_fd (get s) + fds_held (forget s) = fds_held s"
    "thread_uart_started (forget s) = thread_uart_started s"
    "thread_socket_started (forget s) = thread_socket_started s"
  using assms unfolding fd_field_def by metis+

lemma fd_fields:
  "fd_field dev_fd (\<lambda>s. s\<lparr>dev_fd := -1\<rparr>)"
  "fd_field epoll_fd (\<lambda>s. s\<lparr>epoll_fd := -1\<rparr>)"
  "fd_field (\<lambda>s. fst (uart_fd s)) (\<lambda>s. s\<lparr>uart_fd := (-1, snd (uart_fd s))\<rparr>)"
  "fd_field (\<lambda>s. snd (uart_fd s)) (\<lambda>s. s\<lparr>uart_fd := (fst (uart_fd s), -1)\<rparr>)"
  "fd_field (\<lambda>s. fst (wake_fd s)) (\<lambda>s. s\<lparr>wake_fd := (-1, snd (wake_fd s))\<rparr>)"
  "fd_field (\<lambda>s. snd (wake_fd s)) (\<lambda>s. s\<lparr>wake_fd := (fst (wake_fd s), -1)\<rparr>)"
  by (simp_all add: fd_field_def fds_held_def opened_fd_def)

text \<open>The ports but one are as before, and that one has no thread.\<close>

definition threadless :: "nat \<Rightarrow> transport \<Rightarrow> bool" where
  "threadless p t \<longleftrightarrow> p < length (ports t) \<and> balanced t \<and>
     \<not> thread_uart_started (ports t ! p) \<and> \<not> thread_socket_started (ports t ! p)"

lemma ports_close_owned_fd:
  "ports (close_owned_fd get forget p t) = (ports t)[p := forget (ports t ! p)]"
  by (simp add: close_owned_fd_def Let_def set_port_def)

lemma threadless_close_owned_fd:
  assumes t: "threadless p t" and f: "fd_field get forget"
  shows "threadless p (close_owned_fd get forget p t)"
proof -
  let ?s = "ports t ! p"
  from t have p: "p < length (ports t)" "balanced t" "\<not> thread_uart_started ?s" "\<not> thread_socket_started ?s"
    by (simp_all add: threadless_def)
  have h: "fds_held ?s = opened_fd (get ?s) + fds_held (forget ?s)"
    "\<not> thread_uart_started (forget ?s)" "\<not> thread_socket_started (forget ?s)"
    using p(3,4) by (simp_all add: fd_fieldD [OF f])
  have "balanced (close_owned_fd get forget p t)"
  proof (cases "get ?s \<ge> 0")
    case True
    have "balanced (note_event (Closed p (get ?s)) (set_port p forget t))"
      using True p h by (intro balanced_note) (simp_all add: accounts_at account_def opened_fd_def)
    with True show ?thesis by (simp add: close_owned_fd_def Let_def)
  next
    case False
    have "balanced (set_port p forget t)"
      using False p h by (intro balanced_set_port) (simp_all add: account_def opened_fd_def)
    with False show ?thesis by (simp add: close_owned_fd_def Let_def)
  qed
  then show ?thesis
    using p h by (simp add: threadless_def ports_close_owned_fd)
qed

lemma threadless_socket_close:
  assumes "threadless p t"
  shows "threadless p (scomm_vendor_socket_close p t)"
    and "ports (scomm_vendor_socket_close p t) = (ports t)[p := (ports t ! p)
           \<lparr>epoll_fd := -1, uart_fd := (-1, -1), wake_fd := (-1, -1)\<rparr>]"
proof -
  note f = fd_fields
  note c = threadless_close_owned_fd
  show "threadless p (scomm_vendor_socket_close p t)"
    unfolding scomm_vendor_socket_close_def Let_def
    by (rule c [OF c [OF c [OF c [OF c [OF assms f(2)] f(3)] f(4)] f(5)] f(6)])
  show "ports (scomm_vendor_socket_close p t) = (ports t)[p := (ports t ! p)
           \<lparr>epoll_fd := -1, uart_fd := (-1, -1), wake_fd := (-1, -1)\<rparr>]"
    using assms by (simp add: scomm_vendor_socket_close_def Let_def ports_close_owned_fd threadless_def)
qed

lemma threadless_join_threads:
  assumes "p < length (ports t)" "balanced t"
  shows "threadless p (join_threads p t)"
    and "ports (join_threads p t) =
      (ports t)[p := (ports t ! p)\<lparr>thread_uart_started := False, thread_socket_started := False\<rparr>]"
proof -
  have u: "balanced (set_port p (\<lambda>s. s\<lparr>thread_uart_started := False\<rparr>) (note_event (Joined_uart p) t))"
    if "thread_uart_started (ports t ! p)" "balanced t" "p < length (ports t)" for t
    using that by (intro balanced_note) (simp_all add: accounts_at account_def fds_held_def)
  have s: "balanced (set_port p (\<lambda>s. s\<lparr>thread_socket_started := False\<rparr>) (note_event (Joined_socket p) t))"
    if "thread_socket_started (ports t ! p)" "balanced t" "p < length (ports t)" for t
    using that by (intro balanced_note) (simp_all add: accounts_at account_def fds_held_def)
  have b: "balanced (join_threads p t)"
    using assms u [of t] by (auto simp: join_threads_def Let_def intro!: s)
  show "ports (join_threads p t) =
      (ports t)[p := (ports t ! p)\<lparr>thread_uart_started := False, thread_socket_started := False\<rparr>]"
    using assms(1)
    by (auto simp: join_threads_def Let_def set_port_def intro!: nth_equalityI simp: nth_list_update)
  with b assms(1) show "threadless p (join_threads p t)"
    by (simp add: threadless_def)
qed

lemma accounts_update:
  "p < length (ports t) \<Longrightarrow> ports u = (ports t)[p := s] \<Longrightarrow> accounts u = (accounts t)(p := account s)"
  by (auto simp: accounts_def fun_eq_iff nth_list_update)

lemma port_close_balanced:
  assumes t: "p < length (ports t)" "balanced t"
  shows "balanced (scomm_vendor_port_close p t)"
    and "accounts (scomm_vendor_port_close p t) = (accounts t)(p := no_account)"
    and "length (ports (scomm_vendor_port_close p t)) = length (ports t)"
    and "\<exists>s. ports (scomm_vendor_port_close p t) = (ports t)[p := s] \<and> dev_fd s = -1 \<and> uart_fd s = (-1, -1) \<and>
      wake_fd s = (-1, -1) \<and> epoll_fd s = -1 \<and> \<not> thread_uart_started s \<and> \<not> thread_socket_started s"
proof -
  let ?a = "stop_port p t"
  let ?b = "if dev_fd (ports ?a ! p) \<ge> 0 then note_event (Ioctl_stop (dev_fd (ports ?a ! p))) ?a else ?a"
  let ?c = "join_threads p ?b"
  let ?d = "close_dev p ?c"
  let ?e = "scomm_vendor_socket_close p ?d"
  let ?f = "set_port p (\<lambda>s. s\<lparr>recv_comm_thread_running := False\<rparr>) ?e"
  have "balanced ?a" using t by (simp add: balanced_stop_port)
  then have b: "balanced ?b" "ports ?b = ports ?a" by (simp_all add: balanced_quiet)
  then have pb: "p < length (ports ?b)" using t by (simp add: ports_stop_port)
  note c = threadless_join_threads [OF pb b(1)]
  note d = threadless_close_owned_fd [OF c(1) fd_fields(1)]
  note e = threadless_socket_close [OF d]
  have f: "?f = scomm_vendor_port_close p t" by (simp add: scomm_vendor_port_close_def Let_def)
  have "balanced ?f"
    using e(1) by (intro balanced_set_port) (simp_all add: threadless_def account_def fds_held_def)
  then show "balanced (scomm_vendor_port_close p t)" by (simp only: f)
  have ports: "ports ?f = (ports ?a)[p := (ports ?a ! p)
      \<lparr>thread_uart_started := False, thread_socket_started := False, dev_fd := -1, epoll_fd := -1,
       uart_fd := (-1, -1), wake_fd := (-1, -1), recv_comm_thread_running := False\<rparr>]"
    unfolding set_port_def using pb b(2) by (simp add: c(2) e(2) ports_close_owned_fd)
  have "accounts ?f = (accounts ?a)(p := no_account)"
    unfolding accounts_update [OF _ ports, simplified, OF pb [unfolded b(2)]]
    by (simp add: account_def fds_held_def opened_fd_def no_account_def)
  then show "accounts (scomm_vendor_port_close p t) = (accounts t)(p := no_account)"
    using t by (simp only: f accounts_stop_port)
  have "length (ports ?f) = length (ports ?a)" by (simp only: ports length_list_update)
  then show "length (ports (scomm_vendor_port_close p t)) = length (ports t)"
    by (simp only: f ports_stop_port(3) [OF t(1)])
  have "ports ?a = (ports t)[p := (ports t ! p)\<lparr>driver_state := False, thread_running := False\<rparr>]"
    using t(1) by (simp add: stop_port_def wake_port_def set_port_def Let_def)
  then have "ports ?f = (ports t)[p := (ports ?a ! p)
      \<lparr>thread_uart_started := False, thread_socket_started := False, dev_fd := -1, epoll_fd := -1,
       uart_fd := (-1, -1), wake_fd := (-1, -1), recv_comm_thread_running := False\<rparr>]" (is "_ = (ports t)[p := ?s]")
    using ports by (simp only: list_update_overwrite)
  then show "\<exists>s. ports (scomm_vendor_port_close p t) = (ports t)[p := s] \<and> dev_fd s = -1 \<and> uart_fd s = (-1, -1) \<and>
      wake_fd s = (-1, -1) \<and> epoll_fd s = -1 \<and> \<not> thread_uart_started s \<and> \<not> thread_socket_started s"
    by (intro exI [of _ ?s] conjI) (simp only: f, simp_all)
qed

lemma stop_ports_balanced:
  assumes "balanced t" "\<forall>p\<in>set ps. p < length (ports t)"
  shows "balanced (fold stop_port ps t) \<and> accounts (fold stop_port ps t) = accounts t \<and>
    length (ports (fold stop_port ps t)) = length (ports t)"
  using assms
proof (induction ps arbitrary: t)
  case (Cons p ps)
  then have "balanced (stop_port p t)" "\<forall>p\<in>set ps. p < length (ports (stop_port p t))"
    by (simp_all add: balanced_stop_port ports_stop_port)
  with Cons.IH [of "stop_port p t"] Cons.prems show ?case
    by (simp add: ports_stop_port accounts_stop_port)
qed simp

lemma close_ports_balanced:
  assumes "balanced t" "\<forall>p\<in>set ps. p < length (ports t)"
  shows "balanced (fold scomm_vendor_port_close ps t) \<and>
    accounts (fold scomm_vendor_port_close ps t) =
      (\<lambda>q. if q \<in> set ps then no_account else accounts t q)"
  using assms
proof (induction ps arbitrary: t)
  case (Cons p ps)
  from Cons.prems have p: "p < length (ports t)" "balanced t" by simp_all
  note c = port_close_balanced [OF p]
  from Cons.prems c(1,3) have "balanced (scomm_vendor_port_close p t)"
    "\<forall>q\<in>set ps. q < length (ports (scomm_vendor_port_close p t))"
    by simp_all
  from Cons.IH [OF this] show ?case by (auto simp: c(2) fun_eq_iff)
qed simp

lemma close_balanced:
  assumes "balanced t" "length (ports t) = BT_COM_PORT_SIZE"
  shows "balanced (snd (scomm_vendor_close c t))"
    and "accounts (snd (scomm_vendor_close c t)) = (\<lambda>_. no_account)"
proof -
  let ?u = "fold stop_port [0..<BT_COM_PORT_SIZE] t"
  let ?v = "fold scomm_vendor_port_close [0..<BT_COM_PORT_SIZE] ?u"
  have s: "balanced ?u \<and> accounts ?u = accounts t \<and> length (ports ?u) = length (ports t)"
    by (rule stop_ports_balanced) (use assms in auto)
  have "balanced ?v \<and> accounts ?v = (\<lambda>q. if q \<in> set [0..<4] then no_account else accounts ?u q)"
    by (rule close_ports_balanced) (use assms s in auto)
  then have v: "balanced ?v" "accounts ?v = (\<lambda>q. if q < 4 then no_account else accounts t q)"
    using s by (simp_all add: fun_eq_iff del: upt_rec_numeral)
  have "accounts ?v = (\<lambda>_. no_account)"
    using assms(2) unfolding v(2) by (simp add: accounts_def fun_eq_iff)
  with v(1) show "balanced (snd (scomm_vendor_close c t))"
    "accounts (snd (scomm_vendor_close c t)) = (\<lambda>_. no_account)"
    by (simp_all add: scomm_vendor_close_def Let_def balanced_quiet del: upt_rec_numeral)
qed

subsection \<open>Opening\<close>

text \<open>Something of port \<open>p\<close> may have been opened since \<open>t\<close>, but not its device.\<close>

definition partly_open :: "nat \<Rightarrow> transport \<Rightarrow> transport \<Rightarrow> bool" where
  "partly_open p t u \<longleftrightarrow> p < length (ports u) \<and> balanced u \<and> (\<exists>s. ports u = (ports t)[p := s] \<and>
     dev_fd s = dev_fd (ports t ! p))"

lemma partly_open_refl: "p < length (ports t) \<Longrightarrow> balanced t \<Longrightarrow> partly_open p t t"
  unfolding partly_open_def by (auto intro!: exI [of _ "ports t ! p"])

lemma partly_open_ports:
  assumes "partly_open p t u" "balanced v" "ports v = ports (set_port p f u)"
    "dev_fd (f (ports u ! p)) = dev_fd (ports u ! p)"
  shows "partly_open p t v"
  using assms by (auto simp: partly_open_def set_port_def)

lemma partly_open_set:
  assumes "partly_open p t u" "dev_fd (f (ports u ! p)) = dev_fd (ports u ! p)"
    "account (f (ports u ! p)) = account (ports u ! p)"
  shows "partly_open p t (set_port p f u)"
  by (rule partly_open_ports [of p t u _ f, OF assms(1) _ _ assms(2)])
     (use assms in \<open>simp_all add: partly_open_def balanced_set_port\<close>)

lemma partly_open_note:
  assumes "partly_open p t u" "dev_fd (f (ports u ! p)) = dev_fd (ports u ! p)"
    "enter e (accounts u) = Some ((accounts u)(p := account (f (ports u ! p))))"
  shows "partly_open p t (note_event e (set_port p f u))"
  by (rule partly_open_ports [of p t u _ f, OF assms(1) _ _ assms(2)])
     (use assms in \<open>simp_all add: partly_open_def balanced_note\<close>)

lemma balanced_open_fd:
  assumes "balanced t" "p < length (ports t)"
    "account (f (ports t ! p)) = (opened_fd fd + fds_held (ports t ! p),
       thread_uart_started (ports t ! p), thread_socket_started (ports t ! p))"
  shows "balanced (open_fd p fd (set_port p f t))"
proof (cases "fd \<ge> 0")
  case True
  have "balanced (note_event (Opened p fd) (set_port p f t))"
    using True assms by (intro balanced_note) (simp_all add: accounts_at account_def opened_fd_def)
  with True show ?thesis by (simp add: open_fd_def)
next
  case False
  have "balanced (set_port p f t)"
    using False assms by (intro balanced_set_port) (simp_all add: account_def opened_fd_def)
  with False show ?thesis by (simp add: open_fd_def)
qed

lemma ports_open_fd [simp]: "ports (open_fd p fd t) = ports t"
  by (simp add: open_fd_def)

lemma partly_open_open_fd:
  assumes "partly_open p t u" "dev_fd (f (ports u ! p)) = dev_fd (ports u ! p)"
    "account (f (ports u ! p)) = (opened_fd fd + fds_held (ports u ! p),
       thread_uart_started (ports u ! p), thread_socket_started (ports u ! p))"
  shows "partly_open p t (open_fd p fd (set_port p f u))"
  by (rule partly_open_ports [of p t u _ f, OF assms(1) _ _ assms(2)])
     (use assms in \<open>simp_all add: partly_open_def balanced_open_fd\<close>)

text \<open>A pair of sockets is stored before the two are entered.\<close>

lemma set_port_open_fd: "set_port p f (open_fd p fd t) = open_fd p fd (set_port p f t)"
  by (simp add: set_port_def open_fd_def note_event_def)

lemma set_port_twice:
  "p < length (ports t) \<Longrightarrow> set_port p g (set_port p f t) = set_port p (\<lambda>s. g (f s)) t"
  by (simp add: set_port_def)

lemma partly_open_pair:
  assumes o: "partly_open p t u" and f: "f = (\<lambda>s. g (h s))"
    and h: "dev_fd (h (ports u ! p)) = dev_fd (ports u ! p)"
      "account (h (ports u ! p)) = (opened_fd a + fds_held (ports u ! p),
         thread_uart_started (ports u ! p), thread_socket_started (ports u ! p))"
    and g: "dev_fd (g (h (ports u ! p))) = dev_fd (ports u ! p)"
      "account (g (h (ports u ! p))) = (opened_fd b + fds_held (h (ports u ! p)),
         thread_uart_started (ports u ! p), thread_socket_started (ports u ! p))"
  shows "partly_open p t (open_fd p b (open_fd p a (set_port p f u)))"
proof -
  have p: "p < length (ports u)" using o by (simp add: partly_open_def)
  have e: "open_fd p a (set_port p f u) = set_port p g (open_fd p a (set_port p h u))"
    using p by (simp add: set_port_open_fd set_port_twice f)
  show ?thesis
    unfolding e
    by (rule partly_open_open_fd [where f = g, OF partly_open_open_fd [where f = h, OF o h]])
       (use p h g in \<open>simp_all add: account_def\<close>)
qed

lemma socket_open_fail_balanced:
  assumes u: "partly_open p t u"
    and s: "p < length (ports t)" "account (ports t ! p) = (opened_fd (dev_fd (ports t ! p)), False, False)"
  shows "balanced (snd (socket_open_fail p u)) \<and> accounts (snd (socket_open_fail p u)) = accounts t"
proof -
  let ?a = "stop_port p u"
  let ?b = "join_threads p ?a"
  let ?c = "scomm_vendor_socket_close p ?b"
  from u obtain s where us: "p < length (ports u)" "balanced u" "ports u = (ports t)[p := s]"
    "dev_fd s = dev_fd (ports t ! p)"
    by (auto simp: partly_open_def)
  then have a: "p < length (ports ?a)" "balanced ?a"
    by (simp_all add: balanced_stop_port ports_stop_port)
  note b = threadless_join_threads [OF a]
  note c = threadless_socket_close [OF b(1)]
  have ps: "ports ?c = (ports ?a)[p := (ports ?a ! p)\<lparr>thread_uart_started := False,
      thread_socket_started := False, epoll_fd := -1, uart_fd := (-1, -1), wake_fd := (-1, -1)\<rparr>]"
    using a by (simp add: c(2) b(2))
  have dev: "dev_fd (ports ?a ! p) = dev_fd (ports t ! p)"
    using us assms(2) by (simp add: ports_stop_port)
  have au: "accounts u = (accounts t)(p := account s)"
    by (rule accounts_update [OF assms(2) us(3)])
  have "accounts ?c = (accounts ?a)(p := (opened_fd (dev_fd (ports ?a ! p)), False, False))"
    unfolding accounts_update [OF a(1) ps] by (simp add: account_def fds_held_def opened_fd_def)
  also have "\<dots> = (accounts t)(p := account (ports t ! p))"
    unfolding accounts_stop_port [OF us(1)] dev au assms(3) by simp
  also have "\<dots> = accounts t" using assms(2) by (auto simp: accounts_at)
  finally have "accounts ?c = accounts t" .
  moreover have "balanced ?c" using c(1) by (simp add: threadless_def)
  ultimately show ?thesis by (simp add: socket_open_fail_def)
qed

text \<open>A port without sockets and threads.\<close>

definition socketless :: "port \<Rightarrow> bool" where
  "socketless s \<longleftrightarrow> uart_fd s = (-1, -1) \<and> wake_fd s = (-1, -1) \<and> epoll_fd s = -1 \<and>
     \<not> thread_uart_started s \<and> \<not> thread_socket_started s"

lemma socketless_account: "socketless s \<Longrightarrow> account s = (opened_fd (dev_fd s), False, False)"
  by (simp add: socketless_def account_def fds_held_def opened_fd_def)

text \<open>\<open>opens t r\<close>: the books of the result balance, and a failure leaves what \<open>t\<close> had.\<close>

definition opens :: "transport \<Rightarrow> int \<times> transport \<Rightarrow> bool" where
  "opens t r \<longleftrightarrow> balanced (snd r) \<and> (fst r = -1 \<longrightarrow> accounts (snd r) = accounts t)"

lemma opens_fail:
  assumes "partly_open p t u" "p < length (ports t)" "socketless (ports t ! p)"
  shows "opens t (socket_open_fail p u)"
  using socket_open_fail_balanced [OF assms(1,2) socketless_account [OF assms(3)]] by (simp add: opens_def)

lemma start_threads_unfold:
  assumes "v = (if p = 0 then note_event (Started_socket p)
    (set_port p (\<lambda>s. s\<lparr>thread_socket_started := True\<rparr>) u) else u)"
  shows "start_threads io p u =
    (if p = 0 \<and> (o_epoll_add io 0 = -1 \<or> o_epoll_add io 1 = -1 \<or> o_thread_socket io \<noteq> 0) then socket_open_fail p u
     else if o_thread_uart io \<noteq> 0 then socket_open_fail p v
     else let t = note_event (Started_uart p) (set_port p (\<lambda>s. s\<lparr>thread_uart_started := True\<rparr>) v);
              (up, started) = o_looks io (Suc (wait_started (o_looks io) 5000 0)) in
       if \<not> started then socket_open_fail p t
       else (fst (uart_fd (ports t ! p)),
             set_port p (\<lambda>s. s\<lparr>driver_state := True, recv_comm_thread_running := True, thread_running := up\<rparr>) t))"
  unfolding start_threads_def assms Let_def ..

lemma start_threads_balanced:
  assumes u: "partly_open p t u" "\<not> thread_uart_started (ports u ! p)" "\<not> thread_socket_started (ports u ! p)"
    and fd: "fst (uart_fd (ports u ! p)) \<noteq> -1"
    and p: "p < length (ports t)" "socketless (ports t ! p)"
  shows "opens t (start_threads io p u)"
proof -
  let ?n = "note_event (Started_socket p) (set_port p (\<lambda>s. s\<lparr>thread_socket_started := True\<rparr>) u)"
  define v where "v = (if p = 0 then ?n else u)"
  let ?b = "note_event (Started_uart p) (set_port p (\<lambda>s. s\<lparr>thread_uart_started := True\<rparr>) v)"
  let ?f = "\<lambda>up s. s\<lparr>driver_state := True, recv_comm_thread_running := True, thread_running := up\<rparr>"
  have l: "p < length (ports u)" using u(1) by (simp add: partly_open_def)
  have n: "partly_open p t ?n"
    by (rule partly_open_note [OF u(1)]) (use u l in \<open>simp_all add: accounts_at account_def fds_held_def\<close>)
  have "v = ?n \<or> v = u" by (cases "p = 0") (simp_all add: v_def)
  then have v: "partly_open p t v" "\<not> thread_uart_started (ports v ! p)"
    "uart_fd (ports v ! p) = uart_fd (ports u ! p)"
    using n u l by auto
  then have lv: "p < length (ports v)" by (simp add: partly_open_def)
  have b: "partly_open p t ?b"
    by (rule partly_open_note [OF v(1)]) (use v lv in \<open>simp_all add: accounts_at account_def fds_held_def\<close>)
  have c: "partly_open p t (set_port p (?f up) ?b)" for up
    by (rule partly_open_set [OF b]) (simp_all add: account_def fds_held_def)
  have r: "fst (uart_fd (ports ?b ! p)) \<noteq> -1" using fd lv v(3) by simp
  have w: "opens t (fst (uart_fd (ports ?b ! p)), set_port p (?f up) ?b)" for up
    using c [of up] r unfolding opens_def partly_open_def fst_conv snd_conv by blast
  show ?thesis
    unfolding start_threads_unfold [OF v_def] Let_def split_beta
    using w opens_fail [OF u(1) p] opens_fail [OF v(1) p] opens_fail [OF b p]
    by (simp only: split: if_split) blast
qed

lemma accounts_same_ports: "ports u = ports t \<Longrightarrow> accounts u = accounts t"
  unfolding accounts_def by (simp only:)

lemma partly_open_same:
  assumes "partly_open p t u" "ports v = ports u" "events v = events u"
  shows "partly_open p t v"
  using assms accounts_same_ports [OF assms(2)] by (simp add: partly_open_def balanced_def)

lemma socket_open_balanced:
  assumes p: "p < length (ports t)" "balanced t" "socketless (ports t ! p)"
    and fd: "\<And>a b. o_uart io = Some (a, b) \<Longrightarrow> a \<noteq> -1"
  shows "opens t (scomm_vendor_socket_open io p t)"
proof (cases "o_uart io")
  case (Some uart)
  note p3 = p(3) [unfolded socketless_def]
  let ?a = "open_fd p (snd uart) (open_fd p (fst uart) (set_port p (\<lambda>s. s\<lparr>uart_fd := uart\<rparr>) t))"
  have a: "partly_open p t ?a"
    by (rule partly_open_pair [where g = "\<lambda>s. s\<lparr>uart_fd := uart\<rparr>" and h = "\<lambda>s. s\<lparr>uart_fd := (fst uart, -1)\<rparr>"])
       (use p p3 in \<open>simp_all add: partly_open_refl account_def fds_held_def opened_fd_def\<close>)
  have fail: "opens t (socket_open_fail p u)" if "partly_open p t u" for u
    using that p(1,3) by (rule opens_fail)
  show ?thesis
  proof (cases "o_wake io")
    case None
    show ?thesis unfolding scomm_vendor_socket_open_def Let_def Some None option.case by (rule fail [OF a])
  next
    case wake: (Some wake)
    let ?b = "open_fd p (snd wake) (open_fd p (fst wake) (set_port p (\<lambda>s. s\<lparr>wake_fd := wake\<rparr>) ?a))"
    let ?c = "open_fd p (o_epoll io) (set_port p (\<lambda>s. s\<lparr>epoll_fd := o_epoll io\<rparr>) ?b)"
    let ?d = "set_port p (\<lambda>s. s\<lparr>thread_running := True, recv_comm_thread_running := False,
                 driver_state := False, thread_socket_started := False, thread_uart_started := False\<rparr>) ?c"
    let ?e = "if p = 0 then ?d\<lparr>host_stream := []\<rparr> else ?d"
    have b: "partly_open p t ?b"
      by (rule partly_open_pair [where g = "\<lambda>s. s\<lparr>wake_fd := wake\<rparr>" and h = "\<lambda>s. s\<lparr>wake_fd := (fst wake, -1)\<rparr>", OF a])
         (use p p3 in \<open>simp_all add: account_def fds_held_def opened_fd_def\<close>)
    have c: "partly_open p t ?c"
      by (rule partly_open_open_fd [OF b])
         (use p p3 in \<open>simp_all add: account_def fds_held_def opened_fd_def\<close>)
    have d: "partly_open p t ?d"
      by (rule partly_open_set [OF c]) (use p p3 in \<open>simp_all add: account_def fds_held_def\<close>)
    have e: "partly_open p t ?e"
      by (rule partly_open_same [OF d]) (cases "p = 0"; simp)+
    have pe: "ports ?e = ports ?d" by (cases "p = 0"; simp)
    have "opens t (start_threads io p ?e)"
      by (rule start_threads_balanced [OF e _ _ _ p(1,3)], unfold pe) (use p fd [of "fst uart" "snd uart"] Some in simp_all)
    note every = this fail [OF b] fail [OF c] fail [OF d]
    show ?thesis
      unfolding scomm_vendor_socket_open_def Let_def Some wake option.case
      using every by (simp only: split: if_split) blast
  qed
qed (use p in \<open>simp add: scomm_vendor_socket_open_def opens_def\<close>)

lemma usbsdio_open_balanced:
  assumes p: "p < length (ports t)" "balanced t" "dev_fd (ports t ! p) = -1"
    and s: "\<not> thread_uart_started (ports t ! p)" "\<not> thread_socket_started (ports t ! p)"
  shows "opens t (scomm_vendor_usbsdio_open fd io p t)"
proof -
  let ?u = "open_fd p fd (set_port p (\<lambda>s. s\<lparr>dev_fd := fd\<rparr>) t)"
  have u: "balanced ?u"
    by (rule balanced_open_fd) (use p in \<open>simp_all add: account_def fds_held_def opened_fd_def\<close>)
  then have t: "threadless p ?u" using p s by (simp add: threadless_def)
  note c = threadless_close_owned_fd [OF t fd_fields(1)]
  have same: "(ports t ! p)\<lparr>dev_fd := -1\<rparr> = ports t ! p"
    using p(3) by (cases "ports t ! p") simp
  then have cl: "ports (close_dev p ?u) = ports t" and no: "fd = -1 \<Longrightarrow> ports ?u = ports t"
    using p(1) by (simp_all add: ports_close_owned_fd set_port_def)
  have "balanced (close_dev p ?u)" using c by (simp only: threadless_def)
  then have "opens t (-1, close_dev p ?u)"
    unfolding opens_def snd_conv using accounts_same_ports [OF cl] by blast
  moreover have "opens t (-1, ?u)" if "fd = -1"
    unfolding opens_def snd_conv using u accounts_same_ports [OF no [OF that]] by blast
  moreover have "opens t (fd, ?u)" if "fd \<noteq> -1"
    unfolding opens_def snd_conv fst_conv using u that by blast
  ultimately show ?thesis
    unfolding scomm_vendor_usbsdio_open_def Let_def by (simp only: split: if_split) blast
qed

lemma uart_settings_H4:
  "uart_settings userial_H4_cfg initial =
     Some (initial\<lparr>c_cflag := (cfmakeraw (c_cflag initial) OR CRTSCTS) AND NOT CSIZE OR CS8,
       ospeed := 0x100d, ispeed := 0x100d\<rparr>)"
  by (simp add: uart_settings_def userial_H4_cfg_def scomm_vendor_tcio_baud_def Let_def)

lemma uart_open_balanced:
  assumes p: "p < length (ports t)" "balanced t" "dev_fd (ports t ! p) = -1"
    and s: "\<not> thread_uart_started (ports t ! p)" "\<not> thread_socket_started (ports t ! p)"
  shows "case scomm_vendor_uart_open fd io initial p t of ((r, _), u) \<Rightarrow> opens t (r, u)"
proof -
  have "(ports t ! p)\<lparr>dev_fd := -1\<rparr> = ports t ! p" using p(3) by (cases "ports t ! p") simp
  then have t: "set_port p (\<lambda>s. s\<lparr>dev_fd := -1\<rparr>) t = t" by (simp add: set_port_def)
  have "case scomm_vendor_uart_open fd io initial p t of ((r, _), u) \<Rightarrow>
      scomm_vendor_usbsdio_open fd io p t = (r, u)"
    unfolding scomm_vendor_uart_open_def scomm_vendor_usbsdio_open_def t uart_settings_H4 by (simp add: Let_def)
  then show ?thesis using usbsdio_open_balanced [OF assms, of fd io] by (auto split: prod.splits)
qed

lemma init_balanced: "events t = [] \<Longrightarrow> balanced (scomm_vendor_init t)"
  by (auto simp: balanced_def scomm_vendor_init_def accounts_def account_def fds_held_def opened_fd_def
      idle_port_def no_account_def fun_eq_iff)

text \<open>When every call succeeds, the host gets its end of the socket pair.\<close>

lemma start_threads_result:
  assumes "\<forall>i. o_epoll_add io i \<noteq> -1" "o_thread_socket io = 0" "o_thread_uart io = 0"
    and "\<forall>n. snd (o_looks io n)" "p < length (ports u)"
  shows "fst (start_threads io p u) = fst (uart_fd (ports u ! p))"
proof -
  define v where "v = (if p = 0 then note_event (Started_socket p)
    (set_port p (\<lambda>s. s\<lparr>thread_socket_started := True\<rparr>) u) else u)"
  have "v = note_event (Started_socket p) (set_port p (\<lambda>s. s\<lparr>thread_socket_started := True\<rparr>) u) \<or> v = u"
    by (cases "p = 0") (simp_all add: v_def)
  then have "uart_fd (ports v ! p) = uart_fd (ports u ! p)" "p < length (ports v)"
    using assms(5) by auto
  then show ?thesis
    unfolding start_threads_unfold [OF v_def] using assms(1-4) by (simp add: Let_def split_beta)
qed

lemma socket_open_result:
  assumes "o_uart io = Some uart" "o_wake io = Some wake"
    and "\<forall>i. set_nonblocking_cloexec (o_fcntl io i) \<noteq> None" "o_epoll io \<noteq> -1" "o_attr_init io = 0" "o_attr_detach io = 0"
    and "\<forall>i. o_epoll_add io i \<noteq> -1" "o_thread_socket io = 0" "o_thread_uart io = 0"
    and "\<forall>n. snd (o_looks io n)" "p < length (ports t)"
  shows "fst (scomm_vendor_socket_open io p t) = fst uart"
proof -
  let ?d = "set_port p (\<lambda>s. s\<lparr>thread_running := True, recv_comm_thread_running := False,
                 driver_state := False, thread_socket_started := False, thread_uart_started := False\<rparr>)
      (open_fd p (o_epoll io) (set_port p (\<lambda>s. s\<lparr>epoll_fd := o_epoll io\<rparr>)
        (open_fd p (snd wake) (open_fd p (fst wake) (set_port p (\<lambda>s. s\<lparr>wake_fd := wake\<rparr>)
          (open_fd p (snd uart) (open_fd p (fst uart) (set_port p (\<lambda>s. s\<lparr>uart_fd := uart\<rparr>) t))))))))"
  let ?e = "if p = 0 then ?d\<lparr>host_stream := []\<rparr> else ?d"
  have pe: "ports ?e = ports ?d" by (cases "p = 0"; simp)
  have "fst (start_threads io p ?e) = fst (uart_fd (ports ?e ! p))"
    by (rule start_threads_result) (use assms in \<open>simp_all add: pe\<close>)
  also have "\<dots> = fst uart" unfolding pe using assms(11) by simp
  finally have "fst (start_threads io p ?e) = fst uart" .
  moreover have "(\<exists>i\<in>{0..<4}. set_nonblocking_cloexec (o_fcntl io i) = None) = False"
    using assms(3) by blast
  ultimately show ?thesis
    unfolding scomm_vendor_socket_open_def Let_def assms(1,2) option.case
    using assms(4-6) by (simp only: if_False simp_thms)
qed

subsection \<open>One port at a time\<close>

definition only :: "nat \<Rightarrow> transport \<Rightarrow> transport \<Rightarrow> bool" where
  "only p t u \<longleftrightarrow> length (ports u) = length (ports t) \<and> (\<forall>q. q \<noteq> p \<longrightarrow> ports u ! q = ports t ! q)"

lemma only_refl: "only p t t"
  by (simp add: only_def)

lemma only_set_port: "only p t u \<Longrightarrow> only p t (set_port p f u)"
  by (simp add: only_def)

lemma only_ports: "only p t u \<Longrightarrow> ports v = ports u \<Longrightarrow> only p t v"
  by (simp add: only_def)

lemma only_note: "only p t u \<Longrightarrow> only p t (note_event e u)"
  by (simp add: only_def)

lemma only_open_fd: "only p t u \<Longrightarrow> only p t (open_fd p fd u)"
  by (simp add: only_def)

lemma only_close_owned_fd: "only p t u \<Longrightarrow> only p t (close_owned_fd get forget p u)"
  by (simp add: only_def ports_close_owned_fd)

lemma only_stop_port: "only p t u \<Longrightarrow> only p t (stop_port p u)"
  by (simp add: stop_port_def Let_def wake_port_def only_set_port only_note)

lemma only_join_threads: "only p t u \<Longrightarrow> only p t (join_threads p u)"
  by (simp add: join_threads_def Let_def only_set_port only_note)

lemma only_socket_close: "only p t u \<Longrightarrow> only p t (scomm_vendor_socket_close p u)"
  by (simp add: scomm_vendor_socket_close_def Let_def only_close_owned_fd)

lemmas only_intros = only_set_port only_note only_open_fd only_close_owned_fd only_stop_port
  only_join_threads only_socket_close

lemma only_fail: "only p t u \<Longrightarrow> only p t (snd (socket_open_fail p u))"
  by (simp add: socket_open_fail_def only_intros)

lemma only_start_threads:
  assumes "only p t u"
  shows "only p t (snd (start_threads io p u))"
proof -
  define v where "v = (if p = 0 then note_event (Started_socket p)
    (set_port p (\<lambda>s. s\<lparr>thread_socket_started := True\<rparr>) u) else u)"
  have "only p t (note_event (Started_socket p) (set_port p (\<lambda>s. s\<lparr>thread_socket_started := True\<rparr>) u))"
    using assms by (intro only_intros)
  with assms have v: "only p t v" by (cases "p = 0") (simp_all add: v_def)
  let ?b = "note_event (Started_uart p) (set_port p (\<lambda>s. s\<lparr>thread_uart_started := True\<rparr>) v)"
  have b: "only p t ?b" using v by (intro only_intros)
  have c: "only p t (set_port p f ?b)" for f using b by (rule only_set_port)
  show ?thesis
    unfolding start_threads_unfold [OF v_def] Let_def split_beta
    using only_fail [OF assms] only_fail [OF v] only_fail [OF b] c by (simp only: split: if_split) simp
qed

lemma only_socket_open: "only p t (snd (scomm_vendor_socket_open io p t))"
proof (cases "o_uart io")
  case (Some uart)
  let ?a = "open_fd p (snd uart) (open_fd p (fst uart) (set_port p (\<lambda>s. s\<lparr>uart_fd := uart\<rparr>) t))"
  have a: "only p t ?a" by (intro only_intros only_refl)
  show ?thesis
  proof (cases "o_wake io")
    case None
    with Some a show ?thesis by (simp add: scomm_vendor_socket_open_def Let_def only_fail)
  next
    case wake: (Some wake)
    let ?b = "open_fd p (snd wake) (open_fd p (fst wake) (set_port p (\<lambda>s. s\<lparr>wake_fd := wake\<rparr>) ?a))"
    let ?c = "open_fd p (o_epoll io) (set_port p (\<lambda>s. s\<lparr>epoll_fd := o_epoll io\<rparr>) ?b)"
    let ?d = "set_port p (\<lambda>s. s\<lparr>thread_running := True, recv_comm_thread_running := False,
                 driver_state := False, thread_socket_started := False, thread_uart_started := False\<rparr>) ?c"
    let ?e = "if p = 0 then ?d\<lparr>host_stream := []\<rparr> else ?d"
    have b: "only p t ?b" by (intro only_intros only_refl)
    have c: "only p t ?c" by (intro only_intros only_refl)
    have d: "only p t ?d" by (intro only_intros only_refl)
    have "ports ?e = ports ?d" by (cases "p = 0"; simp)
    then have "only p t (snd (start_threads io p ?e))" by (rule only_start_threads [OF only_ports [OF d]])
    note every = this only_fail [OF b] only_fail [OF c] only_fail [OF d]
    show ?thesis
      unfolding scomm_vendor_socket_open_def Let_def Some wake option.case
      using every by (simp only: split: if_split) blast
  qed
qed (simp add: scomm_vendor_socket_open_def only_refl)

lemma only_usbsdio_open: "only p t (snd (scomm_vendor_usbsdio_open fd io p t))"
  by (simp add: scomm_vendor_usbsdio_open_def Let_def only_intros only_refl)

lemma only_uart_open: "only p t (snd (scomm_vendor_uart_open fd io initial p t))"
  by (simp add: scomm_vendor_uart_open_def Let_def only_intros only_refl split: option.split)

text \<open>A port with nothing open is what closing leaves, and what opening needs.\<close>

definition vacant :: "port \<Rightarrow> bool" where
  "vacant s \<longleftrightarrow> dev_fd s = -1 \<and> socketless s"

lemma idle_vacant: "vacant idle_port"
  by (simp add: vacant_def socketless_def idle_port_def)

lemma usbsdio_open_socketless:
  "p < length (ports t) \<Longrightarrow> socketless (ports t ! p) \<Longrightarrow>
   socketless (ports (snd (scomm_vendor_usbsdio_open fd io p t)) ! p)"
  by (auto simp: scomm_vendor_usbsdio_open_def Let_def socketless_def ports_close_owned_fd)

lemma uart_open_socketless:
  "p < length (ports t) \<Longrightarrow> socketless (ports t ! p) \<Longrightarrow>
   socketless (ports (snd (scomm_vendor_uart_open fd io initial p t)) ! p)"
  by (auto simp: scomm_vendor_uart_open_def Let_def socketless_def ports_close_owned_fd split: option.split)

lemma port_close_vacant:
  assumes "p < length (ports t)" "balanced t"
  shows "vacant (ports (scomm_vendor_port_close p t) ! p)" "only p t (scomm_vendor_port_close p t)"
  using assms port_close_balanced(4) [OF assms] by (auto simp: vacant_def socketless_def only_def)

lemma close_ports_vacant:
  assumes "balanced t" "\<forall>p\<in>set ps. p < length (ports t)"
  shows "(\<forall>p\<in>set ps. vacant (ports (fold scomm_vendor_port_close ps t) ! p)) \<and>
    (\<forall>q. q \<notin> set ps \<longrightarrow> ports (fold scomm_vendor_port_close ps t) ! q = ports t ! q) \<and>
    length (ports (fold scomm_vendor_port_close ps t)) = length (ports t)"
  using assms
proof (induction ps rule: rev_induct)
  case (snoc p ps)
  let ?u = "fold scomm_vendor_port_close ps t"
  have ps: "\<forall>p\<in>set ps. p < length (ports t)" using snoc.prems(2) by simp
  note ih = snoc.IH [OF snoc.prems(1) ps]
  have u: "balanced ?u" "p < length (ports ?u)"
    using close_ports_balanced [OF snoc.prems(1) ps] ih snoc.prems(2) by simp_all
  have "vacant (ports (scomm_vendor_port_close p ?u) ! p)" "only p ?u (scomm_vendor_port_close p ?u)"
    using port_close_vacant [OF u(2,1)] .
  with ih show ?case by (auto simp: only_def)
qed simp

lemma close_vacant:
  assumes "balanced t" "length (ports t) = BT_COM_PORT_SIZE"
  shows "\<forall>p<BT_COM_PORT_SIZE. vacant (ports (snd (scomm_vendor_close c t)) ! p)"
    and "length (ports (snd (scomm_vendor_close c t))) = BT_COM_PORT_SIZE"
proof -
  let ?u = "fold stop_port [0..<BT_COM_PORT_SIZE] t"
  let ?v = "fold scomm_vendor_port_close [0..<BT_COM_PORT_SIZE] ?u"
  have s: "balanced ?u \<and> accounts ?u = accounts t \<and> length (ports ?u) = length (ports t)"
    by (rule stop_ports_balanced) (use assms in auto)
  have "(\<forall>p\<in>set [0..<4]. vacant (ports ?v ! p)) \<and> (\<forall>q. q \<notin> set [0..<4] \<longrightarrow> ports ?v ! q = ports ?u ! q) \<and>
      length (ports ?v) = length (ports ?u)"
    by (rule close_ports_vacant) (use s assms in auto)
  then have "\<forall>p<4. vacant (ports ?v ! p)" "length (ports ?v) = 4"
    using s assms by (simp_all del: upt_rec_numeral)
  then show "\<forall>p<BT_COM_PORT_SIZE. vacant (ports (snd (scomm_vendor_close c t)) ! p)"
    "length (ports (snd (scomm_vendor_close c t))) = BT_COM_PORT_SIZE"
    by (simp_all add: scomm_vendor_close_def Let_def del: upt_rec_numeral)
qed

section \<open>Properties\<close>

text \<open>
  C15: No call loses a descriptor or a thread of a port. From the initial state on, what the
  ledger of the opened and closed descriptors and of the started and joined threads says is
  what the fields of the ports hold: opening a device, opening the sockets of a port and
  starting its threads, closing a port and closing all keep it so, whatever the system calls
  answer. A call that fails leaves the port with what it held before, and after closing, no
  descriptor is open and no thread runs. The ledger accepts the closing of a descriptor only
  once, and only when the threads of the port have been joined.
\<close>

theorem ports_never_leak:
  assumes t: "balanced t" "length (ports t) = BT_COM_PORT_SIZE" "p < BT_COM_PORT_SIZE"
    and sockets: "\<And>a b. o_uart oio = Some (a, b) \<Longrightarrow> a \<noteq> -1"
  shows "(dev_fd (ports t ! p) = -1 \<and> socketless (ports t ! p) \<longrightarrow>
      opens t (scomm_vendor_usbsdio_open fd io p t) \<and>
      (case scomm_vendor_uart_open fd io initial p t of ((r, _), u) \<Rightarrow> opens t (r, u))) \<and>
    (socketless (ports t ! p) \<longrightarrow> opens t (scomm_vendor_socket_open oio p t)) \<and>
    balanced (scomm_vendor_port_close p t) \<and>
    accounts (scomm_vendor_port_close p t) = (accounts t)(p := no_account) \<and>
    balanced (snd (scomm_vendor_close c t)) \<and>
    accounts (snd (scomm_vendor_close c t)) = (\<lambda>_. no_account) \<and>
    balanced (scomm_vendor_init (t\<lparr>events := []\<rparr>))"
  using t port_close_balanced [of p t] close_balanced [of t c] init_balanced [of "t\<lparr>events := []\<rparr>"]
    usbsdio_open_balanced [of p t fd io] uart_open_balanced [of p t fd io initial]
    socket_open_balanced [of p t oio] sockets
  by (simp add: socketless_def)

definition fresh_transport :: transport where
  "fresh_transport = scomm_vendor_init \<lparr>script = [], ports = [], host_stream = [], pkt_cnts = 0, sent = [],
     received = [], events = []\<rparr>"

definition sample_open_io :: open_io where
  "sample_open_io = \<lparr>o_uart = Some (10, 11), o_wake = None, o_fcntl = (\<lambda>_. \<lparr>getfl = 2, setfl = 0, getfd = 0, setfd = 0\<rparr>),
     o_epoll = 14, o_attr_init = 0, o_attr_detach = 0, o_epoll_add = (\<lambda>_. 0), o_thread_socket = 0,
     o_thread_uart = 11, o_looks = (\<lambda>_. (True, True))\<rparr>"

theorem ports_never_leak_witness:
  "opens fresh_transport (scomm_vendor_socket_open sample_open_io 0 fresh_transport) \<and>
   fst (scomm_vendor_socket_open sample_open_io 0 fresh_transport) = -1 \<and>
   events (snd (scomm_vendor_socket_open sample_open_io 0 fresh_transport)) =
     [Opened 0 10, Opened 0 11, Shut_down 11, Closed 0 10, Closed 0 11]"
proof -
  have "balanced fresh_transport" unfolding fresh_transport_def by (rule init_balanced) simp
  moreover have "length (ports fresh_transport) = 4" "socketless (ports fresh_transport ! 0)" by code_simp+
  ultimately have opens: "opens fresh_transport (scomm_vendor_socket_open sample_open_io 0 fresh_transport)"
    using ports_never_leak [of fresh_transport 0 sample_open_io] by (simp add: sample_open_io_def)
  show ?thesis by (rule conjI [OF opens]) code_simp
qed

text \<open>
  The terminal of the controller gets eight data bits, no parity, hardware flow control
  and three million baud both ways, whatever it was set to before. The number of stop bits is
  the one it was set to before: the configuration asks for one, and the flag that means two is
  never cleared.
\<close>

theorem uart_configured:
  "case uart_settings userial_H4_cfg initial of
     None \<Rightarrow> False
   | Some s \<Rightarrow> c_cflag s AND CSIZE = CS8 \<and> c_cflag s AND PARENB = 0 \<and>
       c_cflag s AND CRTSCTS = CRTSCTS \<and> ospeed s = 0x100d \<and> ispeed s = 0x100d \<and>
       c_cflag s AND CSTOPB = c_cflag initial AND CSTOPB"
  by (simp add: uart_settings_H4 cfmakeraw_def termios_defs bit.conj_disj_distrib2 and.assoc)

end
