(* ===== verification/Bt_Vendor.thy ===== *)
theory Bt_Vendor
  imports Vendor_Conf Skw_Btsnoop Scom_Lifecycle
begin

text \<open>
  The interface of the vendor library
  (\<^verbatim>\<open>boards/s905x5m/userland/skwbt/src/bt_vendor_skw.c\<close>): \<open>init\<close>, the operations of \<open>op\<close>, and
  \<open>cleanup\<close>. The state is what the library keeps in its globals: the settings, the ports, the
  logs and the descriptor of the boot device. The calls of the system that an operation makes
  are answered by a record.
\<close>

section \<open>State\<close>

datatype vendor_event = Slept nat | Fwcfg_result nat | Epilog_result nat | Boot_closed int

record vendor =
  settings :: settings
  skwbt_device_node :: "bytes list"
  btboot_fp :: int
  bt_vendor_cbacks :: "bool option"
  vnd_local_bd_addr :: bytes
  link :: transport
  log_files :: logs
  vendor_events :: "vendor_event list"

text \<open>The callbacks: none, or whether they have one for the firmware configuration.\<close>

abbreviation (input) BT_VND_OP_RESULT_SUCCESS :: nat where "BT_VND_OP_RESULT_SUCCESS \<equiv> 0"

definition vendor_note :: "vendor_event \<Rightarrow> vendor \<Rightarrow> vendor" where
  "vendor_note ev v = v\<lparr>vendor_events := vendor_events v @ [ev]\<rparr>"

definition set_conf :: "(scom_conf \<Rightarrow> scom_conf) \<Rightarrow> vendor \<Rightarrow> vendor" where
  "set_conf f v = v\<lparr>settings := (settings v)\<lparr>transport_conf := f (transport_conf (settings v))\<rparr>\<rparr>"

definition set_logging :: "(log_conf \<Rightarrow> log_conf) \<Rightarrow> vendor \<Rightarrow> vendor" where
  "set_logging f v = v\<lparr>settings := (settings v)\<lparr>logging := f (logging (settings v))\<rparr>\<rparr>"

abbreviation vendor_type :: "vendor \<Rightarrow> u8" where
  "vendor_type v \<equiv> skwbt_transtype (transport_conf (settings v))"

section \<open>Initialisation\<close>

definition init :: "environment \<Rightarrow> bytes option \<Rightarrow> bool option \<Rightarrow> bytes \<Rightarrow> vendor \<Rightarrow> (int \<times> vendor) option" where
  "init e file p_cb local_bdaddr v =
     (if p_cb = None then Some (-1, v)
      else do {
        (transtype, nodes, t) \<leftarrow> load_skwbt_conf file (vendor_type v) (scomm_vendor_init (link v));
        let v = set_conf (\<lambda>c. c\<lparr>skwbt_transtype := transtype\<rparr>) (v\<lparr>skwbt_device_node := nodes, link := t\<rparr>);
        let v = v\<lparr>settings := load_skwbt_stack_conf file (settings v)\<rparr>;
        let v = v\<lparr>log_files := skwlog_init e (logging (settings v)) (log_files v)\<rparr>;
        let v = v\<lparr>bt_vendor_cbacks := p_cb, vnd_local_bd_addr := take 6 local_bdaddr\<rparr>;
        Some (0, if btsnoop_log_en (logging (settings v))
                 then v\<lparr>log_files := skw_btsnoop_init e (logging (settings v)) (log_files v)\<rparr> else v)
      })"

section \<open>Operations\<close>

record vendor_io =
  io_boot :: int
  io_data :: int
  io_log_enable :: "u8 option"
  io_dev :: "nat \<Rightarrow> int"
  io_dev_fcntl :: "nat \<Rightarrow> fcntl_io"
  io_termios :: termios
  io_socket :: "nat \<Rightarrow> open_io"

definition skwbt_boot_open :: "vendor_io \<Rightarrow> vendor \<Rightarrow> bool \<times> vendor" where
  "skwbt_boot_open io v = (\<not> io_boot io < 0, v\<lparr>btboot_fp := io_boot io\<rparr>)"

text \<open>
  The loop over the ports: whether it failed, the index it stopped at, the descriptor for the
  host, and the ports.
\<close>

primrec open_ports :: "vendor_io \<Rightarrow> nat list \<Rightarrow> int \<Rightarrow> transport \<Rightarrow> (bool \<times> nat \<times> int) \<times> transport" where
  "open_ports io [] fd t = ((False, BT_COM_PORT_SIZE, fd), t)"
| "open_ports io (idx # rest) fd t =
     (if \<not> scomm_vendor_check_port_valid idx t then open_ports io rest fd t
      else
        let (dev, t) = scomm_vendor_usbsdio_open (io_dev io idx) (io_dev_fcntl io idx) idx t in
        if dev \<noteq> -1 then
          let (tFd, t) = scomm_vendor_socket_open (io_socket io idx) idx t in
          if tFd = -1 then ((True, idx, fd), t)
          else open_ports io rest (if fd = -1 then tFd else fd) t
        else ((True, idx, fd), t))"

text \<open>What the driver says about the build decides on the logs: 1 is a release, 2 for debugging.\<close>

definition log_policy :: "u8 option \<Rightarrow> log_conf \<Rightarrow> log_conf" where
  "log_policy log_enable l =
     (case log_enable of
        None \<Rightarrow> l
      | Some n \<Rightarrow>
          let l = (if btcp_log_en l \<and> n \<noteq> 0 then l\<lparr>btcp_log_en := (n = 2)\<rparr> else l)
          in if btsnoop_log_en l \<and> n \<noteq> 0 then l\<lparr>btsnoop_log_en := (n = 2)\<rparr> else l)"

text \<open>The serial transport: the descriptor for the host, \<open>None\<close> for the early return.\<close>

definition uart_userial_open :: "vendor_io \<Rightarrow> vendor \<Rightarrow> int option \<times> vendor" where
  "uart_userial_open io v =
     (let uartonly = skwbtuartonly (transport_conf (settings v));
          (booted, v) = (if uartonly then (True, v) else skwbt_boot_open io v) in
      if \<not> booted then (None, v)
      else
        let v = (if uartonly then v else set_conf (\<lambda>c. c\<lparr>btpw_fp := io_data io\<rparr>) v);
            ((r, _), t) = scomm_vendor_uart_open (io_dev io 0) (io_dev_fcntl io 0) (io_termios io) 0 (link v) in
        if r \<noteq> -1 then
          let (fd, t) = scomm_vendor_socket_open (io_socket io 0) 0 t in (Some fd, v\<lparr>link := t\<rparr>)
        else (Some (-1), v\<lparr>link := t\<rparr>))"

definition device_userial_open :: "vendor_io \<Rightarrow> vendor \<Rightarrow> int option \<times> vendor" where
  "device_userial_open io v =
     (let (booted, v) = skwbt_boot_open io v in
      if \<not> booted then (None, v)
      else
        let v = set_logging (log_policy (io_log_enable io)) v;
            ((open_failed, idx, fd), t) = open_ports io [0..<BT_COM_PORT_SIZE] (-1) (link v);
            fd = (if open_failed then -1 else fd);
            bus = (if idx \<le> BT_COM_PORT_ACL then SKWBT_TRANS_TYPE_USB else SKWBT_TRANS_TYPE_SDIO)
        in (Some fd, set_conf (\<lambda>c. c\<lparr>skwbt_transtype := skwbt_transtype c OR bus\<rparr>) (v\<lparr>link := t\<rparr>)))"

text \<open>The result and the entries of the caller's array, which a failure leaves as it is.\<close>

abbreviation (input) CH_MAX :: nat where "CH_MAX \<equiv> 4"

definition userial_open :: "vendor_io \<Rightarrow> vendor \<Rightarrow> (int \<times> int list option) \<times> vendor" where
  "userial_open io v =
     (let (fd, v) = (if vendor_type v AND SKWBT_TRANS_TYPE_UART \<noteq> 0 then uart_userial_open io v
                     else device_userial_open io v)
      in case fd of
           None \<Rightarrow> ((0, None), v)
         | Some fd \<Rightarrow> if fd \<noteq> -1 then ((1, Some (replicate CH_MAX fd)), v) else ((0, None), v))"

definition userial_close :: "vendor \<Rightarrow> vendor" where
  "userial_close v =
     (let v = (if btboot_fp v > 0 then (vendor_note (Boot_closed (btboot_fp v)) v)\<lparr>btboot_fp := -1\<rparr> else v);
          (c, t) = scomm_vendor_close (transport_conf (settings v)) (link v)
      in (set_conf (\<lambda>_. c) v)\<lparr>link := t\<rparr>)"

datatype bt_vendor_opcode =
  BT_VND_OP_POWER_CTRL int
| BT_VND_OP_FW_CFG
| BT_VND_OP_SCO_CFG
| BT_VND_OP_USERIAL_OPEN vendor_io
| BT_VND_OP_USERIAL_CLOSE
| BT_VND_OP_GET_LPM_IDLE_TIMEOUT
| BT_VND_OP_LPM_SET_MODE
| BT_VND_OP_LPM_WAKE_SET_STATE
| BT_VND_OP_SET_AUDIO_STATE
| BT_VND_OP_EPILOG
| BT_VND_OP_A2DP_OFFLOAD_START
| BT_VND_OP_A2DP_OFFLOAD_STOP

abbreviation (input) BT_VND_PWR_OFF :: int where "BT_VND_PWR_OFF \<equiv> 0"
abbreviation (input) BT_VND_PWR_ON :: int where "BT_VND_PWR_ON \<equiv> 1"

text \<open>\<open>None\<close>: the firmware configuration without callbacks, which the code follows blindly.\<close>

fun op :: "bt_vendor_opcode \<Rightarrow> vendor \<Rightarrow> ((int \<times> int list option) \<times> vendor) option" where
  "op (BT_VND_OP_POWER_CTRL state) v =
     Some ((0, None),
       if vendor_type v AND SKWBT_TRANS_TYPE_UART \<noteq> 0 then
         if state = BT_VND_PWR_OFF then vendor_note (Slept 200000) v
         else if state = BT_VND_PWR_ON then vendor_note (Slept 200000) v else v
       else v)"
| "op BT_VND_OP_FW_CFG v =
     (case bt_vendor_cbacks v of
        None \<Rightarrow> None
      | Some fwcfg_cb \<Rightarrow>
          Some ((0, None), if fwcfg_cb then vendor_note (Fwcfg_result BT_VND_OP_RESULT_SUCCESS) v else v))"
| "op BT_VND_OP_SCO_CFG v = Some ((-1, None), v)"
| "op (BT_VND_OP_USERIAL_OPEN io) v = Some (userial_open io v)"
| "op BT_VND_OP_USERIAL_CLOSE v = Some ((0, None), userial_close v)"
| "op BT_VND_OP_EPILOG v =
     Some ((0, None), if bt_vendor_cbacks v \<noteq> None
       then vendor_note (Epilog_result BT_VND_OP_RESULT_SUCCESS) v else v)"
| "op _ v = Some ((0, None), v)"

section \<open>The end\<close>

definition cleanup :: "vendor \<Rightarrow> vendor" where
  "cleanup v =
     (let v = (if btsnoop_log_en (logging (settings v)) then v\<lparr>log_files := skw_btsnoop_close (log_files v)\<rparr> else v);
          v = v\<lparr>log_files := skwlog_close (log_files v)\<rparr>;
          v = set_logging (\<lambda>l. l\<lparr>btsnoop_log_en := False\<rparr>) v;
          v = v\<lparr>bt_vendor_cbacks := None\<rparr>
      in set_conf (\<lambda>c. c\<lparr>skwbt_transtype := 0\<rparr>) v)"

section \<open>The ports of an operation\<close>

text \<open>The kernel gives no descriptor -1.\<close>

definition sane :: "vendor_io \<Rightarrow> bool" where
  "sane io \<longleftrightarrow> (\<forall>p a b. o_uart (io_socket io p) = Some (a, b) \<longrightarrow> a \<noteq> -1)"

definition at_rest :: "vendor \<Rightarrow> bool" where
  "at_rest v \<longleftrightarrow> balanced (link v) \<and> length (ports (link v)) = BT_COM_PORT_SIZE \<and>
     (\<forall>p<BT_COM_PORT_SIZE. vacant (ports (link v) ! p))"

definition sound :: "transport \<Rightarrow> bool" where
  "sound t \<longleftrightarrow> balanced t \<and> length (ports t) = BT_COM_PORT_SIZE"

lemma at_rest_iff: "at_rest v \<longleftrightarrow> sound (link v) \<and> (\<forall>p<BT_COM_PORT_SIZE. vacant (ports (link v) ! p))"
  by (auto simp: at_rest_def sound_def)

lemma sound_after:
  assumes "sound t" "opens t r" "only p t (snd r)"
  shows "sound (snd r)"
  using assms by (simp add: sound_def opens_def only_def)

lemma sound_usbsdio_open:
  assumes "sound t" "p < BT_COM_PORT_SIZE" "vacant (ports t ! p)"
  shows "sound (snd (scomm_vendor_usbsdio_open fd io p t))"
    and "socketless (ports (snd (scomm_vendor_usbsdio_open fd io p t)) ! p)"
  using assms usbsdio_open_balanced [of p t fd io] usbsdio_open_socketless [of p t fd io]
    sound_after [OF assms(1) _ only_usbsdio_open]
  by (simp_all add: sound_def vacant_def socketless_def)

lemma sound_socket_open:
  assumes "sound t" "p < BT_COM_PORT_SIZE" "socketless (ports t ! p)" "sane io"
  shows "sound (snd (scomm_vendor_socket_open (io_socket io p) p t))"
proof (rule sound_after [OF assms(1) _ only_socket_open])
  show "opens t (scomm_vendor_socket_open (io_socket io p) p t)"
    by (rule socket_open_balanced) (use assms in \<open>auto simp: sound_def sane_def\<close>)
qed

lemma open_ports_sound:
  assumes "sane io"
  shows "sound t \<Longrightarrow> distinct ps \<Longrightarrow> \<forall>p\<in>set ps. p < BT_COM_PORT_SIZE \<and> vacant (ports t ! p) \<Longrightarrow>
    sound (snd (open_ports io ps fd t)) \<and>
    (\<not> fst (fst (open_ports io ps fd t)) \<longrightarrow> fst (snd (fst (open_ports io ps fd t))) = BT_COM_PORT_SIZE)"
proof (induction ps arbitrary: fd t)
  case (Cons p ps)
  have p: "p < BT_COM_PORT_SIZE" "vacant (ports t ! p)" "p \<notin> set ps" using Cons.prems by simp_all
  obtain dev u where u: "scomm_vendor_usbsdio_open (io_dev io p) (io_dev_fcntl io p) p t = (dev, u)" by fastforce
  have su: "sound u" "socketless (ports u ! p)" "only p t u"
    using sound_usbsdio_open [OF Cons.prems(1) p(1,2), of "io_dev io p" "io_dev_fcntl io p"]
      only_usbsdio_open [of p t "io_dev io p" "io_dev_fcntl io p"] by (simp_all add: u)
  obtain tFd w where w: "scomm_vendor_socket_open (io_socket io p) p u = (tFd, w)" by fastforce
  have sw: "sound w" "only p u w"
    using sound_socket_open [OF su(1) p(1) su(2) assms] only_socket_open [of p u "io_socket io p"]
    by (simp_all add: w)
  have vw: "\<forall>q\<in>set ps. q < BT_COM_PORT_SIZE \<and> vacant (ports w ! q)"
  proof
    fix q assume "q \<in> set ps"
    with p(3) have "ports w ! q = ports t ! q" using su(3) sw(2) by (auto simp: only_def)
    with Cons.prems(3) \<open>q \<in> set ps\<close> show "q < BT_COM_PORT_SIZE \<and> vacant (ports w ! q)" by simp
  qed
  have ds: "distinct ps" "\<forall>q\<in>set ps. q < BT_COM_PORT_SIZE \<and> vacant (ports t ! q)"
    using Cons.prems by simp_all
  show ?case
    using Cons.IH [OF Cons.prems(1) ds, of fd] Cons.IH [OF sw(1) ds(1) vw, of "if fd = -1 then tFd else fd"] su(1) sw(1)
    by (simp add: u w del: upt_rec_numeral)
qed simp

lemma link_conf [simp]:
  "link (set_conf f v) = link v" "link (set_logging g v) = link v" "link (vendor_note ev v) = link v"
  by (simp_all add: set_conf_def set_logging_def vendor_note_def)

lemma uart_open_sound:
  assumes "at_rest v" "sane io"
  shows "sound (link (snd (uart_userial_open io v)))"
proof -
  let ?b = "scomm_vendor_uart_open (io_dev io 0) (io_dev_fcntl io 0) (io_termios io) 0 (link v)"
  have v: "sound (link v)" "vacant (ports (link v) ! 0)" "0 < length (ports (link v))"
    using assms(1) by (auto simp: at_rest_def sound_def)
  obtain r settings t where b: "?b = ((r, settings), t)" by (metis prod.exhaust)
  have "opens (link v) (r, t)"
    using uart_open_balanced [OF v(3), of "io_dev io 0" "io_dev_fcntl io 0" "io_termios io"] v(1,2) b
    by (simp add: sound_def vacant_def socketless_def)
  moreover have "only 0 (link v) t" "socketless (ports t ! 0)"
    using only_uart_open [of 0 "link v" "io_dev io 0" "io_dev_fcntl io 0" "io_termios io"]
      uart_open_socketless [OF v(3), of "io_dev io 0" "io_dev_fcntl io 0" "io_termios io"] v(2) b
    by (simp_all add: vacant_def)
  ultimately have t: "sound t" "socketless (ports t ! 0)"
    using sound_after [OF v(1), of "(r, t)" 0] by simp_all
  have "sound (snd (scomm_vendor_socket_open (io_socket io 0) 0 t))"
    by (rule sound_socket_open [OF t(1) _ t(2) assms(2)]) simp
  then show ?thesis
    using t(1) v(1) b
    by (auto simp: uart_userial_open_def skwbt_boot_open_def Let_def split_beta)
qed

lemma device_open_sound:
  assumes "at_rest v" "sane io"
  shows "sound (link (snd (device_userial_open io v)))"
proof -
  have "sound (snd (open_ports io [0..<4] (-1) (link v)))"
    using open_ports_sound [OF assms(2), of "link v" "[0..<4]" "-1"] assms(1)
    by (simp add: at_rest_iff del: upt_rec_numeral)
  then show ?thesis
    using assms(1)
    by (simp add: device_userial_open_def skwbt_boot_open_def Let_def split_beta at_rest_iff del: upt_rec_numeral)
qed

lemma userial_open_sound: "at_rest v \<Longrightarrow> sane io \<Longrightarrow> sound (link (snd (userial_open io v)))"
  using uart_open_sound device_open_sound
  by (simp add: userial_open_def Let_def split_beta split: option.split)

lemma userial_close_rest:
  assumes "sound (link v)"
  shows "at_rest (userial_close v)" "accounts (link (userial_close v)) = (\<lambda>_. no_account)"
    "btboot_fp (userial_close v) \<le> 0"
  using assms close_balanced close_vacant
  by (simp_all add: userial_close_def Let_def split_beta at_rest_def sound_def set_conf_def vendor_note_def)

definition sample_socket_io :: open_io where
  "sample_socket_io = sample_open_io\<lparr>o_wake := Some (12, 13), o_thread_uart := 0\<rparr>"

definition sample_vendor_io :: vendor_io where
  "sample_vendor_io = \<lparr>io_boot = 5, io_data = 6, io_log_enable = Some 1, io_dev = (\<lambda>_. 7),
     io_dev_fcntl = (\<lambda>_. \<lparr>getfl = 2, setfl = 0, getfd = 0, setfd = 0\<rparr>),
     io_termios = \<lparr>c_cflag = 0, ospeed = 0, ispeed = 0\<rparr>, io_socket = (\<lambda>_. sample_socket_io)\<rparr>"

definition sample_vendor :: vendor where
  "sample_vendor = \<lparr>settings = \<lparr>transport_conf = \<lparr>skwbt_transtype = 1, skwbtuartonly = False, skwbtNoSleep = False,
       btpw_fp = -1\<rparr>, logging = snoop_conf False, skwdriverlog_en = False\<rparr>, skwbt_device_node = [], btboot_fp = -1,
     bt_vendor_cbacks = Some True, vnd_local_bd_addr = [],
     link = set_port 0 (\<lambda>s. s\<lparr>port_name := [0x2f]\<rparr>) fresh_transport,
     log_files = no_logs Map.empty, vendor_events = []\<rparr>"

lemma sample_opens: "fst (userial_open sample_vendor_io sample_vendor) = (1, Some (replicate 4 10))"
proof -
  let ?t = "link sample_vendor"
  let ?u = "snd (scomm_vendor_usbsdio_open 7 \<lparr>getfl = 2, setfl = 0, getfd = 0, setfd = 0\<rparr> 0 ?t)"
  let ?w = "snd (scomm_vendor_socket_open sample_socket_io 0 ?u)"
  have t: "length (ports ?t) = 4" "port_name (ports ?t ! 0) \<noteq> []" "port_name (ports ?t ! 1) = []"
    "port_name (ports ?t ! 2) = []" "port_name (ports ?t ! 3) = []"
    by code_simp+
  have u: "only 0 ?t ?u" "fst (scomm_vendor_usbsdio_open 7 \<lparr>getfl = 2, setfl = 0, getfd = 0, setfd = 0\<rparr> 0 ?t) = 7"
    by (rule only_usbsdio_open)
       (simp add: scomm_vendor_usbsdio_open_def set_nonblocking_cloexec_def Let_def)
  have w: "only 0 ?u ?w" by (rule only_socket_open)
  have "fst (scomm_vendor_socket_open sample_socket_io 0 ?u) = fst (10 :: int, 11 :: int)"
    by (rule socket_open_result)
       (use t u in \<open>simp_all add: sample_socket_io_def sample_open_io_def set_nonblocking_cloexec_def only_def\<close>)
  moreover have "ports ?w ! q = ports ?t ! q" if "q \<noteq> 0" for q
    using u(1) w that by (simp add: only_def)
  moreover have "[0..<4] = [0, 1, 2, 3::nat]" by (simp add: upt_rec)
  ultimately have "open_ports sample_vendor_io [0..<4] (-1) ?t = ((False, 4, 10), ?w)"
    using t u(2) by (simp add: sample_vendor_io_def scomm_vendor_check_port_valid_def split_beta Let_def)
  moreover have "vendor_type sample_vendor AND SKWBT_TRANS_TYPE_UART = 0" by code_simp
  ultimately show ?thesis
    by (simp add: userial_open_def device_userial_open_def skwbt_boot_open_def Let_def
        sample_vendor_io_def split_beta del: upt_rec_numeral)
qed

lemma sample_vendor_rest: "at_rest sample_vendor"
proof -
  have "balanced fresh_transport" unfolding fresh_transport_def by (rule init_balanced) simp
  then have "balanced (link sample_vendor)"
    by (auto simp: sample_vendor_def account_def fds_held_def fresh_transport_def scomm_vendor_init_def
        intro!: balanced_set_port)
  moreover have "length (ports (link sample_vendor)) = 4" by code_simp
  moreover have "vacant (ports (link sample_vendor) ! p)" if "p < 4" for p
    using that idle_vacant
    by (auto simp: sample_vendor_def fresh_transport_def scomm_vendor_init_def set_port_def nth_list_update
        vacant_def socketless_def)
  ultimately show ?thesis by (simp add: at_rest_def)
qed

lemma sample_vendor_io_sane: "sane sample_vendor_io"
  by (simp add: sane_def sample_vendor_io_def sample_socket_io_def sample_open_io_def)

section \<open>Properties\<close>

text \<open>
  C16: Opening and closing the transport is balanced. From the state at rest, opening gives the
  caller one descriptor for all its channels and the result 1, or the result 0 and nothing,
  however the calls of the system are answered; and closing afterwards, after a success and
  after a failure, closes every descriptor, joins every thread, closes the boot device, and
  leads back to the state at rest, from which the transport can be opened again.
\<close>

theorem open_close_cycle:
  assumes "at_rest v" "sane io" "op (BT_VND_OP_USERIAL_OPEN io) v = Some ((r, fds), v')"
  shows "(if r = 1 then \<exists>fd. fd \<noteq> -1 \<and> fds = Some (replicate CH_MAX fd) else r = 0 \<and> fds = None) \<and>
    balanced (link v') \<and>
    (\<exists>w. op BT_VND_OP_USERIAL_CLOSE v' = Some ((0, None), w) \<and> at_rest w \<and>
      accounts (link w) = (\<lambda>_. no_account) \<and> btboot_fp w \<le> 0)"
proof -
  have o: "userial_open io v = ((r, fds), v')" using assms(3) by simp
  have s: "sound (link v')" using userial_open_sound [OF assms(1,2)] by (simp add: o)
  have "if r = 1 then \<exists>fd. fd \<noteq> -1 \<and> fds = Some (replicate CH_MAX fd) else r = 0 \<and> fds = None"
    using o by (auto simp: userial_open_def Let_def split_beta split: option.splits if_splits)
  moreover have "balanced (link v')" using s by (simp add: sound_def)
  ultimately show ?thesis using userial_close_rest [OF s] by simp
qed

theorem open_close_cycle_witness:
  "\<exists>v'. op (BT_VND_OP_USERIAL_OPEN sample_vendor_io) sample_vendor = Some ((1, Some (replicate 4 10)), v') \<and>
    balanced (link v') \<and> at_rest (userial_close v') \<and> accounts (link (userial_close v')) = (\<lambda>_. no_account)"
proof -
  obtain v' where o: "op (BT_VND_OP_USERIAL_OPEN sample_vendor_io) sample_vendor = Some ((1, Some (replicate 4 10)), v')"
    using sample_opens by (metis op.simps(4) prod.collapse)
  show ?thesis using open_close_cycle [OF sample_vendor_rest sample_vendor_io_sane o] o by auto
qed

text \<open>
  On a release build of the driver the capture of the traffic is never closed. When the
  boot device says that the build is no debugging one, opening the transport switches the
  capture off, and the clean-up of the library then takes it for closed: its descriptor stays
  open. Without that, the clean-up closes it. The log of the controller is closed either way.
\<close>

theorem release_build_leaks_capture:
  assumes "vendor_type v AND SKWBT_TRANS_TYPE_UART = 0" "io_boot io \<ge> 0" "io_log_enable io = Some n"
    and "btsnoop_log_en (logging (settings v))" "hci_btsnoop_fd (log_files v) \<noteq> -1"
    and "open_files (log_files v) (hci_btsnoop_fd (log_files v)) = Some path"
    and "skwlog_fp (log_files v) \<noteq> hci_btsnoop_fd (log_files v)"
  shows "let w = log_files (cleanup (snd (userial_open io v))) in
    skwlog_fp w = -1 \<and>
    (if n = 0 \<or> n = 2 then hci_btsnoop_fd w = -1 \<and> open_files w (hci_btsnoop_fd (log_files v)) = None
     else hci_btsnoop_fd w = hci_btsnoop_fd (log_files v) \<and> open_files w (hci_btsnoop_fd w) = Some path)"
proof -
  let ?w = "snd (userial_open io v)"
  have w: "log_files ?w = log_files v" "logging (settings ?w) = log_policy (Some n) (logging (settings v))"
    using assms(1-3)
    by (simp_all add: userial_open_def device_userial_open_def skwbt_boot_open_def set_logging_def set_conf_def
        Let_def split_beta split: option.split)
  have "btsnoop_log_en (logging (settings ?w)) \<longleftrightarrow> n = 0 \<or> n = 2"
    unfolding w using assms(4) by (simp add: log_policy_def Let_def)
  then show ?thesis
    using assms(5-7) w(1)
    by (auto simp: cleanup_def skw_btsnoop_close_def skwlog_close_def close_file_def fails_def set_conf_def
        set_logging_def Let_def)
qed

definition capturing_vendor :: vendor where
  "capturing_vendor = sample_vendor\<lparr>log_files := (no_logs Map.empty)\<lparr>hci_btsnoop_fd := 9, open_files := [9 \<mapsto> [0x2f]]\<rparr>\<rparr>"

theorem release_build_leaks_capture_witness:
  "hci_btsnoop_fd (log_files (cleanup (snd (userial_open sample_vendor_io capturing_vendor)))) = 9"
proof -
  have v: "vendor_type capturing_vendor AND SKWBT_TRANS_TYPE_UART = 0" "io_boot sample_vendor_io \<ge> 0"
    "io_log_enable sample_vendor_io = Some 1" "btsnoop_log_en (logging (settings capturing_vendor))"
    "hci_btsnoop_fd (log_files capturing_vendor) \<noteq> -1"
    "open_files (log_files capturing_vendor) (hci_btsnoop_fd (log_files capturing_vendor)) = Some [0x2f]"
    "skwlog_fp (log_files capturing_vendor) \<noteq> hci_btsnoop_fd (log_files capturing_vendor)"
    and nine: "hci_btsnoop_fd (log_files capturing_vendor) = 9"
    by (simp_all add: capturing_vendor_def sample_vendor_io_def sample_vendor_def snoop_conf_def no_logs_def)
  show ?thesis
    using release_build_leaks_capture [OF v] nine by (simp add: Let_def)
qed

text \<open>A transport that is not serial ends as an SDIO one whenever it is opened, with one port too.\<close>

theorem device_open_is_sdio:
  assumes "at_rest v" "sane io" "vendor_type v AND SKWBT_TRANS_TYPE_UART = 0" "userial_open io v = ((1, fds), w)"
  shows "vendor_type w = vendor_type v OR SKWBT_TRANS_TYPE_SDIO"
proof -
  let ?o = "open_ports io [0..<4] (-1) (link v)"
  have "\<not> fst (fst ?o) \<longrightarrow> fst (snd (fst ?o)) = 4"
    using open_ports_sound [OF assms(2), of "link v" "[0..<4]" "-1"] assms(1)
    by (simp add: at_rest_iff del: upt_rec_numeral)
  then show ?thesis
    using assms(3,4)
    by (auto simp: userial_open_def device_userial_open_def skwbt_boot_open_def set_conf_def set_logging_def
        Let_def split_beta simp del: upt_rec_numeral split: if_splits)
qed

end
