(* ===== verification/Bridge_Vendor.thy ===== *)
theory Bridge_Vendor
  imports Bridge_Main Bt_Vendor
begin

text \<open>
  The bridge on top of the vendor library. The bridge calls the library through its interface
  only; here the calls of a run of the bridge are carried out on the library's model, each
  opening of the channels with answers of the system of its own.
\<close>

section \<open>The interface\<close>

text \<open>
  What the bridge calls. \<open>lib_init\<close> is \<open>None\<close> when the library writes outside an array;
  \<open>lib_open n\<close> is the opening number \<open>n\<close>.
\<close>

record 's library =
  lib_init :: "'s \<Rightarrow> 's option"
  lib_power :: "'s \<Rightarrow> 's"
  lib_open :: "nat \<Rightarrow> 's \<Rightarrow> 's"
  lib_close :: "'s \<Rightarrow> 's"
  lib_epilog :: "'s \<Rightarrow> 's"
  lib_cleanup :: "'s \<Rightarrow> 's"

text \<open>The calls of the bridge from opening number \<open>n\<close> on; the other calls do not concern the library.\<close>

fun library_run :: "'s library \<Rightarrow> nat \<Rightarrow> act list \<Rightarrow> 's \<Rightarrow> 's option" where
  "library_run l n [] s = Some s"
| "library_run l n (Vendor_init r # xs) s = Option.bind (lib_init l s) (library_run l n xs)"
| "library_run l n (Vendor_power_on # xs) s = library_run l n xs (lib_power l s)"
| "library_run l n (Channels_open r # xs) s = library_run l (n + 1) xs (lib_open l n s)"
| "library_run l n (Channels_close # xs) s = library_run l n xs (lib_close l s)"
| "library_run l n (Vendor_epilog # xs) s = library_run l n xs (lib_epilog l s)"
| "library_run l n (Vendor_cleanup # xs) s = library_run l n xs (lib_cleanup l s)"
| "library_run l n (_ # xs) s = library_run l n xs s"

text \<open>
  The contract: \<open>rest\<close> is what holds while the channels are closed, \<open>busy\<close> what holds between
  an attempt to open them, failed or not, and the closing.
\<close>

locale channel_library =
  fixes l :: "'s library"
    and rest :: "'s \<Rightarrow> bool"
    and busy :: "'s \<Rightarrow> bool"
    and answered :: "nat \<Rightarrow> bool"
  assumes rest_init: "rest s \<Longrightarrow> lib_init l s = Some t \<Longrightarrow> rest t"
    and rest_power: "rest s \<Longrightarrow> rest (lib_power l s)"
    and busy_open: "rest s \<Longrightarrow> answered n \<Longrightarrow> busy (lib_open l n s)"
    and rest_close: "busy s \<Longrightarrow> rest (lib_close l s)"
    and rest_epilog: "rest s \<Longrightarrow> rest (lib_epilog l s)"
    and rest_cleanup: "rest s \<Longrightarrow> rest (lib_cleanup l s)"
begin

definition held_state :: "resource list \<Rightarrow> 's \<Rightarrow> bool" where
  "held_state hs s = (if Channels \<in> set hs then busy s else rest s)"

lemma run_held_state:
  assumes "\<forall>k. answered k" "act_run xs hs = Some hs'" "held_state hs s" "library_run l n xs s = Some t"
  shows "held_state hs' t"
  using assms(2-4)
proof (induction xs arbitrary: hs n s)
  case Nil
  then show ?case by simp
next
  case (Cons x xs)
  from Cons.prems(1) obtain hs1 where step: "act_step x hs = Some hs1" "act_run xs hs1 = Some hs'"
    by (auto split: option.splits)
  have "\<exists>m u. library_run l m xs u = Some t \<and> held_state hs1 u"
    using step(1) Cons.prems(2,3) assms(1)
    by (cases x)
       (fastforce simp: held_state_def rest_power busy_open rest_close rest_epilog rest_cleanup
         split: if_splits bind_splits dest: rest_init)+
  then show ?case using Cons.IH [OF step(2)] by blast
qed

lemma run_returns_rest:
  assumes "\<forall>k. answered k" "act_run xs [] = Some []" "rest s" "library_run l n xs s = Some t"
  shows "rest t"
  using run_held_state [OF assms(1,2) _ assms(4)] assms(3) by (simp add: held_state_def)

end

section \<open>The library's model\<close>

definition vendor_library ::
  "environment \<Rightarrow> bytes option \<Rightarrow> bytes \<Rightarrow> (nat \<Rightarrow> vendor_io) \<Rightarrow> vendor library" where
  "vendor_library e file local_bdaddr ios =
     \<lparr>lib_init = (\<lambda>v. map_option snd (init e file (Some False) local_bdaddr v)),
      lib_power = (\<lambda>v. snd (the (op (BT_VND_OP_POWER_CTRL BT_VND_PWR_ON) v))),
      lib_open = (\<lambda>n v. snd (the (op (BT_VND_OP_USERIAL_OPEN (ios n)) v))),
      lib_close = (\<lambda>v. snd (the (op BT_VND_OP_USERIAL_CLOSE v))),
      lib_epilog = (\<lambda>v. snd (the (op BT_VND_OP_EPILOG v))),
      lib_cleanup = cleanup\<rparr>"

text \<open>Naming the ports changes nothing that is held.\<close>

definition same_held :: "transport \<Rightarrow> transport \<Rightarrow> bool" where
  "same_held t u \<longleftrightarrow> events u = events t \<and> length (ports u) = length (ports t) \<and> accounts u = accounts t \<and>
     (\<forall>q. vacant (ports t ! q) \<longrightarrow> vacant (ports u ! q))"

lemma same_held_refl: "same_held t t"
  by (simp add: same_held_def)

lemma same_held_trans: "same_held t u \<Longrightarrow> same_held u v \<Longrightarrow> same_held t v"
  by (simp add: same_held_def)

lemma same_held_name:
  assumes "p < length (ports t)"
  shows "same_held t (set_port p (\<lambda>s. s\<lparr>port_name := n\<rparr>) t)"
proof -
  have "accounts (set_port p (\<lambda>s. s\<lparr>port_name := n\<rparr>) t) = accounts t"
    by (rule accounts_same [OF assms]) (simp add: account_def fds_held_def)
  moreover have "vacant (ports (set_port p (\<lambda>s. s\<lparr>port_name := n\<rparr>) t) ! q)" if "vacant (ports t ! q)" for q
    using that assms by (cases "q = p") (simp_all add: vacant_def socketless_def)
  ultimately show ?thesis by (simp add: same_held_def)
qed

lemma same_held_set_port_name:
  "length (ports t) = BT_COM_PORT_SIZE \<Longrightarrow> scomm_vendor_set_port_name p n t = Some u \<Longrightarrow> same_held t u"
  by (auto simp: scomm_vendor_set_port_name_def same_held_name split: if_splits)

lemma load_nodes_held:
  "length (ports t) = BT_COM_PORT_SIZE \<Longrightarrow> load_nodes ls p nodes t = Some (r, nodes', u) \<Longrightarrow> same_held t u"
proof (induction ls p nodes t rule: load_nodes.induct)
  case (2 line ls p nodes t)
  show ?case
  proof (cases "conf_line line")
    case (Setting k nm)
    show ?thesis
    proof (cases "k = ascii ''BtDeviceNode'' \<and> p < 4 \<and> length nm < 64")
      case True
      then obtain v where v: "scomm_vendor_set_port_name p nm t = Some v"
        "load_nodes ls (p + 1) (nodes[p := nm]) v = Some (r, nodes', u)"
        using 2(5) Setting by (auto split: bind_splits)
      have tv: "same_held t v" by (rule same_held_set_port_name [OF 2(4) v(1)])
      then have "same_held v u"
        using 2(2) [OF Setting _ _ v(1)] v(2) True 2(4) by (simp add: same_held_def)
      with tv show ?thesis by (rule same_held_trans)
    qed (use 2 Setting in \<open>auto split: if_splits\<close>)
  qed (use 2 in \<open>auto simp: same_held_refl\<close>)
qed (simp add: same_held_refl)

lemma load_conf_held:
  assumes t: "length (ports t) = BT_COM_PORT_SIZE" and l: "load_skwbt_conf file tt t = Some (tt', nodes, u)"
  shows "same_held t u"
proof (cases "file")
  case None
  with l show ?thesis by (simp add: load_skwbt_conf_def Let_def same_held_refl)
next
  case (Some body)
  obtain r ns v where v: "load_nodes (conf_lines body) 0 (replicate 4 []) t = Some (r, ns, v)"
    "v = u \<or> scomm_vendor_set_port_name 0 (tl (ns ! 0)) v = Some u \<or>
     scomm_vendor_set_port_name 0 (ns[0 := tl (ns ! 0)] ! 0) v = Some u"
    using l Some by (auto simp: load_skwbt_conf_def Let_def split: if_splits bind_splits)
  have tv: "same_held t v" by (rule load_nodes_held [OF t v(1)])
  then have "length (ports v) = BT_COM_PORT_SIZE" using t by (simp add: same_held_def)
  then have "v = u \<or> same_held v u" using v(2) same_held_set_port_name by blast
  with tv show ?thesis using same_held_trans by blast
qed

text \<open>Initialising the library at rest leaves it at rest: its ports are only named.\<close>

lemma rest_accounts: "at_rest v \<Longrightarrow> accounts (link v) = (\<lambda>_. no_account)"
  by (auto simp: at_rest_def accounts_def vacant_def socketless_account opened_fd_def no_account_def fun_eq_iff)

lemma init_at_rest:
  assumes "at_rest v" "init e file cb addr v = Some (r, w)"
  shows "at_rest w"
proof (cases "cb = None")
  case True
  with assms show ?thesis by (simp add: init_def)
next
  case False
  let ?t = "scomm_vendor_init (link v)"
  obtain tt nodes u where u: "load_skwbt_conf file (vendor_type v) ?t = Some (tt, nodes, u)" "link w = u"
    using assms(2) False by (auto simp: init_def Let_def set_conf_def split: bind_splits if_splits)
  have l: "length (ports ?t) = BT_COM_PORT_SIZE" by (simp add: scomm_vendor_init_def)
  have "accounts ?t = (\<lambda>_. no_account)"
    by (auto simp: accounts_def scomm_vendor_init_def account_def fds_held_def opened_fd_def idle_port_def
        no_account_def fun_eq_iff)
  moreover have "entered (events (link v)) = Some (accounts (link v))"
    using assms(1) by (simp add: at_rest_def balanced_def)
  ultimately have "entered (events ?t) = Some (accounts ?t)"
    using rest_accounts [OF assms(1)] by (simp add: scomm_vendor_init_def)
  moreover have "vacant (ports ?t ! q)" if "q < 4" for q
    using that idle_vacant by (simp add: scomm_vendor_init_def)
  moreover have "same_held ?t u" by (rule load_conf_held [OF l u(1)])
  ultimately show ?thesis using u(2) l by (simp add: at_rest_def same_held_def balanced_def)
qed

lemma at_rest_link: "link w = link v \<Longrightarrow> at_rest w = at_rest v"
  by (simp add: at_rest_def)

interpretation skwbt: channel_library "vendor_library e conf addr ios" at_rest "\<lambda>v. sound (link v)"
  "\<lambda>n. sane (ios n)" for e conf addr ios
proof
  show "at_rest t" if "at_rest s" "lib_init (vendor_library e conf addr ios) s = Some t" for s t
    using that init_at_rest by (auto simp: vendor_library_def)
  show "at_rest (lib_power (vendor_library e conf addr ios) s)" if "at_rest s" for s
    using that by (simp add: vendor_library_def at_rest_def vendor_note_def)
  show "sound (link (lib_open (vendor_library e conf addr ios) n s))" if "at_rest s" "sane (ios n)" for n s
    using that userial_open_sound by (simp add: vendor_library_def)
  show "at_rest (lib_close (vendor_library e conf addr ios) s)" if "sound (link s)" for s
    using that userial_close_rest by (simp add: vendor_library_def)
  show "at_rest (lib_epilog (vendor_library e conf addr ios) s)" if "at_rest s" for s
    using that by (simp add: vendor_library_def at_rest_def vendor_note_def)
  show "at_rest (lib_cleanup (vendor_library e conf addr ios) s)" if "at_rest s" for s
    using that by (simp add: vendor_library_def at_rest_def cleanup_def set_conf_def set_logging_def Let_def)
qed

text \<open>The library's initialisation only fails where it would write outside an array.\<close>

lemma library_run_total:
  assumes "\<forall>v. lib_init l v \<noteq> None"
  shows "\<exists>w. library_run l n xs v = Some w"
proof (induction xs arbitrary: n v)
  case (Cons x xs)
  obtain u where "lib_init l v = Some u" using assms by auto
  with Cons show ?case by (cases x) simp_all
qed simp

section \<open>Properties\<close>



end
