(* ===== verification/Frame_Pump.thy ===== *)
theory Frame_Pump
  imports Effects Skw_H4
begin

text \<open>
  The loop with which the transport takes the complete frames off the front of a stream and
  hands each of them on, and the contract of such a loop: what one hand-over does to the
  state, whether it succeeds (\<open>handed\<close>) or not (\<open>broken\<close>), determines what the loop does.
\<close>

text \<open>
  The loop: \<open>accept\<close> is the receiver's check of a frame, \<open>hand\<close> takes the stream and the size
  of the frame at its front, \<open>refuse\<close> is what a bad frame leads to. The result is the stream
  that is left.
\<close>

function pump ::
  "(skw_h4_frame \<Rightarrow> bool) \<Rightarrow> (bytes \<Rightarrow> nat \<Rightarrow> 's \<Rightarrow> (bool \<times> 's) option) \<Rightarrow> ('s \<Rightarrow> 's) \<Rightarrow>
   bytes \<Rightarrow> 's \<Rightarrow> (bytes \<times> 's) option" where
  "pump accept hand refuse stream s =
     (if stream = [] then Some (stream, s)
      else case skw_h4_stream_next stream of (status, frame) \<Rightarrow>
        if status = SKW_H4_INVALID \<or> \<not> accept frame then Some (stream, refuse s)
        else if status = SKW_H4_INCOMPLETE then Some (stream, s)
        else do {
          (ok, s) \<leftarrow> hand stream (frame_size frame) s;
          if \<not> ok then Some (stream, s)
          else pump accept hand refuse
            (case skw_h4_stream_consume stream (frame_size frame) of None \<Rightarrow> stream | Some rest \<Rightarrow> rest) s
        })"
  by pat_completeness auto
termination
  by (relation "measure (\<lambda>(accept, hand, refuse, stream, s). length stream)") (simp_all add: consumed_shorter)

declare pump.simps [simp del]

lemma pump_Nil: "pump accept hand refuse [] s = Some ([], s)"
  by (subst pump.simps) simp

lemma pump_decode:
  assumes "xs \<noteq> []" "skw_h4_decode xs = (status, f)"
  shows "pump accept hand refuse xs s =
    (if status = SKW_H4_INVALID \<or> \<not> accept f then Some (xs, refuse s)
     else if status = SKW_H4_INCOMPLETE then Some (xs, s)
     else do {
       (ok, s) \<leftarrow> hand xs (frame_size f) s;
       if \<not> ok then Some (xs, s) else pump accept hand refuse (drop (frame_size f) xs) s
     })"
proof (cases status)
  case SKW_H4_COMPLETE
  then have c: "skw_h4_stream_consume xs (frame_size f) = Some (drop (frame_size f) xs)"
    using consume_complete assms(2) by blast
  show ?thesis
    using assms(1) SKW_H4_COMPLETE
    by (subst pump.simps, unfold skw_h4_stream_next_def assms(2) prod.case c option.case) simp
qed (use assms in \<open>subst pump.simps; simp add: skw_h4_stream_next_def\<close>)+

text \<open>The stream only gets shorter.\<close>

lemma pump_shortens: "post (pump accept hand refuse xs s) (\<lambda>left _. length left \<le> length xs)"
proof (induction "length xs" arbitrary: xs s rule: less_induct)
  case less
  show ?case
  proof (cases "xs = []")
    case False
    obtain status f where d: "skw_h4_decode xs = (status, f)" by (cases "skw_h4_decode xs")
    have any: "post (hand ys n v) (\<lambda>_ _. True)" for ys n v by (simp add: post_iff)
    have further: "post (pump accept hand refuse (drop (frame_size f) xs) v) (\<lambda>left _. length left \<le> length xs)"
      if "status = SKW_H4_COMPLETE" for v
    proof (rule post_mono [OF less])
      show "length (drop (frame_size f) xs) < length xs"
        using decode_complete_size [of xs f] d that False by auto
    qed simp
    show ?thesis
      unfolding pump_decode [OF False d]
      by (cases status) (auto intro!: further post_bind [OF any])
  qed (simp add: pump_Nil)
qed

text \<open>One frame after another.\<close>

primrec each :: "(bytes \<Rightarrow> 's \<Rightarrow> 's \<Rightarrow> bool) \<Rightarrow> bytes list \<Rightarrow> 's \<Rightarrow> 's \<Rightarrow> bool" where
  "each R [] s t \<longleftrightarrow> t = s"
| "each R (f # fs) s t \<longleftrightarrow> (\<exists>u. R f s u \<and> each R fs u t)"

lemma each_append: "each R (fs @ gs) s t \<longleftrightarrow> (\<exists>u. each R fs s u \<and> each R gs u t)"
  by (induction fs arbitrary: s) auto

locale frame_pump = h4_policy accept for accept :: "skw_h4_frame \<Rightarrow> bool" +
  fixes hand :: "bytes \<Rightarrow> nat \<Rightarrow> 's \<Rightarrow> (bool \<times> 's) option"
    and refuse :: "'s \<Rightarrow> 's"
    and handed :: "bytes \<Rightarrow> 's \<Rightarrow> 's \<Rightarrow> bool"
    and broken :: "bytes \<Rightarrow> 's \<Rightarrow> 's \<Rightarrow> bool"
  assumes hand_post: "n \<le> length xs \<Longrightarrow> 0 < n \<Longrightarrow>
    post (hand xs n s) (\<lambda>ok s'. if ok then handed (take n xs) s s' else broken (take n xs) s s')"
begin

definition pumped :: "bytes \<Rightarrow> 's \<Rightarrow> bytes \<Rightarrow> 's \<Rightarrow> bool" where
  "pumped xs s left s' \<longleftrightarrow> (\<exists>fs rest ok. unframe (h4_framer accept) xs = (fs, rest, ok) \<and>
     (ok \<and> left = rest \<and> each handed fs s s' \<or>
      (\<exists>done more u. fs = done @ more \<and> each handed done s u \<and>
         (more = [] \<and> \<not> ok \<and> s' = refuse u \<or> (\<exists>f fs'. more = f # fs' \<and> broken f u s')))))"

text \<open>What every hand-over keeps, the loop keeps.\<close>

lemma pumped_invariant:
  assumes "pumped xs s left s'" "P s"
    and "\<And>f s t. handed f s t \<Longrightarrow> P s \<Longrightarrow> P t" "\<And>f s t. broken f s t \<Longrightarrow> P s \<Longrightarrow> P t" "\<And>s. P s \<Longrightarrow> P (refuse s)"
  shows "P s'"
proof -
  have all: "P t" if "each handed fs s t" "P s" for fs s t
    using that by (induction fs arbitrary: s) (auto intro: assms(3))
  show ?thesis using assms(1,2,4,5) all unfolding pumped_def by metis
qed

lemma pumped_first:
  assumes "handed f s v" "pumped ys v left s'"
    and "unframe (h4_framer accept) ys = (fs, rest, ok)"
    and "unframe (h4_framer accept) xs = (f # fs, rest, ok)"
  shows "pumped xs s left s'"
proof -
  have "ok \<and> left = rest \<and> each handed fs v s' \<or>
      (\<exists>done more u. fs = done @ more \<and> each handed done v u \<and>
         (more = [] \<and> \<not> ok \<and> s' = refuse u \<or> (\<exists>f fs'. more = f # fs' \<and> broken f u s')))"
    using assms(2,3) by (auto simp: pumped_def)
  then show ?thesis
  proof (elim disjE exE)
    assume "ok \<and> left = rest \<and> each handed fs v s'"
    then show ?thesis unfolding pumped_def using assms(1,4) by auto
  next
    fix d more u
    assume "fs = d @ more \<and> each handed d v u \<and>
         (more = [] \<and> \<not> ok \<and> s' = refuse u \<or> (\<exists>f fs'. more = f # fs' \<and> broken f u s'))"
    then have "f # fs = (f # d) @ more \<and> each handed (f # d) s u \<and>
         (more = [] \<and> \<not> ok \<and> s' = refuse u \<or> (\<exists>f fs'. more = f # fs' \<and> broken f u s'))"
      using assms(1) by auto
    then show ?thesis unfolding pumped_def using assms(4) by blast
  qed
qed

lemma post_pump: "post (pump accept hand refuse xs s) (pumped xs s)"
proof (induction "length xs" arbitrary: xs s rule: less_induct)
  case less
  show ?case
  proof (cases "xs = []")
    case True
    then show ?thesis by (simp add: pump_Nil pumped_def) blast
  next
    case xs: False
    obtain status f where d: "skw_h4_decode xs = (status, f)" by (cases "skw_h4_decode xs")
    note fr = h4_framer_def [of accept xs, unfolded d prod.case]
    consider (bad) "status = SKW_H4_INVALID \<or> \<not> accept f"
      | (short) "status = SKW_H4_INCOMPLETE" "accept f"
      | (frame) "status = SKW_H4_COMPLETE" "accept f"
      by (cases status) auto
    then show ?thesis
    proof cases
      case bad
      then have u: "unframe (h4_framer accept) xs = ([], xs, False)"
        by (subst packets.unframe_eq [OF xs]) (simp add: fr)
      show ?thesis using bad by (auto simp: pump_decode [OF xs d] pumped_def u)
    next
      case short
      then have u: "unframe (h4_framer accept) xs = ([], xs, True)"
        by (subst packets.unframe_eq [OF xs]) (simp add: fr)
      show ?thesis using short by (simp add: pump_decode [OF xs d] pumped_def u) blast
    next
      case frame
      let ?n = "frame_size f"
      have n: "0 < ?n" "?n \<le> length xs" "length (drop ?n xs) < length xs"
        using decode_complete_size [of xs f] d frame xs by auto
      obtain fs rest ok where u: "unframe (h4_framer accept) (drop ?n xs) = (fs, rest, ok)"
        by (metis prod_cases3)
      have ux: "unframe (h4_framer accept) xs = (take ?n xs # fs, rest, ok)"
        using frame u by (subst packets.unframe_eq [OF xs]) (simp add: fr)
      have stop: "pumped xs s xs v" if "broken (take ?n xs) s v" for v
        unfolding pumped_def
        by (intro exI conjI, rule ux, rule disjI2, intro exI [of _ "[]"] exI conjI, simp, simp) (use that in auto)
      have step: "pump accept hand refuse xs s = do {
          (ok, s) \<leftarrow> hand xs ?n s;
          if \<not> ok then Some (xs, s) else pump accept hand refuse (drop ?n xs) s }"
        using frame by (simp add: pump_decode [OF xs d])
      have rest: "post (pump accept hand refuse (drop ?n xs) v) (pumped xs s)" if "handed (take ?n xs) s v" for v
        by (rule post_mono [OF less [OF n(3)]]) (rule pumped_first [OF that _ u ux])
      show ?thesis
        unfolding step by (rule post_bind [OF hand_post [OF n(2,1)]]) (auto intro: stop rest)
    qed
  qed
qed

end

end
