(* ===== verification/Scom_Transport.thy ===== *)
theory Scom_Transport
  imports Scom_Ports Frame_Pump
begin

text \<open>
  One direction of the vendor library's transport
  (\<^verbatim>\<open>boards/s905x5m/userland/skwbt/src/scom_vendor.c\<close>): the thread that takes the host's
  packets off its socket and writes each to the device of its type. \<open>None\<close> is a thread that
  is still blocked in a call; \<open>False\<close> is the code's -1.
\<close>

section \<open>Writing to a descriptor\<close>

text \<open>The wait for space, until the port is stopped.\<close>

function poll_writable :: "nat \<Rightarrow> transport \<Rightarrow> ((errno + revent list list) \<times> transport) option" where
  "poll_writable p t = do {
     (r, t) \<leftarrow> call_poll 1 t;
     case r of
       Inl e \<Rightarrow> if e = EINTR \<and> thread_running (ports t ! p) then poll_writable p t else Some (r, t)
     | Inr _ \<Rightarrow> Some (r, t)
   }"
  by pat_completeness auto
termination
  by (relation "inv_image {(t', t). fewer t t'} snd")
     (auto intro!: script_wf dest: call_progress)

declare poll_writable.simps [simp del]

lemma post_poll_writable:
  "post (poll_writable p t) (\<lambda>r t'. fewer t t' \<and> acts [] [] [] t t')"
proof (induction t rule: transport_induct)
  case (less t)
  have again: "post (poll_writable p u) (\<lambda>r t'. fewer t t' \<and> acts [] [] [] t t')"
    if "fewer t u" "acts [] [] [] t u" for u
    by (rule post_mono [OF less [OF that(1)]]) (use that fewer_trans acts_quiet in blast)
  show ?case
    by (subst poll_writable.simps, rule post_bind [OF post_call_poll]) (auto split: sum.splits intro!: again)
qed

declare postD [OF post_poll_writable, call_progress]

text \<open>
  \<open>write_transport\<close> from \<open>written\<close> on. Whether the bytes go out by \<open>send\<close> or by \<open>write\<close>
  makes no difference to the answers.
\<close>

function write_transport :: "nat \<Rightarrow> int \<Rightarrow> bytes \<Rightarrow> nat \<Rightarrow> transport \<Rightarrow> (bool \<times> transport) option" where
  "write_transport p fd buffer written t =
     (if written < length buffer \<and> thread_running (ports t ! p) then do {
        (ret, t) \<leftarrow> call_write fd (drop written buffer) t;
        case ret of
          Inr n \<Rightarrow> if n > 0 then write_transport p fd buffer (written + n) t else Some (False, t)
        | Inl e \<Rightarrow>
            if e = EINTR then write_transport p fd buffer written t
            else if e = EAGAIN then do {
              (ready, t) \<leftarrow> poll_writable p t;
              if \<not> thread_running (ports t ! p) then Some (False, t)
              else case ready of
                Inl _ \<Rightarrow> Some (False, t)
              | Inr revents \<Rightarrow>
                  if set (revents ! 0) \<inter> {POLLERR, POLLHUP, POLLNVAL} = {}
                  then write_transport p fd buffer written t
                  else Some (False, t)
            }
            else Some (False, t)
      }
      else Some (written = length buffer, t))"
  by pat_completeness auto
termination
  by (relation "inv_image {(t', t). fewer t t'} (\<lambda>(_, _, _, _, t). t)")
     (auto intro!: script_wf dest: call_progress
       intro: fewer_trans)

declare write_transport.simps [simp del]

text \<open>From \<open>k\<close> on, a first part of the buffer went out, and if \<open>ok\<close> all of it.\<close>

definition wrote_from :: "int \<Rightarrow> bytes \<Rightarrow> nat \<Rightarrow> bool \<Rightarrow> transport \<Rightarrow> transport \<Rightarrow> bool" where
  "wrote_from fd b k ok t v \<longleftrightarrow> (\<exists>bs j. acts (map (Pair fd) bs) [] [] t v \<and> k \<le> j \<and> j \<le> length b \<and>
     concat bs = take (j - k) (drop k b) \<and> (ok \<longrightarrow> j = length b))"

lemma wrote_nothing: "acts [] [] [] t v \<Longrightarrow> k \<le> length b \<Longrightarrow> ok \<longrightarrow> k = length b \<Longrightarrow> wrote_from fd b k ok t v"
  unfolding wrote_from_def by (intro exI [of _ "[]"] exI [of _ k]) simp

lemma wrote_quiet: "acts [] [] [] t u \<Longrightarrow> wrote_from fd b k ok u v \<Longrightarrow> wrote_from fd b k ok t v"
  unfolding wrote_from_def using acts_quiet by blast

lemma wrote_more:
  assumes "acts [(fd, take n (drop k b))] [] [] t u" "wrote_from fd b (k + n) ok u v"
  shows "wrote_from fd b k ok t v"
proof -
  obtain bs j where a: "acts (map (Pair fd) bs) [] [] u v" "k + n \<le> j" "j \<le> length b"
    "concat bs = take (j - (k + n)) (drop (k + n) b)" "ok \<longrightarrow> j = length b"
    using assms(2) by (auto simp: wrote_from_def)
  have "acts (map (Pair fd) (take n (drop k b) # bs)) [] [] t v"
    using acts_trans [OF assms(1) a(1)] by simp
  moreover have "concat (take n (drop k b) # bs) = take (j - k) (drop k b)"
    using a(2,4) take_add [of n "j - (k + n)" "drop k b"] by (simp add: add.commute)
  ultimately show ?thesis
    unfolding wrote_from_def using a(2,3,5)
    by (intro exI [of _ "take n (drop k b) # bs"] exI [of _ j]) simp
qed

lemma wrote_zero: "acts [(fd, [])] [] [] t v \<Longrightarrow> k < length b \<Longrightarrow> wrote_from fd b k False t v"
  unfolding wrote_from_def by (intro exI [of _ "[[]]"] exI [of _ k]) simp

lemma post_write_from:
  "k \<le> length b \<Longrightarrow> post (write_transport p fd b k t) (\<lambda>ok v. wrote_from fd b k ok t v)"
proof (induction t arbitrary: k rule: transport_induct)
  case (less t)
  have stop: "wrote_from fd b k False t v" if "acts [] [] [] t v" for v
    using that less.prems by (simp add: wrote_nothing)
  have again: "post (write_transport p fd b k u) (\<lambda>ok v. wrote_from fd b k ok t v)"
    if "fewer t u" "acts [] [] [] t u" for u
    by (rule post_mono [OF less.IH [OF that(1) less.prems]]) (rule wrote_quiet [OF that(2)])
  have more: "post (write_transport p fd b (k + n) u) (\<lambda>ok v. wrote_from fd b k ok t v)"
    if "fewer t u" "acts [(fd, take n (drop k b))] [] [] t u" "n \<le> length b - k" for u n
    by (rule post_mono [OF less.IH [OF that(1)]]) (use that less.prems wrote_more in auto)
  have wait: "post (poll_writable p u) (\<lambda>r v. fewer t v \<and> acts [] [] [] t v)"
    if "fewer t u" "acts [] [] [] t u" for u
    by (rule post_mono [OF post_poll_writable]) (use that fewer_trans acts_quiet in blast)
  show ?case
  proof (cases "k < length b \<and> thread_running (ports t ! p)")
    case False
    then show ?thesis using less.prems by (subst write_transport.simps) (auto intro: wrote_nothing)
  next
    case True
    then show ?thesis
      by (subst write_transport.simps, simp, intro post_bind [OF post_call_write])
         (auto split: sum.splits intro!: post_bind [OF wait] again more intro: stop wrote_zero)

  qed
qed

lemma post_write_transport:
  "post (write_transport p fd b 0 t) (\<lambda>ok v.
     \<exists>bs n. acts (map (Pair fd) bs) [] [] t v \<and> n \<le> length b \<and> concat bs = take n b \<and> (ok \<longrightarrow> n = length b))"
  by (rule post_mono [OF post_write_from]) (auto simp: wrote_from_def)

section \<open>Delivering frames\<close>

text \<open>The writes \<open>ws\<close> carry exactly \<open>frames\<close>, each to its descriptor, in one or more pieces.\<close>

inductive delivers :: "(int \<times> bytes) list \<Rightarrow> (int \<times> bytes) list \<Rightarrow> bool" where
  delivers_Nil: "delivers [] []"
| delivers_Cons: "concat cs = f \<Longrightarrow> delivers frames ws \<Longrightarrow> delivers ((fd, f) # frames) (map (Pair fd) cs @ ws)"

text \<open>The same, but the last frame that was begun may be cut short.\<close>

inductive delivers_cut :: "(int \<times> bytes) list \<Rightarrow> (int \<times> bytes) list \<Rightarrow> bool" where
  cut_all: "delivers_cut frames []"
| cut_last: "concat cs = take n f \<Longrightarrow> delivers_cut ((fd, f) # frames) (map (Pair fd) cs)"
| cut_Cons: "concat cs = f \<Longrightarrow> delivers_cut frames ws \<Longrightarrow> delivers_cut ((fd, f) # frames) (map (Pair fd) cs @ ws)"

inductive_cases delivers_ConsE: "delivers (x # frames) ws"

lemma delivers_append: "delivers fs ws \<Longrightarrow> delivers gs xs \<Longrightarrow> delivers (fs @ gs) (ws @ xs)"
  by (induction rule: delivers.induct) (auto intro: delivers_Nil delivers_Cons)

lemma delivers_cut_append: "delivers fs ws \<Longrightarrow> delivers_cut gs xs \<Longrightarrow> delivers_cut (fs @ gs) (ws @ xs)"
  by (induction rule: delivers.induct) (auto intro: cut_Cons)

lemma delivers_one: "concat cs = f \<Longrightarrow> delivers [(fd, f)] (map (Pair fd) cs)"
  using delivers_Cons [OF _ delivers_Nil] by simp

lemma delivers_is_cut: "delivers fs ws \<Longrightarrow> delivers_cut fs ws"
  using delivers_cut_append [OF _ cut_all [of "[]"]] by simp

lemma cut_more: "delivers_cut fs ws \<Longrightarrow> delivers_cut (fs @ gs) ws"
  by (induction rule: delivers_cut.induct) (auto intro: delivers_cut.intros)

section \<open>Host to device\<close>

definition host_frame_allowed :: "skw_h4_frame \<Rightarrow> bool" where
  "host_frame_allowed f =
     (if h4_type f = SKW_H4_COMMAND_PKT then frame_size f \<le> SKW_H4_COMMAND_MAX_FRAME
      else if h4_type f = SKW_H4_ACL_PKT then frame_size f \<le> SKW_H4_KERNEL_MAX_FRAME
      else if h4_type f = SKW_H4_SCO_PKT then frame_size f \<le> SKW_H4_SCO_MAX_FRAME
      else if h4_type f = SKW_H4_ISO_PKT then frame_size f \<le> SKW_H4_ISO_MAX_FRAME
      else False)"

definition host_frame_port :: "scom_conf \<Rightarrow> u8 \<Rightarrow> nat" where
  "host_frame_port c pkt_type =
     (if skwbt_transtype c AND SKWBT_TRANS_TYPE_SDIO = 0 then BT_COM_PORT_CMDEVT
      else if pkt_type = SKW_H4_ACL_PKT then BT_COM_PORT_ACL
      else if pkt_type = SKW_H4_SCO_PKT then BT_COM_PORT_AUDIO
      else if pkt_type = SKW_H4_ISO_PKT then BT_COM_PORT_ISO
      else BT_COM_PORT_CMDEVT)"

text \<open>Whether the device is woken by a count on \<open>btpw_fp\<close> before each frame.\<close>

definition wakes_device :: "scom_conf \<Rightarrow> bool" where
  "wakes_device c \<longleftrightarrow> skwbt_transtype c AND SKWBT_TRANS_TYPE_UART \<noteq> 0 \<and>
     \<not> skwbtuartonly c \<and> \<not> skwbtNoSleep c \<and> btpw_fp c \<ge> 0"

text \<open>
  \<open>send_host_frame_to_device\<close> for the first \<open>n\<close> bytes of the stream. The log gets the stream's
  address and finds the frame's length itself.
\<close>

definition send_host_frame_to_device :: "scom_conf \<Rightarrow> bytes \<Rightarrow> nat \<Rightarrow> transport \<Rightarrow> (bool \<times> transport) option" where
  "send_host_frame_to_device c buffer n t =
     (let send_port = host_frame_port c (buffer ! 0);
          t = note_event (Captured buffer False) t
      in do {
        (_, t) \<leftarrow> (if wakes_device c
          then call_write (btpw_fp c) [pkt_cnts t] (t\<lparr>pkt_cnts := pkt_cnts t + 1\<rparr>)
          else Some (Inr 0, t));
        let destination = ports t ! send_port;
        if dev_fd destination < 0 \<or> \<not> driver_state destination then Some (False, t)
        else write_transport send_port (dev_fd destination) (take n buffer) 0 t
      })"

definition hand_to_device :: "scom_conf \<Rightarrow> nat \<Rightarrow> bytes \<Rightarrow> nat \<Rightarrow> transport \<Rightarrow> (bool \<times> transport) option" where
  "hand_to_device c p stream n t = do {
     (ok, t) \<leftarrow> send_host_frame_to_device c stream n t;
     Some (ok, if ok then t else scomm_vendor_fail_transport p t)
   }"

text \<open>A frame's size is checked once it is known.\<close>

definition host_accepts :: "skw_h4_frame \<Rightarrow> bool" where
  "host_accepts f \<longleftrightarrow> \<not> (frame_size f \<noteq> 0 \<and> \<not> host_frame_allowed f)"

function scomm_vendor_recv_rawdata :: "scom_conf \<Rightarrow> nat \<Rightarrow> transport \<Rightarrow> (unit \<times> transport) option" where
  "scomm_vendor_recv_rawdata c p t =
     (let available = SKW_H4_STREAM_CAPACITY - length (host_stream t) in
      if available = 0 then Some ((), scomm_vendor_fail_transport p t)
      else do {
        (r, t) \<leftarrow> call_read (snd (uart_fd (ports t ! p))) available t;
        case r of
          Inr bs \<Rightarrow>
            if bs = [] then Some ((), scomm_vendor_fail_transport p t)
            else do {
              (stream, t) \<leftarrow> pump host_accepts (hand_to_device c p) (scomm_vendor_fail_transport p)
                (host_stream t @ bs) t;
              Some ((), t\<lparr>host_stream := stream\<rparr>)
            }
        | Inl e \<Rightarrow>
            if e = EINTR then scomm_vendor_recv_rawdata c p t
            else if e = EAGAIN then Some ((), t)
            else Some ((), scomm_vendor_fail_transport p t)
      })"
  by pat_completeness auto
termination
  by (relation "inv_image {(t', t). fewer t t'} (\<lambda>(_, _, t). t)")
     (auto intro!: script_wf dest: call_progress)

declare scomm_vendor_recv_rawdata.simps [simp del]

text \<open>
  The socket thread. Each ready entry is the socket object, whose only callback is
  \<open>scomm_vendor_recv_rawdata\<close>, or the wake-up descriptor, which has none.
\<close>

function epoll_until :: "nat \<Rightarrow> transport \<Rightarrow> ((errno + (bool \<times> revent list) list) \<times> transport) option" where
  "epoll_until p t = do {
     (r, t) \<leftarrow> call_epoll_wait t;
     case r of
       Inl e \<Rightarrow> if thread_running (ports t ! p) \<and> e = EINTR then epoll_until p t else Some (r, t)
     | Inr _ \<Rightarrow> Some (r, t)
   }"
  by pat_completeness auto
termination
  by (relation "inv_image {(t', t). fewer t t'} snd")
     (auto intro!: script_wf dest: call_progress)

declare epoll_until.simps [simp del]

fun serve_entries ::
  "scom_conf \<Rightarrow> nat \<Rightarrow> (bool \<times> revent list) list \<Rightarrow> transport \<Rightarrow> (unit \<times> transport) option" where
  "serve_entries c p [] t = Some ((), t)"
| "serve_entries c p ((is_socket, revents) # es) t =
     (if \<not> thread_running (ports t ! p) then Some ((), t)
      else if \<not> is_socket \<or> set revents \<inter> {POLLIN, POLLHUP, POLLRDHUP, POLLERR} = {} then serve_entries c p es t
      else do {
        (_, t) \<leftarrow> scomm_vendor_recv_rawdata c p t;
        serve_entries c p es t
      })"

section \<open>What the host's side delivers\<close>

definition target :: "scom_conf \<Rightarrow> transport \<Rightarrow> bytes \<Rightarrow> int" where
  "target c t f = dev_fd (ports t ! host_frame_port c (f ! 0))"

text \<open>The four ports are there, and no wake-up bytes mix with the frames.\<close>

definition plain :: "scom_conf \<Rightarrow> transport \<Rightarrow> bool" where
  "plain c t \<longleftrightarrow> length (ports t) = BT_COM_PORT_SIZE \<and> \<not> wakes_device c"

definition to_device :: "scom_conf \<Rightarrow> bytes \<Rightarrow> transport \<Rightarrow> transport \<Rightarrow> bool" where
  "to_device c f t v \<longleftrightarrow> (\<exists>ws es. acts ws [] es t v \<and> (plain c t \<longrightarrow> delivers [(target c t f, f)] ws))"

definition broken_to_device :: "scom_conf \<Rightarrow> nat \<Rightarrow> bytes \<Rightarrow> transport \<Rightarrow> transport \<Rightarrow> bool" where
  "broken_to_device c p f t v \<longleftrightarrow> (\<exists>ws es. acts ws [] es t v \<and>
     (plain c t \<longrightarrow> delivers_cut [(target c t f, f)] ws) \<and>
     (p < length (ports t) \<longrightarrow> \<not> thread_running (ports v ! p)))"

lemma host_frame_port_less: "host_frame_port c ty < BT_COM_PORT_SIZE"
  by (simp add: host_frame_port_def)

lemma acts_plain: "acts ws rs es t v \<Longrightarrow> plain c v = plain c t"
  by (simp add: plain_def acts_length)

lemma acts_target: "acts ws rs es t v \<Longrightarrow> plain c t \<Longrightarrow> target c v f = target c t f"
  unfolding target_def plain_def using acts_nth(1) host_frame_port_less by metis

text \<open>Appending quiet steps and failures.\<close>

lemma acts_fail:
  assumes "acts ws rs es t u"
  shows "\<exists>es'. acts ws rs es' t (scomm_vendor_fail_transport p u)"
proof -
  obtain es' where "acts [] [] es' u (scomm_vendor_fail_transport p u)" using fail_transport_acts by blast
  from acts_trans [OF assms this] show ?thesis by auto
qed

lemma acts_fail_stopped:
  assumes "acts ws rs es t u" "p < length (ports t)"
  shows "\<not> thread_running (ports (scomm_vendor_fail_transport p u) ! p)"
  using fail_transport_stopped [of p u] assms acts_length [OF assms(1)] by simp

lemma acts_counted: "acts ws rs es (t\<lparr>pkt_cnts := k\<rparr>) v = acts ws rs es t v"
  by (simp add: acts_def)

text \<open>What trying to send the frame \<open>f\<close> did.\<close>

definition sent_frame :: "scom_conf \<Rightarrow> bytes \<Rightarrow> bool \<Rightarrow> transport \<Rightarrow> transport \<Rightarrow> bool" where
  "sent_frame c f ok t v \<longleftrightarrow> (\<exists>ws es. acts ws [] es t v \<and>
    (plain c t \<longrightarrow> delivers_cut [(target c t f, f)] ws) \<and>
    (ok \<longrightarrow> plain c t \<longrightarrow> delivers [(target c t f, f)] ws))"

text \<open>The state when the frame is about to be written.\<close>

definition sending :: "scom_conf \<Rightarrow> transport \<Rightarrow> transport \<Rightarrow> bool" where
  "sending c t v \<longleftrightarrow> (\<exists>ws es. acts ws [] es t v \<and> (plain c t \<longrightarrow> ws = []))"

lemma sending_off: "sending c t v \<Longrightarrow> sent_frame c f False t v"
  unfolding sending_def sent_frame_def using cut_all by blast

lemma sending_wrote:
  assumes "sending c t v" "acts (map (Pair (target c v f)) bs) [] [] v x"
    and "concat bs = take k f" "ok \<longrightarrow> k = length f"
  shows "sent_frame c f ok t x"
proof -
  obtain ws es where v: "acts ws [] es t v" "plain c t \<longrightarrow> ws = []" using assms(1) by (auto simp: sending_def)
  have "acts (ws @ map (Pair (target c v f)) bs) [] es t x" using acts_trans [OF v(1) assms(2)] by simp
  moreover have "target c v f = target c t f" if "plain c t" using acts_target [OF v(1) that] .
  moreover have "concat bs = f" if ok using that assms(3,4) by simp
  ultimately show ?thesis
    unfolding sent_frame_def using v(2) cut_last [OF assms(3)] delivers_one [of bs f]
    by (metis append_Nil)
qed

lemma post_wake_device:
  "post (if wakes_device c then call_write (btpw_fp c) [pkt_cnts t] (t\<lparr>pkt_cnts := k\<rparr>) else Some (Inr 0, t))
    (\<lambda>_ v. sending c t v)"
proof (cases "wakes_device c")
  case True
  then show ?thesis
    by (simp, intro post_mono [OF post_call_write])
       (auto simp: plain_def acts_counted sending_def split: sum.splits)
qed (auto simp: sending_def intro!: exI [of _ "[]"])

lemma sending_note: "sending c (note_event e t) v \<Longrightarrow> sending c t v"
proof -
  assume "sending c (note_event e t) v"
  then obtain ws es where v: "acts ws [] es (note_event e t) v" "plain c (note_event e t) \<longrightarrow> ws = []"
    by (auto simp: sending_def)
  show ?thesis
    using acts_trans [OF acts_note v(1)] v(2) acts_plain [OF acts_note [of e t], of c]
    by (auto simp: sending_def)
qed

lemma post_send_host_frame:
  assumes "0 < n" "n \<le> length xs"
  shows "post (send_host_frame_to_device c xs n t) (\<lambda>ok v. sent_frame c (take n xs) ok t v)"
proof -
  let ?f = "take n xs" and ?p = "host_frame_port c (xs ! 0)" and ?u = "note_event (Captured xs False) t"
  have fd: "dev_fd (ports v ! ?p) = target c v ?f" for v using assms by (simp add: target_def)
  have send: "post (write_transport ?p (dev_fd (ports v ! ?p)) ?f 0 v) (\<lambda>ok x. sent_frame c ?f ok t x)"
    if "sending c t v" for v
    unfolding fd by (rule post_mono [OF post_write_transport]) (use sending_wrote [OF that] in blast)
  have wake: "post (if wakes_device c then call_write (btpw_fp c) [pkt_cnts ?u] (?u\<lparr>pkt_cnts := k\<rparr>) else Some (Inr 0, ?u))
      (\<lambda>_ v. sending c t v)" for k
    by (rule post_mono [OF post_wake_device]) (rule sending_note)
  show ?thesis
    unfolding send_host_frame_to_device_def Let_def
    by (rule post_bind [OF wake]) (auto intro: send sending_off)
qed

lemma post_hand_to_device:
  assumes "n \<le> length xs" "0 < n"
  shows "post (hand_to_device c p xs n t) (\<lambda>ok v.
    if ok then to_device c (take n xs) t v else broken_to_device c p (take n xs) t v)"
  unfolding hand_to_device_def
proof (rule post_bind [OF post_send_host_frame [OF assms(2,1)]], clarsimp, intro conjI impI)
  fix ok v
  assume "sent_frame c (take n xs) ok t v"
  then obtain ws es where a: "acts ws [] es t v"
    "plain c t \<longrightarrow> delivers_cut [(target c t (take n xs), take n xs)] ws"
    "ok \<longrightarrow> plain c t \<longrightarrow> delivers [(target c t (take n xs), take n xs)] ws"
    by (auto simp: sent_frame_def)
  show "to_device c (take n xs) t v" if ok using a that unfolding to_device_def by blast
  obtain es' where f: "acts ws [] es' t (scomm_vendor_fail_transport p v)" using acts_fail [OF a(1)] by blast
  show "broken_to_device c p (take n xs) t (scomm_vendor_fail_transport p v)" if "\<not> ok"
    unfolding broken_to_device_def using f a(2) acts_fail_stopped [OF a(1)] by blast
qed

interpretation host_policy: h4_policy host_accepts
  by unfold_locales (auto simp: host_accepts_def host_frame_allowed_def)

interpretation device: frame_pump host_accepts "hand_to_device c p" "scomm_vendor_fail_transport p"
  "to_device c" "broken_to_device c p" for c p
  by unfold_locales (rule post_hand_to_device)

lemma each_to_device:
  "each (to_device c) fs t v \<Longrightarrow>
   \<exists>ws es. acts ws [] es t v \<and> (plain c t \<longrightarrow> delivers (map (\<lambda>f. (target c t f, f)) fs) ws)"
proof (induction fs arbitrary: t)
  case Nil
  then show ?case by simp (metis acts_refl delivers_Nil)
next
  case (Cons f fs)
  then obtain u where u: "to_device c f t u" "each (to_device c) fs u v" by auto
  obtain ws es where a: "acts ws [] es t u" "plain c t \<longrightarrow> delivers [(target c t f, f)] ws"
    using u(1) by (auto simp: to_device_def)
  obtain xs fs' where b: "acts xs [] fs' u v" "plain c u \<longrightarrow> delivers (map (\<lambda>f. (target c u f, f)) fs) xs"
    using Cons.IH [OF u(2)] by blast
  have "delivers (map (\<lambda>f. (target c t f, f)) (f # fs)) (ws @ xs)" if "plain c t"
    using delivers_append [of "[(target c t f, f)]" ws] a b that acts_plain [OF a(1)] acts_target [OF a(1) that]
    by simp
  with acts_trans [OF a(1) b(1)] show ?case by auto
qed

text \<open>
  \<open>host_inv\<close>: since \<open>t0\<close>, the frames of all the bytes read from the host's socket have been
  delivered, each to the device of its type, and what is left of them is in \<open>host_stream\<close>.
  \<open>socket_end\<close>: so it is but for the last read, of whose frames the first ones have been
  delivered, the last of these possibly in part.
\<close>

definition host_inv :: "scom_conf \<Rightarrow> nat \<Rightarrow> transport \<Rightarrow> transport \<Rightarrow> bool" where
  "host_inv c p t0 t \<longleftrightarrow> (\<exists>reads fs ws. flags_cleared (ports t0) (ports t) \<and>
     received t = received t0 @ map (Pair (snd (uart_fd (ports t0 ! p)))) reads \<and>
     unframe (h4_framer host_accepts) (concat reads) = (fs, host_stream t, True) \<and>
     sent t = sent t0 @ ws \<and> delivers (map (\<lambda>f. (target c t0 f, f)) fs) ws)"

definition socket_end :: "scom_conf \<Rightarrow> nat \<Rightarrow> transport \<Rightarrow> transport \<Rightarrow> bool" where
  "socket_end c p t0 t \<longleftrightarrow> (\<exists>reads recent fs left gs rest ok ws xs.
     received t = received t0 @ map (Pair (snd (uart_fd (ports t0 ! p)))) (reads @ recent) \<and>
     length recent \<le> 1 \<and>
     unframe (h4_framer host_accepts) (concat reads) = (fs, left, True) \<and>
     unframe (h4_framer host_accepts) (left @ concat recent) = (gs, rest, ok) \<and>
     sent t = sent t0 @ ws @ xs \<and> delivers (map (\<lambda>f. (target c t0 f, f)) fs) ws \<and>
     delivers_cut (map (\<lambda>f. (target c t0 f, f)) gs) xs)"

lemma host_inv_end: "host_inv c p t0 t \<Longrightarrow> socket_end c p t0 t"
proof -
  assume "host_inv c p t0 t"
  then obtain reads fs ws where a: "received t = received t0 @ map (Pair (snd (uart_fd (ports t0 ! p)))) reads"
     "unframe (h4_framer host_accepts) (concat reads) = (fs, host_stream t, True)"
     "sent t = sent t0 @ ws" "delivers (map (\<lambda>f. (target c t0 f, f)) fs) ws"
    by (auto simp: host_inv_def)
  obtain gs rest ok where "unframe (h4_framer host_accepts) (host_stream t @ concat []) = (gs, rest, ok)"
    by (metis prod_cases3)
  with a show ?thesis
    unfolding socket_end_def
    by (intro exI [of _ reads] exI [of _ "[]"] exI [of _ fs] exI [of _ "host_stream t"] exI [of _ gs]
        exI [of _ rest] exI [of _ ok] exI [of _ ws] exI [of _ "[]"]) (simp add: cut_all)
qed

lemma host_inv_quiet: "host_inv c p t0 t \<Longrightarrow> acts [] [] es t u \<Longrightarrow> host_inv c p t0 u"
  unfolding host_inv_def acts_def using flags_cleared_trans by fastforce

lemma host_inv_start:
  "host_stream t = [] \<Longrightarrow> host_inv c p t t"
  unfolding host_inv_def by (intro exI [of _ "[]"]) (simp add: delivers_Nil)

lemma host_end_quiet: "socket_end c p t0 t \<Longrightarrow> acts [] [] es t u \<Longrightarrow> socket_end c p t0 u"
  unfolding socket_end_def by (simp add: acts_def)

lemma host_end_stream: "socket_end c p t0 (t\<lparr>host_stream := s\<rparr>) = socket_end c p t0 t"
  by (simp add: socket_end_def)

lemma host_pumped:
  assumes start: "plain c t0" "p < BT_COM_PORT_SIZE"
    and inv: "host_inv c p t0 t"
    and read: "acts [] [(snd (uart_fd (ports t ! p)), bs)] [] t u"
    and pumped: "device.pumped p c (host_stream t @ bs) u left v"
  shows "socket_end c p t0 v \<and> (thread_running (ports v ! p) \<longrightarrow> host_inv c p t0 (v\<lparr>host_stream := left\<rparr>)) \<and>
    length (script v) \<le> length (script u)"
proof -
  obtain reads fs ws where a: "flags_cleared (ports t0) (ports t)"
    "received t = received t0 @ map (Pair (snd (uart_fd (ports t0 ! p)))) reads"
    "unframe (h4_framer host_accepts) (concat reads) = (fs, host_stream t, True)"
    "sent t = sent t0 @ ws" "delivers (map (\<lambda>f. (target c t0 f, f)) fs) ws"
    using inv by (auto simp: host_inv_def)
  have fl: "flags_cleared (ports t0) (ports u)"
    using flags_cleared_trans [OF a(1)] read by (simp add: acts_def)
  have len: "length (ports t0) = 4" using start by (simp add: plain_def)
  have same: "target c u f = target c t0 f" for f
    using flags_cleared_nth [OF fl, of "host_frame_port c (f ! 0)"] host_frame_port_less [of c "f ! 0"] len
    by (simp add: target_def flag_cleared_def)
  have fd: "snd (uart_fd (ports t ! p)) = snd (uart_fd (ports t0 ! p))"
    using flags_cleared_nth [OF a(1), of p] start(2) len by (simp add: flag_cleared_def)
  have pl: "plain c u" using flags_cleared_length [OF fl] start(1) by (simp add: plain_def)
  have pu: "p < length (ports u)" using pl start(2) by (simp add: plain_def)
  have u: "received u = received t0 @ map (Pair (snd (uart_fd (ports t0 ! p)))) (reads @ [bs])"
    "sent u = sent t0 @ ws"
    using read a(2,4) fd by (auto simp: acts_def)
  obtain gs rest ok where g: "unframe (h4_framer host_accepts) (host_stream t @ bs) = (gs, rest, ok)"
    "ok \<and> left = rest \<and> each (to_device c) gs u v \<or>
      (\<exists>done more w. gs = done @ more \<and> each (to_device c) done u w \<and>
        (more = [] \<and> \<not> ok \<and> v = scomm_vendor_fail_transport p w \<or>
         (\<exists>f fs'. more = f # fs' \<and> broken_to_device c p f w v)))"
    using pumped unfolding device.pumped_def by blast
  let ?T = "\<lambda>fs. map (\<lambda>f. (target c t0 f, f)) fs"
  have fin: "socket_end c p t0 x" if "acts xs [] es u x" "delivers_cut (?T gs) xs" for x xs es
    unfolding socket_end_def
    using that(1) u g(1) a(3,5) that(2)
    by (intro exI [of _ reads] exI [of _ "[bs]"] exI [of _ fs] exI [of _ "host_stream t"] exI [of _ gs]
        exI [of _ rest] exI [of _ ok] exI [of _ ws] exI [of _ xs]) (simp add: acts_def)
  have each: "\<exists>xs es. acts xs [] es u w \<and> delivers (?T hs) xs" if "each (to_device c) hs u w" for hs w
    using each_to_device [OF that] pl same by simp
  from g(2) show ?thesis
  proof (elim disjE exE conjE)
    assume ok: "ok" "left = rest" and e: "each (to_device c) gs u v"
    from each [OF e] obtain xs es where x: "acts xs [] es u v" "delivers (?T gs) xs" by blast
    have "host_inv c p t0 (v\<lparr>host_stream := left\<rparr>)"
      unfolding host_inv_def
    proof (intro exI conjI)
      show "unframe (h4_framer host_accepts) (concat (reads @ [bs])) = (fs @ gs, host_stream (v\<lparr>host_stream := left\<rparr>), True)"
        using host_policy.packets.unframe_append [of "concat reads" bs] a(3) g(1) ok by (simp add: feed_def)
      show "delivers (?T (fs @ gs)) (ws @ xs)" using delivers_append [OF a(5) x(2)] by simp
    qed (use x(1) u flags_cleared_trans [OF fl] in \<open>auto simp: acts_def\<close>)
    with fin [OF x(1) delivers_is_cut [OF x(2)]] x(1) show ?thesis by (simp add: acts_def)
  next
    fix d more w
    assume d: "gs = d @ more" "each (to_device c) d u w" "more = []" "\<not> ok" "v = scomm_vendor_fail_transport p w"
    from each [OF d(2)] obtain xs es where x: "acts xs [] es u w" "delivers (?T d) xs" by blast
    obtain es' where y: "acts xs [] es' u v" using acts_fail [OF x(1)] d(5) by blast
    have "\<not> thread_running (ports v ! p)" using acts_fail_stopped [OF x(1) pu] d(5) by simp
    with fin [OF y] delivers_is_cut [OF x(2)] d(1,3) y show ?thesis by (simp add: acts_def)
  next
    fix d more w f fs'
    assume d: "gs = d @ more" "each (to_device c) d u w" "more = f # fs'" "broken_to_device c p f w v"
    from each [OF d(2)] obtain xs es where x: "acts xs [] es u w" "delivers (?T d) xs" by blast
    have plw: "plain c w" using acts_plain [OF x(1)] pl by simp
    obtain ys es' where y: "acts ys [] es' w v" "delivers_cut [(target c w f, f)] ys" "\<not> thread_running (ports v ! p)"
      using d(4) plw start(2) by (auto simp: broken_to_device_def plain_def)
    have "target c w f = target c t0 f" using acts_target [OF x(1) pl] same by simp
    then have "delivers_cut (?T (d @ [f])) (xs @ ys)" using delivers_cut_append [OF x(2)] y(2) by simp
    from cut_more [OF this, of "?T fs'"] have "delivers_cut (?T gs) (xs @ ys)" using d(1,3) by simp
    moreover have "acts (xs @ ys) [] (es @ es') u v" using acts_trans [OF x(1) y(1)] by simp
    ultimately show ?thesis using fin y(3) by (simp add: acts_def)
  qed
qed

text \<open>Whatever pumping does, it acts on the devices.\<close>

lemma pumped_acts:
  assumes "device.pumped p c xs u left v"
  shows "\<exists>ws es. acts ws [] es u v"
proof (rule device.pumped_invariant [OF assms, of "\<lambda>v. \<exists>ws es. acts ws [] es u v"])
  have step: "\<exists>ws es. acts ws [] es u t" if "\<exists>ws es. acts ws [] es u s" "\<exists>ws es. acts ws [] es s t" for s t
    using that acts_trans by fastforce
  show "\<exists>ws es. acts ws [] es u t" if "to_device c f s t" "\<exists>ws es. acts ws [] es u s" for f s t
    using step that unfolding to_device_def by blast
  show "\<exists>ws es. acts ws [] es u t" if "broken_to_device c p f s t" "\<exists>ws es. acts ws [] es u s" for f s t
    using step that unfolding broken_to_device_def by blast
  show "\<exists>ws es. acts ws [] es u (scomm_vendor_fail_transport p s)" if "\<exists>ws es. acts ws [] es u s" for s
    using step [OF that] fail_transport_acts by blast
  show "\<exists>ws es. acts ws [] es u u" using acts_refl by blast
qed

lemma pumped_script: "device.pumped p c xs u left v \<Longrightarrow> length (script v) \<le> length (script u)"
  using pumped_acts by (fastforce simp: acts_def)

definition no_longer :: "transport \<Rightarrow> transport \<Rightarrow> bool" where
  "no_longer t v \<longleftrightarrow> length (script v) \<le> length (script t)"

lemma fewer_no_longer: "fewer t u \<Longrightarrow> no_longer u v \<Longrightarrow> fewer t v"
  by (simp add: fewer_def no_longer_def)

lemma no_longer_fail: "no_longer t (scomm_vendor_fail_transport p t)"
  using fail_transport_acts [of t p] by (auto simp: no_longer_def acts_def)

lemma recv_rawdata_later:
  "post (scomm_vendor_recv_rawdata c p t) (\<lambda>_ v. no_longer t v)"
proof (induction t rule: transport_induct)
  case (less t)
  have fail: "no_longer t (scomm_vendor_fail_transport p u)" if "fewer t u" for u
    using no_longer_fail [of u p] that by (simp add: no_longer_def fewer_def)
  have again: "post (scomm_vendor_recv_rawdata c p u) (\<lambda>_ v. no_longer t v)" if "fewer t u" for u
    by (rule post_mono [OF less [OF that]]) (use that in \<open>simp add: no_longer_def fewer_def\<close>)
  have pump: "post (pump host_accepts (hand_to_device c p) (scomm_vendor_fail_transport p) xs u)
      (\<lambda>_ v. no_longer t v)" if "fewer t u" for xs u
    by (rule post_mono [OF device.post_pump])
       (use that pumped_script in \<open>fastforce simp: no_longer_def fewer_def\<close>)
  have stream: "no_longer t (v\<lparr>host_stream := s\<rparr>) = no_longer t v" for v s by (simp add: no_longer_def)
  have quiet: "no_longer t u" if "fewer t u" for u using that by (simp add: no_longer_def fewer_def)
  show ?case
    by (subst scomm_vendor_recv_rawdata.simps)
       (auto simp: Let_def stream no_longer_fail split: sum.splits
         intro!: post_bind [OF post_call_read] post_bind [OF pump] again intro: fail quiet)
qed

lemma post_recv_rawdata:
  assumes "plain c t0" "p < BT_COM_PORT_SIZE"
  shows "host_inv c p t0 t \<Longrightarrow> post (scomm_vendor_recv_rawdata c p t) (\<lambda>_ v. socket_end c p t0 v \<and>
    (thread_running (ports v ! p) \<longrightarrow> host_inv c p t0 v))"
proof (induction t rule: transport_induct)
  case (less t)
  let ?P = "\<lambda>(_ :: unit) v. socket_end c p t0 v \<and> (thread_running (ports v ! p) \<longrightarrow> host_inv c p t0 v)"
  have pl: "p < length (ports u)" if "flags_cleared (ports t0) (ports u)" for u
    using flags_cleared_length [OF that] assms by (simp add: plain_def)
  have fl: "flags_cleared (ports t0) (ports t)" using less.prems by (auto simp: host_inv_def)
  have stopped: "?P x (scomm_vendor_fail_transport p u)"
    if "socket_end c p t0 u" "flags_cleared (ports t0) (ports u)" for u x
  proof -
    obtain es where "acts [] [] es u (scomm_vendor_fail_transport p u)" using fail_transport_acts by blast
    with host_end_quiet [OF that(1)] fail_transport_stopped [OF pl [OF that(2)]] show ?thesis by blast
  qed
  have fail: "?P x (scomm_vendor_fail_transport p u)" if "acts [] [] es t u" for u x es
  proof (rule stopped)
    show "socket_end c p t0 u" using host_end_quiet [OF host_inv_end [OF less.prems] that] .
    show "flags_cleared (ports t0) (ports u)" using flags_cleared_trans [OF fl] that by (simp add: acts_def)
  qed
  have again: "post (scomm_vendor_recv_rawdata c p u) ?P" if "fewer t u" "acts [] [] [] t u" for u
    by (rule less.IH [OF that(1) host_inv_quiet [OF less.prems that(2)]])
  have quiet: "?P x u" if "acts [] [] [] t u" for u x
    using host_inv_quiet [OF less.prems that] host_inv_end by blast
  have pump: "post (pump host_accepts (hand_to_device c p) (scomm_vendor_fail_transport p) (host_stream u @ bs) u)
      (\<lambda>left v. socket_end c p t0 v \<and> (thread_running (ports v ! p) \<longrightarrow> host_inv c p t0 (v\<lparr>host_stream := left\<rparr>)))"
    if "acts [] [(snd (uart_fd (ports t ! p)), bs)] [] t u" for bs u
  proof (rule post_mono [OF device.post_pump])
    have "host_stream u = host_stream t" using that by (simp add: acts_def)
    then show "socket_end c p t0 v \<and> (thread_running (ports v ! p) \<longrightarrow> host_inv c p t0 (v\<lparr>host_stream := left\<rparr>))"
      if "device.pumped p c (host_stream u @ bs) u left v" for left v
      using host_pumped [OF assms less.prems \<open>acts [] [(snd (uart_fd (ports t ! p)), bs)] [] t u\<close>] that by auto
  qed
  have closed: "?P x (scomm_vendor_fail_transport p u)"
    if "acts [] [(snd (uart_fd (ports t ! p)), [])] [] t u" for u x
  proof (rule stopped)
    have "device.pumped p c (host_stream t @ []) u (host_stream t) u"
    proof -
      obtain reads fs where "unframe (h4_framer host_accepts) (concat reads) = (fs, host_stream t, True)"
        using less.prems by (auto simp: host_inv_def)
      from host_policy.packets.unframe_again [OF this]
      show ?thesis by (auto simp: device.pumped_def)
    qed
    from host_pumped [OF assms less.prems that this] show "socket_end c p t0 u" by blast
    show "flags_cleared (ports t0) (ports u)" using flags_cleared_trans [OF fl] that by (simp add: acts_def)
  qed
  show ?case
    using fail [OF acts_refl]
    by (subst scomm_vendor_recv_rawdata.simps)
       (auto simp: Let_def host_end_stream split: sum.splits
         intro!: post_bind [OF post_call_read] post_bind [OF pump] again
         dest: fail quiet closed)
qed

text \<open>The loop of the socket thread.\<close>

lemma serve_entries_later: "post (serve_entries c p es t) (\<lambda>_ v. no_longer t v)"
proof (induction c p es t rule: serve_entries.induct)
  case (2 c p is_socket revents es t)
  have one: "post (scomm_vendor_recv_rawdata c p t) (\<lambda>_ v. no_longer t v)" by (rule recv_rawdata_later)
  show ?case
    using 2 one by (auto simp: post_iff no_longer_def split: bind_splits) (meson le_trans)+
qed (simp add: no_longer_def)

lemma post_epoll_until:
  "post (epoll_until p t) (\<lambda>r v. fewer t v \<and> acts [] [] [] t v)"
proof (induction t rule: transport_induct)
  case (less t)
  have again: "post (epoll_until p u) (\<lambda>r v. fewer t v \<and> acts [] [] [] t v)"
    if "fewer t u" "acts [] [] [] t u" for u
    by (rule post_mono [OF less [OF that(1)]]) (use that fewer_trans acts_quiet in blast)
  show ?case
    by (subst epoll_until.simps, rule post_bind [OF post_call_epoll_wait]) (auto split: sum.splits intro!: again)
qed

function scomm_vendor_recv_socket_thread :: "scom_conf \<Rightarrow> nat \<Rightarrow> transport \<Rightarrow> (unit \<times> transport) option" where
  "scomm_vendor_recv_socket_thread c p t =
     (if \<not> thread_running (ports t ! p) then Some ((), t)
      else do {
        (ret, t) \<leftarrow> epoll_until p t;
        case ret of
          Inl e \<Rightarrow> Some ((), if thread_running (ports t ! p) then scomm_vendor_fail_transport p t else t)
        | Inr es \<Rightarrow> do {
            (_, t) \<leftarrow> serve_entries c p es t;
            scomm_vendor_recv_socket_thread c p t
          }
      })"
  by pat_completeness auto
termination
  by (relation "inv_image {(t', t). fewer t t'} (\<lambda>(_, _, t). t)")
     (auto intro!: script_wf intro: fewer_no_longer
       dest!: postD [OF post_epoll_until] postD [OF serve_entries_later])

declare scomm_vendor_recv_socket_thread.simps [simp del]

lemma post_serve_entries:
  assumes "plain c t0" "p < BT_COM_PORT_SIZE"
  shows "host_inv c p t0 t \<Longrightarrow> post (serve_entries c p es t) (\<lambda>_ v. socket_end c p t0 v \<and>
    (thread_running (ports v ! p) \<longrightarrow> host_inv c p t0 v))"
proof (induction es arbitrary: t)
  case Nil
  then show ?case by (simp add: host_inv_end)
next
  case (Cons e es)
  have rest: "post (serve_entries c p es v) (\<lambda>_ v. socket_end c p t0 v \<and>
      (thread_running (ports v ! p) \<longrightarrow> host_inv c p t0 v))"
    if "socket_end c p t0 v \<and> (thread_running (ports v ! p) \<longrightarrow> host_inv c p t0 v)" for v
  proof (cases "thread_running (ports v ! p)")
    case True
    then show ?thesis using that Cons.IH by blast
  next
    case False
    then show ?thesis using that by (cases es) auto
  qed
  show ?case
    using Cons.prems host_inv_end [OF Cons.prems] Cons.IH [OF Cons.prems]
    by (cases e) (auto intro!: post_bind [OF post_recv_rawdata [OF assms Cons.prems]] rest)
qed

lemma post_recv_socket_thread:
  assumes "plain c t0" "p < BT_COM_PORT_SIZE"
  shows "host_inv c p t0 t \<Longrightarrow> post (scomm_vendor_recv_socket_thread c p t)
    (\<lambda>_ v. socket_end c p t0 v \<and> \<not> thread_running (ports v ! p))"
proof (induction t rule: transport_induct)
  case (less t)
  let ?P = "\<lambda>(_ :: unit) v. socket_end c p t0 v \<and> \<not> thread_running (ports v ! p)"
  have fl: "flags_cleared (ports t0) (ports t)" using less.prems by (auto simp: host_inv_def)
  have pl: "p < length (ports t)" using flags_cleared_length [OF fl] assms by (simp add: plain_def)
  have quiet: "socket_end c p t0 u" if "acts [] [] [] t u" for u
    by (rule host_end_quiet [OF host_inv_end [OF less.prems] that])
  have fail: "socket_end c p t0 (scomm_vendor_fail_transport p u) \<and>
      \<not> thread_running (ports (scomm_vendor_fail_transport p u) ! p)" if u: "acts [] [] [] t u" for u
  proof -
    obtain es where "acts [] [] es u (scomm_vendor_fail_transport p u)" using fail_transport_acts by blast
    moreover have "p < length (ports u)" using pl acts_length [OF u] by simp
    ultimately show ?thesis using host_end_quiet [OF quiet [OF u]] fail_transport_stopped by blast
  qed
  have serve: "post (serve_entries c p es u) (\<lambda>_ v. fewer t v \<and> socket_end c p t0 v \<and>
      (thread_running (ports v ! p) \<longrightarrow> host_inv c p t0 v))" if "fewer t u" "acts [] [] [] t u" for es u
    by (rule post_mono [OF post_conj [OF serve_entries_later
          post_serve_entries [OF assms host_inv_quiet [OF less.prems that(2)]]]])
       (use that(1) in \<open>auto simp: no_longer_def fewer_def\<close>)
  have again: "post (scomm_vendor_recv_socket_thread c p v) ?P"
    if "fewer t v" "socket_end c p t0 v" "thread_running (ports v ! p) \<longrightarrow> host_inv c p t0 v" for v
  proof (cases "thread_running (ports v ! p)")
    case True
    then show ?thesis using less.IH that by blast
  next
    case False
    then show ?thesis using that(2) by (subst scomm_vendor_recv_socket_thread.simps) simp
  qed
  show ?case
  proof (cases "thread_running (ports t ! p)")
    case False
    then show ?thesis
      using host_inv_end [OF less.prems] by (subst scomm_vendor_recv_socket_thread.simps) simp
  next
    case True
    then show ?thesis
      by (subst scomm_vendor_recv_socket_thread.simps, simp, intro post_bind [OF post_epoll_until])
         (auto split: sum.splits intro!: post_bind [OF serve] again dest: quiet fail)
  qed
qed

section \<open>Properties\<close>

text \<open>
  A transport in use, for the witnesses: the four ports on the devices 10 to 13, the last one
  closed, the host's socket on 21.
\<close>

definition sample_port :: "int \<Rightarrow> port" where
  "sample_port fd = idle_port\<lparr>dev_fd := fd, thread_running := True, driver_state := fd \<ge> 0,
     uart_fd := (20, 21), wake_fd := (30, 31)\<rparr>"

definition sample_transport :: "reply list \<Rightarrow> transport" where
  "sample_transport sc = \<lparr>script = sc, ports = map sample_port [10, 11, 12, -1], host_stream = [],
     pkt_cnts = 0, sent = [], received = [], events = []\<rparr>"

definition sdio_conf :: scom_conf where
  "sdio_conf = \<lparr>skwbt_transtype = 0x21, skwbtuartonly = False, skwbtNoSleep = False, btpw_fp = -1\<rparr>"

text \<open>A command and an ACL packet in three reads, the second packet for another device; then the end.\<close>

definition host_script :: "reply list" where
  "host_script = [Epolled [(False, [POLLIN]), (True, [POLLIN])], Got [1, 3],
     Epolled [(True, [POLLIN])], Got [0x0c, 0, 2, 1, 0], Wrote 2, Write_failed EAGAIN, Polled [[POLLOUT]], Wrote 2,
     Epolled [(True, [POLLIN])], Got [1, 0, 0x55], Wrote 6,
     Epolled [(True, [POLLHUP])], Got []]"

text \<open>
  C13: Host to controller, each packet goes to its device, whole and in order. When the socket
  thread ends, its port has been stopped, and of all the bytes read from the host's socket,
  however they were cut into reads, exactly the packets were written, each to the device of
  its type: all packets up to the last read but one, and of those the last read completed a
  first part, of which at most the final packet is cut short. (No wake-up bytes mix with the
  packets: the configurations without the separate wake-up device.)
\<close>

theorem host_frames_delivered:
  assumes "scomm_vendor_recv_socket_thread c p t = Some ((), t')"
    and "length (ports t) = BT_COM_PORT_SIZE" "p < BT_COM_PORT_SIZE" "\<not> wakes_device c" "host_stream t = []"
  shows "\<not> thread_running (ports t' ! p) \<and>
    (\<exists>reads recent fs left gs rest ok ws xs.
       received t' = received t @ map (Pair (snd (uart_fd (ports t ! p)))) (reads @ recent) \<and> length recent \<le> 1 \<and>
       unframe (h4_framer host_accepts) (concat reads) = (fs, left, True) \<and>
       unframe (h4_framer host_accepts) (left @ concat recent) = (gs, rest, ok) \<and>
       sent t' = sent t @ ws @ xs \<and>
       delivers (map (\<lambda>f. (dev_fd (ports t ! host_frame_port c (f ! 0)), f)) fs) ws \<and>
       delivers_cut (map (\<lambda>f. (dev_fd (ports t ! host_frame_port c (f ! 0)), f)) gs) xs)"
proof -
  have "plain c t" using assms(2,4) by (simp add: plain_def)
  from postD [OF post_recv_socket_thread [OF this assms(3) host_inv_start [OF assms(5)]] assms(1)]
  have e: "socket_end c p t t'" and r: "\<not> thread_running (ports t' ! p)" by simp_all
  from e show ?thesis unfolding socket_end_def target_def by (intro conjI [OF r])
qed

theorem host_frames_delivered_witness:
  "\<exists>t'. scomm_vendor_recv_socket_thread sdio_conf 0 (sample_transport host_script) = Some ((), t') \<and>
     sent t' = [(10, [1, 3]), (10, [0x0c, 0]), (11, [2, 1, 0, 1, 0, 0x55])] \<and> \<not> thread_running (ports t' ! 0)"
proof -
  let ?t = "sample_transport host_script"
  have "map_option (\<lambda>(u, v). sent v) (scomm_vendor_recv_socket_thread sdio_conf 0 ?t) =
      Some [(10, [1, 3]), (10, [0x0c, 0]), (11, [2, 1, 0, 1, 0, 0x55])]"
    by code_simp
  then obtain t' where t': "scomm_vendor_recv_socket_thread sdio_conf 0 ?t = Some ((), t')"
    "sent t' = [(10, [1, 3]), (10, [0x0c, 0]), (11, [2, 1, 0, 1, 0, 0x55])]"
    by auto
  have "\<not> wakes_device sdio_conf" by (simp add: wakes_device_def sdio_conf_def)
  from host_frames_delivered [OF t'(1) _ _ this] t' show ?thesis by (simp add: sample_transport_def)
qed

text \<open>
  A valid packet for a port that is not open ends the transport: with the board's
  configuration the ISO port has no device, and the first ISO packet from the host is not
  written anywhere, and stops the command port, as any ISO packet does when its device is
  not open.
\<close>

theorem unopened_port_ends_transport:
  assumes "validated_iso \<noteq> []" "validated_iso ! 0 = SKW_H4_ISO_PKT"
    and "skwbt_transtype c AND SKWBT_TRANS_TYPE_SDIO \<noteq> 0" "\<not> wakes_device c"
    and "dev_fd (ports t ! BT_COM_PORT_ISO) < 0" "p < length (ports t)"
  shows "\<exists>t'. hand_to_device c p validated_iso (length validated_iso) t = Some (False, t') \<and>
    sent t' = sent t \<and> \<not> thread_running (ports t' ! p)"
proof -
  let ?u = "note_event (Captured validated_iso False) t"
  have port: "host_frame_port c SKW_H4_ISO_PKT = BT_COM_PORT_ISO"
    using assms(3) by (simp add: host_frame_port_def pkt_defs)
  have "send_host_frame_to_device c validated_iso (length validated_iso) t = Some (False, ?u)"
    using assms(2,4,5) port by (simp add: send_host_frame_to_device_def note_event_def)
  then have h: "hand_to_device c p validated_iso (length validated_iso) t =
      Some (False, scomm_vendor_fail_transport p ?u)"
    by (simp add: hand_to_device_def)
  obtain es where "acts [] [] es ?u (scomm_vendor_fail_transport p ?u)" using fail_transport_acts by blast
  then have "sent (scomm_vendor_fail_transport p ?u) = sent t" by (simp add: acts_def note_event_def)
  moreover have "\<not> thread_running (ports (scomm_vendor_fail_transport p ?u) ! p)"
    using fail_transport_stopped [of p ?u] assms(6) by (simp add: note_event_def)
  ultimately show ?thesis using h by blast
qed

theorem unopened_port_ends_transport_witness:
  "host_accepts (snd (skw_h4_decode [5, 1, 0, 1, 0, 0x55])) \<and>
   (\<exists>t'. hand_to_device sdio_conf 0 [5, 1, 0, 1, 0, 0x55] (length [5, 1, 0, 1, 0, 0x55 :: u8]) (sample_transport []) =
       Some (False, t') \<and>
     sent t' = sent (sample_transport []) \<and> \<not> thread_running (ports t' ! 0))"
proof (rule conjI)
  show "host_accepts (snd (skw_h4_decode [5, 1, 0, 1, 0, 0x55]))" by code_simp
  show "\<exists>t'. hand_to_device sdio_conf 0 [5, 1, 0, 1, 0, 0x55] (length [5, 1, 0, 1, 0, 0x55 :: u8]) (sample_transport []) =
       Some (False, t') \<and>
     sent t' = sent (sample_transport []) \<and> \<not> thread_running (ports t' ! 0)"
    by (rule unopened_port_ends_transport)
       (simp_all add: pkt_defs sdio_conf_def wakes_device_def sample_transport_def sample_port_def)
qed

end
