(* ===== verification/Scom_Receiver.thy ===== *)
theory Scom_Receiver
  imports Scom_Transport "HOL-Library.Sublist"
begin

text \<open>
  The other direction of the vendor library's transport: the thread of a port that takes the
  controller's frames off its device and hands them to the host's socket, and the log frames
  to the controller's log.
\<close>

definition scomm_vendor_send_to_host :: "nat \<Rightarrow> bytes \<Rightarrow> transport \<Rightarrow> (bool \<times> transport) option" where
  "scomm_vendor_send_to_host p buffer t = do {
     (result, t) \<leftarrow> (if snd (uart_fd (ports t ! p)) \<ge> 0
       then write_transport p (snd (uart_fd (ports t ! p))) buffer 0 t else Some (False, t));
     Some (result, if \<not> result \<and> thread_running (ports t ! p) then scomm_vendor_fail_transport p t else t)
   }"

definition scomm_vendor_send_hw_error :: "transport \<Rightarrow> (unit \<times> transport) option" where
  "scomm_vendor_send_hw_error t = do {
     (_, t) \<leftarrow> scomm_vendor_send_to_host 0 [0x04, 0x10, 0x01, 0x10] t;
     Some ((), t)
   }"

text \<open>The index of the first byte that starts a packet, or the length.\<close>

fun scomm_vendor_find_valid_type :: "bytes \<Rightarrow> nat" where
  "scomm_vendor_find_valid_type [] = 0"
| "scomm_vendor_find_valid_type (b # bs) =
     (if b \<in> {SKW_H4_EVENT_PKT, SKW_H4_ACL_PKT, SKW_H4_SCO_PKT, SKW_H4_LOG_PKT} then 0
      else Suc (scomm_vendor_find_valid_type bs))"

definition device_frame_limit :: "u8 \<Rightarrow> nat" where
  "device_frame_limit ty =
     (if ty = SKW_H4_EVENT_PKT then SKW_H4_EVENT_MAX_FRAME
      else if ty = SKW_H4_ACL_PKT then SKW_H4_KERNEL_MAX_FRAME
      else if ty = SKW_H4_SCO_PKT then SKW_H4_SCO_MAX_FRAME
      else if ty = SKW_H4_ISO_PKT then SKW_H4_ISO_MAX_FRAME
      else if ty = SKW_H4_LOG_PKT then SKW_H4_STREAM_CAPACITY
      else 0)"

definition device_accepts :: "skw_h4_frame \<Rightarrow> bool" where
  "device_accepts f \<longleftrightarrow>
     (let limit = device_frame_limit (h4_type f)
      in \<not> (limit = 0 \<or> frame_size f \<noteq> 0 \<and> frame_size f > limit))"

definition hand_to_host :: "nat \<Rightarrow> bytes \<Rightarrow> nat \<Rightarrow> transport \<Rightarrow> (bool \<times> transport) option" where
  "hand_to_host p stream n t =
     (if stream ! 0 = SKW_H4_LOG_PKT then Some (True, note_event (Log_written (take n stream)) t)
      else do {
        (ok, t) \<leftarrow> scomm_vendor_send_to_host 0 (take n stream) (note_event (Captured stream True) t);
        Some (ok, if \<not> ok \<and> thread_running (ports t ! p) then scomm_vendor_fail_transport p t else t)
      })"

function poll_until :: "nat \<Rightarrow> transport \<Rightarrow> ((errno + revent list list) \<times> transport) option" where
  "poll_until p t = do {
     (ret, t) \<leftarrow> call_poll 2 t;
     case ret of
       Inl e \<Rightarrow> if e = EINTR \<and> thread_running (ports t ! p) then poll_until p t else Some (ret, t)
     | Inr _ \<Rightarrow> Some (ret, t)
   }"
  by pat_completeness auto
termination
  by (relation "inv_image {(t', t). fewer t t'} snd")
     (auto intro!: script_wf dest: call_progress)

declare poll_until.simps [simp del]

lemma post_poll_until:
  "post (poll_until p t) (\<lambda>r v. fewer t v \<and> acts [] [] [] t v)"
proof (induction t rule: transport_induct)
  case (less t)
  have again: "post (poll_until p u) (\<lambda>r v. fewer t v \<and> acts [] [] [] t v)"
    if "fewer t u" "acts [] [] [] t u" for u
    by (rule post_mono [OF less [OF that(1)]]) (use that fewer_trans acts_quiet in blast)
  show ?case
    by (subst poll_until.simps, rule post_bind [OF post_call_poll]) (auto split: sum.splits intro!: again)
qed

text \<open>
  One round on the device's descriptor, given its events: the stream the loop goes
  on with, or \<open>None\<close> when it ends.
\<close>

definition serve_device ::
  "nat \<Rightarrow> revent list \<Rightarrow> bytes \<Rightarrow> transport \<Rightarrow> (bytes option \<times> transport) option" where
  "serve_device p revents stream t =
     (let hangup = (\<lambda>stream t.
            if set revents \<inter> {POLLERR, POLLHUP, POLLRDHUP, POLLNVAL} \<noteq> {}
            then Some (None, scomm_vendor_fail_transport p t)
            else Some (Some stream, t))
      in if POLLIN \<notin> set revents then hangup stream t
      else let available = SKW_H4_STREAM_CAPACITY - length stream in
        if available = 0 then Some (None, scomm_vendor_fail_transport p t)
        else do {
          (bytes_read, t) \<leftarrow> call_read (dev_fd (ports t ! p)) available
            (set_port p (\<lambda>s. s\<lparr>is_busying := True\<rparr>) t);
          let t = set_port p (\<lambda>s. s\<lparr>is_busying := False\<rparr>) t;
          case bytes_read of
            Inl e \<Rightarrow>
              if e = EINTR \<or> e = EAGAIN then Some (Some stream, t)
              else Some (None, scomm_vendor_fail_transport p t)
          | Inr bs \<Rightarrow>
              if bs = [] then Some (None, scomm_vendor_fail_transport p t)
              else do {
                (stream, t) \<leftarrow> pump device_accepts (hand_to_host p) (scomm_vendor_fail_transport p)
                  (stream @ bs) t;
                if \<not> thread_running (ports t ! p) then Some (None, t) else hangup stream t
              }
        })"

section \<open>What the host gets\<close>

definition payload_frames :: "bytes list \<Rightarrow> bytes list" where
  "payload_frames fs = filter (\<lambda>f. f ! 0 \<noteq> SKW_H4_LOG_PKT) fs"

definition log_frames :: "bytes list \<Rightarrow> bytes list" where
  "log_frames fs = filter (\<lambda>f. f ! 0 = SKW_H4_LOG_PKT) fs"

definition host_fd :: "transport \<Rightarrow> int" where
  "host_fd t = snd (uart_fd (ports t ! 0))"

definition for_host :: "transport \<Rightarrow> bytes list \<Rightarrow> (int \<times> bytes) list" where
  "for_host t fs = map (Pair (host_fd t)) (payload_frames fs)"

lemma frames_append [simp]:
  "payload_frames (fs @ gs) = payload_frames fs @ payload_frames gs"
  "log_frames (fs @ gs) = log_frames fs @ log_frames gs"
  "for_host t (fs @ gs) = for_host t fs @ for_host t gs"
  by (simp_all add: payload_frames_def log_frames_def for_host_def)

lemma frames_Nil [simp]: "payload_frames [] = []" "log_frames [] = []" "for_host t [] = []"
  by (simp_all add: payload_frames_def log_frames_def for_host_def)

definition to_host :: "bytes \<Rightarrow> transport \<Rightarrow> transport \<Rightarrow> bool" where
  "to_host f t v \<longleftrightarrow> (\<exists>ws es. acts ws [] es t v \<and>
     (0 < length (ports t) \<longrightarrow> delivers (for_host t [f]) ws) \<and> logged es = log_frames [f])"

definition broken_to_host :: "nat \<Rightarrow> bytes \<Rightarrow> transport \<Rightarrow> transport \<Rightarrow> bool" where
  "broken_to_host p f t v \<longleftrightarrow> (\<exists>ws es. acts ws [] es t v \<and>
     (0 < length (ports t) \<longrightarrow> delivers_cut (for_host t [f]) ws) \<and> logged es = [] \<and>
     (p < length (ports t) \<longrightarrow> \<not> thread_running (ports v ! p)))"

lemma acts_host_fd: "acts ws rs es t v \<Longrightarrow> 0 < length (ports t) \<Longrightarrow> host_fd v = host_fd t"
  using acts_nth(2) unfolding host_fd_def by metis

lemma stops_acts: "acts ws rs es t u \<Longrightarrow> stops u v \<Longrightarrow> \<exists>es'. acts ws rs (es @ es') t v \<and> logged es' = []"
  using acts_trans [of ws rs es t u "[]" "[]"] unfolding stops_def by fastforce

text \<open>Writing to the host: all of the frame, or a part of it and the transport is stopped.\<close>

lemma post_send_to_host:
  "post (scomm_vendor_send_to_host 0 f t) (\<lambda>ok v. \<exists>ws es. acts ws [] es t v \<and> logged es = [] \<and>
     delivers_cut [(host_fd t, f)] ws \<and> (ok \<longrightarrow> delivers [(host_fd t, f)] ws))"
proof -
  let ?Q = "\<lambda>ok v. \<exists>ws es. acts ws [] es t v \<and> logged es = [] \<and>
     delivers_cut [(host_fd t, f)] ws \<and> (ok \<longrightarrow> delivers [(host_fd t, f)] ws)"
  have wrote: "post (if snd (uart_fd (ports t ! 0)) \<ge> 0
       then write_transport 0 (snd (uart_fd (ports t ! 0))) f 0 t else Some (False, t)) ?Q"
  proof (cases "snd (uart_fd (ports t ! 0)) \<ge> 0")
    case True
    have "?Q ok v" if "acts (map (Pair (host_fd t)) bs) [] [] t v" "concat bs = take k f" "ok \<longrightarrow> k = length f"
      for ok v bs k
      using that cut_last [OF that(2)] delivers_one [of bs f] by (intro exI conjI) auto
    then show ?thesis
      using True unfolding host_fd_def by (simp, intro post_mono [OF post_write_transport]) blast
  next
    case False
    then show ?thesis using cut_all by (auto intro!: exI [of _ "[]"])
  qed
  have stop: "?Q False (scomm_vendor_fail_transport 0 v)" if "?Q False v" for v
  proof -
    obtain ws es where a: "acts ws [] es t v" "logged es = []" "delivers_cut [(host_fd t, f)] ws"
      using \<open>?Q False v\<close> by blast
    from stops_acts [OF a(1) fail_transport_stops] a(2,3) show ?thesis by fastforce
  qed
  show ?thesis
    unfolding scomm_vendor_send_to_host_def
  proof (rule post_bind [OF wrote])
    fix ok v
    assume q: "?Q ok v"
    show "post (case (ok, v) of (result, t) \<Rightarrow> Some (result,
        if \<not> result \<and> thread_running (ports t ! 0) then scomm_vendor_fail_transport 0 t else t)) ?Q"
      using q stop [of v] by (cases ok) (simp_all only: prod.case post_Some simp_thms if_False, auto)
  qed
qed

lemma post_hand_to_host:
  assumes "n \<le> length xs" "0 < n"
  shows "post (hand_to_host p xs n t) (\<lambda>ok v.
    if ok then to_host (take n xs) t v else broken_to_host p (take n xs) t v)"
proof (cases "xs ! 0 = SKW_H4_LOG_PKT")
  case True
  have "to_host (take n xs) t (note_event (Log_written (take n xs)) t)"
    unfolding to_host_def
    by (intro exI [of _ "[]"] exI [of _ "[Log_written (take n xs)]"])
       (use True assms in \<open>auto simp: for_host_def payload_frames_def log_frames_def delivers_Nil\<close>)
  with True show ?thesis by (simp add: hand_to_host_def)
next
  case False
  let ?f = "take n xs" and ?u = "note_event (Captured xs True) t"
  have fr: "log_frames [?f] = []" "for_host t [?f] = [(host_fd t, ?f)]"
    using False assms by (auto simp: for_host_def payload_frames_def log_frames_def)
  have u: "acts [] [] [Captured xs True] t ?u" by simp
  show ?thesis
    unfolding hand_to_host_def
  proof (simp only: False if_False, rule post_bind [OF post_send_to_host])
    fix ok v
    assume "\<exists>ws es. acts ws [] es ?u v \<and> logged es = [] \<and>
      delivers_cut [(host_fd ?u, ?f)] ws \<and> (ok \<longrightarrow> delivers [(host_fd ?u, ?f)] ws)"
    then obtain ws es where a: "acts ws [] es ?u v" "logged es = []" "delivers_cut [(host_fd ?u, ?f)] ws"
      "ok \<longrightarrow> delivers [(host_fd ?u, ?f)] ws" by blast
    have t: "acts ws [] (Captured xs True # es) t v" using acts_trans [OF u a(1)] by simp
    have fd: "host_fd ?u = host_fd t" if "0 < length (ports t)" by (rule acts_host_fd [OF u that])
    have good: "to_host ?f t v" if ok
      unfolding to_host_def using t a(2,4) fd fr that
      by (intro exI [of _ ws] exI [of _ "Captured xs True # es"]) auto
    let ?v = "if \<not> ok \<and> thread_running (ports v ! p) then scomm_vendor_fail_transport p v else v"
    have bad: "broken_to_host p ?f t ?v" if "\<not> ok"
    proof -
      have s: "stops v ?v" using fail_transport_stops stops_refl [OF acts_refl] by simp
      have stopped: "p < length (ports t) \<longrightarrow> \<not> thread_running (ports ?v ! p)"
        using that fail_transport_stopped [of p v] acts_length [OF t] by simp
      from stops_acts [OF t s] obtain es' where
        "acts ws [] (Captured xs True # es @ es') t ?v" "logged es' = []" by auto
      then show ?thesis
        unfolding broken_to_host_def using a(2,3) fd fr stopped
        by (intro exI [of _ ws] exI [of _ "Captured xs True # es @ es'"]) auto
    qed
    show "post (case (ok, v) of (ok, t) \<Rightarrow> Some (ok, if \<not> ok \<and> thread_running (ports t ! p)
          then scomm_vendor_fail_transport p t else t))
        (\<lambda>ok v. if ok then to_host ?f t v else broken_to_host p ?f t v)"
      using good bad by auto
  qed
qed

interpretation device_policy: h4_policy device_accepts
  by unfold_locales (auto simp: device_accepts_def Let_def)

interpretation receiver: frame_pump device_accepts "hand_to_host p" "scomm_vendor_fail_transport p"
  to_host "broken_to_host p" for p
  by unfold_locales (rule post_hand_to_host)

lemma each_to_host:
  "each to_host fs t v \<Longrightarrow> 0 < length (ports t) \<Longrightarrow>
   \<exists>ws es. acts ws [] es t v \<and> delivers (for_host t fs) ws \<and> logged es = log_frames fs"
proof (induction fs arbitrary: t)
  case Nil
  then show ?case by simp (metis acts_refl delivers_Nil logged_simps(1))
next
  case (Cons f fs)
  then obtain u where u: "to_host f t u" "each to_host fs u v" by auto
  obtain ws es where a: "acts ws [] es t u" "delivers (for_host t [f]) ws" "logged es = log_frames [f]"
    using u(1) Cons.prems(2) by (auto simp: to_host_def)
  have "0 < length (ports u)" using acts_length [OF a(1)] Cons.prems(2) by simp
  from Cons.IH [OF u(2) this] obtain xs fs' where
    b: "acts xs [] fs' u v" "delivers (for_host u fs) xs" "logged fs' = log_frames fs" by blast
  have "for_host u fs = for_host t fs"
    using acts_host_fd [OF a(1) Cons.prems(2)] by (simp add: for_host_def)
  then have "delivers (for_host t ([f] @ fs)) (ws @ xs)"
    using delivers_append [OF a(2) b(2)] by (simp only: frames_append)
  moreover have "logged (es @ fs') = log_frames ([f] @ fs)" using a(3) b(3) by (simp only: frames_append logged_simps)
  ultimately show ?case
    using acts_trans [OF a(1) b(1)] by (intro exI [of _ "ws @ xs"] exI [of _ "es @ fs'"]) simp
qed

text \<open>
  \<open>device_inv\<close>: since \<open>t0\<close>, of all the bytes read from the port's device the frames have
  been handed to the host and to the log, and \<open>stream\<close> is left of them. \<open>device_end\<close>: so it
  is but for the last read, of whose frames the first ones have been handed over, the last of
  these possibly in part.
\<close>

definition device_inv :: "nat \<Rightarrow> transport \<Rightarrow> bytes \<Rightarrow> transport \<Rightarrow> bool" where
  "device_inv p t0 stream t \<longleftrightarrow> (\<exists>reads fs ws es. flags_cleared (ports t0) (ports t) \<and>
     received t = received t0 @ map (Pair (dev_fd (ports t0 ! p))) reads \<and>
     unframe (h4_framer device_accepts) (concat reads) = (fs, stream, True) \<and>
     sent t = sent t0 @ ws \<and> delivers (for_host t0 fs) ws \<and>
     events t = events t0 @ es \<and> logged es = log_frames fs)"

definition device_end :: "nat \<Rightarrow> transport \<Rightarrow> transport \<Rightarrow> bool" where
  "device_end p t0 t \<longleftrightarrow> (\<exists>reads recent fs left gs rest ok ws xs es.
     received t = received t0 @ map (Pair (dev_fd (ports t0 ! p))) (reads @ recent) \<and> length recent \<le> 1 \<and>
     unframe (h4_framer device_accepts) (concat reads) = (fs, left, True) \<and>
     unframe (h4_framer device_accepts) (left @ concat recent) = (gs, rest, ok) \<and>
     sent t = sent t0 @ ws @ xs \<and> delivers (for_host t0 fs) ws \<and> delivers_cut (for_host t0 gs) xs \<and>
     events t = events t0 @ es \<and> prefix (log_frames fs) (logged es) \<and>
     prefix (logged es) (log_frames (fs @ gs)))"

lemma device_endI:
  assumes "received t = received t0 @ map (Pair (dev_fd (ports t0 ! p))) (reads @ recent)" "length recent \<le> 1"
    and "unframe (h4_framer device_accepts) (concat reads) = (fs, left, True)"
    and "unframe (h4_framer device_accepts) (left @ concat recent) = (gs, rest, ok)"
    and "sent t = sent t0 @ ws @ xs" "delivers (for_host t0 fs) ws" "delivers_cut (for_host t0 gs) xs"
    and "events t = events t0 @ es" "prefix (log_frames fs) (logged es)" "prefix (logged es) (log_frames (fs @ gs))"
  shows "device_end p t0 t"
  unfolding device_end_def using assms by blast

lemma device_inv_end: "device_inv p t0 stream t \<Longrightarrow> device_end p t0 t"
proof -
  assume "device_inv p t0 stream t"
  then obtain reads fs ws es where a: "received t = received t0 @ map (Pair (dev_fd (ports t0 ! p))) reads"
     "unframe (h4_framer device_accepts) (concat reads) = (fs, stream, True)"
     "sent t = sent t0 @ ws" "delivers (for_host t0 fs) ws" "events t = events t0 @ es" "logged es = log_frames fs"
    by (auto simp: device_inv_def)
  have again: "unframe (h4_framer device_accepts) (stream @ concat []) = ([], stream, True)"
    using device_policy.packets.unframe_again [OF a(2)] by simp
  from a(1,3,5,6) show ?thesis
    by (intro device_endI [where recent = "[]" and xs = "[]" and es = es, OF _ _ a(2) again _ a(4)]) (simp_all add: cut_all a(6))
qed

lemma device_inv_quiet:
  assumes "device_inv p t0 stream t" "stops t u"
  shows "device_inv p t0 stream u"
proof -
  obtain reads fs ws es where a: "flags_cleared (ports t0) (ports t)"
    "received t = received t0 @ map (Pair (dev_fd (ports t0 ! p))) reads"
    "unframe (h4_framer device_accepts) (concat reads) = (fs, stream, True)"
    "sent t = sent t0 @ ws" "delivers (for_host t0 fs) ws" "events t = events t0 @ es" "logged es = log_frames fs"
    using assms(1) by (auto simp: device_inv_def)
  obtain es' where b: "acts [] [] es' t u" "logged es' = []" using assms(2) by (auto simp: stops_def)
  have "flags_cleared (ports t0) (ports u)" "received u = received t" "sent u = sent t" "events u = events t @ es'"
    using b(1) flags_cleared_trans [OF a(1)] by (simp_all add: acts_def)
  then have c: "flags_cleared (ports t0) (ports u)"
    "received u = received t0 @ map (Pair (dev_fd (ports t0 ! p))) reads" "sent u = sent t0 @ ws"
    "events u = events t0 @ (es @ es')"
    by (simp_all only: a append_assoc)
  have "logged (es @ es') = log_frames fs" using a(7) b(2) by simp
  with c a(3,5) show ?thesis unfolding device_inv_def by blast
qed

lemma device_end_quiet:
  assumes "device_end p t0 t" "stops t u"
  shows "device_end p t0 u"
proof -
  obtain es' where b: "sent u = sent t" "received u = received t" "events u = events t @ es'" "logged es' = []"
    using assms(2) by (auto simp: stops_def acts_def)
  obtain reads recent fs left gs rest ok ws xs es where
     "received t = received t0 @ map (Pair (dev_fd (ports t0 ! p))) (reads @ recent)" "length recent \<le> 1"
     "unframe (h4_framer device_accepts) (concat reads) = (fs, left, True)"
     "unframe (h4_framer device_accepts) (left @ concat recent) = (gs, rest, ok)"
     "sent t = sent t0 @ ws @ xs" "delivers (for_host t0 fs) ws" "delivers_cut (for_host t0 gs) xs"
     "events t = events t0 @ es" "prefix (log_frames fs) (logged es)"
     "prefix (logged es) (log_frames (fs @ gs))"
    using assms(1) unfolding device_end_def by blast
  with b show ?thesis by (intro device_endI [of u t0 p reads recent fs left gs rest ok ws xs "es @ es'"]) simp_all
qed

lemma device_inv_start: "device_inv p t [] t"
  unfolding device_inv_def by (intro exI [of _ "[]"]) (simp add: delivers_Nil)

lemma device_pumped:
  assumes p: "p < length (ports t0)"
    and inv: "device_inv p t0 stream t"
    and read: "acts [] [(dev_fd (ports t ! p), bs)] [] t u"
    and pumped: "receiver.pumped p (stream @ bs) u left v"
  shows "device_end p t0 v \<and> (thread_running (ports v ! p) \<longrightarrow> device_inv p t0 left v) \<and> no_longer u v"
proof -
  obtain reads fs ws es where a: "flags_cleared (ports t0) (ports t)"
    "received t = received t0 @ map (Pair (dev_fd (ports t0 ! p))) reads"
    "unframe (h4_framer device_accepts) (concat reads) = (fs, stream, True)"
    "sent t = sent t0 @ ws" "delivers (for_host t0 fs) ws" "events t = events t0 @ es" "logged es = log_frames fs"
    using inv by (auto simp: device_inv_def)
  have fl: "flags_cleared (ports t0) (ports u)"
    using flags_cleared_trans [OF a(1)] read by (simp add: acts_def)
  have p0: "0 < length (ports t0)" using p by linarith
  have fd: "dev_fd (ports t ! p) = dev_fd (ports t0 ! p)"
    using flags_cleared_nth [OF a(1) p] by (simp add: flag_cleared_def)
  have lu: "length (ports u) = length (ports t0)" by (rule flags_cleared_length [OF fl])
  have same: "for_host u gs = for_host t0 gs" for gs
    using flags_cleared_nth [OF fl p0] by (simp add: for_host_def host_fd_def flag_cleared_def)
  have u: "received u = received t0 @ map (Pair (dev_fd (ports t0 ! p))) (reads @ [bs])"
    "sent u = sent t0 @ ws" "events u = events t0 @ es"
    using read a(2,4,6) fd by (auto simp: acts_def)
  obtain gs rest ok where g: "unframe (h4_framer device_accepts) (stream @ bs) = (gs, rest, ok)"
    "ok \<and> left = rest \<and> each to_host gs u v \<or>
      (\<exists>done more w. gs = done @ more \<and> each to_host done u w \<and>
        (more = [] \<and> \<not> ok \<and> v = scomm_vendor_fail_transport p w \<or>
         (\<exists>f fs'. more = f # fs' \<and> broken_to_host p f w v)))"
    using pumped unfolding receiver.pumped_def by blast
  have fin: "device_end p t0 x \<and> no_longer u x"
    if "acts xs [] fs' u x" "delivers_cut (for_host t0 gs) xs" "prefix (logged fs') (log_frames gs)" for x xs fs'
  proof
    show "device_end p t0 x"
    proof (rule device_endI [OF _ _ a(3) _ _ a(5) that(2)])
      show "received x = received t0 @ map (Pair (dev_fd (ports t0 ! p))) (reads @ [bs])"
        "sent x = sent t0 @ ws @ xs" "events x = events t0 @ (es @ fs')"
        using that(1) u by (simp_all add: acts_def)
      show "unframe (h4_framer device_accepts) (stream @ concat [bs]) = (gs, rest, ok)" using g(1) by simp
    qed (use that(3) a(7) in simp_all)
    show "no_longer u x" using that(1) by (simp add: no_longer_def acts_def)
  qed
  have each: "\<exists>xs es. acts xs [] es u w \<and> delivers (for_host t0 hs) xs \<and> logged es = log_frames hs"
    if "each to_host hs u w" for hs w
    using each_to_host [OF that] lu p0 same by simp
  from g(2) show ?thesis
  proof (elim disjE exE conjE)
    assume ok: "ok" "left = rest" and e: "each to_host gs u v"
    from each [OF e] obtain xs fs' where
      x: "acts xs [] fs' u v" "delivers (for_host t0 gs) xs" "logged fs' = log_frames gs" by blast
    have "device_inv p t0 left v"
      unfolding device_inv_def
    proof (intro exI conjI)
      show "unframe (h4_framer device_accepts) (concat (reads @ [bs])) = (fs @ gs, left, True)"
        using device_policy.packets.unframe_append [of "concat reads" bs] a(3) g(1) ok by (simp add: feed_def)
      show "delivers (for_host t0 (fs @ gs)) (ws @ xs)" using delivers_append [OF a(5) x(2)] by simp
      show "logged (es @ fs') = log_frames (fs @ gs)" using a(7) x(3) by simp
    qed (use x(1) u flags_cleared_trans [OF fl] in \<open>auto simp: acts_def\<close>)
    with fin [OF x(1) delivers_is_cut [OF x(2)]] x(3) show ?thesis by simp
  next
    fix d more w
    assume d: "gs = d @ more" "each to_host d u w" "more = []" "\<not> ok" "v = scomm_vendor_fail_transport p w"
    from each [OF d(2)] obtain xs fs' where
      x: "acts xs [] fs' u w" "delivers (for_host t0 d) xs" "logged fs' = log_frames d" by blast
    from stops_acts [OF x(1) fail_transport_stops] obtain es' where
      y: "acts xs [] (fs' @ es') u v" "logged es' = []" using d(5) by blast
    have "\<not> thread_running (ports v ! p)" using acts_fail_stopped [OF x(1), of p] d(5) lu p by simp
    with fin [OF y(1)] delivers_is_cut [OF x(2)] d(1,3) x(3) y(2) show ?thesis by simp
  next
    fix d more w f fs''
    assume d: "gs = d @ more" "each to_host d u w" "more = f # fs''" "broken_to_host p f w v"
    from each [OF d(2)] obtain xs fs' where
      x: "acts xs [] fs' u w" "delivers (for_host t0 d) xs" "logged fs' = log_frames d" by blast
    have lw: "length (ports w) = length (ports t0)" using acts_length [OF x(1)] lu by simp
    have "for_host w [f] = for_host t0 [f]"
      using acts_host_fd [OF x(1)] lu p0 same [of "[f]"] by (simp add: for_host_def)
    then obtain ys es' where y: "acts ys [] es' w v" "delivers_cut (for_host t0 [f]) ys" "logged es' = []"
      "\<not> thread_running (ports v ! p)"
      using d(4) lw p by (auto simp: broken_to_host_def)
    have "delivers_cut (for_host t0 (d @ [f])) (xs @ ys)" using delivers_cut_append [OF x(2) y(2)] by simp
    from cut_more [OF this, of "for_host t0 fs''"] have "delivers_cut (for_host t0 gs) (xs @ ys)"
      using d(1,3) frames_append(3) [of t0 "d @ [f]" fs''] by simp
    moreover have "acts (xs @ ys) [] (fs' @ es') u v" using acts_trans [OF x(1) y(1)] by simp
    moreover have "prefix (logged (fs' @ es')) (log_frames gs)" using x(3) y(3) d(1) by simp
    ultimately show ?thesis using fin y(4) by blast
  qed
qed

section \<open>The thread of a device\<close>

lemma no_longer_trans: "no_longer t u \<Longrightarrow> no_longer u v \<Longrightarrow> no_longer t v"
  by (simp add: no_longer_def)

lemma acts_no_longer: "acts ws rs es t u \<Longrightarrow> no_longer t u"
  by (simp add: no_longer_def acts_def)

lemma acts_busy: "acts [] [] [] t (set_port p (\<lambda>s. s\<lparr>is_busying := b\<rparr>) t)"
  by (simp add: acts_set_port flag_cleared_def)

text \<open>The read between the two changes of the busy flag.\<close>

lemma acts_read_busy:
  assumes "acts [] rs [] (set_port p (\<lambda>s. s\<lparr>is_busying := True\<rparr>) t) u"
  shows "acts [] rs [] t (set_port p (\<lambda>s. s\<lparr>is_busying := False\<rparr>) u)"
  using acts_trans [OF acts_busy acts_trans [OF assms acts_busy]] by simp

text \<open>Whatever pumping does, it acts on the host's socket.\<close>

lemma pumped_host_acts:
  assumes "receiver.pumped p xs u left v"
  shows "\<exists>ws es. acts ws [] es u v"
proof (rule receiver.pumped_invariant [OF assms, of "\<lambda>v. \<exists>ws es. acts ws [] es u v"])
  have step: "\<exists>ws es. acts ws [] es u t" if "\<exists>ws es. acts ws [] es u s" "\<exists>ws es. acts ws [] es s t" for s t
    using that acts_trans by fastforce
  show "\<exists>ws es. acts ws [] es u t" if "to_host f s t" "\<exists>ws es. acts ws [] es u s" for f s t
    using step that unfolding to_host_def by blast
  show "\<exists>ws es. acts ws [] es u t" if "broken_to_host p f s t" "\<exists>ws es. acts ws [] es u s" for f s t
    using step that unfolding broken_to_host_def by blast
  show "\<exists>ws es. acts ws [] es u (scomm_vendor_fail_transport p s)" if "\<exists>ws es. acts ws [] es u s" for s
    using step [OF that] fail_transport_acts by blast
  show "\<exists>ws es. acts ws [] es u u" using acts_refl by blast
qed

lemma pump_host_script: "receiver.pumped p xs u left v \<Longrightarrow> no_longer u v"
  using pumped_host_acts acts_no_longer by blast

lemma pumped_ports: "receiver.pumped p xs u left v \<Longrightarrow> length (ports v) = length (ports u)"
  using pumped_host_acts acts_length by blast

lemma fail_ports: "length (ports (scomm_vendor_fail_transport p t)) = length (ports t)"
  using fail_transport_acts acts_length by blast

lemma serve_device_ports:
  "post (serve_device p revents stream t) (\<lambda>_ v. length (ports v) = length (ports t))"
proof -
  have busy: "length (ports (set_port p f u)) = length (ports u)" for f u by (simp add: set_port_def)
  have read: "post (call_read fd n (set_port p (\<lambda>s. s\<lparr>is_busying := True\<rparr>) t))
      (\<lambda>_ u. length (ports u) = length (ports t))" for fd n
    by (rule post_mono [OF post_call_read]) (auto split: sum.splits dest!: acts_length simp: busy)
  have pump: "post (pump device_accepts (hand_to_host p) (scomm_vendor_fail_transport p) xs u)
      (\<lambda>_ v. length (ports v) = length (ports t))" if "length (ports u) = length (ports t)" for xs u
    by (rule post_mono [OF receiver.post_pump]) (use that pumped_ports in auto)
  show ?thesis
    unfolding serve_device_def Let_def
    by (auto simp: fail_ports busy split: sum.splits intro!: post_bind [OF read] post_bind [OF pump])
qed

lemma serve_device_later: "post (serve_device p revents stream t) (\<lambda>_ v. no_longer t v)"
proof -
  have read: "post (call_read fd n (set_port p (\<lambda>s. s\<lparr>is_busying := True\<rparr>) t)) (\<lambda>_ u.
      no_longer t (set_port p (\<lambda>s. s\<lparr>is_busying := False\<rparr>) u))" for fd n
    by (rule post_mono [OF post_call_read])
       (auto split: sum.splits dest!: acts_read_busy intro: acts_no_longer)
  have pump: "post (pump device_accepts (hand_to_host p) (scomm_vendor_fail_transport p) xs u) (\<lambda>_ v. no_longer t v)"
    if "no_longer t u" for xs u
    by (rule post_mono [OF receiver.post_pump]) (use that pump_host_script no_longer_trans in blast)
  have fail: "no_longer t (scomm_vendor_fail_transport p u)" if "no_longer t u" for u
    using no_longer_trans [OF that no_longer_fail] .
  have refl: "no_longer t t" by (simp add: no_longer_def)
  show ?thesis
    unfolding serve_device_def Let_def
    by (auto split: sum.splits intro!: post_bind [OF read] post_bind [OF pump] fail refl)
qed

function recv_scomm_loop :: "nat \<Rightarrow> bytes \<Rightarrow> transport \<Rightarrow> (unit \<times> transport) option" where
  "recv_scomm_loop p stream t =
     (if \<not> thread_running (ports t ! p) then Some ((), t)
      else do {
        (ret, t) \<leftarrow> poll_until p t;
        case ret of
          Inl e \<Rightarrow> Some ((), if thread_running (ports t ! p) then scomm_vendor_fail_transport p t else t)
        | Inr revents \<Rightarrow>
            if revents ! 0 \<noteq> [] \<and> \<not> thread_running (ports t ! p) then Some ((), t)
            else do {
              (left, t) \<leftarrow> serve_device p (revents ! 1) stream t;
              case left of None \<Rightarrow> Some ((), t) | Some stream \<Rightarrow> recv_scomm_loop p stream t
            }
      })"
  by pat_completeness auto
termination
  by (relation "inv_image {(t', t). fewer t t'} (\<lambda>(_, _, t). t)")
     (auto intro!: script_wf intro: fewer_no_longer
       dest!: postD [OF post_poll_until] postD [OF serve_device_later])

declare recv_scomm_loop.simps [simp del]

definition scomm_vendor_recv_scomm_thread :: "nat \<Rightarrow> transport \<Rightarrow> (unit \<times> transport) option" where
  "scomm_vendor_recv_scomm_thread p t = do {
     (_, t) \<leftarrow> recv_scomm_loop p [] (set_port p (\<lambda>s. s\<lparr>recv_comm_thread_running := True\<rparr>) t);
     Some ((), set_port p (\<lambda>s. s\<lparr>is_busying := False\<rparr>) t)
   }"

lemma post_serve_device:
  assumes p: "p < length (ports t0)" and inv: "device_inv p t0 stream t"
  shows "post (serve_device p revents stream t) (\<lambda>left v. device_end p t0 v \<and>
    (case left of None \<Rightarrow> \<not> thread_running (ports v ! p) | Some stream' \<Rightarrow> device_inv p t0 stream' v))"
proof -
  have len: "p < length (ports t)" using inv p by (auto simp: device_inv_def dest: flags_cleared_length)
  have inv_stops: "device_inv p t0 stream u \<and> device_end p t0 u" if "stops t u" for u
    using device_inv_quiet [OF inv that] device_inv_end by blast
  have fail: "device_end p t0 (scomm_vendor_fail_transport p u)" if "device_end p t0 u" for u
    by (rule device_end_quiet [OF that fail_transport_stops])
  have stopped: "thread_running (ports (scomm_vendor_fail_transport p u) ! p) = False" if "p < length (ports u)" for u
    using fail_transport_stopped [OF that] by simp
  have now: "device_end p t0 t" by (rule device_inv_end [OF inv])
  let ?busy = "set_port p (\<lambda>s. s\<lparr>is_busying := True\<rparr>)" and ?free = "set_port p (\<lambda>s. s\<lparr>is_busying := False\<rparr>)"
  have read: "post (call_read (dev_fd (ports t ! p)) n (?busy t)) (\<lambda>r u. p < length (ports (?free u)) \<and>
      device_end p t0 (?free u) \<and>
      (case r of Inl e \<Rightarrow> device_inv p t0 stream (?free u)
       | Inr bs \<Rightarrow> acts [] [(dev_fd (ports t ! p), bs)] [] t (?free u)))" for n
  proof (rule post_mono [OF post_call_read])
    fix r u
    assume r: "fewer (?busy t) u \<and> (case r of Inl e \<Rightarrow> acts [] [] [] (?busy t) u
      | Inr bs \<Rightarrow> length bs \<le> n \<and> acts [] [(dev_fd (ports t ! p), bs)] [] (?busy t) u)"
    show "p < length (ports (?free u)) \<and> device_end p t0 (?free u) \<and>
      (case r of Inl e \<Rightarrow> device_inv p t0 stream (?free u)
       | Inr bs \<Rightarrow> acts [] [(dev_fd (ports t ! p), bs)] [] t (?free u))"
    proof (cases r)
      case (Inl e)
      then have a: "acts [] [] [] t (?free u)" using r acts_read_busy by simp
      then show ?thesis using inv_stops [OF stops_refl [OF a]] acts_length [OF a] len Inl by simp
    next
      case (Inr bs)
      then have a: "acts [] [(dev_fd (ports t ! p), bs)] [] t (?free u)" using r acts_read_busy by simp
      obtain fs rest ok where "unframe (h4_framer device_accepts) (stream @ bs) = (fs, rest, ok)" by (metis prod_cases3)
      obtain reads fs ws es where i: "received t = received t0 @ map (Pair (dev_fd (ports t0 ! p))) reads"
        "unframe (h4_framer device_accepts) (concat reads) = (fs, stream, True)"
        "sent t = sent t0 @ ws" "delivers (for_host t0 fs) ws" "events t = events t0 @ es" "logged es = log_frames fs"
        "flags_cleared (ports t0) (ports t)"
        using inv unfolding device_inv_def by blast
      have fd: "dev_fd (ports t ! p) = dev_fd (ports t0 ! p)"
        using flags_cleared_nth [OF i(7) p] by (simp add: flag_cleared_def)
      obtain gs rest' ok' where g: "unframe (h4_framer device_accepts) (stream @ concat [bs]) = (gs, rest', ok')"
        by (metis prod_cases3)
      have "device_end p t0 (?free u)"
        by (rule device_endI [where recent = "[bs]" and xs = "[]" and es = es, OF _ _ i(2) g _ i(4)])
           (use a i fd in \<open>simp_all add: acts_def cut_all\<close>)
      then show ?thesis using a acts_length [OF a] len Inr by simp
    qed
  qed
  have pump: "post (pump device_accepts (hand_to_host p) (scomm_vendor_fail_transport p) (stream @ bs) u)
      (\<lambda>left v. device_end p t0 v \<and> p < length (ports v) \<and> (thread_running (ports v ! p) \<longrightarrow> device_inv p t0 left v))"
    if "acts [] [(dev_fd (ports t ! p), bs)] [] t u" for bs u
  proof (rule post_mono [OF receiver.post_pump])
    fix left v
    assume "receiver.pumped p (stream @ bs) u left v"
    from device_pumped [OF p inv that this] pumped_ports [OF this] acts_length [OF that] len
    show "device_end p t0 v \<and> p < length (ports v) \<and> (thread_running (ports v ! p) \<longrightarrow> device_inv p t0 left v)"
      by simp
  qed
  show ?thesis
    unfolding serve_device_def Let_def
    using inv now len
    by (auto simp: stopped split: sum.splits intro!: post_bind [OF read] post_bind [OF pump] fail)
qed

lemma post_recv_scomm_loop:
  assumes p: "p < length (ports t0)"
  shows "device_inv p t0 stream t \<Longrightarrow>
    post (recv_scomm_loop p stream t) (\<lambda>_ v. device_end p t0 v \<and> \<not> thread_running (ports v ! p) \<and>
      p < length (ports v))"
proof (induction t arbitrary: stream rule: transport_induct)
  case (less t)
  let ?P = "\<lambda>(_ :: unit) v. device_end p t0 v \<and> \<not> thread_running (ports v ! p) \<and> p < length (ports v)"
  have len: "p < length (ports t)" using less.prems p by (auto simp: device_inv_def dest: flags_cleared_length)
  have quiet: "device_inv p t0 stream u \<and> device_end p t0 u \<and> p < length (ports u)" if "acts [] [] [] t u" for u
    using device_inv_quiet [OF less.prems stops_refl [OF that]] device_inv_end acts_length [OF that] len by simp
  have fail: "?P x (scomm_vendor_fail_transport p u)" if "acts [] [] [] t u" for u x
    using device_end_quiet [OF _ fail_transport_stops] quiet [OF that] fail_transport_stopped [of p u]
      fail_transport_acts [of u p] acts_length by fastforce
  have poll: "post (poll_until p t) (\<lambda>r v. fewer t v \<and> acts [] [] [] t v)" by (rule post_poll_until)
  have serve: "post (serve_device p revents stream u) (\<lambda>left v. fewer t v \<and> device_end p t0 v \<and>
      p < length (ports v) \<and>
      (case left of None \<Rightarrow> \<not> thread_running (ports v ! p) | Some stream' \<Rightarrow> device_inv p t0 stream' v))"
    if "fewer t u" "acts [] [] [] t u" for revents u
    by (rule post_mono [OF post_conj [OF post_conj [OF serve_device_later serve_device_ports]
          post_serve_device [OF p conjunct1 [OF quiet [OF that(2)]]]]])
       (use that(1) quiet [OF that(2)] fewer_no_longer in auto)
  have again: "post (recv_scomm_loop p stream' v) ?P" if "fewer t v" "device_inv p t0 stream' v" for stream' v
    using less.IH that by blast
  show ?case
  proof (cases "thread_running (ports t ! p)")
    case False
    then show ?thesis
      using device_inv_end [OF less.prems] len by (subst recv_scomm_loop.simps) simp
  next
    case True
    then show ?thesis
      by (subst recv_scomm_loop.simps, simp, intro post_bind [OF poll])
         (auto split: sum.splits option.splits intro!: post_bind [OF serve] again dest: quiet fail)
  qed
qed

lemma device_thread_end:
  assumes "scomm_vendor_recv_scomm_thread p t = Some ((), t')" and "p < length (ports t)"
  shows "\<not> thread_running (ports t' ! p) \<and> device_end p t t'"
proof -
  let ?u = "set_port p (\<lambda>s. s\<lparr>recv_comm_thread_running := True\<rparr>) t"
  obtain v where v: "recv_scomm_loop p [] ?u = Some ((), v)"
    "t' = set_port p (\<lambda>s. s\<lparr>is_busying := False\<rparr>) v"
    using assms(1) by (auto simp: scomm_vendor_recv_scomm_thread_def split: bind_splits)
  have "acts [] [] [] t ?u" by (simp add: acts_set_port flag_cleared_def)
  from device_inv_quiet [OF device_inv_start stops_refl [OF this]]
  have "device_inv p t [] ?u" .
  from postD [OF post_recv_scomm_loop [OF assms(2) this] v(1)]
  have e: "device_end p t v" and r: "\<not> thread_running (ports v ! p)" "p < length (ports v)" by simp_all
  have "\<not> thread_running (ports t' ! p)" using r by (simp add: v(2) set_port_def)
  moreover have "device_end p t t'" using device_end_quiet [OF e stops_refl [OF acts_busy]] v(2) by simp
  ultimately show ?thesis by (rule conjI)
qed

section \<open>Properties\<close>

text \<open>A device on 11: an event and a log frame in three reads, then the device hangs up.\<close>

definition device_script :: "reply list" where
  "device_script = [Polled [[], [POLLIN]], Got [4, 0x0e], Polled [[], []],
     Polled [[], [POLLIN]], Got [1, 9, 7, 0], Wrote 1, Wrote 3,
     Poll_failed EINTR, Polled [[], [POLLIN]], Got [1, 0, 0x55, 4, 0x13, 0], Wrote 3,
     Polled [[], [POLLHUP]]]"

text \<open>
  C14: Controller to host, every packet is handed on, whole and in order, and the log frames
  go to the log. When the thread of a port ends, its port has been stopped, and of all the
  bytes read from its device the complete packets, less the log frames, are exactly what was
  written to the host's socket, and the log frames exactly what was handed to the log: all of
  those up to the last read but one, and of those the last read completed a first part, of
  which at most the final packet is cut short.
\<close>

theorem device_frames_delivered:
  assumes "scomm_vendor_recv_scomm_thread p t = Some ((), t')" and "p < length (ports t)"
  shows "\<not> thread_running (ports t' ! p) \<and>
    (\<exists>reads recent fs left gs rest ok ws xs es.
       received t' = received t @ map (Pair (dev_fd (ports t ! p))) (reads @ recent) \<and> length recent \<le> 1 \<and>
       unframe (h4_framer device_accepts) (concat reads) = (fs, left, True) \<and>
       unframe (h4_framer device_accepts) (left @ concat recent) = (gs, rest, ok) \<and>
       sent t' = sent t @ ws @ xs \<and> delivers (for_host t fs) ws \<and> delivers_cut (for_host t gs) xs \<and>
       events t' = events t @ es \<and> prefix (log_frames fs) (logged es) \<and>
       prefix (logged es) (log_frames (fs @ gs)))"
  using device_thread_end [OF assms] unfolding device_end_def by (rule conjE) (rule conjI)

theorem device_frames_delivered_witness:
  "\<exists>t'. scomm_vendor_recv_scomm_thread 1 (sample_transport device_script) = Some ((), t') \<and>
     sent t' = [(21, [4]), (21, [0x0e, 1, 9]), (21, [4, 0x13, 0])] \<and>
     logged (events t') = [[7, 0, 1, 0, 0x55]] \<and> \<not> thread_running (ports t' ! 1)"
proof -
  let ?t = "sample_transport device_script"
  have "map_option (\<lambda>(u, v). (sent v, logged (events v))) (scomm_vendor_recv_scomm_thread 1 ?t) =
      Some ([(21, [4]), (21, [0x0e, 1, 9]), (21, [4, 0x13, 0])], [[7, 0, 1, 0, 0x55]])"
    by code_simp
  then obtain t' where t': "scomm_vendor_recv_scomm_thread 1 ?t = Some ((), t')"
    "sent t' = [(21, [4]), (21, [0x0e, 1, 9]), (21, [4, 0x13, 0])]" "logged (events t') = [[7, 0, 1, 0, 0x55]]"
    by auto
  from device_frames_delivered [OF t'(1)] t' show ?thesis by (simp add: sample_transport_def)
qed

end
