(* ===== verification/Traffic_Path.thy ===== *)
theory Traffic_Path
  imports Vhci_Bridge Scom_Receiver
begin

text \<open>
  The whole way of the traffic. The bridge and the vendor library run in one process and are
  joined by a pair of connected stream sockets: what one side reads is a first part of what
  the other has written, however it is cut. With that, the theorems of the two
  programs give what goes from the kernel to the devices of the controller, and back.
\<close>

section \<open>The sockets between the two\<close>

text \<open>What the bridge has written, and read from \<open>c\<close>, and what the library has written, and read.\<close>

definition bridge_wrote :: "world \<Rightarrow> world \<Rightarrow> bytes" where
  "bridge_wrote w w' = concat (map snd (drop (length (written w)) (written w')))"

definition bridge_read :: "int \<Rightarrow> world \<Rightarrow> world \<Rightarrow> bytes" where
  "bridge_read c w w' = concat (drop (length (read_from c w)) (read_from c w'))"

definition library_wrote :: "transport \<Rightarrow> transport \<Rightarrow> bytes" where
  "library_wrote t t' = concat (map snd (drop (length (sent t)) (sent t')))"

definition library_read :: "transport \<Rightarrow> transport \<Rightarrow> bytes" where
  "library_read t t' = concat (map snd (drop (length (received t)) (received t')))"

lemma link_simps:
  "written w' = written w @ map (Pair fd) bs \<Longrightarrow> bridge_wrote w w' = concat bs"
  "read_from c w' = read_from c w @ bs \<Longrightarrow> bridge_read c w w' = concat bs"
  "sent t' = sent t @ ws \<Longrightarrow> library_wrote t t' = concat (map snd ws)"
  "received t' = received t @ map (Pair fd) bs \<Longrightarrow> library_read t t' = concat bs"
  by (simp_all add: bridge_wrote_def bridge_read_def library_wrote_def library_read_def comp_def)

lemma delivers_bytes: "delivers fs ws \<Longrightarrow> concat (map snd ws) = concat (map snd fs)"
  by (induction rule: delivers.induct) (auto simp: comp_def)

lemma delivers_cut_bytes: "delivers_cut fs ws \<Longrightarrow> prefix (concat (map snd ws)) (concat (map snd fs))"
proof (induction rule: delivers_cut.induct)
  case (cut_last cs n f fd frames)
  then show ?case by (simp add: comp_def) (metis append_assoc append_take_drop_id prefixI)
qed (auto simp: comp_def)

section \<open>From the kernel to the devices\<close>

lemma bytes_cut_part: "bytes_cut out frames \<Longrightarrow> prefix out (concat frames)"
  unfolding bytes_cut_def by (auto simp: take_is_prefix)

text \<open>What the bridge lets through, the library takes.\<close>

lemma host_frame_taken:
  assumes "sco_mtu m + 4 \<le> SKW_H4_SCO_MAX_FRAME" "host_frame m f"
  shows "h4_framer host_accepts f = Frame (length f)"
proof -
  obtain status d where d: "skw_h4_decode f = (status, d)" by (cases "skw_h4_decode f")
  have f: "f \<noteq> []" "validate_host_frame m f" using assms(2) by (simp_all add: host_frame_def)
  have t: "h4_type d = f ! 0" using decode_type [OF f(1)] d by simp
  have v: "status = SKW_H4_COMPLETE" "frame_size d = length f" "frame_within_limit d (host_frame_limit m (h4_type d))"
    using f(2) validate_host_frame_iff [OF f(1) d] t by simp_all
  then have "host_accepts d"
    using assms(1) by (auto simp: host_accepts_def host_frame_allowed_def frame_within_limit_def host_frame_limit_def
        split: if_splits)
  with v d show ?thesis by (auto simp: host_policy.framer_Frame)
qed

text \<open>The frames for the controller, each with the device of its type.\<close>

definition for_devices :: "scom_conf \<Rightarrow> transport \<Rightarrow> bytes list \<Rightarrow> (int \<times> bytes) list" where
  "for_devices c t fs = map (\<lambda>f. (dev_fd (ports t ! host_frame_port c (f ! 0)), f)) fs"

text \<open>The board's socket thread, as the bridge's stream reaches it.\<close>

lemma host_path:
  assumes end_: "host_end m vhci cmd w w'" and thread: "socket_end c p t t'"
    and m: "sco_mtu m + 4 \<le> SKW_H4_SCO_MAX_FRAME"
    and link: "prefix (library_read t t') (bridge_wrote w w')"
  shows "\<exists>got reads recent fs left gs rest ws xs.
    read_from vhci w' = read_from vhci w @ got \<and> prefix (fs @ gs) (filter (host_frame m) got) \<and>
    library_read t t' = concat (reads @ recent) \<and> length recent \<le> 1 \<and>
    unframe (h4_framer host_accepts) (concat reads) = (fs, left, True) \<and>
    unframe (h4_framer host_accepts) (left @ concat recent) = (gs, rest, True) \<and>
    sent t' = sent t @ ws @ xs \<and> delivers (for_devices c t fs) ws \<and> delivers_cut (for_devices c t gs) xs"
proof -
  obtain got out bs where h: "written w' = written w @ map (Pair cmd) bs" "concat bs = out"
    "read_from vhci w' = read_from vhci w @ got" "bytes_cut out (filter (host_frame m) got)"
    using end_ unfolding host_end_def talks_def by blast
  obtain reads recent fs left gs rest ok ws xs where v:
    "received t' = received t @ map (Pair (snd (uart_fd (ports t ! p)))) (reads @ recent)" "length recent \<le> 1"
    "unframe (h4_framer host_accepts) (concat reads) = (fs, left, True)"
    "unframe (h4_framer host_accepts) (left @ concat recent) = (gs, rest, ok)"
    "sent t' = sent t @ ws @ xs" "delivers (for_devices c t fs) ws" "delivers_cut (for_devices c t gs) xs"
    using thread unfolding socket_end_def target_def for_devices_def by blast
  have "prefix (concat (reads @ recent)) (concat (filter (host_frame m) got))"
    using link link_simps(1) [OF h(1)] link_simps(4) [OF v(1)] h(2) bytes_cut_part [OF h(4)] prefix_order.trans
    by metis
  then obtain ys where ys: "concat (filter (host_frame m) got) = concat (reads @ recent) @ ys"
    by (auto simp: prefix_def)
  have frames: "h4_framer host_accepts f = Frame (length f)" if "f \<in> set (filter (host_frame m) got)" for f
    using host_frame_taken [OF m] that by simp
  have "unframe (h4_framer host_accepts) (concat (reads @ recent)) = (fs @ gs, rest, ok)"
    using host_policy.packets.unframe_two [OF v(3,4)] by simp
  from host_policy.packets.unframe_part [OF frames ys this]
  have ok: "ok = True" and part: "prefix (fs @ gs) (filter (host_frame m) got)" by (auto simp: prefix_def)
  show ?thesis
    using h(3) part link_simps(4) [OF v(1)] v(2,3) v(4) [unfolded ok] v(5-7) by blast
qed

section \<open>From the device to the kernel\<close>

lemma map_snd_for_host: "map snd (for_host t fs) = payload_frames fs"
  by (simp add: for_host_def comp_def)

lemma kernel_frames_payload: "prefix gs (payload_frames fs) \<Longrightarrow> kernel_frames gs = gs"
  by (auto simp: kernel_frames_def payload_frames_def filter_id_conv dest!: set_mono_prefix)

lemma device_framer_any: "h4_framer device_accepts f = Frame n \<Longrightarrow> h4_framer (\<lambda>_. True) f = Frame n"
  by (rule device_policy.frame_any)

lemma cut_after_part: "cut_after ss fs \<Longrightarrow> prefix fs gs \<Longrightarrow> cut_after ss gs"
  by (auto simp: prefix_def cut_after_append)

text \<open>
  The threads of several devices write to the same socket, each frame under a lock. What
  arrives is an interleaving of whole frames of theirs, and at the end possibly a first part
  of a frame that one of them could not finish.
\<close>

inductive interleaved :: "'a list list \<Rightarrow> 'a list \<Rightarrow> bool" where
  interleaved_Nil: "\<forall>xs\<in>set xss. xs = [] \<Longrightarrow> interleaved xss []"
| interleaved_Cons: "i < length xss \<Longrightarrow> xss ! i = x # xs \<Longrightarrow> interleaved (xss[i := xs]) ys \<Longrightarrow>
    interleaved xss (x # ys)"

definition locked_stream :: "bytes list \<Rightarrow> bytes \<Rightarrow> bool" where
  "locked_stream wrote xs \<longleftrightarrow> (\<exists>bss merged i c.
     list_all2 (\<lambda>bs b. prefix (concat bs) b) bss wrote \<and> (\<forall>bs\<in>set bss. \<forall>b\<in>set bs. h4_packet b) \<and>
     interleaved bss merged \<and> i < length wrote \<and> prefix (concat (bss ! i) @ c) (wrote ! i) \<and>
     prefix xs (concat merged @ c))"

lemma interleaved_set: "interleaved xss ys \<Longrightarrow> set ys \<subseteq> (\<Union>xs\<in>set xss. set xs)"
proof (induction rule: interleaved.induct)
  case (interleaved_Cons i xss x xs ys)
  let ?U = "\<Union>xs\<in>set xss. set xs"
  have "x # xs \<in> set xss" using interleaved_Cons(1,2) nth_mem by metis
  then have x: "x \<in> ?U" "set xs \<subseteq> ?U" by fastforce+
  have "(\<Union>xs\<in>set (xss[i := xs]). set xs) \<subseteq> set xs \<union> ?U"
    using set_update_subset_insert [of xss i xs] by auto
  with x(2) interleaved_Cons.IH have "set ys \<subseteq> ?U" by (meson Un_least order_refl order_trans)
  with x(1) show ?case by simp
qed simp

lemma interleaved_one: "i < length xss \<Longrightarrow> \<forall>j<length xss. j \<noteq> i \<longrightarrow> xss ! j = [] \<Longrightarrow> interleaved xss (xss ! i)"
proof (induction "xss ! i" arbitrary: xss)
  case Nil
  then have "\<forall>xs\<in>set xss. xs = []" by (metis in_set_conv_nth)
  then show ?case using Nil(1) interleaved_Nil by metis
next
  case (Cons x xs)
  have "interleaved (xss[i := xs]) (xss[i := xs] ! i)"
    by (rule Cons.hyps(1)) (use Cons.prems in simp_all)
  then show ?case using Cons.hyps(2) Cons.prems(1) by (metis interleaved_Cons nth_list_update_eq)
qed

text \<open>What one of them has left comes last.\<close>

lemma interleaved_append:
  "interleaved xss ys \<Longrightarrow> i < length xss \<Longrightarrow> interleaved (xss[i := xss ! i @ zs]) (ys @ zs)"
proof (induction rule: interleaved.induct)
  case (interleaved_Nil xss)
  then have "interleaved (xss[i := zs]) (xss[i := zs] ! i)" by (intro interleaved_one) simp_all
  moreover have "xss ! i = []" using interleaved_Nil nth_mem by metis
  ultimately show ?case using interleaved_Nil.prems by simp
next
  case (interleaved_Cons k xss x xs ys)
  let ?new = "xss[i := xss ! i @ zs]"
  have "interleaved (xss[k := xs, i := xss[k := xs] ! i @ zs]) (ys @ zs)"
    using interleaved_Cons by simp
  then have "interleaved (?new[k := if k = i then xs @ zs else xs]) (ys @ zs)"
    using interleaved_Cons.hyps(1) interleaved_Cons.prems by (cases "k = i") (simp_all add: list_update_swap)
  moreover have "?new ! k = x # (if k = i then xs @ zs else xs)"
    using interleaved_Cons.hyps(1,2) interleaved_Cons.prems by (cases "k = i") simp_all
  ultimately show ?case using interleaved_Cons.hyps(1) interleaved.interleaved_Cons [of k ?new] by simp
qed

text \<open>What a thread of the library takes off its device for the host.\<close>

definition device_payload :: "transport \<Rightarrow> transport \<Rightarrow> bytes list" where
  "device_payload t t' = payload_frames (fst (unframe (h4_framer device_accepts) (library_read t t')))"

text \<open>The packets at the front of what a thread wrote are the first of its frames.\<close>

lemma written_packets:
  assumes "device_end p t t'" "prefix (concat bs @ c) (library_wrote t t')" "\<forall>b\<in>set bs. h4_packet b"
  shows "\<exists>more. device_payload t t' = bs @ more \<and> prefix c (concat more) \<and>
    (\<forall>f\<in>set (bs @ more). h4_framer (\<lambda>_. True) f = Frame (length f) \<and> f ! 0 \<noteq> SKW_H4_LOG_PKT)"
proof -
  obtain reads recent fs left gs rest ok ws xs where v:
    "received t' = received t @ map (Pair (dev_fd (ports t ! p))) (reads @ recent)"
    "unframe (h4_framer device_accepts) (concat reads) = (fs, left, True)"
    "unframe (h4_framer device_accepts) (left @ concat recent) = (gs, rest, ok)"
    "sent t' = sent t @ ws @ xs" "delivers (for_host t fs) ws" "delivers_cut (for_host t gs) xs"
    using assms(1) unfolding device_end_def by blast
  have u: "unframe (h4_framer device_accepts) (concat (reads @ recent)) = (fs @ gs, rest, ok)"
    using device_policy.packets.unframe_two [OF v(2,3)] by simp
  define frames where "frames = device_payload t t'"
  have f: "frames = payload_frames (fs @ gs)"
    unfolding frames_def device_payload_def link_simps(4) [OF v(1)] u by simp
  have any: "h4_framer (\<lambda>_. True) g = Frame (length g)" if "g \<in> set frames" for g
    using that device_policy.frame_any [OF device_policy.packets.unframe_frames [OF u]]
    by (auto simp: f payload_frames_def)
  have "prefix (library_wrote t t') (concat frames)"
    unfolding link_simps(3) [OF v(4)] f
    using delivers_bytes [OF v(5)] delivers_cut_bytes [OF v(6)] by (simp add: map_snd_for_host)
  then obtain ys where ys: "concat frames = concat bs @ c @ ys"
    using assms(2) by (auto simp: prefix_def)
  have packet: "h4_framer (\<lambda>_. True) b = Frame (length b)" if "b \<in> set bs" for b
    using assms(3) that h4_packet_complete [of b] by (auto simp: any_h4.framer_Frame)
  have "unframe (h4_framer (\<lambda>_. True)) (concat bs) = (bs, [], True)"
    using any_h4.packets.unframe_concat [of bs "[]"] packet by simp
  from any_h4.packets.unframe_part(2) [OF any ys this] obtain more where "frames = bs @ more" by blast
  moreover have "g ! 0 \<noteq> SKW_H4_LOG_PKT" if "g \<in> set frames" for g using that by (auto simp: f payload_frames_def)
  moreover have "prefix c (concat more)" using ys \<open>frames = bs @ more\<close> by (auto simp: prefix_def)
  ultimately show ?thesis using any unfolding frames_def [symmetric] by blast
qed

lemma device_path:
  assumes ends: "\<forall>(p, t, t')\<in>set runs. device_end p t t'" and end_: "chip_end m vhci c w w'"
    and link: "locked_stream (map (\<lambda>(p, t, t'). library_wrote t t') runs) (bridge_read c w w')"
  shows "\<exists>reads recent fs s frames fss out.
    bridge_read c w w' = concat (reads @ recent) \<and> length recent \<le> 1 \<and>
    unframe (controller_framer m) (concat reads) = (fs, s, True) \<and>
    written w' = written w @ map (Pair vhci) (fs @ out) \<and> cut_after (fs @ out) frames \<and>
    interleaved fss frames \<and> list_all2 (\<lambda>fs (p, t, t'). prefix fs (device_payload t t')) fss runs"
proof -
  obtain bss merged i c0 where l: "list_all2 (\<lambda>bs b. prefix (concat bs) b) bss (map (\<lambda>(p, t, t'). library_wrote t t') runs)"
    "\<forall>bs\<in>set bss. \<forall>b\<in>set bs. h4_packet b" "interleaved bss merged" "i < length runs"
    "prefix (concat (bss ! i) @ c0) (map (\<lambda>(p, t, t'). library_wrote t t') runs ! i)"
    "prefix (bridge_read c w w') (concat merged @ c0)"
    using link unfolding locked_stream_def by auto
  have len: "length bss = length runs" using list_all2_lengthD [OF l(1)] by simp
  have thread: "\<exists>more. device_payload t t' = bss ! j @ more \<and> prefix c (concat more) \<and>
      (\<forall>f\<in>set (bss ! j @ more). h4_framer (\<lambda>_. True) f = Frame (length f) \<and> f ! 0 \<noteq> SKW_H4_LOG_PKT)"
    if "j < length runs" "runs ! j = (p, t, t')" "prefix (concat (bss ! j) @ c) (library_wrote t t')" for j p t t' c
  proof (rule written_packets)
    show "device_end p t t'" using ends that nth_mem by fastforce
    show "\<forall>b\<in>set (bss ! j). h4_packet b" using l(2) that(1) len nth_mem [of j bss] by auto
  qed (rule that(3))
  have whole: "prefix (bss ! j) (device_payload t t') \<and>
      (\<forall>f\<in>set (bss ! j). h4_framer (\<lambda>_. True) f = Frame (length f) \<and> f ! 0 \<noteq> SKW_H4_LOG_PKT)"
    if "j < length runs" "runs ! j = (p, t, t')" for j p t t'
    using thread [OF that, of "[]"] list_all2_nthD [OF l(1), of j] that len by auto
  obtain p t t' where run: "runs ! i = (p, t, t')" by (cases "runs ! i") auto
  obtain more where more: "device_payload t t' = bss ! i @ more" "prefix c0 (concat more)"
    "\<forall>f\<in>set more. h4_framer (\<lambda>_. True) f = Frame (length f) \<and> f ! 0 \<noteq> SKW_H4_LOG_PKT"
    using thread [OF l(4) run, of c0] l(4,5) run by auto
  let ?fss = "bss[i := bss ! i @ more]" and ?frames = "merged @ more"
  have frames: "h4_framer (\<lambda>_. True) f = Frame (length f) \<and> f ! 0 \<noteq> SKW_H4_LOG_PKT"
    if f: "f \<in> set ?frames" for f
  proof (cases "f \<in> set more")
    case False
    then obtain bs where "bs \<in> set bss" "f \<in> set bs" using f interleaved_set [OF l(3)] by auto
    then obtain j where "j < length bss" "f \<in> set (bss ! j)" by (metis in_set_conv_nth)
    then show ?thesis using whole len by (metis prod_cases3)
  qed (use more(3) in blast)
  obtain reads recent fs s gs rest ok out where b:
    "read_from c w' = read_from c w @ reads @ recent" "length recent \<le> 1"
    "unframe (controller_framer m) (concat reads) = (fs, s, True)"
    "unframe (controller_framer m) (s @ concat recent) = (gs, rest, ok)"
    "cut_after out (kernel_frames gs)" "written w' = written w @ map (Pair vhci) (kernel_frames fs @ out)"
    using end_ unfolding chip_end_def by blast
  have "prefix (bridge_read c w w') (concat ?frames)"
    using l(6) more(2) by (auto simp: prefix_def) (metis append_assoc)
  then obtain ys where ys: "concat ?frames = concat (reads @ recent) @ ys"
    using link_simps(2) [OF b(1)] by (auto simp: prefix_def)
  have "unframe (controller_framer m) (concat (reads @ recent)) = (fs @ gs, rest, ok)"
    using controller.packets.unframe_two [OF b(3,4)] by simp
  from controller.packets_part [OF conjunct1 [OF frames] ys this] obtain hs where hs: "?frames = fs @ gs @ hs"
    by auto
  have "f ! 0 \<noteq> SKW_H4_LOG_PKT" if "f \<in> set (fs @ gs)" for f using that frames [of f] unfolding hs by auto
  then have k: "kernel_frames fs = fs" "kernel_frames gs = gs" by (simp_all add: kernel_frames_def filter_id_conv)
  have "cut_after (fs @ out) ?frames"
    using cut_after_append [OF cut_after_prefix [OF b(5) [unfolded k]], of fs hs] hs by simp
  moreover have "interleaved ?fss ?frames" using interleaved_append [OF l(3)] l(4) len by simp
  moreover have "list_all2 (\<lambda>fs (p, t, t'). prefix fs (device_payload t t')) ?fss runs"
    unfolding list_all2_conv_all_nth
  proof (intro conjI allI impI)
    fix j assume j: "j < length ?fss"
    obtain q u u' where q: "runs ! j = (q, u, u')" by (cases "runs ! j") auto
    show "case runs ! j of (p, t, t') \<Rightarrow> prefix (?fss ! j) (device_payload t t')"
      using whole [OF _ q] more(1) run q j len by (cases "j = i") auto
  qed (simp add: len)
  ultimately show ?thesis using link_simps(2) [OF b(1)] b(2,3) b(6) [unfolded k] by blast
qed

section \<open>Properties\<close>

text \<open>
  C4: From the kernel to the devices, over a socket that delivers a first part of what was
  written to it. When the bridge's loop and the socket thread of the library have both ended, then of everything the kernel handed over exactly the valid host
  frames were meant for the devices, and the devices got a first part of them, in their order,
  each on the device of its type, whole but for the last: all that the reads of the library
  but its last completed, and a part of what the last one did. The library never refuses a
  frame that the bridge has let through.
\<close>

theorem kernel_frames_reach_devices:
  assumes "kernel_to_chip m vhci cmd w = Some ((), w')" "vhci \<noteq> signal_fd w"
    and "sco_mtu m + 4 \<le> SKW_H4_SCO_MAX_FRAME"
    and "scomm_vendor_recv_socket_thread c p t = Some ((), t')"
    and "length (ports t) = BT_COM_PORT_SIZE" "p < BT_COM_PORT_SIZE" "\<not> wakes_device c" "host_stream t = []"
    and "prefix (library_read t t') (bridge_wrote w w')"
  shows "\<exists>got reads recent fs left gs rest ws xs.
    read_from vhci w' = read_from vhci w @ got \<and> prefix (fs @ gs) (filter (host_frame m) got) \<and>
    library_read t t' = concat (reads @ recent) \<and> length recent \<le> 1 \<and>
    unframe (h4_framer host_accepts) (concat reads) = (fs, left, True) \<and>
    unframe (h4_framer host_accepts) (left @ concat recent) = (gs, rest, True) \<and>
    sent t' = sent t @ ws @ xs \<and> delivers (for_devices c t fs) ws \<and> delivers_cut (for_devices c t gs) xs"
proof (rule host_path [OF _ _ assms(3,9)])
  show "host_end m vhci cmd w w'"
    using postD [OF post_kernel_to_chip [OF assms(2) host_at_start] assms(1)] by simp
  have "plain c t" using assms(5,7) by (simp add: plain_def)
  then show "socket_end c p t t'"
    using postD [OF post_recv_socket_thread [OF _ assms(6) host_inv_start [OF assms(8)]] assms(4)] by simp
qed

text \<open>The library's side of the sample traffic: a command in two reads, then the end.\<close>

definition path_script :: "reply list" where
  "path_script = [Epolled [(True, [POLLIN])], reply.Got [1, 3], Epolled [(True, [POLLIN])], reply.Got [0x0c, 0],
     reply.Wrote 4, Epolled [(True, [POLLHUP])], reply.Got []]"

theorem kernel_frames_reach_devices_witness:
  "\<exists>w' t' got fs ws. kernel_to_chip sample_mtus 20 10 (sample_world kernel_script) = Some ((), w') \<and>
     scomm_vendor_recv_socket_thread sdio_conf 0 (sample_transport path_script) = Some ((), t') \<and>
     sent t' = [(10, [1, 3, 0x0c, 0])] \<and> prefix fs (filter (host_frame sample_mtus) got) \<and>
     delivers_cut (for_devices sdio_conf (sample_transport path_script) fs) (sent t')"
proof -
  let ?w = "sample_world kernel_script" and ?t = "sample_transport path_script"
  have "map_option (\<lambda>(u, v). written v) (kernel_to_chip sample_mtus 20 10 ?w) = Some [(10, [1]), (10, [3, 0x0c, 0])]"
    by code_simp
  then obtain w' where w': "kernel_to_chip sample_mtus 20 10 ?w = Some ((), w')"
    "written w' = [(10, [1]), (10, [3, 0x0c, 0])]"
    by auto
  have "map_option (\<lambda>(u, v). (sent v, received v)) (scomm_vendor_recv_socket_thread sdio_conf 0 ?t) =
      Some ([(10, [1, 3, 0x0c, 0])], [(21, [1, 3]), (21, [0x0c, 0]), (21, [])])"
    by code_simp
  then obtain t' where t': "scomm_vendor_recv_socket_thread sdio_conf 0 ?t = Some ((), t')"
    "sent t' = [(10, [1, 3, 0x0c, 0])]" "received t' = [(21, [1, 3]), (21, [0x0c, 0]), (21, [])]"
    by auto
  have link: "prefix (library_read ?t t') (bridge_wrote ?w w')"
    using w'(2) t'(3) by (simp add: library_read_def bridge_wrote_def sample_world_def sample_transport_def)
  have side: "20 \<noteq> signal_fd ?w" "sco_mtu sample_mtus + 4 \<le> SKW_H4_SCO_MAX_FRAME" "length (ports ?t) = 4"
    "\<not> wakes_device sdio_conf" "host_stream ?t = []" "sent ?t = []"
    by (simp_all add: sample_world_def sample_mtus_def frame_limits sample_transport_def wakes_device_def sdio_conf_def)
  from kernel_frames_reach_devices [OF w'(1) side(1,2) t'(1) side(3) _ side(4,5) link]
  obtain got fs gs ws xs where r: "prefix (fs @ gs) (filter (host_frame sample_mtus) got)" "sent t' = ws @ xs"
    "delivers (for_devices sdio_conf ?t fs) ws" "delivers_cut (for_devices sdio_conf ?t gs) xs"
    using side(6) by auto
  have "delivers_cut (for_devices sdio_conf ?t (fs @ gs)) (sent t')"
    using delivers_cut_append [OF r(3,4)] r(2) by (simp add: for_devices_def)
  then show ?thesis using w'(1) t'(1,2) r(1) by blast
qed

text \<open>
  C5: From the devices to the kernel, over a socket that several threads write to under a
  lock. When the threads of the library that read the devices and the reader thread of the bridge have ended, every write of the bridge to the kernel is
  a whole frame that a device sent, the last write possibly cut short; the frames of each device
  come in their order and without a gap, however those of different devices interleave; and
  every frame is written that was complete with the last read but one. The log frames of the
  controller never get there.
\<close>

theorem device_frames_reach_kernel:
  assumes "\<forall>(p, t, t')\<in>set runs. scomm_vendor_recv_scomm_thread p t = Some ((), t') \<and> p < length (ports t)"
    and "chip_to_kernel m vhci vendor_fds w = Some ((), w')" "poll_fds [] vendor_fds = [c]" "c \<noteq> signal_fd w"
    and "locked_stream (map (\<lambda>(p, t, t'). library_wrote t t') runs) (bridge_read c w w')"
  shows "\<exists>reads recent fs s frames fss out.
    bridge_read c w w' = concat (reads @ recent) \<and> length recent \<le> 1 \<and>
    unframe (h4_framer (controller_accepts m)) (concat reads) = (fs, s, True) \<and>
    written w' = written w @ map (Pair vhci) (fs @ out) \<and> cut_after (fs @ out) frames \<and>
    interleaved fss frames \<and> list_all2 (\<lambda>fs (p, t, t'). prefix fs (device_payload t t')) fss runs"
proof (rule device_path [OF _ _ assms(5)])
  show "\<forall>(p, t, t')\<in>set runs. device_end p t t'" using assms(1) device_thread_end by fastforce
  have "chip_loop m vhci [c] [[]] w = Some ((), w')" using assms(2,3) by (simp add: chip_to_kernel_def)
  from postD [OF post_chip_loop [OF assms(4) chip_at_start] this] show "chip_end m vhci c w w'" by simp
qed

text \<open>The bridge's side: the two events of \<open>device_script\<close>, in two reads, then a hang-up.\<close>

definition chip_path_script :: "answer list" where
  "chip_path_script = [answer.Polled [[POLLIN]], answer.Read_failed EAGAIN, answer.Got [4, 0x0e],
     answer.Polled [[POLLIN]], answer.Read_failed EAGAIN, answer.Got [1, 9, 4, 0x13, 0], answer.Wrote 4, answer.Wrote 3,
     answer.Polled [[POLLHUP]], answer.Read_failed EAGAIN]"

theorem device_frames_reach_kernel_witness:
  "\<exists>w' t' frames. scomm_vendor_recv_scomm_thread 1 (sample_transport device_script) = Some ((), t') \<and>
     chip_to_kernel sample_mtus 20 [10, 10, -1, 10] (sample_world chip_path_script) = Some ((), w') \<and>
     written w' = [(20, [4, 0x0e, 1, 9]), (20, [4, 0x13, 0])] \<and>
     cut_after (map snd (written w')) frames"
proof -
  let ?w = "sample_world chip_path_script" and ?t = "sample_transport device_script"
  let ?frames = "[[4, 0x0e, 1, 9], [4, 0x13, 0]] :: bytes list"
  have "map_option (\<lambda>(u, v). (written v, readlog v)) (chip_to_kernel sample_mtus 20 [10, 10, -1, 10] ?w) =
      Some ([(20, [4, 0x0e, 1, 9]), (20, [4, 0x13, 0])], [(10, [4, 0x0e]), (10, [1, 9, 4, 0x13, 0])])"
    by code_simp
  then obtain w' where w': "chip_to_kernel sample_mtus 20 [10, 10, -1, 10] ?w = Some ((), w')"
    "written w' = [(20, [4, 0x0e, 1, 9]), (20, [4, 0x13, 0])]" "readlog w' = [(10, [4, 0x0e]), (10, [1, 9, 4, 0x13, 0])]"
    by auto
  have "map_option (\<lambda>(u, v). sent v) (scomm_vendor_recv_scomm_thread 1 ?t) =
      Some [(21, [4]), (21, [0x0e, 1, 9]), (21, [4, 0x13, 0])]"
    by code_simp
  then obtain t' where t': "scomm_vendor_recv_scomm_thread 1 ?t = Some ((), t')"
    "sent t' = [(21, [4]), (21, [0x0e, 1, 9]), (21, [4, 0x13, 0])]"
    by auto
  have bytes: "library_wrote ?t t' = concat ?frames" "bridge_read 10 ?w w' = concat ?frames"
    using t'(2) w'(3)
    by (simp_all add: library_wrote_def bridge_read_def read_from_def sample_transport_def sample_world_def)
  have "skw_h4_decode f = (SKW_H4_COMPLETE, snd (skw_h4_decode f)) \<and> frame_size (snd (skw_h4_decode f)) = length f"
    if "f \<in> set ?frames" for f
    using that by (auto; code_simp)
  then have "\<forall>b\<in>set ?frames. h4_packet b" using complete_h4_packet by blast
  then have link: "locked_stream [library_wrote ?t t'] (bridge_read 10 ?w w')"
    unfolding locked_stream_def bytes
    by (intro exI [of _ "[?frames]"] exI [of _ ?frames] exI [of _ 0] exI [of _ "[]"])
       (use interleaved_one [of 0 "[?frames]"] in simp)
  have side: "\<forall>(p, t, t')\<in>set [(1, ?t, t')]. scomm_vendor_recv_scomm_thread p t = Some ((), t') \<and> p < length (ports t)"
    "poll_fds [] [10, 10, -1, 10 :: int] = [10]" "10 \<noteq> signal_fd ?w" "written ?w = []"
    using t'(1) by (simp_all add: sample_transport_def sample_world_def)
  from device_frames_reach_kernel [OF side(1) w'(1) side(2,3)] link
  obtain fs out frames where "written w' = map (Pair 20) (fs @ out)" "cut_after (fs @ out) frames"
    using side(4) by auto
  then have "cut_after (map snd (written w')) frames" by (simp add: comp_def)
  then show ?thesis using w'(1,2) t'(1) by blast
qed

end
