(* ===== verification/Vendor_State.thy ===== *)
theory Vendor_State
  imports Bt_Vendor Scom_Receiver
begin

text \<open>
  What is true of the vendor library's memory in every state: its arrays hold what fits in
  them. The locale proves once that opening and closing ports keep whatever only depends on
  the names of the ports and the stream from the host; the threads of the ports keep it by
  what their loops change.
\<close>

section \<open>What opening and closing keep\<close>

locale port_names =
  fixes I :: "transport \<Rightarrow> bool"
  assumes keep_note: "I t \<Longrightarrow> I (note_event e t)"
    and keep_port: "(\<And>s. port_name (f s) = port_name s) \<Longrightarrow> I t \<Longrightarrow> I (set_port p f t)"
    and keep_stream: "I t \<Longrightarrow> I (t\<lparr>host_stream := []\<rparr>)"
begin

lemma keep_open_fd: "I t \<Longrightarrow> I (open_fd p fd t)"
  by (simp add: open_fd_def keep_note)

lemma keep_close_owned_fd: "(\<And>s. port_name (forget s) = port_name s) \<Longrightarrow> I t \<Longrightarrow> I (close_owned_fd get forget p t)"
  by (simp add: close_owned_fd_def Let_def keep_note keep_port)

lemma keep_stop_port: "I t \<Longrightarrow> I (stop_port p t)"
  by (simp add: stop_port_def Let_def wake_port_def keep_note keep_port)

lemma keep_join_threads: "I t \<Longrightarrow> I (join_threads p t)"
  by (simp add: join_threads_def Let_def keep_note keep_port)

lemma keep_socket_close: "I t \<Longrightarrow> I (scomm_vendor_socket_close p t)"
  by (simp add: scomm_vendor_socket_close_def Let_def keep_close_owned_fd)

lemma keep_fail: "I t \<Longrightarrow> I (snd (socket_open_fail p t))"
  by (simp add: socket_open_fail_def keep_stop_port keep_join_threads keep_socket_close)

lemmas keeps = keep_note keep_port keep_open_fd keep_close_owned_fd keep_stop_port keep_join_threads
  keep_socket_close keep_fail

lemma keep_start_threads:
  assumes "I t"
  shows "I (snd (start_threads io p t))"
proof -
  define v where "v = (if p = 0 then note_event (Started_socket p)
    (set_port p (\<lambda>s. s\<lparr>thread_socket_started := True\<rparr>) t) else t)"
  have v: "I v" using assms by (simp add: v_def keeps)
  show ?thesis
    unfolding start_threads_unfold [OF v_def] Let_def split_beta using assms v by (simp add: keeps)
qed

lemma keep_socket_open:
  assumes "I t"
  shows "I (snd (scomm_vendor_socket_open io p t))"
proof (cases "o_uart io")
  case (Some uart)
  show ?thesis
  proof (cases "o_wake io")
    case None
    with Some assms show ?thesis by (simp add: scomm_vendor_socket_open_def Let_def keeps)
  next
    case wake: (Some wake)
    define b where "b = open_fd p (snd wake) (open_fd p (fst wake) (set_port p (\<lambda>s. s\<lparr>wake_fd := wake\<rparr>)
      (open_fd p (snd uart) (open_fd p (fst uart) (set_port p (\<lambda>s. s\<lparr>uart_fd := uart\<rparr>) t)))))"
    define c where "c = open_fd p (o_epoll io) (set_port p (\<lambda>s. s\<lparr>epoll_fd := o_epoll io\<rparr>) b)"
    define d where "d = set_port p (\<lambda>s. s\<lparr>thread_running := True, recv_comm_thread_running := False,
      driver_state := False, thread_socket_started := False, thread_uart_started := False\<rparr>) c"
    have i: "I b" "I c" "I d" using assms by (simp_all add: b_def c_def d_def keeps)
    have e: "I (snd (start_threads io p (if q then d\<lparr>host_stream := []\<rparr> else d)))" for q
      using i(3) by (cases q) (simp_all add: keep_start_threads keep_stream)
    show ?thesis
      unfolding scomm_vendor_socket_open_def Let_def Some wake option.case b_def [symmetric] c_def [symmetric]
        d_def [symmetric]
      using i e by (simp only: keep_fail split: if_split) simp
  qed
qed (simp add: scomm_vendor_socket_open_def assms)

lemma keep_usbsdio_open: "I t \<Longrightarrow> I (snd (scomm_vendor_usbsdio_open fd io p t))"
  by (simp add: scomm_vendor_usbsdio_open_def Let_def keeps)

lemma keep_uart_open: "I t \<Longrightarrow> I (snd (scomm_vendor_uart_open fd io initial p t))"
  by (simp add: scomm_vendor_uart_open_def Let_def keeps split: option.split)

lemma keep_port_close: "I t \<Longrightarrow> I (scomm_vendor_port_close p t)"
  by (simp add: scomm_vendor_port_close_def Let_def keeps)

lemma keep_fold: "(\<And>p t. I t \<Longrightarrow> I (g p t)) \<Longrightarrow> I t \<Longrightarrow> I (fold g ps t)"
  by (induction ps arbitrary: t) simp_all

lemma keep_close: "I t \<Longrightarrow> I (snd (scomm_vendor_close c t))"
  by (simp add: scomm_vendor_close_def Let_def keep_note keep_fold keep_stop_port keep_port_close del: upt_rec_numeral)

lemma keep_open_ports: "I t \<Longrightarrow> I (snd (open_ports io ps fd t))"
proof (induction ps arbitrary: fd t)
  case (Cons p ps)
  let ?o = "scomm_vendor_usbsdio_open (io_dev io p) (io_dev_fcntl io p) p t"
  have o: "I (snd ?o)" using Cons.prems by (rule keep_usbsdio_open)
  then have "I (snd (scomm_vendor_socket_open (io_socket io p) p (snd ?o)))" by (rule keep_socket_open)
  with o show ?case using Cons by (simp add: Let_def split_beta)
qed simp

lemma keep_userial_open:
  assumes "I (link v)"
  shows "I (link (snd (userial_open io v)))"
proof -
  let ?b = "scomm_vendor_uart_open (io_dev io 0) (io_dev_fcntl io 0) (io_termios io) 0 (link v)"
  have u: "I (snd ?b)" "I (snd (scomm_vendor_socket_open (io_socket io 0) 0 (snd ?b)))"
    using keep_uart_open [OF assms] keep_socket_open by blast+
  have "I (link (snd (uart_userial_open io v)))"
    using assms u by (auto simp: uart_userial_open_def skwbt_boot_open_def Let_def split_beta)
  moreover have "I (link (snd (device_userial_open io v)))"
    using assms keep_open_ports [OF assms]
    by (auto simp: device_userial_open_def skwbt_boot_open_def Let_def split_beta simp del: upt_rec_numeral)
  ultimately show ?thesis
    by (auto simp: userial_open_def Let_def split_beta split: option.split)
qed

lemma keep_op:
  assumes "op code v = Some (r, w)" "I (link v)"
  shows "I (link w)"
proof -
  have "I (link w)" if "userial_open io v = (r, w)" for io
    using keep_userial_open [OF assms(2), of io] that by simp
  then show ?thesis
    using assms keep_close
    by (cases code) (auto simp: userial_close_def Let_def split_beta split: option.splits if_splits)
qed

end

section \<open>The library's memory\<close>

definition wf_link :: "transport \<Rightarrow> bool" where
  "wf_link t \<longleftrightarrow> length (ports t) = BT_COM_PORT_SIZE \<and>
     (\<forall>p<BT_COM_PORT_SIZE. length (port_name (ports t ! p)) \<le> DEVICE_NODE_MAX_LEN) \<and>
     length (host_stream t) \<le> SKW_H4_STREAM_CAPACITY"

definition wf_vendor :: "vendor \<Rightarrow> bool" where
  "wf_vendor v \<longleftrightarrow> wf_link (link v) \<and> length (skwbt_device_node v) = BT_COM_PORT_SIZE \<and>
     (\<forall>n\<in>set (skwbt_device_node v). length n < DEVICE_NODE_MAX_LEN) \<and> length (vnd_local_bd_addr v) = 6"

lemma wf_link_set:
  assumes "\<And>s. length (port_name s) \<le> DEVICE_NODE_MAX_LEN \<Longrightarrow> length (port_name (f s)) \<le> DEVICE_NODE_MAX_LEN"
    and "wf_link t"
  shows "wf_link (set_port p f t)"
proof -
  have "length (port_name (ports (set_port p f t) ! q)) \<le> DEVICE_NODE_MAX_LEN" if "q < length (ports t)" for q
    using that assms by (cases "q = p") (simp_all add: wf_link_def set_port_def)
  then show ?thesis using assms(2) by (simp add: wf_link_def set_port_def)
qed

interpretation library_memory: port_names wf_link
  by unfold_locales (auto simp: wf_link_set, auto simp: wf_link_def note_event_def)

subsection \<open>Threads\<close>

lemma wf_link_acts:
  assumes "wf_link t" "acts ws rs es t u"
  shows "wf_link u"
proof -
  have "flags_cleared (ports t) (ports u)" "host_stream u = host_stream t" using assms(2) by (simp_all add: acts_def)
  then show ?thesis
    using assms(1) flags_cleared_length [of "ports t" "ports u"] flags_cleared_nth [of "ports t" "ports u"]
    by (simp add: wf_link_def flag_cleared_def)
qed

lemma wf_link_fail: "wf_link t \<Longrightarrow> wf_link (scomm_vendor_fail_transport p t)"
  using fail_transport_acts wf_link_acts by blast

lemma wf_link_pump_device:
  assumes "wf_link u" "length xs \<le> SKW_H4_STREAM_CAPACITY"
  shows "post (pump host_accepts (hand_to_device c p) (scomm_vendor_fail_transport p) xs u)
    (\<lambda>left v. wf_link (v\<lparr>host_stream := left\<rparr>))"
proof (rule post_mono [OF post_conj [OF device.post_pump pump_shortens]])
  fix left v
  assume r: "device.pumped p c xs u left v \<and> length left \<le> length xs"
  then obtain ws es where "acts ws [] es u v" using pumped_acts by blast
  then have "wf_link v" by (rule wf_link_acts [OF assms(1)])
  then show "wf_link (v\<lparr>host_stream := left\<rparr>)" using r assms(2) by (simp add: wf_link_def)
qed

lemma wf_link_rawdata: "wf_link t \<Longrightarrow> post (scomm_vendor_recv_rawdata c p t) (\<lambda>_ v. wf_link v)"
proof (induction t rule: transport_induct)
  case (less t)
  let ?n = "SKW_H4_STREAM_CAPACITY - length (host_stream t)"
  have read: "post (call_read fd ?n t) (\<lambda>r u. fewer t u \<and> wf_link u \<and>
      (case r of Inl e \<Rightarrow> True | Inr bs \<Rightarrow> length (host_stream u @ bs) \<le> SKW_H4_STREAM_CAPACITY))" for fd
  proof (rule post_mono [OF post_call_read])
    fix r u
    assume "fewer t u \<and> (case r of Inl e \<Rightarrow> acts [] [] [] t u
      | Inr bs \<Rightarrow> length bs \<le> ?n \<and> acts [] [(fd, bs)] [] t u)"
    moreover have "length (host_stream t) \<le> SKW_H4_STREAM_CAPACITY" using less.prems by (simp add: wf_link_def)
    ultimately show "fewer t u \<and> wf_link u \<and>
      (case r of Inl e \<Rightarrow> True | Inr bs \<Rightarrow> length (host_stream u @ bs) \<le> SKW_H4_STREAM_CAPACITY)"
      using wf_link_acts [OF less.prems] by (cases r) (auto simp: acts_def)
  qed
  show ?case
    by (subst scomm_vendor_recv_rawdata.simps)
       (auto simp: Let_def less.prems split: sum.splits
         intro!: post_bind [OF read] post_bind [OF wf_link_pump_device] wf_link_fail less.IH)
qed

lemma wf_link_entries: "wf_link t \<Longrightarrow> post (serve_entries c p es t) (\<lambda>_ v. wf_link v)"
proof (induction es arbitrary: t)
  case (Cons e es)
  obtain is_socket revents where "e = (is_socket, revents)" by (cases e)
  then show ?case
    using Cons by (auto intro!: post_bind [OF wf_link_rawdata])
qed simp

lemma wf_link_socket_thread: "wf_link t \<Longrightarrow> post (scomm_vendor_recv_socket_thread c p t) (\<lambda>_ v. wf_link v)"
proof (induction t rule: transport_induct)
  case (less t)
  have wait: "post (epoll_until p t) (\<lambda>_ u. fewer t u \<and> wf_link u)"
    by (rule post_mono [OF post_epoll_until]) (use less.prems wf_link_acts in blast)
  have serve: "post (serve_entries c p es u) (\<lambda>_ v. fewer t v \<and> wf_link v)" if "fewer t u" "wf_link u" for es u
    by (rule post_mono [OF post_conj [OF serve_entries_later wf_link_entries [OF that(2)]]])
       (use that(1) fewer_no_longer in blast)
  show ?case
    by (subst scomm_vendor_recv_socket_thread.simps)
       (auto simp: less.prems split: sum.splits
         intro!: post_bind [OF wait] post_bind [OF serve] wf_link_fail less.IH)
qed

lemma wf_link_serve: "wf_link t \<Longrightarrow> post (serve_device p revents stream t) (\<lambda>_ v. wf_link v)"
proof -
  assume t: "wf_link t"
  let ?free = "set_port p (\<lambda>s. s\<lparr>is_busying := False\<rparr>)"
  have read: "post (call_read fd n (set_port p (\<lambda>s. s\<lparr>is_busying := True\<rparr>) t)) (\<lambda>_ u. wf_link (?free u))" for fd n
    by (rule post_mono [OF post_call_read])
       (auto split: sum.splits dest!: acts_read_busy intro: wf_link_acts [OF t])
  have pump: "post (pump device_accepts (hand_to_host p) (scomm_vendor_fail_transport p) xs u) (\<lambda>_ v. wf_link v)"
    if "wf_link u" for xs u
    by (rule post_mono [OF receiver.post_pump]) (use that pumped_host_acts wf_link_acts in blast)
  show ?thesis
    unfolding serve_device_def Let_def
    by (auto simp: t split: sum.splits intro!: post_bind [OF read] post_bind [OF pump] wf_link_fail)
qed

lemma wf_link_scomm_loop: "wf_link t \<Longrightarrow> post (recv_scomm_loop p stream t) (\<lambda>_ v. wf_link v)"
proof (induction t arbitrary: stream rule: transport_induct)
  case (less t)
  have wait: "post (poll_until p t) (\<lambda>_ u. fewer t u \<and> wf_link u)"
    by (rule post_mono [OF post_poll_until]) (use less.prems wf_link_acts in blast)
  have serve: "post (serve_device p revents stream u) (\<lambda>_ v. fewer t v \<and> wf_link v)"
    if "fewer t u" "wf_link u" for revents u
    by (rule post_mono [OF post_conj [OF serve_device_later wf_link_serve [OF that(2)]]])
       (use that(1) fewer_no_longer in blast)
  show ?case
    by (subst recv_scomm_loop.simps)
       (auto simp: less.prems split: sum.splits option.splits
         intro!: post_bind [OF wait] post_bind [OF serve] wf_link_fail less.IH)
qed

lemma wf_link_scomm_thread:
  assumes "wf_link t" "scomm_vendor_recv_scomm_thread p t = Some ((), u)"
  shows "wf_link u"
proof -
  have "wf_link (set_port p (\<lambda>s. s\<lparr>recv_comm_thread_running := True\<rparr>) t)"
    using assms(1) by (rule wf_link_set [rotated]) simp
  from wf_link_scomm_loop [OF this] assms(2) show ?thesis
    unfolding scomm_vendor_recv_scomm_thread_def by (auto simp: post_iff split: bind_splits intro!: wf_link_set)
qed

subsection \<open>Initialisation\<close>

lemma load_nodes_wf:
  "wf_link t \<Longrightarrow> length nodes = BT_COM_PORT_SIZE \<Longrightarrow> \<forall>n\<in>set nodes. length n < DEVICE_NODE_MAX_LEN \<Longrightarrow>
   load_nodes ls p nodes t = Some (r, nodes', u) \<Longrightarrow>
   wf_link u \<and> length nodes' = BT_COM_PORT_SIZE \<and> (\<forall>n\<in>set nodes'. length n < DEVICE_NODE_MAX_LEN)"
proof (induction ls arbitrary: p nodes t)
  case (Cons line ls)
  show ?case
  proof (cases "conf_line line")
    case (Setting k nm)
    show ?thesis
    proof (cases "k = ascii ''BtDeviceNode'' \<and> p < 4 \<and> length nm < 64")
      case True
      then obtain v where v: "scomm_vendor_set_port_name p nm t = Some v"
        "load_nodes ls (p + 1) (nodes[p := nm]) v = Some (r, nodes', u)"
        using Cons.prems(4) Setting by (auto split: bind_splits)
      have "wf_link v" using v(1) Cons.prems(1) by (auto simp: scomm_vendor_set_port_name_def intro: wf_link_set split: if_splits)
      moreover have "\<forall>n\<in>set (nodes[p := nm]). length n < 64"
        using Cons.prems(3) True set_update_subset_insert [of nodes p nm] by blast
      ultimately show ?thesis using Cons.IH [OF _ _ _ v(2)] Cons.prems(2) by simp
    next
      case False
      then show ?thesis using Cons Setting by (auto split: if_splits)
    qed
  qed (use Cons in auto)
qed simp

lemma load_conf_wf:
  assumes "wf_link t" "load_skwbt_conf file tt t = Some (tt', nodes, u)"
  shows "wf_link u \<and> length nodes = BT_COM_PORT_SIZE \<and> (\<forall>n\<in>set nodes. length n < DEVICE_NODE_MAX_LEN)"
proof (cases "file")
  case None
  with assms show ?thesis by (auto simp: load_skwbt_conf_def Let_def numeral_eq_Suc)
next
  case (Some body)
  obtain r ns v where v: "load_nodes (conf_lines body) 0 (replicate 4 []) t = Some (r, ns, v)"
    "v = u \<and> nodes = ns \<or> nodes = ns[0 := tl (ns ! 0)] \<and> scomm_vendor_set_port_name 0 (nodes ! 0) v = Some u"
    using assms(2) Some by (auto simp: load_skwbt_conf_def Let_def split: if_splits bind_splits)
  have ns: "wf_link v" "length ns = 4" "\<forall>n\<in>set ns. length n < 64"
    using load_nodes_wf [OF assms(1) _ _ v(1)] by auto
  have "length (tl (ns ! 0)) < 64" using ns(2,3) nth_mem [of 0 ns] by fastforce
  then have "\<forall>n\<in>set (ns[0 := tl (ns ! 0)]). length n < 64"
    using ns(3) set_update_subset_insert [of ns 0 "tl (ns ! 0)"] by blast
  moreover have "wf_link w" if "scomm_vendor_set_port_name 0 nm v = Some w" for nm w
    using that ns(1) by (auto simp: scomm_vendor_set_port_name_def intro: wf_link_set split: if_splits)
  ultimately show ?thesis using v(2) ns by auto
qed

lemma init_wf:
  assumes "6 \<le> length addr" "init e file (Some cb) addr v = Some (r, w)"
  shows "wf_vendor w"
proof -
  have "wf_link (scomm_vendor_init (link v))"
    by (simp add: wf_link_def scomm_vendor_init_def idle_port_def SKW_H4_STREAM_CAPACITY_def)
  moreover obtain tt nodes u where "load_skwbt_conf file (vendor_type v) (scomm_vendor_init (link v)) = Some (tt, nodes, u)"
    "link w = u" "skwbt_device_node w = nodes" "vnd_local_bd_addr w = take 6 addr"
    using assms(2) by (auto simp: init_def Let_def set_conf_def split: bind_splits if_splits)
  ultimately show ?thesis using load_conf_wf assms(1) by (auto simp: wf_vendor_def)
qed

lemma userial_open_conf:
  "skwbt_device_node (snd (userial_open io v)) = skwbt_device_node v"
  "vnd_local_bd_addr (snd (userial_open io v)) = vnd_local_bd_addr v"
  by (auto simp: userial_open_def uart_userial_open_def device_userial_open_def skwbt_boot_open_def set_conf_def
      set_logging_def Let_def split_beta simp del: upt_rec_numeral split: option.split)

lemma op_conf:
  assumes "op code v = Some (r, w)"
  shows "skwbt_device_node w = skwbt_device_node v" "vnd_local_bd_addr w = vnd_local_bd_addr v"
proof -
  have "skwbt_device_node w = skwbt_device_node v \<and> vnd_local_bd_addr w = vnd_local_bd_addr v"
    if "userial_open io v = (r, w)" for io
    using userial_open_conf [of io v] that by simp
  then show "skwbt_device_node w = skwbt_device_node v" "vnd_local_bd_addr w = vnd_local_bd_addr v"
    using assms
    by (cases code; auto simp: userial_close_def set_conf_def vendor_note_def Let_def split_beta
        split: option.splits if_splits)+
qed

section \<open>Properties\<close>



end
