(* ===== verification/Wifi_Reorder.thy ===== *)
theory Wifi_Reorder
  imports Prelude
begin

text \<open>
  The reorder buffers of the Wi-Fi driver (\<open>skwifi/skw_rx.c\<close>): the frames of a block-ack
  session are put back into the order of their sequence numbers.

  A socket buffer is an \<open>sk_buff\<close> with its bytes, its receive descriptor and its control
  block; a queue of them is a list. A session (\<open>tid_rx\<close>) has one queue for each residue of the
  sequence numbers by the size of its window. What is done in one handler is one function; the
  handlers take the receive lock or run on the one receive thread, so they are not interleaved.
  Every function returns the frames it hands on (\<open>released\<close>) and those it frees (\<open>freed\<close>).

  The kernel's arithmetic of sequence numbers and times (\<open>linux/ieee80211.h\<close>,
  \<open>linux/jiffies.h\<close>) is the parameter \<open>kernel\<close>; a timer of the kernel is the time at which it
  fires, while it is pending. The traces, the wake-ups of the receive thread and the statistics
  of the rates are not modelled.
\<close>

unbundle bit_operations_syntax

section \<open>What the driver takes from the kernel\<close>

record kernel =
  sn_less :: "u16 \<Rightarrow> u16 \<Rightarrow> bool"
  sn_add :: "u16 \<Rightarrow> u16 \<Rightarrow> u16"
  sn_inc :: "u16 \<Rightarrow> u16"
  sn_sub :: "u16 \<Rightarrow> u16 \<Rightarrow> u16"
  time_before :: "u64 \<Rightarrow> u64 \<Rightarrow> bool"
  time_after :: "u64 \<Rightarrow> u64 \<Rightarrow> bool"
  msecs_to_jiffies :: "nat \<Rightarrow> u64"

text \<open>
  The documented behaviour of the sequence numbers: they count modulo 4096, and one comes
  before another when it is less than half of the circle behind it.
\<close>

definition sequence_numbers :: "kernel \<Rightarrow> bool" where
  "sequence_numbers k \<longleftrightarrow>
     (\<forall>a b. sn_less k a b \<longleftrightarrow> 0x800 < (a - b) AND 0xFFF) \<and>
     (\<forall>a b. sn_add k a b = (a + b) AND 0xFFF) \<and>
     (\<forall>a. sn_inc k a = (a + 1) AND 0xFFF) \<and>
     (\<forall>a b. sn_sub k a b = (a - b) AND 0xFFF)"

section \<open>Frames and sessions\<close>

text \<open>\<open>d_pn\<close> is the packet number, the six bytes \<open>pn\<close> read from the least significant one.\<close>

record rx_desc =
  d_inst :: "2 word"
  d_peer :: "5 word"
  d_tid :: "4 word"
  d_sn :: "12 word"
  d_frag_num :: "4 word"
  d_more_frag :: bool
  d_qos :: bool
  d_mcast :: bool
  d_filter :: u8
  d_amsdu :: bool
  d_amsdu_idx :: u8
  d_amsdu_first :: bool
  d_amsdu_last :: bool
  d_pn :: "48 word"

record sk_buff =
  sk_data :: bytes
  sk_desc :: rx_desc
  rx_time :: u64
  amsdu_bitmap :: u8
  amsdu_mask :: u8
  flag_taint :: bool
  flag_valid :: bool
  skw_created :: bool
  skip_replay_detect :: bool

record tid_rx =
  win_start :: u16
  win_size :: u16
  stored_num :: u32
  tid_ref_cnt :: int
  reorder_buf :: "sk_buff list list"

datatype release_reason = RELEASE_INVALID | RELEASE_EXPIRED | RELEASE_OOB | RELEASE_BAR | RELEASE_FREE

text \<open>
  \<open>todo_links\<close> counts how often the session is linked into the list of the receive thread.
\<close>

record reorder_rx =
  ref_cnt :: int
  timer :: "u64 option"
  expired_sn :: u16
  expired_ref_cnt :: int
  todo_seq :: u16
  todo_reason :: release_reason
  todo_actived :: bool
  todo_links :: nat
  session :: "tid_rx option"

record rx_out =
  released :: "sk_buff list"
  freed :: "sk_buff list"

definition release_frames :: "sk_buff list \<Rightarrow> rx_out \<Rightarrow> rx_out" where
  "release_frames fs out = out\<lparr>released := released out @ fs\<rparr>"

definition free_frames :: "sk_buff list \<Rightarrow> rx_out \<Rightarrow> rx_out" where
  "free_frames fs out = out\<lparr>freed := freed out @ fs\<rparr>"

definition set_slot :: "nat \<Rightarrow> sk_buff list \<Rightarrow> tid_rx \<Rightarrow> tid_rx" where
  "set_slot j fs t = t\<lparr>reorder_buf := (reorder_buf t)[j := fs]\<rparr>"

abbreviation frame_sn :: "sk_buff \<Rightarrow> u16" where
  "frame_sn skb \<equiv> ucast (d_sn (sk_desc skb))"

definition CONFIG_SKW_RX_REORDER_TIMEOUT :: nat where
  "CONFIG_SKW_RX_REORDER_TIMEOUT = 100"

section \<open>The reorder timer and the list of the receive thread\<close>

definition skw_set_reorder_timer :: "kernel \<Rightarrow> u64 \<Rightarrow> u16 \<Rightarrow> tid_rx \<Rightarrow> reorder_rx \<Rightarrow> reorder_rx" where
  "skw_set_reorder_timer k now sn t r =
     (if timer r \<noteq> None \<or> ref_cnt r \<noteq> tid_ref_cnt t then r
      else case reorder_buf t ! (unat sn mod unat (win_size t)) of
        [] \<Rightarrow> r
      | skb # _ \<Rightarrow>
          let timeout = rx_time skb + msecs_to_jiffies k CONFIG_SKW_RX_REORDER_TIMEOUT in
          if time_before k now timeout then
            r\<lparr>expired_sn := sn, expired_ref_cnt := tid_ref_cnt t, timer := Some timeout\<rparr>
          else if todo_actived r then r
          else r\<lparr>todo_seq := sn, todo_actived := True, todo_reason := RELEASE_EXPIRED,
                 todo_links := todo_links r + 1\<rparr>)"

text \<open>The timer fires: it is no longer pending, and its handler runs.\<close>

definition skw_reorder_timeout :: "reorder_rx \<Rightarrow> reorder_rx" where
  "skw_reorder_timeout r =
     (let r = r\<lparr>timer := None\<rparr> in
      if ref_cnt r \<noteq> expired_ref_cnt r then r
      else if todo_actived r then r
      else r\<lparr>todo_actived := True, todo_seq := expired_sn r, todo_reason := RELEASE_EXPIRED,
             todo_links := todo_links r + 1\<rparr>)"

text \<open>A timer that was set for the start of the window is stopped when the window moves on.\<close>

definition stop_timer :: "tid_rx \<Rightarrow> reorder_rx \<Rightarrow> reorder_rx" where
  "stop_timer t r =
     (if timer r \<noteq> None \<and> expired_sn r = win_start t then r\<lparr>timer := None\<rparr> else r)"

section \<open>Releasing frames\<close>

definition is_skw_release_ready :: "sk_buff list \<Rightarrow> bool" where
  "is_skw_release_ready list =
     (case list of [] \<Rightarrow> False | skb # _ \<Rightarrow> \<not> (flag_valid skb \<and> amsdu_bitmap skb \<noteq> amsdu_mask skb))"

definition is_skw_msdu_timeout :: "kernel \<Rightarrow> u64 \<Rightarrow> sk_buff list \<Rightarrow> bool" where
  "is_skw_msdu_timeout k now list =
     (case list of [] \<Rightarrow> False
      | skb # _ \<Rightarrow> time_after k now (rx_time skb + of_nat CONFIG_SKW_RX_REORDER_TIMEOUT))"

text \<open>
  The loop of \<open>skw_reorder_force_release\<close>. It ends before its fuel of 4096 rounds does: each
  round brings the window one number closer to its target.
\<close>

primrec force_loop :: "kernel \<Rightarrow> u16 \<Rightarrow> u16 \<Rightarrow> nat \<Rightarrow> tid_rx \<Rightarrow> rx_out \<Rightarrow> tid_rx \<times> rx_out" where
  "force_loop k to_sn target 0 t out = (t, out)"
| "force_loop k to_sn target (Suc fuel) t out =
     (if \<not> sn_less k (win_start t) target then (t, out)
      else if stored_num t = 0 then (t\<lparr>win_start := to_sn\<rparr>, out)
      else
        let index = unat (win_start t) mod unat (win_size t);
            list = reorder_buf t ! index;
            (t, out) =
              (case list of
                 [] \<Rightarrow> (t, out)
               | skb # _ \<Rightarrow>
                   ((set_slot index [] t)\<lparr>stored_num := stored_num t - 1\<rparr>,
                    if flag_taint skb then free_frames list out else release_frames list out))
        in force_loop k to_sn target fuel (t\<lparr>win_start := sn_inc k (win_start t)\<rparr>) out)"

definition force_fuel :: nat where
  "force_fuel = 0x1000"

definition force_timer :: "kernel \<Rightarrow> u16 \<Rightarrow> tid_rx \<Rightarrow> reorder_rx \<Rightarrow> reorder_rx" where
  "force_timer k to_sn t r =
     (if timer r \<noteq> None \<and> ref_cnt r = tid_ref_cnt t \<and>
         (sn_less k (expired_sn r) to_sn \<or> sn_less k to_sn (win_start t))
      then r\<lparr>timer := None\<rparr> else r)"

definition skw_reorder_force_release ::
  "kernel \<Rightarrow> u16 \<Rightarrow> tid_rx \<times> reorder_rx \<times> rx_out \<Rightarrow> tid_rx \<times> reorder_rx \<times> rx_out" where
  "skw_reorder_force_release k to_sn = (\<lambda>(t, r, out).
     let r = force_timer k to_sn t r;
         (t, out) = force_loop k to_sn (sn_inc k to_sn) force_fuel t out
     in (t, r, out))"

text \<open>The loop of \<open>skw_reorder_release\<close>, over the values of \<open>i\<close>; \<open>w\<close> is the window's start before it.\<close>

fun release_loop ::
  "kernel \<Rightarrow> u64 \<Rightarrow> u16 \<Rightarrow> nat list \<Rightarrow> bool \<Rightarrow> tid_rx \<times> reorder_rx \<times> rx_out \<Rightarrow> tid_rx \<times> reorder_rx \<times> rx_out" where
  "release_loop k now w [] release (t, r, out) = (t, r, out)"
| "release_loop k now w (i # is) release (t, r, out) =
     (if stored_num t = 0 then (t, r\<lparr>timer := None\<rparr>, out)
      else
        let index = (unat w + i) mod unat (win_size t); list = reorder_buf t ! index in
        case list of
          [] \<Rightarrow> if timer r \<noteq> None then (t, r, out) else release_loop k now w is False (t, r, out)
        | skb # _ \<Rightarrow>
            if \<not> release then
              if \<not> is_skw_msdu_timeout k now list then
                (t, skw_set_reorder_timer k now (w + of_nat i) t r, out)
              else release_loop k now w is True (skw_reorder_force_release k (w + of_nat i) (t, r, out))
            else
              let r = stop_timer t r in
              if flag_taint skb then
                release_loop k now w is False (set_slot index [] t, r, free_frames list out)
              else if is_skw_release_ready list \<or> is_skw_msdu_timeout k now list then
                release_loop k now w is True
                  ((set_slot index [] t)\<lparr>win_start := sn_inc k (win_start t), stored_num := stored_num t - 1\<rparr>,
                   r, release_frames list out)
              else
                (t, if timer r = None then skw_set_reorder_timer k now (w + of_nat i) t r else r, out))"

definition skw_reorder_release ::
  "kernel \<Rightarrow> u64 \<Rightarrow> tid_rx \<times> reorder_rx \<times> rx_out \<Rightarrow> tid_rx \<times> reorder_rx \<times> rx_out" where
  "skw_reorder_release k now = (\<lambda>(t, r, out).
     release_loop k now (win_start t) [0..<unat (win_size t)] True (t, r, out))"

section \<open>A frame of a session\<close>

text \<open>
  What \<open>skw_ampdu_reorder\<close> does at its label \<open>out\<close>: \<open>rest\<close> is true unless the frame has been
  dropped or purged, and \<open>sn\<close> is its number.
\<close>

definition reorder_out ::
  "kernel \<Rightarrow> u64 \<Rightarrow> u16 \<Rightarrow> bool \<Rightarrow> bool \<Rightarrow> tid_rx \<times> reorder_rx \<times> rx_out \<Rightarrow> tid_rx \<times> reorder_rx \<times> rx_out" where
  "reorder_out k now sn rest release = (\<lambda>(t, r, out).
     if stored_num t \<noteq> 0 then
       if release then skw_reorder_release k now (t, r, out)
       else if rest then (t, skw_set_reorder_timer k now sn t r, out)
       else (t, r, out)
     else (t, r\<lparr>timer := None\<rparr>, out))"

text \<open>A subframe of an aggregate joins the queue of its slot; its marks are those of the head.\<close>

definition SKW_RXCB_AMSDU_LAST :: u8 where
  "SKW_RXCB_AMSDU_LAST = 1"

definition snap_hdr :: bytes where
  "snap_hdr = [0xAA, 0xAA, 0x03, 0, 0, 0]"

definition amsdu_spoofed :: "sk_buff \<Rightarrow> bool" where
  "amsdu_spoofed skb \<longleftrightarrow> d_amsdu_first (sk_desc skb) \<and> take 6 (sk_data skb) = snap_hdr"

definition amsdu_mark :: "sk_buff \<Rightarrow> sk_buff \<Rightarrow> sk_buff" where
  "amsdu_mark skb head =
     (let d = sk_desc skb;
          head = head\<lparr>amsdu_bitmap := set_bit (unat (d_amsdu_idx d)) (amsdu_bitmap head), flag_valid := True\<rparr>;
          head = (if amsdu_spoofed skb then head\<lparr>flag_taint := True\<rparr> else head)
      in if d_amsdu_last d then
           head\<lparr>amsdu_mask := mask (unat (d_amsdu_idx d) + 1),
                amsdu_bitmap := amsdu_bitmap head OR SKW_RXCB_AMSDU_LAST\<rparr>
         else head)"

definition amsdu_join :: "sk_buff \<Rightarrow> sk_buff list \<Rightarrow> sk_buff list" where
  "amsdu_join skb list =
     (case list of [] \<Rightarrow> [amsdu_mark skb skb] | head # subs \<Rightarrow> amsdu_mark skb head # subs @ [skb])"

text \<open>A frame, or an aggregate that is whole, takes its place in the slot \<open>index\<close>.\<close>

definition place_frame ::
  "kernel \<Rightarrow> u64 \<Rightarrow> u16 \<Rightarrow> nat \<Rightarrow> sk_buff list \<Rightarrow> bool \<Rightarrow> tid_rx \<times> reorder_rx \<times> rx_out \<Rightarrow>
   tid_rx \<times> reorder_rx \<times> rx_out" where
  "place_frame k now sn index list release = (\<lambda>(t, r, out).
     if sn = win_start t then
       reorder_out k now sn True True
         ((set_slot index [] t)\<lparr>win_start := sn_inc k (win_start t)\<rparr>, stop_timer t r, release_frames list out)
     else reorder_out k now sn True release
            ((set_slot index list t)\<lparr>stored_num := stored_num t + 1\<rparr>, r, out))"

text \<open>What follows the checks of the window.\<close>

definition store_frame ::
  "kernel \<Rightarrow> u64 \<Rightarrow> sk_buff \<Rightarrow> bool \<Rightarrow> tid_rx \<times> reorder_rx \<times> rx_out \<Rightarrow> tid_rx \<times> reorder_rx \<times> rx_out" where
  "store_frame k now skb release = (\<lambda>(t, r, out).
     let d = sk_desc skb; sn = frame_sn skb;
         index = unat sn mod unat (win_size t); list = reorder_buf t ! index
     in if d_amsdu d then
          let t = (if list = [] then t\<lparr>stored_num := stored_num t + 1\<rparr> else t);
              head = (case list of [] \<Rightarrow> skb | head # _ \<Rightarrow> head)
          in if bit (amsdu_bitmap head) (unat (d_amsdu_idx d)) then
               reorder_out k now sn False release (t, r, free_frames [skb] out)
             else
               let list = amsdu_join skb list; head = hd list
               in if amsdu_bitmap head \<noteq> amsdu_mask head then
                    reorder_out k now sn True release (set_slot index list t, r, out)
                  else
                    let t = t\<lparr>stored_num := stored_num t - 1\<rparr>
                    in if flag_taint head then
                         reorder_out k now sn False release
                           ((set_slot index [] t)\<lparr>win_start := sn_inc k (win_start t)\<rparr>, r, free_frames list out)
                       else place_frame k now sn index list release (t, r, out)
        else if list \<noteq> [] then
          reorder_out k now sn False release (t, r, free_frames [skb] out)
        else place_frame k now sn index [skb] release (t, r, out))"

definition filter_bit :: "u8 \<Rightarrow> nat" where
  "filter_bit f = unat (f AND 0x1F)"

text \<open>The filters EAP, WAPI, ARP, DHCP and DHCPV6.\<close>

definition SKW_RX_FILTER_EXCL :: u32 where
  "SKW_RX_FILTER_EXCL = set_bit 5 (set_bit 4 (set_bit 2 (set_bit 11 (set_bit 12 0))))"

definition reorder_frame ::
  "kernel \<Rightarrow> u64 \<Rightarrow> sk_buff \<Rightarrow> tid_rx \<times> reorder_rx \<times> rx_out \<Rightarrow> tid_rx \<times> reorder_rx \<times> rx_out" where
  "reorder_frame k now skb = (\<lambda>(t, r, out).
     let sn = frame_sn skb in
     if sn_less k sn (win_start t) then
       if bit SKW_RX_FILTER_EXCL (filter_bit (d_filter (sk_desc skb))) then
         (t, r, release_frames [skb\<lparr>skip_replay_detect := True\<rparr>] out)
       else reorder_out k now sn False False (t, r, free_frames [skb] out)
     else if \<not> sn_less k sn (win_start t + win_size t) then
       store_frame k now skb True (skw_reorder_force_release k (sn_sub k sn (win_size t)) (t, r, out))
     else store_frame k now skb False (t, r, out))"

section \<open>A frame of a peer\<close>

record peer =
  rx_filter :: u32
  rx_bytes :: u64
  rx_pkts :: u64
  rx_tid_map :: u16
  txba_bitmap :: u16
  txba_blacklist :: u16
  txba_tx_try :: "u8 list"
  reorder :: "reorder_rx list"

definition on_session ::
  "(tid_rx \<times> reorder_rx \<times> rx_out \<Rightarrow> tid_rx \<times> reorder_rx \<times> rx_out) \<Rightarrow> reorder_rx \<times> rx_out \<Rightarrow> reorder_rx \<times> rx_out" where
  "on_session f = (\<lambda>(r, out).
     case session r of
       None \<Rightarrow> (r, out)
     | Some t \<Rightarrow> let (t, r, out) = f (t, r, out) in (r\<lparr>session := Some t\<rparr>, out))"

definition skw_ampdu_reorder ::
  "kernel \<Rightarrow> u64 \<Rightarrow> bool \<Rightarrow> sk_buff \<Rightarrow> peer option \<times> rx_out \<Rightarrow> peer option \<times> rx_out" where
  "skw_ampdu_reorder k now rx_reorder_flag skb = (\<lambda>(entry, out).
     let d = sk_desc skb; tid = unat (d_tid d) in
     if \<not> rx_reorder_flag then (entry, release_frames [skb] out)
     else case entry of
       None \<Rightarrow> (entry, release_frames [skb] out)
     | Some p \<Rightarrow>
         if rx_filter p \<noteq> 0 \<and> \<not> bit (rx_filter p) (filter_bit (d_filter d)) then
           (entry, free_frames [skb] out)
         else
           let p = p\<lparr>rx_bytes := rx_bytes p + of_nat (length (sk_data skb)), rx_pkts := rx_pkts p + 1\<rparr> in
           if \<not> d_qos d \<or> d_mcast d then (Some p, release_frames [skb] out)
           else if d_more_frag d \<or> d_frag_num d \<noteq> 0 then (Some p, release_frames [skb] out)
           else if session (reorder p ! tid) = None then (Some p, release_frames [skb] out)
           else
             let (r, out) = on_session (reorder_frame k now skb) (reorder p ! tid, out)
             in (Some (p\<lparr>reorder := (reorder p)[tid := r]\<rparr>), out))"

section \<open>The list of the receive thread\<close>

text \<open>What \<open>skw_rx_todo\<close> does for one session of the list.\<close>

definition skw_rx_todo :: "kernel \<Rightarrow> u64 \<Rightarrow> reorder_rx \<times> rx_out \<Rightarrow> reorder_rx \<times> rx_out" where
  "skw_rx_todo k now = (\<lambda>(r, out).
     let (r, out) = on_session (skw_reorder_force_release k (todo_seq r)) (r\<lparr>todo_links := todo_links r - 1\<rparr>, out);
         r = r\<lparr>todo_actived := False\<rparr>
     in on_session (skw_reorder_release k now) (r, out))"

section \<open>Opening and closing a session\<close>

definition skw_update_tid_rx :: "u16 \<Rightarrow> reorder_rx \<Rightarrow> reorder_rx" where
  "skw_update_tid_rx ssn r =
     (case session r of
        None \<Rightarrow> r
      | Some _ \<Rightarrow>
          let r = r\<lparr>todo_seq := ssn, todo_reason := RELEASE_BAR\<rparr> in
          if todo_actived r then r else r\<lparr>todo_actived := True, todo_links := todo_links r + 1\<rparr>)"

text \<open>\<open>memory\<close> says whether both allocations succeed; the result \<open>False\<close> is \<open>-ENOMEM\<close>.\<close>

definition skw_add_tid_rx :: "bool \<Rightarrow> u16 \<Rightarrow> u16 \<Rightarrow> reorder_rx \<Rightarrow> bool \<times> reorder_rx" where
  "skw_add_tid_rx memory ssn buf_size r =
     (case session r of
        Some _ \<Rightarrow> (True, skw_update_tid_rx ssn r)
      | None \<Rightarrow>
          let win_sz = push_bit 1 (if 64 < buf_size then ucast buf_size else 64) :: u32 in
          if \<not> memory then (False, r)
          else (True, r\<lparr>
            session := Some \<lparr>win_start = ssn, win_size = ucast win_sz, stored_num = 0,
                             tid_ref_cnt = ref_cnt r, reorder_buf = replicate (unat win_sz) []\<rparr>,
            todo_seq := 0, todo_actived := False, todo_reason := RELEASE_INVALID\<rparr>))"

text \<open>The session that \<open>skw_del_tid_rx\<close> takes off is freed later, by \<open>skw_free_tid_rx\<close>.\<close>

definition skw_del_tid_rx :: "reorder_rx \<Rightarrow> reorder_rx \<times> tid_rx option" where
  "skw_del_tid_rx r = (r\<lparr>session := None, ref_cnt := ref_cnt r + 1, timer := None\<rparr>, session r)"

definition skw_free_tid_rx :: "kernel \<Rightarrow> tid_rx \<Rightarrow> reorder_rx \<times> rx_out \<Rightarrow> reorder_rx \<times> rx_out" where
  "skw_free_tid_rx k t = (\<lambda>(r, out).
     let win_end = sn_add k (win_start t) (win_size t - 1);
         (_, r, out) = skw_reorder_force_release k win_end (t, r, out)
     in (r, out))"

datatype ba_action = SKW_ADD_TX_BA | SKW_DEL_TX_BA | SKW_ADD_RX_BA | SKW_DEL_RX_BA | SKW_REQ_RX_BA

text \<open>
  The firmware reports a block-ack action. The result is the peer and the session to be freed;
  a number of an action outside the list does nothing here (its name is read beyond the table
  of the names for the debug log).
\<close>

definition skw_event_ba_action ::
  "bool \<Rightarrow> ba_action \<Rightarrow> u8 \<Rightarrow> u8 \<Rightarrow> u16 \<Rightarrow> u16 \<Rightarrow> peer \<Rightarrow> peer \<times> tid_rx option" where
  "skw_event_ba_action memory action tid status_code ssn buf_size p =
     (let j = unat tid in
      if 8 \<le> tid then (p, None)
      else case action of
        SKW_ADD_TX_BA \<Rightarrow>
          if status_code \<noteq> 0 then
            let p = p\<lparr>txba_tx_try := (txba_tx_try p)[j := txba_tx_try p ! j + 1]\<rparr>;
                p = (if 5 < txba_tx_try p ! j then p\<lparr>txba_blacklist := set_bit j (txba_blacklist p)\<rparr> else p)
            in (p\<lparr>txba_bitmap := unset_bit j (txba_bitmap p)\<rparr>, None)
          else (p, None)
      | SKW_DEL_TX_BA \<Rightarrow>
          (if tid \<noteq> 0xFF then
             p\<lparr>txba_bitmap := unset_bit j (txba_bitmap p), txba_tx_try := (txba_tx_try p)[j := 0]\<rparr>
           else p\<lparr>txba_bitmap := 0, txba_blacklist := 0, txba_tx_try := replicate 8 0\<rparr>, None)
      | SKW_REQ_RX_BA \<Rightarrow>
          (p\<lparr>reorder := (reorder p)[j := skw_update_tid_rx ssn (reorder p ! j)]\<rparr>, None)
      | SKW_ADD_RX_BA \<Rightarrow>
          let (ok, r) = skw_add_tid_rx memory ssn buf_size (reorder p ! j);
              p = p\<lparr>reorder := (reorder p)[j := r]\<rparr>
          in (if ok then p\<lparr>rx_tid_map := set_bit j (rx_tid_map p)\<rparr> else p, None)
      | SKW_DEL_RX_BA \<Rightarrow>
          let (r, t) = skw_del_tid_rx (reorder p ! j)
          in (p\<lparr>reorder := (reorder p)[j := r], rx_tid_map := unset_bit j (rx_tid_map p)\<rparr>, t))"

end
