(* ===== verification/Wifi_Order.thy ===== *)
theory Wifi_Order
  imports Wifi_Reorder "HOL-Library.Multiset"
begin

text \<open>
  What the reorder buffers do with a session's frames. Whatever is released is a drain of the
  buffer (\<open>drain\<close>): slot by slot from the start of the window on. The invariant \<open>counted\<close> of a
  session counts its frames, \<open>windowed\<close> keeps them inside the window, and both hold of every
  drain and of every frame that is stored.
\<close>

unbundle bit_operations_syntax

section \<open>A kernel and a session, for concrete runs\<close>

definition documented_kernel :: kernel where
  "documented_kernel =
     \<lparr>sn_less = (\<lambda>a b. 0x800 < (a - b) AND 0xFFF), sn_add = (\<lambda>a b. (a + b) AND 0xFFF),
      sn_inc = (\<lambda>a. (a + 1) AND 0xFFF), sn_sub = (\<lambda>a b. (a - b) AND 0xFFF),
      time_before = (\<lambda>a b. a < b), time_after = (\<lambda>a b. b < a), msecs_to_jiffies = of_nat\<rparr>"

lemma documented_sequence_numbers: "sequence_numbers documented_kernel"
  by (simp add: sequence_numbers_def documented_kernel_def)

definition plain_frame :: "12 word \<Rightarrow> sk_buff" where
  "plain_frame sn =
     \<lparr>sk_data = [], sk_desc = \<lparr>d_inst = 0, d_peer = 0, d_tid = 0, d_sn = sn, d_frag_num = 0, d_more_frag = False,
        d_qos = True, d_mcast = False, d_filter = 0, d_amsdu = False, d_amsdu_idx = 0, d_amsdu_first = False,
        d_amsdu_last = False, d_pn = 0\<rparr>,
      rx_time = 0, amsdu_bitmap = 0, amsdu_mask = 0, flag_taint = False, flag_valid = False,
      skw_created = False, skip_replay_detect = False\<rparr>"

definition idle_session :: reorder_rx where
  "idle_session = \<lparr>ref_cnt = 0, timer = None, expired_sn = 0, expired_ref_cnt = 0, todo_seq = 0,
     todo_reason = RELEASE_INVALID, todo_actived = False, todo_links = 0, session = None\<rparr>"

definition sample_session :: reorder_rx where
  "sample_session = snd (skw_add_tid_rx True 4094 64 idle_session)"

section \<open>Sequence numbers\<close>

text \<open>How many numbers \<open>b\<close> is ahead of \<open>a\<close> on the circle of 4096.\<close>

abbreviation circle :: "u16 \<Rightarrow> 12 word" where
  "circle a \<equiv> ucast a"

definition ahead :: "u16 \<Rightarrow> u16 \<Rightarrow> nat" where
  "ahead a b = unat (circle b - circle a)"

lemma uint_circle: "uint (circle a) = uint a mod 4096"
  by (simp add: unsigned_ucast_eq take_bit_eq_mod)

lemma circle_minus [simp]: "circle (a - b) = circle a - circle b"
  by (simp add: word_uint_eq_iff uint_circle uint_word_ariths mod_diff_eq mod_mod_cancel)

lemma circle_plus [simp]: "circle (a + b) = circle a + circle b"
  by (simp add: word_uint_eq_iff uint_circle uint_word_ariths mod_add_eq mod_mod_cancel)

lemma and_12: "x AND 0xFFF = take_bit 12 (x :: u16)"
  by (simp add: take_bit_eq_mask mask_eq_exp_minus_1)

lemma circle_and [simp]: "circle (a AND 0xFFF) = circle a"
  by (simp only: and_12 word_uint_eq_iff uint_circle unsigned_take_bit_eq) (simp add: take_bit_eq_mod)

lemma unat_and_12: "unat (x AND 0xFFF :: u16) = unat (circle x)"
  by (simp add: and_12 unsigned_take_bit_eq unsigned_ucast_eq)

lemma ahead_self [simp]: "ahead a a = 0"
  by (simp add: ahead_def)

lemma ahead_bound [simp]: "ahead a b < 4096"
  using unsigned_less [of "circle b - circle a"] by (simp add: ahead_def)

text \<open>The window moves: \<open>b\<close> is \<open>m\<close> numbers further than \<open>a\<close>.\<close>

definition moved :: "u16 \<Rightarrow> nat \<Rightarrow> u16 \<Rightarrow> bool" where
  "moved a m b \<longleftrightarrow> circle b = circle a + of_nat m"

lemma moved_refl [simp]: "moved a 0 a"
  by (simp add: moved_def)

lemma moved_trans: "moved a m b \<Longrightarrow> moved b n c \<Longrightarrow> moved a (m + n) c"
  by (simp add: moved_def)

lemma ahead_moved: "moved a m b \<Longrightarrow> m < 4096 \<Longrightarrow> ahead a b = m"
  by (simp add: moved_def ahead_def unat_of_nat take_bit_nat_eq_self)

lemma moved_ahead: "moved a (ahead a b) b"
  by (simp add: moved_def ahead_def)

lemma ahead_shift:
  assumes "moved a m b" "ahead b s + m < 4096"
  shows "ahead a s = ahead b s + m"
proof -
  have "circle s - circle a = (circle s - circle b) + of_nat m"
    using assms(1) by (simp add: moved_def algebra_simps)
  moreover have "unat (of_nat m :: 12 word) = m" using assms(2) by (simp add: unat_of_nat take_bit_nat_eq_self)
  ultimately show ?thesis
    unfolding ahead_def using assms(2) [unfolded ahead_def] unat_add_lem [of "circle s - circle b" "of_nat m"]
    by (simp only:) simp
qed

lemma ahead_back:
  assumes "moved a m b" "m \<le> ahead a s"
  shows "ahead b s = ahead a s - m"
proof -
  have "moved b (ahead a s - m) s"
    using assms moved_ahead [of a s] by (simp add: moved_def of_nat_diff)
  then show ?thesis by (rule ahead_moved) (use ahead_bound [of a s] in linarith)
qed

lemma ahead_opposite:
  assumes "ahead a b \<noteq> 0"
  shows "ahead b a = 4096 - ahead a b"
proof -
  have "(of_nat (ahead a b) + of_nat (4096 - ahead a b) :: 12 word) = of_nat 4096"
    unfolding of_nat_add [symmetric] using ahead_bound [of a b] by (simp only: le_add_diff_inverse less_imp_le)
  then have "circle a = circle a + of_nat (ahead a b) + of_nat (4096 - ahead a b)"
    by (simp add: add.assoc)
  then have "moved b (4096 - ahead a b) a"
    using moved_ahead [of a b] by (simp add: moved_def)
  then show ?thesis by (rule ahead_moved) (use assms in linarith)
qed

lemma sn_less_iff:
  assumes k: "sequence_numbers k"
  shows "sn_less k a b \<longleftrightarrow> 0 < ahead a b \<and> ahead a b < 2048"
proof -
  have "sn_less k a b \<longleftrightarrow> 2048 < ahead b a"
    using k by (simp add: sequence_numbers_def ahead_def word_less_nat_alt unat_and_12)
  moreover have "ahead a b = 0 \<Longrightarrow> ahead b a = 0"
    by (simp add: ahead_def unat_eq_0)
  ultimately show ?thesis using ahead_opposite [of a b] by (cases "ahead a b = 0") auto
qed

lemma moved_inc: "sequence_numbers k \<Longrightarrow> moved a 1 (sn_inc k a)"
  by (simp add: sequence_numbers_def moved_def)

lemma moved_sub: "sequence_numbers k \<Longrightarrow> moved (sn_sub k s w) (unat w) s"
  by (simp add: sequence_numbers_def moved_def)

section \<open>Sessions\<close>

lemma mset_slot:
  "j < length xs \<Longrightarrow> mset (concat (xs[j := ys])) + mset (xs ! j) = mset (concat xs) + mset ys"
  by (induction xs arbitrary: j) (auto split: nat.splits simp: ac_simps)

definition occupied :: "tid_rx \<Rightarrow> nat" where
  "occupied t = length (filter (\<lambda>list. list \<noteq> []) (reorder_buf t))"

lemma occupied_slot:
  "j < length (reorder_buf t) \<Longrightarrow>
   occupied (set_slot j fs t) + (if reorder_buf t ! j = [] then 0 else 1) =
   occupied t + (if fs = [] then 0 else 1)"
proof -
  have "j < length xs \<Longrightarrow> length (filter P (xs[j := y])) + (if P (xs ! j) then 1 else 0) =
        length (filter P xs) + (if P y then 1 else 0)" for xs j P and y :: "sk_buff list"
  proof (induction xs arbitrary: j)
    case (Cons x xs)
    then show ?case using Cons.IH [of "j - 1"] by (cases j) auto
  qed simp
  from this [of j "reorder_buf t" "\<lambda>list. list \<noteq> []" fs] show "j < length (reorder_buf t) \<Longrightarrow> ?thesis"
    by (auto simp: occupied_def set_slot_def split: if_splits)
qed

lemma occupied_0: "occupied t = 0 \<longleftrightarrow> (\<forall>list \<in> set (reorder_buf t). list = [])"
  by (auto simp: occupied_def filter_empty_conv)

text \<open>
  \<open>counted\<close>: the size of the window divides the circle, there is one slot for each of its
  numbers, the slots in use are counted, and no frame that the firmware's check has found
  spoofed is left. \<open>windowed\<close>: the frames of a slot are those of its number in the window, and
  behind the first one there are only subframes of an aggregate.
\<close>

definition counted :: "tid_rx \<Rightarrow> bool" where
  "counted t \<longleftrightarrow> unat (win_size t) dvd 4096 \<and> 128 \<le> win_size t \<and> win_size t \<le> 1024 \<and>
     length (reorder_buf t) = unat (win_size t) \<and> unat (stored_num t) = occupied t \<and>
     (\<forall>skb \<in> set (concat (reorder_buf t)). \<not> flag_taint skb)"

definition windowed :: "tid_rx \<Rightarrow> bool" where
  "windowed t \<longleftrightarrow>
     (\<forall>j < length (reorder_buf t). \<forall>skb \<in> set (reorder_buf t ! j).
        ahead (win_start t) (frame_sn skb) < unat (win_size t) \<and> unat (frame_sn skb) mod unat (win_size t) = j \<and>
        \<not> skip_replay_detect skb) \<and>
     (\<forall>list \<in> set (reorder_buf t). \<forall>skb \<in> set (tl list). d_amsdu (sk_desc skb))"

abbreviation head_slot :: "tid_rx \<Rightarrow> nat" where
  "head_slot t \<equiv> unat (win_start t) mod unat (win_size t)"

text \<open>What the release of frames does to a session, while the window moves by so many numbers.\<close>

inductive drain :: "kernel \<Rightarrow> nat \<Rightarrow> tid_rx \<times> rx_out \<Rightarrow> tid_rx \<times> rx_out \<Rightarrow> bool" for k where
  drain_refl: "drain k 0 s s"
| drain_pass: "reorder_buf t ! head_slot t = [] \<Longrightarrow>
    drain k n (t\<lparr>win_start := sn_inc k (win_start t)\<rparr>, out) s \<Longrightarrow> drain k (Suc n) (t, out) s"
| drain_emit: "reorder_buf t ! head_slot t = list \<Longrightarrow> list \<noteq> [] \<Longrightarrow>
    drain k n ((set_slot (head_slot t) [] t)\<lparr>win_start := sn_inc k (win_start t), stored_num := stored_num t - 1\<rparr>,
      release_frames list out) s \<Longrightarrow> drain k (Suc n) (t, out) s"
| drain_jump: "stored_num t = 0 \<Longrightarrow> moved (win_start t) m sn \<Longrightarrow>
    drain k n (t\<lparr>win_start := sn\<rparr>, out) s \<Longrightarrow> drain k (m + n) (t, out) s"

lemma drain_trans: "drain k n s s' \<Longrightarrow> drain k m s' s'' \<Longrightarrow> drain k (n + m) s s''"
  by (induction rule: drain.induct)
     (auto simp: add.assoc intro: drain.intros)

lemma unat_circle: "unat (circle a) = unat a mod 4096"
  by (simp add: unsigned_ucast_eq take_bit_eq_mod)

lemma unat_of_nat_12: "unat (of_nat m :: 12 word) = m mod 4096"
  by (simp add: unat_of_nat)

lemma unat_add_12: "unat (x + y :: 12 word) = (unat x + unat y) mod 4096"
  by (simp add: unat_word_ariths)

lemma mod_add_same: "(a + b) mod d = a mod d \<longleftrightarrow> d dvd (b :: nat)"
  using mod_eq_dvd_iff_nat [of a "a + b" d] by simp

lemma moved_mod:
  assumes "moved a m b" "d dvd 4096"
  shows "unat b mod d = (unat a + m) mod d"
proof -
  have "circle b = circle a + of_nat m" using assms(1) by (simp only: moved_def)
  then have "unat (circle b) = (unat (circle a) + unat (of_nat m :: 12 word)) mod 4096"
    by (simp only: unat_add_12)
  then have "unat b mod 4096 = (unat a + m) mod 4096"
    by (simp only: unat_circle unat_of_nat_12 mod_add_eq mod_mod_trivial)
  then have "unat b mod 4096 mod d = (unat a + m) mod 4096 mod d" by (simp only:)
  then show ?thesis by (simp only: mod_mod_cancel [OF assms(2)])
qed

lemma start_stored: "t\<lparr>stored_num := n, win_start := w\<rparr> = t\<lparr>win_start := w, stored_num := n\<rparr>"
  by simp

lemma sound_start [simp]: "counted (t\<lparr>win_start := w\<rparr>) = counted t"
  by (simp add: counted_def occupied_def)

lemma sound_start_stored [simp]:
  "counted (t\<lparr>win_start := w, stored_num := n\<rparr>) = counted (t\<lparr>stored_num := n\<rparr>)"
  by (simp add: counted_def occupied_def)

lemma soundD:
  assumes "counted t"
  shows "unat (win_size t) dvd 4096" "128 \<le> unat (win_size t)" "unat (win_size t) \<le> 1024"
    "length (reorder_buf t) = unat (win_size t)" "unat (stored_num t) = occupied t"
    "0 < unat (win_size t)"
  using assms by (auto simp: counted_def word_le_nat_alt)

lemma sound_slot: "counted t \<Longrightarrow> n mod unat (win_size t) < length (reorder_buf t)"
  by (simp add: soundD)

lemma sound_empty: "counted t \<Longrightarrow> stored_num t = 0 \<longleftrightarrow> (\<forall>list \<in> set (reorder_buf t). list = [])"
  using soundD(5) [of t] occupied_0 [of t] by (metis unat_eq_zero)

lemma set_slot_simps [simp]:
  "win_start (set_slot j fs t) = win_start t" "win_size (set_slot j fs t) = win_size t"
  "stored_num (set_slot j fs t) = stored_num t" "tid_ref_cnt (set_slot j fs t) = tid_ref_cnt t"
  "reorder_buf (set_slot j fs t) = (reorder_buf t)[j := fs]"
  by (simp_all add: set_slot_def)

lemma out_simps [simp]:
  "released (release_frames fs out) = released out @ fs" "freed (release_frames fs out) = freed out"
  "freed (free_frames fs out) = freed out @ fs" "released (free_frames fs out) = released out"
  by (simp_all add: release_frames_def free_frames_def)

lemma unat_dec: "(x :: u32) \<noteq> 0 \<Longrightarrow> unat (x - 1) = unat x - 1"
  by (simp add: unat_minus_one)

lemma sound_set:
  assumes t: "counted t" and j: "j < length (reorder_buf t)" and fs: "\<forall>skb \<in> set fs. \<not> flag_taint skb"
    and n: "unat n + (if reorder_buf t ! j = [] then 0 else 1) = occupied t + (if fs = [] then 0 else 1)"
  shows "counted ((set_slot j fs t)\<lparr>stored_num := n\<rparr>)"
proof -
  have "occupied (set_slot j fs t) = unat n" using occupied_slot [OF j, of fs] n by simp
  moreover have "\<not> flag_taint skb" if "skb \<in> set (concat ((reorder_buf t)[j := fs]))" for skb
    using that fs t set_update_subset_insert [of "reorder_buf t" j fs] by (auto simp: counted_def)
  ultimately show ?thesis using t by (auto simp: counted_def occupied_def)
qed

lemma sound_emit:
  assumes "counted t" "j < length (reorder_buf t)" "reorder_buf t ! j \<noteq> []"
  shows "counted ((set_slot j [] t)\<lparr>stored_num := stored_num t - 1\<rparr>)"
proof -
  have "stored_num t \<noteq> 0" using assms sound_empty [OF assms(1)] by (metis nth_mem)
  then have "unat (stored_num t - 1) + 1 = occupied t"
    using soundD(5) [OF assms(1)] unat_dec [of "stored_num t"] unat_eq_0 [of "stored_num t"] by simp
  then show ?thesis using assms by (intro sound_set) auto
qed

lemma drain_sound: "drain k n s s' \<Longrightarrow> counted (fst s) \<Longrightarrow> counted (fst s')"
  by (induction rule: drain.induct) (auto simp: sound_emit sound_slot)

lemma drain_size: "drain k n s s' \<Longrightarrow> win_size (fst s') = win_size (fst s)"
  by (induction rule: drain.induct) auto

lemma drain_freed: "drain k n s s' \<Longrightarrow> freed (snd s') = freed (snd s)"
  by (induction rule: drain.induct) auto

text \<open>Where the frames of a slot stand.\<close>

lemma windowedD:
  assumes "windowed t" "j < length (reorder_buf t)" "skb \<in> set (reorder_buf t ! j)"
  shows "ahead (win_start t) (frame_sn skb) < unat (win_size t)" "unat (frame_sn skb) mod unat (win_size t) = j"
    "\<not> skip_replay_detect skb"
  using assms by (auto simp: windowed_def)

lemma head_frames:
  assumes "counted t" "windowed t" "j < length (reorder_buf t)" "skb \<in> set (reorder_buf t ! j)"
  shows "j = head_slot t \<longleftrightarrow> ahead (win_start t) (frame_sn skb) = 0"
proof -
  let ?W = "unat (win_size t)" and ?a = "ahead (win_start t) (frame_sn skb)"
  have j: "j = (unat (win_start t) + ?a) mod ?W"
    using moved_mod [OF moved_ahead [of "win_start t" "frame_sn skb"] soundD(1) [OF assms(1)]]
      windowedD(2) [OF assms(2-4)] by simp
  have a: "?a < ?W" by (rule windowedD(1) [OF assms(2-4)])
  show ?thesis
  proof
    assume "j = head_slot t"
    then have "?W dvd ?a" using j mod_add_same [of "unat (win_start t)" ?a ?W] by simp
    then show "?a = 0" using a by (auto dest: dvd_imp_le)
  next
    assume "?a = 0"
    then show "j = head_slot t" using j by simp
  qed
qed

lemma windowed_empty:
  assumes "\<forall>list \<in> set (reorder_buf t). list = []"
  shows "windowed t"
proof -
  have e: "reorder_buf t ! j = []" if "j < length (reorder_buf t)" for j
    using assms that by simp
  show ?thesis using assms by (auto simp: windowed_def e)
qed

lemma windowed_next:
  assumes k: "sequence_numbers k" and t: "counted t" "windowed t"
  shows "windowed ((set_slot (head_slot t) [] t)\<lparr>win_start := sn_inc k (win_start t), stored_num := n\<rparr>)"
    (is "windowed ?t")
proof -
  have inc: "moved (win_start t) 1 (sn_inc k (win_start t))" by (rule moved_inc [OF k])
  have "ahead (win_start ?t) (frame_sn skb) < unat (win_size ?t) \<and>
      unat (frame_sn skb) mod unat (win_size ?t) = j \<and> \<not> skip_replay_detect skb"
    if j: "j < length (reorder_buf ?t)" and skb: "skb \<in> set (reorder_buf ?t ! j)" for j skb
  proof -
    have *: "j < length (reorder_buf t)" "skb \<in> set (reorder_buf t ! j)" "j \<noteq> head_slot t"
      using j skb sound_slot [OF t(1), of "unat (win_start t)"]
      by (auto simp: nth_list_update split: if_splits)
    then have "1 \<le> ahead (win_start t) (frame_sn skb)" using head_frames [OF t *(1,2)] by simp
    then show ?thesis using windowedD [OF t(2) *(1,2)] ahead_back [OF inc, of "frame_sn skb"] by simp
  qed
  moreover have "\<forall>list \<in> set (reorder_buf ?t). \<forall>skb \<in> set (tl list). d_amsdu (sk_desc skb)"
    using t(2) set_update_subset_insert [of "reorder_buf t" "head_slot t" "[]"] by (auto simp: windowed_def)
  ultimately show ?thesis unfolding windowed_def by blast
qed

lemma windowed_pass:
  assumes "sequence_numbers k" "counted t" "windowed t" "reorder_buf t ! head_slot t = []"
  shows "windowed (t\<lparr>win_start := sn_inc k (win_start t)\<rparr>)"
proof -
  have "set_slot (head_slot t) [] t = t"
    using list_update_id [of "reorder_buf t" "head_slot t"] assms(4) by (simp add: set_slot_def)
  then show ?thesis using windowed_next [OF assms(1-3), of "stored_num t"] by simp
qed

lemma drain_windowed:
  assumes "drain k n s s'" and k: "sequence_numbers k"
  shows "counted (fst s) \<Longrightarrow> windowed (fst s) \<Longrightarrow> windowed (fst s')"
  using assms(1)
proof (induction rule: drain.induct)
  case (drain_pass t n out s)
  have "windowed (t\<lparr>win_start := sn_inc k (win_start t)\<rparr>)"
    using windowed_pass [OF k] drain_pass.prems drain_pass.hyps(1) by simp
  then show ?case using drain_pass by simp
next
  case (drain_emit t list n out s)
  then show ?case using windowed_next [OF k] by (simp add: sound_emit sound_slot)
next
  case (drain_jump t m sn n out s)
  then show ?case by (simp add: sound_empty windowed_empty)
qed simp

section \<open>The order of the released frames\<close>

text \<open>
  \<open>ordered_upto w n fs\<close>: seen from \<open>w\<close>, the frames stand in the order of their numbers, all below
  \<open>n\<close>, and only subframes of an aggregate share a number.
\<close>

definition precedes :: "u16 \<Rightarrow> sk_buff \<Rightarrow> sk_buff \<Rightarrow> bool" where
  "precedes w f g \<longleftrightarrow> ahead w (frame_sn f) < ahead w (frame_sn g) \<or>
     ahead w (frame_sn f) = ahead w (frame_sn g) \<and> d_amsdu (sk_desc g)"

definition ordered_upto :: "u16 \<Rightarrow> nat \<Rightarrow> sk_buff list \<Rightarrow> bool" where
  "ordered_upto w n fs \<longleftrightarrow> sorted_wrt (precedes w) fs \<and>
     (\<forall>f \<in> set fs. ahead w (frame_sn f) < n \<and> \<not> skip_replay_detect f)"

lemma ordered_Nil [simp]: "ordered_upto w n []"
  by (simp add: ordered_upto_def)

lemma ordered_step:
  assumes "ordered_upto w m fs" "moved w m w'" "ordered_upto w' n gs" "m + n \<le> 4096"
  shows "ordered_upto w (m + n) (fs @ gs)"
proof -
  have shift: "ahead w (frame_sn g) = ahead w' (frame_sn g) + m" if "g \<in> set gs" for g
    using that assms by (intro ahead_shift) (auto simp: ordered_upto_def)
  have "sorted_wrt (precedes w) gs"
    using assms(3) shift by (auto simp: ordered_upto_def precedes_def intro!: sorted_wrt_mono_rel [where P = "precedes w'"])
  moreover have "precedes w f g" if "f \<in> set fs" "g \<in> set gs" for f g
    using that assms(1) shift by (auto simp: ordered_upto_def precedes_def)
  ultimately show ?thesis
    using assms(1,3) shift by (auto simp: ordered_upto_def sorted_wrt_append)
qed

lemma sorted_wrt_all: "\<forall>x \<in> set xs. \<forall>y \<in> set (tl xs). P x y \<Longrightarrow> sorted_wrt P xs"
proof (induction xs)
  case (Cons x xs)
  then show ?case by (cases xs) auto
qed simp

lemma head_ordered:
  assumes "counted t" "windowed t"
  shows "ordered_upto (win_start t) 1 (reorder_buf t ! head_slot t)"
proof -
  let ?list = "reorder_buf t ! head_slot t"
  have j: "head_slot t < length (reorder_buf t)" using assms(1) by (rule sound_slot)
  have z: "ahead (win_start t) (frame_sn f) = 0 \<and> \<not> skip_replay_detect f" if "f \<in> set ?list" for f
    using head_frames [OF assms j that] windowedD(3) [OF assms(2) j that] by simp
  have "\<forall>f \<in> set (tl ?list). d_amsdu (sk_desc f)"
    using assms(2) nth_mem [OF j] by (simp add: windowed_def)
  then have "sorted_wrt (precedes (win_start t)) ?list"
    using z by (intro sorted_wrt_all) (auto simp: precedes_def dest: list.set_sel(2) [rotated])
  then show ?thesis using z by (simp add: ordered_upto_def)
qed

lemma drain_order:
  assumes "drain k n s s'" and k: "sequence_numbers k"
  shows "counted (fst s) \<Longrightarrow> windowed (fst s) \<Longrightarrow> n < 4096 \<Longrightarrow>
    moved (win_start (fst s)) n (win_start (fst s')) \<and>
    (\<exists>fs. released (snd s') = released (snd s) @ fs \<and> ordered_upto (win_start (fst s)) n fs)"
  using assms(1)
proof (induction rule: drain.induct)
  case (drain_pass t n out s)
  have "windowed (t\<lparr>win_start := sn_inc k (win_start t)\<rparr>)"
    using windowed_pass [OF k] drain_pass.prems drain_pass.hyps(1) by simp
  then show ?case
    using drain_pass ordered_step [OF ordered_Nil moved_inc [OF k, of "win_start t"], of n]
      moved_trans [OF moved_inc [OF k, of "win_start t"], of n] by auto
next
  case (drain_emit t list n out s)
  then show ?case
    using windowed_next [OF k, of t] sound_emit sound_slot [of t]
      ordered_step [OF head_ordered [of t] moved_inc [OF k, of "win_start t"], of n]
      moved_trans [OF moved_inc [OF k, of "win_start t"], of n] by fastforce
next
  case (drain_jump t m sn n out s)
  then show ?case
    using ordered_step [OF ordered_Nil [of "win_start t" m] drain_jump.hyps(2), of n]
      moved_trans [OF drain_jump.hyps(2), of n] by (auto simp: sound_empty windowed_empty)
qed simp

section \<open>The loops drain the session\<close>

lemma sound_untainted:
  "counted t \<Longrightarrow> j < length (reorder_buf t) \<Longrightarrow> reorder_buf t ! j = skb # list \<Longrightarrow> \<not> flag_taint skb"
  using nth_mem [of j "reorder_buf t"] by (auto simp: counted_def)

lemma force_loop_drain:
  assumes k: "sequence_numbers k" and target: "moved to_sn 1 target"
  shows "counted t \<Longrightarrow> \<exists>n. drain k n (t, out) (force_loop k to_sn target fuel t out) \<and>
    n \<le> (if sn_less k (win_start t) target then ahead (win_start t) target else 0) \<and>
    (sn_less k (win_start t) target \<longrightarrow> ahead (win_start t) target \<le> fuel \<longrightarrow>
      n = ahead (win_start t) target \<or> stored_num (fst (force_loop k to_sn target fuel t out)) = 0)"
proof (induction fuel arbitrary: t out)
  case 0
  then show ?case by (auto simp: sn_less_iff [OF k] intro: drain_refl)
next
  case (Suc fuel)
  let ?w = "win_start t" and ?w' = "sn_inc k (win_start t)"
  show ?case
  proof (cases "sn_less k ?w target")
    case less: True
    have d: "0 < ahead ?w target" "ahead ?w target < 2048" using less by (simp_all add: sn_less_iff [OF k])
    have d': "ahead ?w' target = ahead ?w target - 1"
      using ahead_back [OF moved_inc [OF k, of ?w], of target] d(1) by simp
    show ?thesis
    proof (cases "stored_num t = 0")
      case True
      have "moved ?w (ahead ?w target - 1) to_sn"
        using target moved_ahead [of ?w target] d(1) by (simp add: moved_def of_nat_diff add_diff_eq eq_diff_eq)
      from drain_jump [OF True this drain_refl] show ?thesis
        using less True by (intro exI [of _ "ahead ?w target - 1"]) auto
    next
      case stored: False
      obtain t' out' where s': "(t', out') = (case reorder_buf t ! head_slot t of
            [] \<Rightarrow> (t, out)
          | skb # _ \<Rightarrow> ((set_slot (head_slot t) [] t)\<lparr>stored_num := stored_num t - 1\<rparr>,
              if flag_taint skb then free_frames (reorder_buf t ! head_slot t) out
              else release_frames (reorder_buf t ! head_slot t) out))"
        by (metis surj_pair)
      have loop: "force_loop k to_sn target (Suc fuel) t out =
          force_loop k to_sn target fuel (t'\<lparr>win_start := ?w'\<rparr>) out'"
        using less stored s' by (auto simp: Let_def split: list.splits)
      have t': "counted t'" "win_start t' = ?w"
        using s' Suc.prems sound_emit [OF Suc.prems sound_slot [OF Suc.prems, of "unat ?w"]]
        by (auto split: list.splits)
      obtain n where n: "drain k n (t'\<lparr>win_start := ?w'\<rparr>, out') (force_loop k to_sn target (Suc fuel) t out)"
        "n \<le> ahead ?w target - 1"
        "ahead ?w target \<le> Suc fuel \<Longrightarrow>
           n = ahead ?w target - 1 \<or> stored_num (fst (force_loop k to_sn target (Suc fuel) t out)) = 0"
        using Suc.IH [of "t'\<lparr>win_start := ?w'\<rparr>" out'] t' loop d d'
        by (auto simp: sn_less_iff [OF k] split: if_splits)
      have "drain k (Suc n) (t, out) (force_loop k to_sn target (Suc fuel) t out)"
      proof (cases "reorder_buf t ! head_slot t")
        case Nil
        then show ?thesis using drain_pass [OF Nil] n(1) s' by simp
      next
        case (Cons skb list)
        then show ?thesis
          using drain_emit [OF Cons] n(1) s' sound_untainted [OF Suc.prems sound_slot [OF Suc.prems] Cons] t'(2)
          by (simp add: Let_def start_stored)
      qed
      then show ?thesis using n(2,3) d less by (intro exI [of _ "Suc n"]) auto
    qed
  qed (auto intro: drain_refl)
qed

text \<open>The loop ends before its fuel does.\<close>

lemma force_loop_fuel:
  assumes k: "sequence_numbers k"
  shows "(sn_less k (win_start t) target \<longrightarrow> ahead (win_start t) target \<le> fuel) \<Longrightarrow>
    force_loop k to_sn target (fuel + extra) t out = force_loop k to_sn target fuel t out"
proof (induction fuel arbitrary: t out)
  case 0
  then show ?case by (cases extra) (auto simp: sn_less_iff [OF k])
next
  case (Suc fuel)
  have "ahead (sn_inc k (win_start t)) target = ahead (win_start t) target - 1" if "sn_less k (win_start t) target"
    using ahead_back [OF moved_inc [OF k, of "win_start t"], of target] that by (simp add: sn_less_iff [OF k])
  then have "force_loop k to_sn target (fuel + extra) (t'\<lparr>win_start := sn_inc k (win_start t)\<rparr>) out' =
      force_loop k to_sn target fuel (t'\<lparr>win_start := sn_inc k (win_start t)\<rparr>) out'"
    if "sn_less k (win_start t) target" for t' out'
    using Suc.prems that by (intro Suc.IH) (auto simp: sn_less_iff [OF k])
  then show ?case by (auto simp: Let_def split: list.splits)
qed

text \<open>
  Over a gap: the loop passes empty slots up to one that is in use, releases it, and ends.
\<close>

lemma force_loop_gap:
  assumes k: "sequence_numbers k"
  shows "counted t \<Longrightarrow> \<forall>i < j. reorder_buf t ! ((unat (win_start t) + i) mod unat (win_size t)) = [] \<Longrightarrow>
    slot = (unat (win_start t) + j) mod unat (win_size t) \<Longrightarrow> reorder_buf t ! slot = list \<Longrightarrow> list \<noteq> [] \<Longrightarrow>
    ahead (win_start t) target = Suc j \<Longrightarrow> j < 2047 \<Longrightarrow> j < fuel \<Longrightarrow>
    \<exists>w. moved (win_start t) (Suc j) w \<and> force_loop k to_sn target fuel t out =
      ((set_slot slot [] t)\<lparr>win_start := w, stored_num := stored_num t - 1\<rparr>, release_frames list out)"
proof (induction j arbitrary: t fuel)
  case (0 t fuel)
  then obtain f where f: "fuel = Suc f" by (cases fuel) auto
  have "ahead (sn_inc k (win_start t)) target = 0"
    using ahead_back [OF moved_inc [OF k, of "win_start t"], of target] 0 by simp
  moreover have "stored_num t \<noteq> 0"
    using 0 sound_empty [OF 0(1)] nth_mem [OF sound_slot [OF 0(1), of "unat (win_start t)"]] by auto
  moreover obtain skb rest where "list = skb # rest" using 0 by (cases list) auto
  moreover have "\<not> flag_taint skb"
    using calculation(3) sound_untainted [OF 0(1) sound_slot [OF 0(1)]] 0 by auto
  ultimately show ?case
    using 0 f moved_inc [OF k, of "win_start t"]
    by (cases f) (auto simp: sn_less_iff [OF k] Let_def intro!: exI [of _ "sn_inc k (win_start t)"])
next
  case (Suc j t fuel)
  then obtain f where f: "fuel = Suc f" by (cases fuel) auto
  let ?w = "win_start t" and ?w' = "sn_inc k (win_start t)" and ?W = "unat (win_size t)"
  have inc: "moved ?w 1 ?w'" by (rule moved_inc [OF k])
  have d: "ahead ?w' target = Suc j" using ahead_back [OF inc, of target] Suc.prems(6) by simp
  have idx: "(unat ?w' + i) mod ?W = (unat ?w + Suc i) mod ?W" for i
    using moved_mod [OF inc soundD(1) [OF Suc.prems(1)]] by (metis mod_add_left_eq add.assoc plus_1_eq_Suc)
  have "stored_num t \<noteq> 0"
    using Suc.prems sound_empty [OF Suc.prems(1)] nth_mem [OF sound_slot [OF Suc.prems(1)]] by metis
  moreover have "reorder_buf t ! head_slot t = []" using Suc.prems(2) by (metis add.right_neutral zero_less_Suc)
  ultimately have "force_loop k to_sn target fuel t out =
      force_loop k to_sn target f (t\<lparr>win_start := ?w'\<rparr>) out"
    using f Suc.prems(6,7) by (simp add: sn_less_iff [OF k] Let_def)
  moreover have gap: "\<forall>i < j. reorder_buf t ! ((unat ?w' + i) mod ?W) = []"
    unfolding idx using Suc.prems(2) by auto
  moreover have "slot = (unat ?w' + j) mod ?W" unfolding idx by (rule Suc.prems(3))
  then obtain w where "moved ?w' (Suc j) w" "force_loop k to_sn target f (t\<lparr>win_start := ?w'\<rparr>) out =
      ((set_slot slot [] t)\<lparr>win_start := w, stored_num := stored_num t - 1\<rparr>, release_frames list out)"
    using Suc.IH [of "t\<lparr>win_start := ?w'\<rparr>" f] Suc.prems(1,4,5,7,8) gap d f by (auto simp: set_slot_def)
  ultimately show ?case using moved_trans [OF inc] by auto
qed

end
