(* ===== verification/Wifi_Release.thy ===== *)
theory Wifi_Release
  imports Wifi_Order
begin

text \<open>
  What \<open>skw_reorder_release\<close> does: it drains the session, and whatever it leaves stored has a
  timer or an entry in the list of the receive thread (\<open>leaves\<close>).
\<close>

unbundle bit_operations_syntax

section \<open>Nothing waits without a timer\<close>

text \<open>
  \<open>timed\<close>: the session is the current one, and the timer, while it is pending, was set for it.
  \<open>looked_after\<close>: what is stored will be looked at again.
\<close>

definition timed :: "tid_rx \<Rightarrow> reorder_rx \<Rightarrow> bool" where
  "timed t r \<longleftrightarrow> ref_cnt r = tid_ref_cnt t \<and> (timer r \<noteq> None \<longrightarrow> expired_ref_cnt r = ref_cnt r)"

definition looked_after :: "tid_rx \<Rightarrow> reorder_rx \<Rightarrow> bool" where
  "looked_after t r \<longleftrightarrow> occupied t = 0 \<or> timer r \<noteq> None \<or> todo_actived r"

definition linked_once :: "reorder_rx \<Rightarrow> bool" where
  "linked_once r \<longleftrightarrow> todo_links r = (if todo_actived r then 1 else 0)"

lemma timed_stop [simp]: "timed t r \<Longrightarrow> timed t (r\<lparr>timer := None\<rparr>)"
  by (simp add: timed_def)

lemma linked_stop [simp]: "linked_once (r\<lparr>timer := None\<rparr>) = linked_once r"
  by (simp add: linked_once_def)

lemma set_timer_timed: "timed t r \<Longrightarrow> timed t (skw_set_reorder_timer k now sn t r)"
  by (auto simp: timed_def skw_set_reorder_timer_def Let_def split: list.splits)

lemma set_timer_linked: "linked_once r \<Longrightarrow> linked_once (skw_set_reorder_timer k now sn t r)"
  by (auto simp: linked_once_def skw_set_reorder_timer_def Let_def split: list.splits)

lemma set_timer_looks:
  "timed t r \<Longrightarrow> reorder_buf t ! (unat sn mod unat (win_size t)) \<noteq> [] \<Longrightarrow>
   looked_after t (skw_set_reorder_timer k now sn t r)"
  by (auto simp: timed_def looked_after_def skw_set_reorder_timer_def Let_def split: list.splits)

lemma force_timer_timed: "timed t r \<Longrightarrow> timed t (force_timer k to_sn t r)"
  by (simp add: force_timer_def)

lemma force_timer_linked [simp]: "linked_once (force_timer k to_sn t r) = linked_once r"
  by (simp add: force_timer_def)

lemma drain_ref [simp]: "drain k n s s' \<Longrightarrow> tid_ref_cnt (fst s') = tid_ref_cnt (fst s)"
  by (induction rule: drain.induct) auto

lemma timed_drain: "drain k n (t, out) (t', out') \<Longrightarrow> timed t r \<Longrightarrow> timed t' r"
  using drain_ref [of k n "(t, out)" "(t', out')"] by (simp add: timed_def)

section \<open>The release of what is ready\<close>

text \<open>Where the loop of \<open>skw_reorder_release\<close> stands at \<open>i\<close>: \<open>j\<close> numbers beyond the window's start.\<close>

definition release_at :: "u16 \<Rightarrow> nat \<Rightarrow> nat \<Rightarrow> bool \<Rightarrow> tid_rx \<Rightarrow> bool" where
  "release_at w i j release t \<longleftrightarrow> counted t \<and> moved (win_start t) j (w + of_nat i) \<and> j \<le> i \<and> i \<le> unat (win_size t) \<and>
     (release \<longrightarrow> j = 0) \<and> (\<forall>n < i. reorder_buf t ! ((unat w + n) mod unat (win_size t)) = [])"

lemma circle_of_nat [simp]: "circle (of_nat n) = of_nat n"
  by (rule word_unat_eq_iff [THEN iffD2])
     (simp only: unat_circle unat_of_nat_12, simp add: unat_of_nat mod_mod_cancel)

lemma moved_plus: "moved w n (w + of_nat n)"
  by (simp add: moved_def)

lemma moved_back: "moved a j (w + of_nat i) \<Longrightarrow> m \<le> j \<Longrightarrow> j \<le> i \<Longrightarrow> moved a (j - m) (w + of_nat (i - m))"
  by (simp add: moved_def of_nat_diff algebra_simps)

lemma release_index:
  assumes "release_at w i j release t" "m \<le> j"
  shows "(unat (win_start t) + (j - m)) mod unat (win_size t) = (unat w + (i - m)) mod unat (win_size t)"
proof -
  have *: "counted t" "moved (win_start t) j (w + of_nat i)" "j \<le> i" using assms(1) by (auto simp: release_at_def)
  show ?thesis
    using moved_mod [OF moved_back [OF *(2) assms(2) *(3)] soundD(1) [OF *(1)]]
      moved_mod [OF moved_plus [of w "i - m"] soundD(1) [OF *(1)]] by simp
qed

lemma release_at_index:
  "release_at w i j release t \<Longrightarrow> unat (w + of_nat i) mod unat (win_size t) = (unat w + i) mod unat (win_size t)"
  using moved_mod [OF moved_plus [of w i] soundD(1) [of t]] by (simp add: release_at_def)

lemma release_at_skip:
  assumes "release_at w i j release t" "i < unat (win_size t)"
    "reorder_buf t ! ((unat w + i) mod unat (win_size t)) = []"
  shows "release_at w (Suc i) (Suc j) False t"
  using assms moved_trans [OF _ moved_plus [of "w + of_nat i" 1], of "win_start t" j]
  by (auto simp: release_at_def less_Suc_eq ac_simps)

lemma release_at_done:
  assumes "release_at w i j release t" "i = unat (win_size t)"
  shows "occupied t = 0"
proof -
  let ?W = "unat (win_size t)"
  have t: "counted t" using assms(1) by (simp add: release_at_def)
  have "reorder_buf t ! n = []" if "n < ?W" for n
  proof -
    have "\<exists>m < ?W. (unat w + m) mod ?W = n"
    proof (intro exI conjI)
      let ?m = "(n + (?W - unat w mod ?W)) mod ?W"
      show "?m < ?W" using that by simp
      have "(unat w + ?m) mod ?W = (unat w mod ?W + (n + (?W - unat w mod ?W))) mod ?W"
        by (simp add: mod_simps)
      also have "\<dots> = (n + ?W) mod ?W"
        using that mod_less_divisor [of ?W "unat w"] by (intro arg_cong [where f = "\<lambda>x. x mod ?W"]) linarith
      finally show "(unat w + ?m) mod ?W = n" using that by simp
    qed
    then show ?thesis using assms by (auto simp: release_at_def)
  qed
  then show ?thesis using soundD(4) [OF t] by (auto simp: occupied_0 in_set_conv_nth)
qed

lemma release_at_emit:
  assumes at: "release_at w i j release t" and i: "i < unat (win_size t)"
    and slot: "slot = (unat w + i) mod unat (win_size t)" "reorder_buf t ! slot \<noteq> []"
    and w': "moved (win_start t) (Suc j) w'"
  shows "release_at w (Suc i) 0 True ((set_slot slot [] t)\<lparr>win_start := w', stored_num := stored_num t - 1\<rparr>)"
proof -
  have t: "counted t" using at by (simp add: release_at_def)
  have "moved w' 0 (w + of_nat (Suc i))"
    using at w' by (simp add: release_at_def moved_def)
  moreover have "(reorder_buf t)[slot := []] ! ((unat w + n) mod unat (win_size t)) = []" if "n < Suc i" for n
    using at that sound_slot [OF t, of "unat w + i"] slot
    by (cases "n = i") (auto simp: release_at_def nth_list_update)
  ultimately show ?thesis
    using at i slot sound_emit [OF t sound_slot [OF t], of "unat w + i"] by (simp add: release_at_def)
qed

text \<open>What every handler leaves behind: at most \<open>b\<close> numbers further, and nothing forgotten.\<close>

definition leaves ::
  "kernel \<Rightarrow> nat \<Rightarrow> tid_rx \<times> reorder_rx \<times> rx_out \<Rightarrow> tid_rx \<times> reorder_rx \<times> rx_out \<Rightarrow> bool" where
  "leaves k b = (\<lambda>(t, r, out) (t', r', out').
     (\<exists>n \<le> b. drain k n (t, out) (t', out')) \<and> timed t' r' \<and> looked_after t' r' \<and>
     (linked_once r \<longrightarrow> linked_once r'))"

lemma leaves_still:
  "timed t r' \<Longrightarrow> looked_after t r' \<Longrightarrow> (linked_once r \<longrightarrow> linked_once r') \<Longrightarrow> leaves k b (t, r, out) (t, r', out)"
  unfolding leaves_def by (auto intro: drain_refl exI [of _ 0])

lemma leaves_after:
  assumes "drain k m (t, out) (t', out')" "leaves k b (t', r', out') s" "m + b \<le> c" "linked_once r \<longrightarrow> linked_once r'"
  shows "leaves k c (t, r, out) s"
proof -
  obtain t'' r'' out'' where s: "s = (t'', r'', out'')" by (rule prod_cases3)
  obtain n where "n \<le> b" "drain k n (t', out') (t'', out'')" using assms(2) by (auto simp: s leaves_def)
  then have "m + n \<le> c \<and> drain k (m + n) (t, out) (t'', out'')"
    using drain_trans [OF assms(1)] assms(3) by auto
  then show ?thesis using assms(2,4) by (auto simp: s leaves_def)
qed

lemma emit_drain:
  "reorder_buf t ! head_slot t \<noteq> [] \<Longrightarrow>
   drain k 1 (t, out) ((set_slot (head_slot t) [] t)\<lparr>win_start := sn_inc k (win_start t), stored_num := stored_num t - 1\<rparr>,
     release_frames (reorder_buf t ! head_slot t) out)"
  using drain_emit [OF refl _ drain_refl] by fastforce

text \<open>A frame behind a gap has waited too long: the window moves over the gap and releases it.\<close>

lemma release_over_gap:
  assumes k: "sequence_numbers k" and at: "release_at w i j release t" and i: "i < unat (win_size t)"
    and list: "reorder_buf t ! ((unat w + i) mod unat (win_size t)) = skb # rest" and r: "timed t r"
  shows "\<exists>t'. skw_reorder_force_release k (w + of_nat i) (t, r, out) =
        (t', force_timer k (w + of_nat i) t r, release_frames (skb # rest) out) \<and>
      release_at w (Suc i) 0 True t' \<and> win_size t' = win_size t \<and> timed t' (force_timer k (w + of_nat i) t r) \<and>
      (\<exists>n \<le> Suc j. drain k n (t, out) (t', release_frames (skb # rest) out))"
proof -
  let ?to = "w + of_nat i" and ?w = "win_start t" and ?W = "unat (win_size t)"
  let ?slot = "(unat w + i) mod ?W"
  have t: "counted t" "j \<le> i" "moved ?w j ?to" using at by (auto simp: release_at_def)
  have inc: "moved ?to 1 (sn_inc k ?to)" by (rule moved_inc [OF k])
  have d: "ahead ?w (sn_inc k ?to) = Suc j"
    using ahead_moved [OF moved_trans [OF t(3) inc]] t(2) i soundD(3) [OF t(1)] by simp
  have gap: "\<forall>n < j. reorder_buf t ! ((unat ?w + n) mod ?W) = []"
  proof (intro allI impI)
    fix n assume n: "n < j"
    then have "(unat ?w + n) mod ?W = (unat w + (i - (j - n))) mod ?W"
      using release_index [OF at, of "j - n"] by simp
    moreover have "i - (j - n) < i" using n t(2) by simp
    ultimately show "reorder_buf t ! ((unat ?w + n) mod ?W) = []"
      using at by (auto simp only: release_at_def)
  qed
  have slot: "?slot = (unat ?w + j) mod ?W" using release_index [OF at, of 0] by simp
  obtain w' where w': "moved ?w (Suc j) w'" "force_loop k ?to (sn_inc k ?to) force_fuel t out =
      ((set_slot ?slot [] t)\<lparr>win_start := w', stored_num := stored_num t - 1\<rparr>, release_frames (skb # rest) out)"
    using force_loop_gap [OF k t(1) gap slot list, of "sn_inc k ?to" force_fuel ?to out] d t(2) i soundD(3) [OF t(1)]
    by (auto simp: force_fuel_def)
  obtain n where n: "n \<le> Suc j" "drain k n (t, out) (force_loop k ?to (sn_inc k ?to) force_fuel t out)"
    using force_loop_drain [OF k inc t(1), of out force_fuel] d by (auto split: if_splits)
  show ?thesis
    using release_at_emit [OF at i refl _ w'(1)] list w'(2) n force_timer_timed [OF r, of k ?to]
    by (auto simp: skw_reorder_force_release_def timed_def)
qed

lemma release_loop_leaves:
  assumes k: "sequence_numbers k"
  shows "is = [i..<unat (win_size t)] \<Longrightarrow> release_at w i j release t \<Longrightarrow> timed t r \<Longrightarrow>
    leaves k (unat (win_size t) - i + j) (t, r, out) (release_loop k now w is release (t, r, out))"
proof (induction "is" arbitrary: i j release t r out)
  case Nil
  have "i = unat (win_size t)" using Nil.prems(1) [symmetric] Nil.prems(2) soundD(6) [of t] by (auto simp: release_at_def)
  then show ?case using release_at_done [OF Nil.prems(2)] Nil.prems(3)
    by (auto simp: looked_after_def intro: leaves_still)
next
  case (Cons i' "is")
  let ?W = "unat (win_size t)" and ?w = "win_start t"
  let ?slot = "(unat w + i) mod ?W"
  have i: "i' = i" "i < ?W" "is = [Suc i..<?W]" using Cons.prems(1) [symmetric] by (auto simp: upt_eq_Cons_conv)
  note at = Cons.prems(2)
  have t: "counted t" "j \<le> i" "moved ?w j (w + of_nat i)" using at by (auto simp: release_at_def)
  have rest_loop: "leaves k (?W - Suc i + j') (t', r', out') (release_loop k now w is release' (t', r', out'))"
    if "release_at w (Suc i) j' release' t'" "win_size t' = win_size t" "timed t' r'" for j' release' t' r' out'
    using Cons.IH [OF _ that(1,3)] i(3) that(2) by simp
  show ?case
  proof (cases "stored_num t = 0")
    case True
    then have "occupied t = 0" using soundD(5) [OF t(1)] by simp
    then show ?thesis using True Cons.prems(3) by (auto simp: looked_after_def intro: leaves_still)
  next
    case stored: False
    show ?thesis
    proof (cases "reorder_buf t ! ?slot")
      case Nil
      show ?thesis
      proof (cases "timer r = None")
        case True
        have "leaves k (?W - Suc i + Suc j) (t, r, out) (release_loop k now w is False (t, r, out))"
          by (rule rest_loop [OF release_at_skip [OF at i(2) Nil] refl Cons.prems(3)])
        then show ?thesis using True Nil stored i(1,2) by (simp add: Let_def Suc_diff_Suc)
      next
        case False
        then show ?thesis using Nil stored i(1) Cons.prems(3)
          by (auto simp: Let_def looked_after_def intro: leaves_still)
      qed
    next
      case list: (Cons skb rest)
      have looks: "looked_after t (skw_set_reorder_timer k now (w + of_nat i) t r')" if "timed t r'" for r'
        using set_timer_looks [OF that] release_at_index [OF at] list by simp
      have clean: "\<not> flag_taint skb" by (rule sound_untainted [OF t(1) sound_slot [OF t(1)] list])
      have next_at: "release_at w (Suc i) 0 True
          ((set_slot ?slot [] t)\<lparr>win_start := w', stored_num := stored_num t - 1\<rparr>)" if "moved ?w (Suc j) w'" for w'
        using release_at_emit [OF at i(2) refl _ that] list by simp
      show ?thesis
      proof (cases release)
        case False
        then show ?thesis
        proof (cases "is_skw_msdu_timeout k now (skb # rest)")
          case timeout: True
          obtain t1 where t1: "skw_reorder_force_release k (w + of_nat i) (t, r, out) =
              (t1, force_timer k (w + of_nat i) t r, release_frames (skb # rest) out)"
            "release_at w (Suc i) 0 True t1" "win_size t1 = win_size t" "timed t1 (force_timer k (w + of_nat i) t r)"
            and "\<exists>n \<le> Suc j. drain k n (t, out) (t1, release_frames (skb # rest) out)"
            using release_over_gap [OF k at i(2) list Cons.prems(3)] by metis
          then obtain n where n: "n \<le> Suc j" "drain k n (t, out) (t1, release_frames (skb # rest) out)" by blast
          have "leaves k (?W - Suc i + 0) (t1, force_timer k (w + of_nat i) t r, release_frames (skb # rest) out)
              (release_loop k now w is True (t1, force_timer k (w + of_nat i) t r, release_frames (skb # rest) out))"
            using rest_loop [OF t1(2-4)] by simp
          then have "leaves k (?W - i + j) (t, r, out)
              (release_loop k now w is True (t1, force_timer k (w + of_nat i) t r, release_frames (skb # rest) out))"
            using n(1) i(2) by (intro leaves_after [OF n(2)]) auto
          then show ?thesis
            using False timeout stored list i(1) t1(1) by (simp add: Let_def)
        next
          case waits: False
          then show ?thesis
            using False stored list i(1) Cons.prems(3) looks set_timer_timed set_timer_linked
            by (auto simp: Let_def intro!: leaves_still)
        qed
      next
        case True
        then have j: "j = 0" using at by (simp add: release_at_def)
        have slot: "?slot = head_slot t" using release_index [OF at, of 0] j by simp
        let ?r = "stop_timer t r"
        let ?s = "(set_slot ?slot [] t)\<lparr>win_start := sn_inc k ?w, stored_num := stored_num t - 1\<rparr>"
        have r: "timed t ?r" "linked_once r \<longrightarrow> linked_once ?r" using Cons.prems(3) by (simp_all add: stop_timer_def)
        show ?thesis
        proof (cases "is_skw_release_ready (skb # rest) \<or> is_skw_msdu_timeout k now (skb # rest)")
          case ready: True
          have s: "release_at w (Suc i) 0 True ?s" "win_size ?s = win_size t" "timed ?s ?r"
            using next_at moved_inc [OF k, of ?w] j r(1) by (simp_all add: timed_def)
          have "drain k 1 (t, out) (?s, release_frames (skb # rest) out)"
            using emit_drain [of t k out] list slot by simp
          then have "leaves k (?W - i + j) (t, r, out)
              (release_loop k now w is True (?s, ?r, release_frames (skb # rest) out))"
            by (rule leaves_after [OF _ rest_loop [OF s]]) (use i(2) in simp, rule r(2))
          then show ?thesis using True ready stored list i(1) clean by (simp add: Let_def)
        next
          case waits: False
          have "looked_after t (if timer ?r = None then skw_set_reorder_timer k now (w + of_nat i) t ?r else ?r)"
            using looks [OF r(1)] by (auto simp: looked_after_def)
          then have "leaves k (?W - i + j) (t, r, out)
              (t, if timer ?r = None then skw_set_reorder_timer k now (w + of_nat i) t ?r else ?r, out)"
            using r set_timer_timed [OF r(1)] set_timer_linked [of ?r] by (intro leaves_still) auto
          then show ?thesis using True waits stored list i(1) clean by (simp add: Let_def)
        qed
      qed
    qed
  qed
qed

end
