(* ===== verification/Wifi_Frame.thy ===== *)
theory Wifi_Frame
  imports Wifi_Release
begin

text \<open>
  The arrival of a frame of a session (\<open>reorder_frame\<close>): it is dropped, passes by, or is stored
  and released with what is ready. The session stays \<open>upkept\<close>; what is released stands in the
  order of the numbers unless the frame \<open>overtakes\<close>.
\<close>

unbundle bit_operations_syntax

section \<open>A frame is stored\<close>

text \<open>A frame as it comes out of the receive path, and not found spoofed.\<close>

definition fresh :: "sk_buff \<Rightarrow> bool" where
  "fresh skb \<longleftrightarrow> amsdu_bitmap skb = 0 \<and> amsdu_mask skb = 0 \<and> \<not> flag_taint skb \<and> \<not> flag_valid skb \<and>
     \<not> skip_replay_detect skb \<and> \<not> (d_amsdu (sk_desc skb) \<and> amsdu_spoofed skb)"

text \<open>\<open>list\<close> is the queue \<open>old\<close> of a slot with the frame added.\<close>

definition joins :: "sk_buff \<Rightarrow> sk_buff list \<Rightarrow> sk_buff list \<Rightarrow> bool" where
  "joins skb old list \<longleftrightarrow>
     map (\<lambda>f. (sk_desc f, skip_replay_detect f)) list =
       map (\<lambda>f. (sk_desc f, skip_replay_detect f)) old @ [(sk_desc skb, False)] \<and>
     (\<forall>f \<in> set list. \<not> flag_taint f) \<and> (old \<noteq> [] \<longrightarrow> d_amsdu (sk_desc skb))"

abbreviation slot_of :: "tid_rx \<Rightarrow> u16 \<Rightarrow> nat" where
  "slot_of t sn \<equiv> unat sn mod unat (win_size t)"

definition put_frame :: "u16 \<Rightarrow> sk_buff list \<Rightarrow> tid_rx \<Rightarrow> tid_rx" where
  "put_frame sn list t = (set_slot (slot_of t sn) list t)
     \<lparr>stored_num := stored_num t + (if reorder_buf t ! slot_of t sn = [] then 1 else 0)\<rparr>"

lemma put_frame_simps [simp]:
  "win_start (put_frame sn list t) = win_start t" "win_size (put_frame sn list t) = win_size t"
  "tid_ref_cnt (put_frame sn list t) = tid_ref_cnt t"
  "reorder_buf (put_frame sn list t) = (reorder_buf t)[slot_of t sn := list]"
  by (simp_all add: put_frame_def)

lemma joins_nonempty: "joins skb old list \<Longrightarrow> list \<noteq> []"
  by (auto simp: joins_def)

lemma joins_desc: "joins skb old list \<Longrightarrow> map sk_desc list = map sk_desc old @ [sk_desc skb]"
  unfolding joins_def by (drule conjunct1, drule arg_cong [where f = "map fst"]) (simp add: comp_def)

lemma mark_simps [simp]:
  "sk_desc (amsdu_mark skb h) = sk_desc h" "skip_replay_detect (amsdu_mark skb h) = skip_replay_detect h"
  "sk_data (amsdu_mark skb h) = sk_data h"
  "flag_taint (amsdu_mark skb h) \<longleftrightarrow> flag_taint h \<or> amsdu_spoofed skb"
  by (simp_all add: amsdu_mark_def Let_def)

lemma joins_amsdu:
  "fresh skb \<Longrightarrow> d_amsdu (sk_desc skb) \<Longrightarrow> \<forall>f \<in> set old. \<not> flag_taint f \<Longrightarrow> joins skb old (amsdu_join skb old)"
  by (cases old) (auto simp: joins_def amsdu_join_def fresh_def)

lemma joins_single: "fresh skb \<Longrightarrow> joins skb [] [skb]"
  by (simp add: joins_def fresh_def)

lemma slot_untainted: "counted t \<Longrightarrow> j < length (reorder_buf t) \<Longrightarrow> f \<in> set (reorder_buf t ! j) \<Longrightarrow> \<not> flag_taint f"
  by (auto simp: counted_def)

lemma put_sound:
  assumes t: "counted t" and list: "joins skb (reorder_buf t ! slot_of t sn) list"
  shows "counted (put_frame sn list t)"
proof -
  have "occupied t < 2 ^ 32 - 1"
    using soundD(3,4) [OF t] length_filter_le [of "\<lambda>l. l \<noteq> []" "reorder_buf t"] by (simp add: occupied_def)
  then have "unat (stored_num t + 1) = occupied t + 1"
    using soundD(5) [OF t] by (simp add: unat_word_ariths)
  then show ?thesis
    unfolding put_frame_def using list joins_nonempty [OF list] soundD(5) [OF t]
    by (intro sound_set t sound_slot) (auto simp: joins_def)
qed

lemma put_windowed:
  assumes t: "counted t" "windowed t" and list: "joins skb (reorder_buf t ! slot_of t sn) list"
    and sn: "sn = frame_sn skb" "ahead (win_start t) sn < unat (win_size t)"
  shows "windowed (put_frame sn list t)"
proof -
  let ?j = "slot_of t sn"
  have j: "?j < length (reorder_buf t)" by (rule sound_slot [OF t(1)])
  have old: "\<exists>g. (g = skb \<and> \<not> skip_replay_detect f \<or> g \<in> set (reorder_buf t ! ?j) \<and> skip_replay_detect g = skip_replay_detect f) \<and>
      sk_desc g = sk_desc f" if f: "f \<in> set list" for f
  proof -
    have "(sk_desc f, skip_replay_detect f) \<in> set (map (\<lambda>f. (sk_desc f, skip_replay_detect f)) list)" using f by simp
    then have "(sk_desc f, skip_replay_detect f) \<in>
        set (map (\<lambda>f. (sk_desc f, skip_replay_detect f)) (reorder_buf t ! ?j) @ [(sk_desc skb, False)])"
      using list by (simp only: joins_def)
    then show ?thesis by auto
  qed
  have "ahead (win_start t) (frame_sn f) < unat (win_size t) \<and> slot_of t (frame_sn f) = i \<and> \<not> skip_replay_detect f"
    if i: "i < length (reorder_buf t)" "f \<in> set ((reorder_buf t)[?j := list] ! i)" for i f
  proof (cases "i = ?j")
    case True
    then have "f \<in> set list" using i j by simp
    from old [OF this] show ?thesis using True sn windowedD [OF t(2) j] by metis
  next
    case False
    then show ?thesis using i windowedD [OF t(2) i(1)] by auto
  qed
  moreover have "d_amsdu (sk_desc f)" if l: "l \<in> set ((reorder_buf t)[?j := list])" "f \<in> set (tl l)" for l f
  proof (cases "l = list")
    case True
    note joins_desc [OF list]
    then have "map sk_desc (tl list) = (if reorder_buf t ! ?j = [] then [] else map sk_desc (tl (reorder_buf t ! ?j)) @ [sk_desc skb])"
      by (cases "reorder_buf t ! ?j"; cases list) auto
    moreover have "sk_desc f \<in> set (map sk_desc (tl list))" using True l(2) by simp
    ultimately show ?thesis using list t(2) nth_mem [OF j] by (auto simp: joins_def windowed_def split: if_splits)
  next
    case False
    then show ?thesis using l t(2) set_update_subset_insert [of "reorder_buf t" ?j list] by (auto simp: windowed_def)
  qed
  ultimately show ?thesis by (simp add: windowed_def)
qed

text \<open>The three ways of a frame: dropped, stored, or released with what has joined it.\<close>

lemma store_frame_cases:
  assumes t: "counted t" and skb: "fresh skb"
  defines "sn \<equiv> frame_sn skb" and "old \<equiv> reorder_buf t ! slot_of t (frame_sn skb)"
  obtains (dropped) "old \<noteq> []"
      "store_frame k now skb release (t, r, out) = reorder_out k now sn False release (t, r, free_frames [skb] out)"
  | (stored) list where "joins skb old list"
      "store_frame k now skb release (t, r, out) = reorder_out k now sn True release (put_frame sn list t, r, out)"
  | (in_order) list where "joins skb old list" "sn = win_start t"
      "store_frame k now skb release (t, r, out) = reorder_out k now sn True True
         ((set_slot (slot_of t sn) [] (put_frame sn list t))
            \<lparr>win_start := sn_inc k (win_start t), stored_num := stored_num (put_frame sn list t) - 1\<rparr>,
          stop_timer t r, release_frames list out)"
proof -
  let ?idx = "d_amsdu_idx (sk_desc skb)" and ?mark = "amsdu_join skb old"
  have j: "slot_of t sn < length (reorder_buf t)" by (rule sound_slot [OF t])
  have old: "\<forall>f \<in> set old. \<not> flag_taint f" using slot_untainted [OF t j] by (simp add: old_def sn_def)
  have place: thesis if "joins skb old list"
    and "store_frame k now skb release (t, r, out) = place_frame k now sn (slot_of t sn) list release
      (t\<lparr>stored_num := stored_num t + (if old = [] then 0 else - 1)\<rparr>, r, out)" for list
  proof -
    let ?t = "t\<lparr>stored_num := stored_num t + (if old = [] then 0 else - 1)\<rparr>"
    have "(set_slot (slot_of t sn) [] ?t)\<lparr>win_start := sn_inc k (win_start t)\<rparr> =
        (set_slot (slot_of t sn) [] (put_frame sn list t))
          \<lparr>win_start := sn_inc k (win_start t), stored_num := stored_num (put_frame sn list t) - 1\<rparr>"
      by (rule tid_rx.equality) (simp_all add: put_frame_def old_def sn_def)
    moreover have "(set_slot (slot_of t sn) list ?t)\<lparr>stored_num := stored_num ?t + 1\<rparr> = put_frame sn list t"
      by (rule tid_rx.equality) (simp_all add: put_frame_def old_def sn_def)
    moreover have "stop_timer ?t r = stop_timer t r" by (simp add: stop_timer_def)
    ultimately show ?thesis
      using that stored [of list] in_order [of list] by (cases "sn = win_start t") (simp_all add: place_frame_def)
  qed
  show thesis
  proof (cases "d_amsdu (sk_desc skb)")
    case False
    then show ?thesis
    proof (cases "old = []")
      case True
      then show ?thesis using False joins_single [OF skb]
        by (intro place [of "[skb]"]) (simp_all add: store_frame_def Let_def old_def sn_def)
    next
      case False
      then show ?thesis using \<open>\<not> d_amsdu (sk_desc skb)\<close>
        by (intro dropped) (simp_all add: store_frame_def Let_def old_def sn_def)
    qed
  next
    case amsdu: True
    have join: "joins skb old ?mark" by (rule joins_amsdu [OF skb amsdu old])
    have clean: "\<not> flag_taint (hd ?mark)" using join joins_nonempty [OF join] by (simp add: joins_def)
    let ?head = "case old of [] \<Rightarrow> skb | h # _ \<Rightarrow> h"
    show ?thesis
    proof (cases "bit (amsdu_bitmap ?head) (unat ?idx)")
      case True
      then have "old \<noteq> []" using skb by (auto simp: fresh_def)
      then show ?thesis using amsdu True
        by (intro dropped) (auto simp: store_frame_def Let_def old_def sn_def)
    next
      case new: False
      show ?thesis
      proof (cases "amsdu_bitmap (hd ?mark) = amsdu_mask (hd ?mark)")
        case True
        then show ?thesis using amsdu new clean join
          by (intro place [of ?mark]) (auto simp: store_frame_def Let_def old_def sn_def set_slot_def)
      next
        case False
        moreover have "set_slot (slot_of t sn) ?mark (if old = [] then t\<lparr>stored_num := stored_num t + 1\<rparr> else t) =
            put_frame sn ?mark t"
          by (rule tid_rx.equality) (simp_all add: put_frame_def old_def sn_def)
        ultimately show ?thesis using amsdu new join
          by (intro stored [of ?mark]) (auto simp: store_frame_def Let_def old_def sn_def)
      qed
    qed
  qed
qed

lemma skw_reorder_release_leaves:
  assumes k: "sequence_numbers k" and t: "counted t" "timed t r"
  shows "leaves k 1024 (t, r, out) (skw_reorder_release k now (t, r, out))"
proof -
  have "release_at (win_start t) 0 0 True t" using t(1) by (simp add: release_at_def)
  from release_loop_leaves [OF k refl this t(2), of out now] show ?thesis
    using soundD(3) [OF t(1)] unfolding skw_reorder_release_def
    by (auto simp: leaves_def intro: le_trans)
qed

lemma reorder_out_leaves:
  assumes k: "sequence_numbers k" and t: "counted t" "timed t r"
    and look: "release \<or> looked_after t r \<or> rest \<and> reorder_buf t ! slot_of t sn \<noteq> []"
  shows "leaves k 1024 (t, r, out) (reorder_out k now sn rest release (t, r, out))"
proof (cases "stored_num t = 0")
  case True
  then have "occupied t = 0" using soundD(5) [OF t(1)] by simp
  then show ?thesis using True t(2) by (auto simp: reorder_out_def looked_after_def intro: leaves_still)
next
  case stored: False
  show ?thesis
  proof (cases release)
    case True
    then show ?thesis using stored skw_reorder_release_leaves [OF k t] by (simp add: reorder_out_def)
  next
    case False
    have "looked_after t (skw_set_reorder_timer k now sn t r)" if "looked_after t r"
      using that by (auto simp: looked_after_def skw_set_reorder_timer_def Let_def split: list.splits)
    then have "looked_after t (if rest then skw_set_reorder_timer k now sn t r else r)"
      using look False set_timer_looks [OF t(2)] by auto
    then have "leaves k 1024 (t, r, out) (t, if rest then skw_set_reorder_timer k now sn t r else r, out)"
      using set_timer_timed [OF t(2)] t(2) set_timer_linked [of r] by (intro leaves_still) auto
    then show ?thesis using stored False by (simp add: reorder_out_def split: if_splits)
  qed
qed

text \<open>
  What is done with a frame after the checks of the window is a drain of the session with or
  without it.
\<close>

lemma store_frame_leaves:
  assumes k: "sequence_numbers k" and t: "counted t" "timed t r" and skb: "fresh skb"
    and look: "release \<or> looked_after t r"
  obtains t' out' where "t' = t \<or> (\<exists>list. joins skb (reorder_buf t ! slot_of t (frame_sn skb)) list \<and>
        t' = put_frame (frame_sn skb) list t)"
    "released out' = released out" "leaves k 1025 (t', r, out') (store_frame k now skb release (t, r, out))"
proof -
  have more: "leaves k 1025 (t', r', out') s" if "leaves k 1024 (t', r', out') s" for t' r' out' s
    by (rule leaves_after [OF drain_refl that]) simp_all
  show ?thesis
  proof (cases rule: store_frame_cases [OF t(1) skb, of k now release r out, case_names dropped stored in_order])
    case dropped
    then show ?thesis
      using that [of t "free_frames [skb] out"] more [OF reorder_out_leaves [OF k t]] look by auto
  next
    case (stored list)
    let ?t = "put_frame (frame_sn skb) list t"
    have "counted ?t" "timed ?t r" using put_sound [OF t(1) stored(1)] t(2) by (simp_all add: timed_def)
    moreover have "reorder_buf ?t ! slot_of ?t (frame_sn skb) \<noteq> []"
      using sound_slot [OF t(1)] joins_nonempty [OF stored(1)] by simp
    ultimately have "leaves k 1025 (?t, r, out) (store_frame k now skb release (t, r, out))"
      unfolding stored(2) by (intro more reorder_out_leaves [OF k]) auto
    then show ?thesis using that [of ?t out] stored(1) by auto
  next
    case (in_order list)
    let ?t = "put_frame (frame_sn skb) list t"
    let ?t' = "(set_slot (slot_of t (frame_sn skb)) [] ?t)
      \<lparr>win_start := sn_inc k (win_start t), stored_num := stored_num ?t - 1\<rparr>"
    have counted: "counted ?t" by (rule put_sound [OF t(1) in_order(1)])
    have list: "reorder_buf ?t ! head_slot ?t = list" using sound_slot [OF t(1)] in_order(2) by simp
    have d: "drain k 1 (?t, out) (?t', release_frames list out)"
      using emit_drain [of ?t k out] list joins_nonempty [OF in_order(1)] in_order(2) by simp
    have "counted ?t'" using drain_sound [OF d] counted by simp
    moreover have "timed ?t' (stop_timer t r)" "linked_once r \<longrightarrow> linked_once (stop_timer t r)"
      using t(2) by (simp_all add: timed_def stop_timer_def)
    ultimately have "leaves k 1025 (?t, r, out) (store_frame k now skb release (t, r, out))"
      unfolding in_order(3) by (intro leaves_after [OF d reorder_out_leaves [OF k]]) auto
    then show ?thesis using that [of ?t out] in_order(1) by auto
  qed
qed

section \<open>A frame and the window\<close>

lemma drain_frames:
  "drain k n s s' \<Longrightarrow> counted (fst s) \<Longrightarrow>
   \<exists>fs. released (snd s') = released (snd s) @ fs \<and>
     mset (concat (reorder_buf (fst s))) = mset (concat (reorder_buf (fst s'))) + mset fs"
proof (induction rule: drain.induct)
  case (drain_emit t list n out s)
  have t: "counted t" using drain_emit.prems by simp
  obtain fs where "released (snd s) = released out @ list @ fs"
    "mset (concat ((reorder_buf t)[head_slot t := []])) = mset (concat (reorder_buf (fst s))) + mset fs"
    using drain_emit.IH drain_emit.hyps t by (auto simp: sound_emit sound_slot)
  then show ?case
    using mset_slot [OF sound_slot [OF t], of "unat (win_start t)" "[]"] drain_emit.hyps(1)
    by (intro exI [of _ "list @ fs"]) (simp add: ac_simps)
qed (auto simp: sound_slot)

lemma moved_size: "moved w (unat n) (w + n)"
  unfolding moved_def using circle_of_nat [of "unat n"] by simp

lemma window_test:
  assumes k: "sequence_numbers k" and t: "counted t" and old: "\<not> sn_less k sn (win_start t)"
  shows "sn_less k sn (win_start t + win_size t) \<longleftrightarrow> ahead (win_start t) sn < unat (win_size t)"
    "ahead (win_start t) sn \<le> 2048"
proof -
  let ?w = "win_start t" and ?W = "unat (win_size t)" and ?a = "ahead (win_start t) sn"
  have W: "128 \<le> ?W" "?W \<le> 1024" using soundD [OF t] by simp_all
  have opp: "ahead sn ?w = (if ?a = 0 then 0 else 4096 - ?a)"
    using ahead_opposite [of ?w sn] by (auto simp: ahead_def unat_eq_0)
  show a: "?a \<le> 2048"
  proof (rule ccontr)
    assume far: "\<not> ?a \<le> 2048"
    moreover have "0 < 4096 - ?a" unfolding zero_less_diff by (rule ahead_bound)
    ultimately show False using old opp unfolding sn_less_iff [OF k] by simp
  qed
  show "sn_less k sn (?w + win_size t) \<longleftrightarrow> ?a < ?W"
  proof (cases "?a \<le> ?W")
    case True
    have "moved sn (?W - ?a) (?w + win_size t)"
      using moved_ahead [of ?w sn] moved_size [of ?w "win_size t"] True by (simp add: moved_def of_nat_diff)
    then have "ahead sn (?w + win_size t) = ?W - ?a" by (rule ahead_moved) (use W in simp)
    then show ?thesis using True W unfolding sn_less_iff [OF k] by auto
  next
    case False
    have "moved (?w + win_size t) (?a - ?W) sn"
      using moved_ahead [of ?w sn] moved_size [of ?w "win_size t"] False by (simp add: moved_def of_nat_diff)
    then have "ahead (?w + win_size t) sn = ?a - ?W" by (rule ahead_moved) (use a in simp)
    then have "ahead sn (?w + win_size t) = 4096 - (?a - ?W)" using ahead_opposite [of "?w + win_size t" sn] False by simp
    then show ?thesis using False a unfolding sn_less_iff [OF k] by auto
  qed
qed

text \<open>
  A frame overtakes when it is beyond the window and all the stored ones are left more than a
  window behind it.
\<close>

definition overtakes :: "tid_rx \<Rightarrow> sk_buff \<Rightarrow> bool" where
  "overtakes t skb \<longleftrightarrow> unat (win_size t) \<le> ahead (win_start t) (frame_sn skb) \<and>
     (\<forall>list \<in> set (reorder_buf t). \<forall>f \<in> set list.
        ahead (win_start t) (frame_sn f) + unat (win_size t) < ahead (win_start t) (frame_sn skb))"

lemma force_release_drain:
  assumes k: "sequence_numbers k" and t: "counted t" "timed t r"
  obtains n t' out' where "skw_reorder_force_release k to_sn (t, r, out) = (t', force_timer k to_sn t r, out')"
    "drain k n (t, out) (t', out')" "n \<le> 2047" "timed t' (force_timer k to_sn t r)"
    "sn_less k (win_start t) (sn_inc k to_sn) \<Longrightarrow> n = ahead (win_start t) (sn_inc k to_sn) \<or> stored_num t' = 0"
    "n \<le> ahead (win_start t) (sn_inc k to_sn)"
proof -
  let ?target = "sn_inc k to_sn"
  obtain t' out' where l: "force_loop k to_sn ?target force_fuel t out = (t', out')" by fastforce
  have fuel: "ahead (win_start t) ?target \<le> force_fuel"
    using ahead_bound [of "win_start t" ?target] by (simp add: force_fuel_def less_imp_le)
  obtain n where n: "drain k n (t, out) (t', out')"
    "n \<le> (if sn_less k (win_start t) ?target then ahead (win_start t) ?target else 0)"
    "sn_less k (win_start t) ?target \<Longrightarrow> n = ahead (win_start t) ?target \<or> stored_num t' = 0"
    using force_loop_drain [OF k moved_inc [OF k, of to_sn] t(1), of out force_fuel] fuel by (auto simp: l)
  show thesis
  proof (rule that [OF _ n(1)])
    show "skw_reorder_force_release k to_sn (t, r, out) = (t', force_timer k to_sn t r, out')"
      by (simp add: skw_reorder_force_release_def l)
    show "timed t' (force_timer k to_sn t r)" using timed_drain [OF n(1) force_timer_timed [OF t(2)]] .
    show "n \<le> 2047" "n \<le> ahead (win_start t) ?target" using n(2) by (auto simp: sn_less_iff [OF k] split: if_splits)
  qed (rule n(3))
qed

text \<open>The forced release makes room for a frame beyond the window, unless the frame overtakes.\<close>

lemma force_release_room:
  assumes k: "sequence_numbers k" and t: "counted t" "windowed t" and d: "drain k n (t, out) (t', out')"
    and a: "unat (win_size t) \<le> ahead (win_start t) sn" "ahead (win_start t) sn \<le> 2048"
    and n: "n \<le> ahead (win_start t) (sn_inc k (sn_sub k sn (win_size t)))"
      "sn_less k (win_start t) (sn_inc k (sn_sub k sn (win_size t))) \<Longrightarrow>
       n = ahead (win_start t) (sn_inc k (sn_sub k sn (win_size t))) \<or> stored_num t' = 0"
    and sn: "sn = frame_sn skb" "\<not> overtakes t skb"
  shows "n \<le> 1921" "ahead (win_start t') sn < unat (win_size t)"
proof -
  let ?w = "win_start t" and ?W = "unat (win_size t)" and ?a = "ahead (win_start t) sn"
  let ?target = "sn_inc k (sn_sub k sn (win_size t))"
  have W: "128 \<le> ?W" "?W \<le> 1024" using soundD [OF t(1)] by simp_all
  have "moved ?w (?a - ?W) (sn_sub k sn (win_size t))"
    using moved_ahead [of ?w sn] moved_sub [OF k, of sn "win_size t"] a(1)
    by (simp add: moved_def of_nat_diff algebra_simps)
  from moved_trans [OF this moved_inc [OF k]] have target: "ahead ?w ?target = ?a - ?W + 1"
    by (rule ahead_moved) (use a(2) W in simp)
  then have less: "sn_less k ?w ?target" using a W by (simp add: sn_less_iff [OF k])
  show n1: "n \<le> 1921" using n(1) target a(2) W by simp
  have "n = ?a - ?W + 1"
  proof (rule ccontr)
    assume "n \<noteq> ?a - ?W + 1"
    then have *: "stored_num t' = 0" "n \<le> ?a - ?W" using n(1) n(2) [OF less] target by auto
    obtain fs where fs: "released out' = released out @ fs" "ordered_upto ?w n fs"
      using drain_order [OF d k] t n1 by auto
    have "concat (reorder_buf t') = []" using *(1) drain_sound [OF d] t(1) sound_empty [of t'] by auto
    then have "mset (concat (reorder_buf t)) = mset fs"
      using drain_frames [OF d] t(1) fs(1) by auto
    then have "set (concat (reorder_buf t)) = set fs" by (rule mset_eq_setD)
    then have "ahead ?w (frame_sn f) + ?W < ?a" if "list \<in> set (reorder_buf t)" "f \<in> set list" for list f
    proof -
      have "f \<in> set fs" using \<open>set (concat (reorder_buf t)) = set fs\<close> that by auto
      then have "ahead ?w (frame_sn f) < n" using fs(2) by (simp add: ordered_upto_def)
      then show ?thesis using *(2) a(1) by simp
    qed
    then show False using sn a(1) by (auto simp: overtakes_def)
  qed
  moreover have "moved ?w n (win_start t')" using drain_order [OF d k] t n1 by auto
  ultimately show "ahead (win_start t') sn < ?W"
    using ahead_back [of ?w n "win_start t'" sn] W a(1) by simp
qed

lemma reorder_frame_cases:
  assumes k: "sequence_numbers k" and t: "counted t" "timed t r" "looked_after t r" and skb: "fresh skb"
  obtains (bypass) "reorder_frame k now skb (t, r, out) = (t, r, release_frames [skb\<lparr>skip_replay_detect := True\<rparr>] out)"
  | (dropped) "leaves k 1024 (t, r, free_frames [skb] out) (reorder_frame k now skb (t, r, out))"
  | (taken) n t1 r1 out1 t2 out2 where "drain k n (t, out) (t1, out1)" "n \<le> 2047"
      "linked_once r \<longrightarrow> linked_once r1"
      "t2 = t1 \<or> (\<exists>list. joins skb (reorder_buf t1 ! slot_of t1 (frame_sn skb)) list \<and> t2 = put_frame (frame_sn skb) list t1)"
      "released out2 = released out1" "leaves k 1025 (t2, r1, out2) (reorder_frame k now skb (t, r, out))"
      "windowed t \<Longrightarrow> \<not> overtakes t skb \<Longrightarrow> n \<le> 1921 \<and> ahead (win_start t1) (frame_sn skb) < unat (win_size t1)"
proof -
  let ?sn = "frame_sn skb" and ?w = "win_start t"
  show thesis
  proof (cases "sn_less k ?sn ?w")
    case old: True
    show thesis
    proof (cases "bit SKW_RX_FILTER_EXCL (filter_bit (d_filter (sk_desc skb)))")
      case True
      then show thesis using old by (intro bypass) (simp add: reorder_frame_def Let_def)
    next
      case False
      have "leaves k 1024 (t, r, free_frames [skb] out) (reorder_out k now ?sn False False (t, r, free_frames [skb] out))"
        using t by (intro reorder_out_leaves [OF k]) auto
      then show thesis using old False by (intro dropped) (simp add: reorder_frame_def Let_def)
    qed
  next
    case new: False
    note window = window_test [OF k t(1) new]
    show thesis
    proof (cases "sn_less k ?sn (?w + win_size t)")
      case True
      obtain t2 out2 where "t2 = t \<or> (\<exists>list. joins skb (reorder_buf t ! slot_of t ?sn) list \<and> t2 = put_frame ?sn list t)"
        "released out2 = released out" "leaves k 1025 (t2, r, out2) (store_frame k now skb False (t, r, out))"
        by (rule store_frame_leaves [OF k t(1,2) skb, where release = False and now = now and out = out]) (use t(3) in auto)
      then show thesis
        using new True window(1)
        by (intro taken [of 0 t out r t2 out2] drain_refl) (auto simp: reorder_frame_def Let_def)
    next
      case beyond: False
      let ?r = "force_timer k (sn_sub k ?sn (win_size t)) t r"
      obtain n t1 out1 where f: "skw_reorder_force_release k (sn_sub k ?sn (win_size t)) (t, r, out) = (t1, ?r, out1)"
        "drain k n (t, out) (t1, out1)" "n \<le> 2047" "timed t1 ?r"
        "sn_less k ?w (sn_inc k (sn_sub k ?sn (win_size t))) \<Longrightarrow>
           n = ahead ?w (sn_inc k (sn_sub k ?sn (win_size t))) \<or> stored_num t1 = 0"
        "n \<le> ahead ?w (sn_inc k (sn_sub k ?sn (win_size t)))"
        by (rule force_release_drain [OF k t(1,2), of "sn_sub k ?sn (win_size t)" out]) blast
      have "counted t1" using drain_sound [OF f(2)] t(1) by simp
      from store_frame_leaves [OF k this f(4) skb, where release = True and now = now and out = out1]
      obtain t2 out2 where s: "t2 = t1 \<or> (\<exists>list. joins skb (reorder_buf t1 ! slot_of t1 ?sn) list \<and> t2 = put_frame ?sn list t1)"
        "released out2 = released out1" "leaves k 1025 (t2, ?r, out2) (store_frame k now skb True (t1, ?r, out1))"
        by auto
      show thesis
      proof (rule taken [OF f(2,3) _ s(1,2)])
        show "leaves k 1025 (t2, ?r, out2) (reorder_frame k now skb (t, r, out))"
          using s(3) new beyond f(1) by (simp add: reorder_frame_def Let_def)
        show "n \<le> 1921 \<and> ahead (win_start t1) ?sn < unat (win_size t1)" if "windowed t" "\<not> overtakes t skb"
          using force_release_room [OF k t(1) that(1) f(2) _ _ f(6,5) refl that(2)] window beyond drain_size [OF f(2)]
          by simp
      qed simp
    qed
  qed
qed

definition upkept :: "tid_rx \<Rightarrow> reorder_rx \<Rightarrow> bool" where
  "upkept t r \<longleftrightarrow> counted t \<and> timed t r \<and> looked_after t r \<and> linked_once r"

lemma leaves_upkept: "leaves k b (t, r, out) (t', r', out') \<Longrightarrow> counted t \<Longrightarrow> linked_once r \<Longrightarrow> upkept t' r'"
  using drain_sound by (fastforce simp: leaves_def upkept_def)

lemma leaves_order:
  assumes "leaves k b (t, r, out) (t', r', out')" and k: "sequence_numbers k" and t: "counted t" "windowed t" "b < 4096"
  shows "windowed t' \<and> (\<exists>n \<le> b. moved (win_start t) n (win_start t') \<and>
    (\<exists>fs. released out' = released out @ fs \<and> ordered_upto (win_start t) n fs))"
proof -
  obtain n where n: "n \<le> b" "drain k n (t, out) (t', out')" using assms(1) by (auto simp: leaves_def)
  then show ?thesis using drain_order [OF n(2) k] drain_windowed [OF n(2) k] t by auto
qed

lemma reorder_frame_upkept:
  assumes k: "sequence_numbers k" and t: "upkept t r" and skb: "fresh skb"
    and run: "reorder_frame k now skb (t, r, out) = (t', r', out')"
  shows "upkept t' r'"
proof -
  have u: "counted t" "timed t r" "looked_after t r" "linked_once r" using t by (simp_all add: upkept_def)
  show ?thesis
  proof (cases rule: reorder_frame_cases [OF k u(1-3) skb, where now = now and out = out, case_names bypass dropped taken])
    case bypass
    then show ?thesis using t run by simp
  next
    case dropped
    then show ?thesis using leaves_upkept u(1,4) unfolding run by blast
  next
    case (taken n t1 r1 out1 t2 out2)
    have "counted t1" using drain_sound [OF taken(1)] u(1) by simp
    then have "counted t2" using taken(4) put_sound by blast
    then show ?thesis using leaves_upkept taken(3,6) u(4) unfolding run by blast
  qed
qed

lemma ordered_filter: "ordered_upto w n fs \<Longrightarrow> filter (\<lambda>f. \<not> skip_replay_detect f) fs = fs"
  by (auto simp: ordered_upto_def filter_id_conv)

lemma reorder_frame_ordered:
  assumes k: "sequence_numbers k" and t: "upkept t r" "windowed t" and skb: "fresh skb" "\<not> overtakes t skb"
    and run: "reorder_frame k now skb (t, r, out) = (t', r', out')"
  shows "windowed t' \<and> (\<exists>n < 4096. moved (win_start t) n (win_start t') \<and>
    (\<exists>fs. released out' = released out @ fs \<and>
       ordered_upto (win_start t) n (filter (\<lambda>f. \<not> skip_replay_detect f) fs)))"
proof -
  have u: "counted t" "timed t r" "looked_after t r" "linked_once r" using t by (simp_all add: upkept_def)
  show ?thesis
  proof (cases rule: reorder_frame_cases [OF k u(1-3) skb(1), where now = now and out = out, case_names bypass dropped taken])
    case bypass
    then show ?thesis using t run by (auto intro!: exI [of _ 0])
  next
    case dropped
    from leaves_order [OF dropped [unfolded run] k u(1) t(2)] obtain n fs where
      "windowed t'" "n \<le> 1024" "moved (win_start t) n (win_start t')" "released out' = released out @ fs"
      "ordered_upto (win_start t) n fs" by auto
    then show ?thesis using ordered_filter by (auto intro!: exI [of _ n])
  next
    case (taken n t1 r1 out1 t2 out2)
    have room: "n \<le> 1921" "ahead (win_start t1) (frame_sn skb) < unat (win_size t1)" using taken(7) t(2) skb(2) by simp_all
    have t1: "counted t1" "windowed t1"
      using drain_sound [OF taken(1)] drain_windowed [OF taken(1) k] u(1) t(2) by simp_all
    then have t2: "counted t2" "windowed t2" "win_start t2 = win_start t1"
      using taken(4) put_sound put_windowed [OF t1 _ refl room(2)] by auto
    obtain fs where fs: "moved (win_start t) n (win_start t1)" "released out1 = released out @ fs" "ordered_upto (win_start t) n fs"
      using drain_order [OF taken(1) k] u(1) t(2) room(1) by auto
    obtain m gs where gs: "windowed t'" "m \<le> 1025" "moved (win_start t1) m (win_start t')"
      "released out' = released out1 @ gs" "ordered_upto (win_start t1) m gs"
      using leaves_order [OF taken(6) [unfolded run] k t2(1,2)] taken(5) t2(3) by auto
    have o: "ordered_upto (win_start t) (n + m) (fs @ gs)"
      by (rule ordered_step [OF fs(3,1) gs(5)]) (use room(1) gs(2) in simp)
    show ?thesis
      using gs(1,2,4) fs(2) room(1) moved_trans [OF fs(1) gs(3)] o ordered_filter [OF o]
      by (intro conjI exI [of _ "n + m"] exI [of _ "fs @ gs"]) auto
  qed
qed

end
