(* ===== verification/Wifi_Session.thy ===== *)
theory Wifi_Session
  imports Wifi_Frame
begin

text \<open>
  A block-ack session as a state machine: frames arrive, the receive thread works off its list,
  the timer fires, and the peer asks for the window to be moved. The runs of a session deliver
  in order and forget nothing.
\<close>

unbundle bit_operations_syntax

section \<open>The events of a session\<close>

datatype rx_event = Frame sk_buff | Todo | Timer | Request u16

definition no_frames :: rx_out where
  "no_frames = \<lparr>released = [], freed = []\<rparr>"

lemma no_frames_simps [simp]: "released no_frames = []" "freed no_frames = []"
  by (simp_all add: no_frames_def)

fun session_step :: "kernel \<Rightarrow> u64 \<Rightarrow> rx_event \<Rightarrow> reorder_rx \<Rightarrow> reorder_rx \<times> rx_out" where
  "session_step k now (Frame skb) r = on_session (reorder_frame k now skb) (r, no_frames)"
| "session_step k now Todo r = (if 0 < todo_links r then skw_rx_todo k now (r, no_frames) else (r, no_frames))"
| "session_step k now Timer r = (if timer r \<noteq> None then skw_reorder_timeout r else r, no_frames)"
| "session_step k now (Request ssn) r = (skw_update_tid_rx ssn r, no_frames)"

text \<open>A session that is open and looked after, and one whose frames are in the window as well.\<close>

definition kept :: "reorder_rx \<Rightarrow> bool" where
  "kept r \<longleftrightarrow> (case session r of None \<Rightarrow> False | Some t \<Rightarrow> upkept t r)"

definition in_window :: "reorder_rx \<Rightarrow> bool" where
  "in_window r \<longleftrightarrow> (case session r of None \<Rightarrow> False | Some t \<Rightarrow> windowed t)"

lemma upkept_session [simp]: "upkept t (r\<lparr>session := s\<rparr>) = upkept t r"
  by (simp add: upkept_def timed_def looked_after_def linked_once_def)

text \<open>The start of the window.\<close>

definition start :: "reorder_rx \<Rightarrow> u16" where
  "start r = (case session r of None \<Rightarrow> 0 | Some t \<Rightarrow> win_start t)"

text \<open>What an event delivers: the frames in order, the window moving by so many numbers.\<close>

definition event_delivers :: "reorder_rx \<Rightarrow> reorder_rx \<times> rx_out \<Rightarrow> bool" where
  "event_delivers r = (\<lambda>(r', out). in_window r' \<and>
     ordered_upto (start r) (ahead (start r) (start r')) (filter (\<lambda>f. \<not> skip_replay_detect f) (released out)))"

lemma deliversI:
  assumes "session r = Some t" "session r' = Some t'" "windowed t'" "moved (win_start t) n (win_start t')" "n < 4096"
    and "ordered_upto (win_start t) n (filter (\<lambda>f. \<not> skip_replay_detect f) (released out))"
  shows "event_delivers r (r', out)"
  using assms ahead_moved [OF assms(4,5)] by (simp add: event_delivers_def in_window_def start_def)

lemma delivers_nothing: "in_window r \<Longrightarrow> in_window r' \<Longrightarrow> released out = [] \<Longrightarrow> event_delivers r (r', out)"
  by (simp add: event_delivers_def)

lemma todo_kept:
  assumes k: "sequence_numbers k" and r: "session r = Some t" "upkept t r" "todo_actived r"
    and run: "skw_rx_todo k now (r, no_frames) = (r', out')"
  shows "kept r'" "windowed t \<Longrightarrow> event_delivers r (r', out')"
proof -
  let ?r = "r\<lparr>todo_links := todo_links r - 1\<rparr>"
  have t: "counted t" "timed t r" "linked_once r" using r(2) by (simp_all add: upkept_def)
  have "timed t ?r" using t(2) by (simp add: timed_def)
  from force_release_drain [OF k t(1) this, of "todo_seq r" no_frames] obtain n t1 out1 where f:
    "skw_reorder_force_release k (todo_seq r) (t, ?r, no_frames) = (t1, force_timer k (todo_seq r) t ?r, out1)"
    "drain k n (t, no_frames) (t1, out1)" "n \<le> 2047" "timed t1 (force_timer k (todo_seq r) t ?r)" by metis
  let ?r1 = "(force_timer k (todo_seq r) t ?r)\<lparr>session := Some t1, todo_actived := False\<rparr>"
  have t1: "counted t1" "timed t1 ?r1" using drain_sound [OF f(2)] t(1) f(4) by (simp_all add: timed_def)
  have l: "linked_once ?r1" using t(3) r(3) by (simp add: linked_once_def force_timer_def)
  obtain t' r2 where g: "skw_reorder_release k now (t1, ?r1, out1) = (t', r2, out')" "r' = r2\<lparr>session := Some t'\<rparr>"
    using run r(1) f(1) by (auto simp: skw_rx_todo_def on_session_def Let_def split: prod.splits)
  note lv = skw_reorder_release_leaves [OF k t1, of out1 now, unfolded g(1)]
  show "kept r'" using leaves_upkept [OF lv t1(1) l] by (simp add: kept_def g(2))
  assume w: "windowed t"
  obtain fs where fs: "moved (win_start t) n (win_start t1)" "released out1 = fs" "ordered_upto (win_start t) n fs"
    using drain_order [OF f(2) k] t(1) w f(3) by auto
  have w1: "windowed t1" using drain_windowed [OF f(2) k] t(1) w by simp
  obtain m gs where gs: "windowed t'" "m \<le> 1024" "moved (win_start t1) m (win_start t')"
    "released out' = released out1 @ gs" "ordered_upto (win_start t1) m gs"
    using leaves_order [OF lv k t1(1) w1] by auto
  have o: "ordered_upto (win_start t) (n + m) (fs @ gs)"
    by (rule ordered_step [OF fs(3,1) gs(5)]) (use f(3) gs(2) in simp)
  then show "event_delivers r (r', out')"
    using deliversI [OF r(1) _ gs(1) moved_trans [OF fs(1) gs(3)]] f(3) gs(2,4) fs(2) ordered_filter [OF o]
    by (simp add: g(2))
qed

text \<open>
  Every event keeps the session, and delivers in order unless a frame overtakes; frames are as
  they come from the receive path.
\<close>

definition clean_event :: "rx_event \<Rightarrow> bool" where
  "clean_event ev = (case ev of Frame skb \<Rightarrow> fresh skb | _ \<Rightarrow> True)"

definition overtaking :: "rx_event \<Rightarrow> reorder_rx \<Rightarrow> bool" where
  "overtaking ev r = (case ev of Frame skb \<Rightarrow> (case session r of None \<Rightarrow> False | Some t \<Rightarrow> overtakes t skb) | _ \<Rightarrow> False)"

lemma kept_cases: "kept r \<Longrightarrow> \<exists>t. session r = Some t \<and> upkept t r"
  by (auto simp: kept_def split: option.splits)

lemma frame_step:
  assumes k: "sequence_numbers k" and r: "session r = Some t" "upkept t r" and skb: "fresh skb"
    and run: "on_session (reorder_frame k now skb) (r, no_frames) = (r', out')"
  shows "kept r'" "windowed t \<Longrightarrow> \<not> overtakes t skb \<Longrightarrow> event_delivers r (r', out')"
proof -
  obtain t' r1 where f: "reorder_frame k now skb (t, r, no_frames) = (t', r1, out')" "r' = r1\<lparr>session := Some t'\<rparr>"
    using run r(1) by (auto simp: on_session_def split: prod.splits)
  show "kept r'" using reorder_frame_upkept [OF k r(2) skb f(1)] by (simp add: kept_def f(2))
  assume "windowed t" "\<not> overtakes t skb"
  from reorder_frame_ordered [OF k r(2) this(1) skb this(2) f(1)] obtain n fs where
    "windowed t'" "n < 4096" "moved (win_start t) n (win_start t')" "released out' = fs"
    "ordered_upto (win_start t) n (filter (\<lambda>f. \<not> skip_replay_detect f) fs)" by auto
  then show "event_delivers r (r', out')" using r(1) f(2) by (auto intro: deliversI)
qed

lemma step_kept:
  assumes k: "sequence_numbers k" and r: "kept r" and ev: "clean_event ev"
    and run: "session_step k now ev r = (r', out')"
  shows "kept r'" "in_window r \<Longrightarrow> \<not> overtaking ev r \<Longrightarrow> event_delivers r (r', out')"
proof -
  obtain t where t: "session r = Some t" "upkept t r" using kept_cases [OF r] by blast
  then have links: "0 < todo_links r \<longleftrightarrow> todo_actived r" by (auto simp: upkept_def linked_once_def)
  have still: "kept r' \<and> (in_window r \<longrightarrow> event_delivers r (r', out'))"
    if "session r' = session r" "upkept t r'" "released out' = []"
    using that t by (auto simp: kept_def in_window_def intro: delivers_nothing)
  have "kept r' \<and> (in_window r \<longrightarrow> \<not> overtaking ev r \<longrightarrow> event_delivers r (r', out'))"
  proof (cases ev)
    case (Frame skb)
    then show ?thesis using frame_step [OF k t, of skb now r' out'] ev run t(1)
      by (auto simp: clean_event_def overtaking_def in_window_def)
  next
    case Todo
    then show ?thesis
      using todo_kept [OF k t, of now r' out'] run links still t by (auto simp: in_window_def split: if_splits)
  next
    case Timer
    then show ?thesis using run t(2) still
      by (auto simp: skw_reorder_timeout_def upkept_def timed_def looked_after_def linked_once_def Let_def split: if_splits)
  next
    case (Request ssn)
    then show ?thesis using run t still
      by (auto simp: skw_update_tid_rx_def upkept_def timed_def looked_after_def linked_once_def Let_def split: if_splits)
  qed
  then show "kept r'" "in_window r \<Longrightarrow> \<not> overtaking ev r \<Longrightarrow> event_delivers r (r', out')" by blast+
qed

section \<open>Runs\<close>

text \<open>
  A run from the position \<open>pos\<close>, with the frames it delivers: each with its place on the line
  that the numbers of the circle are wound off. The frames that pass by the window (those of
  the filters \<open>SKW_RX_FILTER_EXCL\<close>, marked to skip the replay check) have no place there.
\<close>

fun session_run :: "kernel \<Rightarrow> nat \<Rightarrow> (u64 \<times> rx_event) list \<Rightarrow> reorder_rx \<Rightarrow> reorder_rx \<times> (nat \<times> sk_buff) list" where
  "session_run k pos [] r = (r, [])"
| "session_run k pos ((now, ev) # evs) r =
     (let (r', out) = session_step k now ev r;
          fs = filter (\<lambda>f. \<not> skip_replay_detect f) (released out);
          (r'', ds) = session_run k (pos + ahead (start r) (start r')) evs r'
      in (r'', map (\<lambda>f. (pos + ahead (start r) (frame_sn f), f)) fs @ ds))"

primrec run_events :: "(reorder_rx \<Rightarrow> rx_event \<Rightarrow> bool) \<Rightarrow> kernel \<Rightarrow> (u64 \<times> rx_event) list \<Rightarrow> reorder_rx \<Rightarrow> bool" where
  "run_events P k [] r = True"
| "run_events P k (e # evs) r =
     (P r (snd e) \<and> run_events P k evs (fst (session_step k (fst e) (snd e) r)))"

definition delivered_before :: "nat \<times> sk_buff \<Rightarrow> nat \<times> sk_buff \<Rightarrow> bool" where
  "delivered_before d e \<longleftrightarrow> fst d < fst e \<or> fst d = fst e \<and> d_amsdu (sk_desc (snd e))"

text \<open>The sizes of a window that divide the circle, and a peer without a session.\<close>

definition fitting_size :: "u16 \<Rightarrow> bool" where
  "fitting_size buf_size \<longleftrightarrow> buf_size \<le> 512 \<and> 2 * max 64 (unat buf_size) dvd 4096"

definition idle :: "reorder_rx \<Rightarrow> bool" where
  "idle r \<longleftrightarrow> session r = None \<and> timer r = None \<and> \<not> todo_actived r \<and> todo_links r = 0"

lemma opened_session:
  assumes "skw_add_tid_rx True ssn buf_size r = (True, r')" "idle r" "fitting_size buf_size"
  shows "kept r'" "in_window r'" "start r' = ssn"
proof -
  let ?win = "push_bit 1 (if 64 < buf_size then ucast buf_size else 64) :: u32"
  have buf: "unat buf_size \<le> 512" "2 * max 64 (unat buf_size) dvd 4096"
    using assms(3) by (auto simp: fitting_size_def word_le_nat_alt)
  have "unat (ucast buf_size :: u32) = unat buf_size" 
    using buf(1) by (simp add: unsigned_ucast_eq take_bit_nat_eq_self)
  then have win: "unat ?win = 2 * max 64 (unat buf_size)"
    using buf(1) by (auto simp: push_bit_eq_mult unat_word_ariths word_less_nat_alt max_def)
  then have size: "unat (ucast ?win :: u16) = 2 * max 64 (unat buf_size)"
    using buf(1) by (simp add: unsigned_ucast_eq take_bit_nat_eq_self)
  let ?t = "\<lparr>win_start = ssn, win_size = ucast ?win, stored_num = 0, tid_ref_cnt = ref_cnt r,
    reorder_buf = replicate (unat ?win) []\<rparr>"
  have r': "r' = r\<lparr>session := Some ?t, todo_seq := 0, todo_actived := False, todo_reason := RELEASE_INVALID\<rparr>"
    using assms(1,2) by (auto simp: skw_add_tid_rx_def idle_def Let_def split: if_splits)
  have "occupied ?t = 0" by (simp add: occupied_def)
  moreover have "counted ?t"
    using buf size win \<open>occupied ?t = 0\<close> by (auto simp: counted_def word_le_nat_alt)
  ultimately show "kept r'" using assms(2)
    by (simp add: r' kept_def upkept_def timed_def looked_after_def linked_once_def idle_def)
  show "in_window r'" "start r' = ssn" by (simp_all add: r' in_window_def windowed_def start_def)
qed

lemma run_kept:
  assumes k: "sequence_numbers k"
  shows "kept r \<Longrightarrow> run_events (\<lambda>_. clean_event) k evs r \<Longrightarrow> kept (fst (session_run k pos evs r))"
proof (induction evs arbitrary: r pos)
  case (Cons e evs)
  obtain r' out where s: "session_step k (fst e) (snd e) r = (r', out)" by fastforce
  have "kept r'" using step_kept(1) [OF k Cons.prems(1) _ s] Cons.prems(2) by simp
  then show ?case using Cons.IH [of r'] Cons.prems(2) s by (cases e) (simp add: Let_def case_prod_beta)
qed simp

lemma run_ordered:
  assumes k: "sequence_numbers k"
  shows "kept r \<Longrightarrow> in_window r \<Longrightarrow> run_events (\<lambda>r ev. clean_event ev \<and> \<not> overtaking ev r) k evs r \<Longrightarrow>
    session_run k pos evs r = (r', ds) \<Longrightarrow>
    sorted_wrt delivered_before ds \<and> (\<forall>d \<in> set ds. pos \<le> fst d) \<and>
    (\<forall>w. moved w pos (start r) \<longrightarrow> (\<forall>d \<in> set ds. moved w (fst d) (frame_sn (snd d))))"
proof (induction evs arbitrary: r pos r' ds)
  case (Cons e evs)
  obtain now ev where e: "e = (now, ev)" by fastforce
  obtain r1 out where s: "session_step k now ev r = (r1, out)" by fastforce
  let ?n = "ahead (start r) (start r1)" and ?fs = "filter (\<lambda>f. \<not> skip_replay_detect f) (released out)"
  have ev: "clean_event ev" "\<not> overtaking ev r" using Cons.prems(3) e by auto
  have d: "in_window r1" "ordered_upto (start r) ?n ?fs"
    using step_kept(2) [OF k Cons.prems(1) ev(1) s Cons.prems(2) ev(2)] by (auto simp: event_delivers_def)
  obtain ds1 where ds1: "session_run k (pos + ?n) evs r1 = (r', ds1)"
    "ds = map (\<lambda>f. (pos + ahead (start r) (frame_sn f), f)) ?fs @ ds1"
    using Cons.prems(4) e s by (auto simp: Let_def split: prod.splits)
  have ih: "sorted_wrt delivered_before ds1" "\<forall>d \<in> set ds1. pos + ?n \<le> fst d"
    "\<forall>w. moved w (pos + ?n) (start r1) \<longrightarrow> (\<forall>d \<in> set ds1. moved w (fst d) (frame_sn (snd d)))"
    using Cons.IH [OF step_kept(1) [OF k Cons.prems(1) ev(1) s] d(1) _ ds1(1)] Cons.prems(3) e s by auto
  have fs: "sorted_wrt delivered_before (map (\<lambda>f. (pos + ahead (start r) (frame_sn f), f)) ?fs)"
    using d(2) unfolding ordered_upto_def sorted_wrt_map
    by (auto simp: delivered_before_def precedes_def intro: sorted_wrt_mono_rel [rotated])
  have below: "pos + ahead (start r) (frame_sn f) < pos + ?n" if "f \<in> set ?fs" for f
    using d(2) that by (auto simp: ordered_upto_def)
  have "delivered_before d e" if "d \<in> set (map (\<lambda>f. (pos + ahead (start r) (frame_sn f), f)) ?fs)" "e \<in> set ds1" for d e
  proof -
    have "fst d < pos + ?n" using that(1) below by auto
    then show ?thesis using ih(2) that(2) by (auto simp: delivered_before_def)
  qed
  then have "sorted_wrt delivered_before ds"
    using fs ih(1) by (simp only: ds1(2) sorted_wrt_append) blast
  moreover have "\<forall>d \<in> set ds. pos \<le> fst d" using ih(2) ds1(2) by auto
  moreover have "moved w (fst d) (frame_sn (snd d))" if "moved w pos (start r)" "d \<in> set ds" for w d
    using that ds1(2) ih(3) moved_trans [OF that(1) moved_ahead] by auto
  ultimately show ?case by blast
qed simp

text \<open>Two frames of a session that starts two numbers before the circle closes, the second one first.\<close>

definition sample_events :: "(u64 \<times> rx_event) list" where
  "sample_events = [(0, Frame (plain_frame 4095)), (0, Frame (plain_frame 4094))]"

lemma sample_opened: "skw_add_tid_rx True 4094 64 idle_session = (True, sample_session)" "idle idle_session" "fitting_size 64"
  by (simp_all add: sample_session_def skw_add_tid_rx_def idle_session_def idle_def fitting_size_def Let_def)

lemma sample_kept: "kept sample_session" "in_window sample_session"
  using opened_session(1,2) [OF sample_opened] by simp_all

definition waiting_session :: reorder_rx where
  "waiting_session = fst (session_run documented_kernel 0 [(0, Frame (plain_frame 4095))] sample_session)"

lemma session_in_order:
  assumes "sequence_numbers k" "idle r\<^sub>0" "fitting_size buf_size"
    and "skw_add_tid_rx True ssn buf_size r\<^sub>0 = (True, r)"
    and "run_events (\<lambda>r ev. clean_event ev \<and> \<not> overtaking ev r) k evs r"
    and "session_run k 0 evs r = (r', ds)"
  shows "sorted_wrt delivered_before ds \<and> (\<forall>(p, skb) \<in> set ds. moved ssn p (frame_sn skb))"
  using run_ordered [OF assms(1) opened_session(1,2) [OF assms(4,2,3)] assms(5,6)] opened_session(3) [OF assms(4,2,3)]
  by (auto dest!: spec [of _ ssn])


lemma sample_events_clean:
  "run_events (\<lambda>r ev. clean_event ev \<and> \<not> overtaking ev r) documented_kernel sample_events sample_session"
  by code_simp




end
