(* ===== verification/Wifi_Ledger.thy ===== *)
theory Wifi_Ledger
  imports Wifi_Session
begin

text \<open>
  The book-keeping of socket buffers: whatever the frames, the clock and the arithmetic of the
  kernel are, a frame that a session is given is stored, handed on or freed, and only once.
\<close>

unbundle bit_operations_syntax

definition frame_id :: "sk_buff \<Rightarrow> rx_desc \<times> bytes" where
  "frame_id skb = (sk_desc skb, sk_data skb)"

abbreviation ids :: "sk_buff list \<Rightarrow> (rx_desc \<times> bytes) multiset" where
  "ids fs \<equiv> image_mset frame_id (mset fs)"

text \<open>All the frames of a session, and those that have left it.\<close>

definition frame_ledger :: "tid_rx \<Rightarrow> rx_out \<Rightarrow> (rx_desc \<times> bytes) multiset" where
  "frame_ledger t out = ids (concat (reorder_buf t)) + ids (released out) + ids (freed out)"

definition fits :: "tid_rx \<Rightarrow> bool" where
  "fits t \<longleftrightarrow> length (reorder_buf t) = unat (win_size t) \<and> 0 < unat (win_size t)"

lemma fits_slot: "fits t \<Longrightarrow> n mod unat (win_size t) < length (reorder_buf t)"
  by (simp add: fits_def)

lemma ledger_simps [simp]:
  "frame_ledger (t\<lparr>win_start := w\<rparr>) out = frame_ledger t out" "frame_ledger (t\<lparr>stored_num := n\<rparr>) out = frame_ledger t out"
  "frame_ledger (t\<lparr>win_start := w, stored_num := n\<rparr>) out = frame_ledger t out"
  "frame_ledger t (release_frames fs out) = frame_ledger t out + ids fs" "frame_ledger t (free_frames fs out) = frame_ledger t out + ids fs"
  "fits (t\<lparr>win_start := w\<rparr>) = fits t" "fits (t\<lparr>stored_num := n\<rparr>) = fits t"
  "fits (t\<lparr>win_start := w, stored_num := n\<rparr>) = fits t" "fits (set_slot j fs t) = fits t"
  "frame_ledger (set_slot j fs (t\<lparr>stored_num := n\<rparr>)) out = frame_ledger (set_slot j fs t) out"
  by (simp_all add: frame_ledger_def fits_def ac_simps)

lemma ledger_slot:
  assumes "j < length (reorder_buf t)"
  shows "frame_ledger (set_slot j fs t) out + ids (reorder_buf t ! j) = frame_ledger t out + ids fs"
proof -
  have "ids (concat ((reorder_buf t)[j := fs])) + ids (reorder_buf t ! j) = ids (concat (reorder_buf t)) + ids fs"
    using arg_cong [OF mset_slot [OF assms, of fs], of "image_mset frame_id"] by (simp only: image_mset_union)
  then show ?thesis by (simp add: frame_ledger_def ac_simps)
qed

lemma ledger_emptied:
  "j < length (reorder_buf t) \<Longrightarrow> reorder_buf t ! j = list \<Longrightarrow> frame_ledger (set_slot j [] t) out + ids list = frame_ledger t out"
  using ledger_slot [of j t "[]" out] by simp

text \<open>\<open>conserves\<close>: what an operation does to the frames, given those that come in.\<close>

definition conserves ::
  "(rx_desc \<times> bytes) multiset \<Rightarrow> tid_rx \<times> reorder_rx \<times> rx_out \<Rightarrow> tid_rx \<times> reorder_rx \<times> rx_out \<Rightarrow> bool" where
  "conserves new = (\<lambda>(t, r, out) (t', r', out').
     fits t \<longrightarrow> fits t' \<and> frame_ledger t' out' = frame_ledger t out + new)"

lemma force_loop_ledger:
  "fits t \<Longrightarrow> force_loop k to_sn target fuel t out = (t', out') \<Longrightarrow> fits t' \<and> frame_ledger t' out' = frame_ledger t out"
proof (induction fuel arbitrary: t out)
  case (Suc fuel)
  note slot = fits_slot [OF Suc.prems(1), of "unat (win_start t)"]
  show ?case
  proof (cases "sn_less k (win_start t) target \<and> stored_num t \<noteq> 0")
    case True
    then show ?thesis
      using Suc.prems Suc.IH [of "t\<lparr>win_start := sn_inc k (win_start t)\<rparr>" out]
        Suc.IH [of "(set_slot (head_slot t) [] t)\<lparr>stored_num := stored_num t - 1, win_start := sn_inc k (win_start t)\<rparr>"]
        ledger_emptied [OF slot refl]
      by (auto simp: Let_def start_stored split: list.splits if_splits)
  next
    case False
    then show ?thesis using Suc.prems by (auto split: if_splits)
  qed
qed simp

lemma force_release_conserves: "conserves {#} (t, r, out) (skw_reorder_force_release k to_sn (t, r, out))"
  using force_loop_ledger [of t k to_sn "sn_inc k to_sn" force_fuel out]
  by (auto simp: conserves_def skw_reorder_force_release_def split: prod.splits)

lemma release_loop_conserves: "conserves {#} s (release_loop k now w is release s)"
proof (induction k now w "is" release s rule: release_loop.induct)
  case (2 k now w i "is" release t r out)
  let ?j = "(unat w + i) mod unat (win_size t)"
  show ?case
  proof (cases "stored_num t = 0 \<or> reorder_buf t ! ?j = []")
    case True
    then show ?thesis using 2(1) by (auto simp: conserves_def Let_def)
  next
    case False
    then obtain skb rest where list: "reorder_buf t ! ?j = skb # rest" by (cases "reorder_buf t ! ?j") auto
    show ?thesis
    proof (cases release)
      case False
      then show ?thesis
        using 2(2) list force_release_conserves [of t r out k "w + of_nat i"]
        by (auto simp: conserves_def Let_def split: prod.splits)
    next
      case True
      have slot: "frame_ledger (set_slot ?j [] t) out' + ids (skb # rest) = frame_ledger t out'" if "fits t" for out'
        by (rule ledger_emptied [OF fits_slot [OF that] list])
      show ?thesis
        using True list 2(3) [OF _ refl refl list, of "stop_timer t r"] 2(4) [OF _ refl refl list, of "stop_timer t r"] slot
        by (auto simp: conserves_def Let_def split: prod.splits)
    qed
  qed
qed (simp add: conserves_def)

lemma conservesD:
  "conserves new (t, r, out) (t', r', out') \<Longrightarrow> fits t \<Longrightarrow> fits t' \<and> frame_ledger t' out' = frame_ledger t out + new"
  by (simp add: conserves_def)

lemma conserves_still: "conserves {#} (t, r, out) (t, r', out)"
  by (simp add: conserves_def)

lemma reorder_out_conserves: "conserves {#} (t, r, out) (reorder_out k now sn rest release (t, r, out))"
  using release_loop_conserves [of "(t, r, out)"] conserves_still
  by (simp add: reorder_out_def skw_reorder_release_def)

lemma conserves_trans:
  "conserves a s s' \<Longrightarrow> conserves b s' s'' \<Longrightarrow> conserves (a + b) s s''"
  by (auto simp: conserves_def split: prod.splits)

lemma conserves_out:
  assumes "fits t \<Longrightarrow> fits t' \<and> frame_ledger t' out' = frame_ledger t out + new"
  shows "conserves new (t, r, out) (reorder_out k now sn rest release (t', r', out'))"
proof -
  have "conserves new (t, r, out) (t', r', out')" using assms by (simp add: conserves_def)
  from conserves_trans [OF this reorder_out_conserves] show ?thesis by simp
qed

lemma conserves_skip:
  "conserves {#frame_id skb#} (t, r, out) (t, r, release_frames [skb\<lparr>skip_replay_detect := b\<rparr>] out)"
  by (simp add: conserves_def frame_id_def)

lemma join_ids: "ids (amsdu_join skb list) = ids list + {#frame_id skb#}"
  by (cases list) (simp_all add: amsdu_join_def frame_id_def)

lemma place_frame_conserves:
  assumes "reorder_buf t ! index = old" "index < length (reorder_buf t)" "ids list = ids old + {#frame_id skb#}"
  shows "conserves {#frame_id skb#} (t, r, out) (place_frame k now sn index list release (t, r, out))"
  unfolding place_frame_def using ledger_slot [OF assms(2), of "[]"] ledger_slot [OF assms(2), of list] assms(1,3)
  by (auto intro!: conserves_out simp: ac_simps)

lemma store_frame_conserves:
  assumes t: "fits t"
  shows "conserves {#frame_id skb#} (t, r, out) (store_frame k now skb release (t, r, out))"
proof -
  let ?j = "unat (frame_sn skb) mod unat (win_size t)"
  let ?old = "reorder_buf t ! ?j" and ?join = "amsdu_join skb (reorder_buf t ! ?j)"
  have j: "?j < length (reorder_buf t)" by (rule fits_slot [OF t])
  have place: "conserves {#frame_id skb#} (t, r, out) (place_frame k now sn ?j list release (t\<lparr>stored_num := n\<rparr>, r, out))"
    if "ids list = ids ?old + {#frame_id skb#}" for sn list n
    using place_frame_conserves [of "t\<lparr>stored_num := n\<rparr>" ?j ?old list skb r out k now sn release] j that
    by (simp add: conserves_def split: prod.splits)
  show ?thesis
  proof (cases "d_amsdu (sk_desc skb)")
    case False
    then show ?thesis using place [of "[skb]" _ "stored_num t"]
      by (auto simp: store_frame_def Let_def intro!: conserves_out)
  next
    case True
    let ?t = "if ?old = [] then t\<lparr>stored_num := stored_num t + 1\<rparr> else t"
    have whole: "conserves {#frame_id skb#} (t, r, out) (reorder_out k now sn b release
        ((set_slot ?j [] (?t\<lparr>stored_num := n\<rparr>))\<lparr>win_start := w\<rparr>, r', free_frames ?join out))" for sn b r' n w
      using ledger_slot [OF j, of "[]" out] by (intro conserves_out) (auto simp: join_ids ac_simps)
    have part: "conserves {#frame_id skb#} (t, r, out) (reorder_out k now sn b release (set_slot ?j ?join ?t, r', out))" for sn b r'
      using ledger_slot [OF j, of ?join out] by (intro conserves_out) (auto simp: join_ids ac_simps)
    have drop: "conserves {#frame_id skb#} (t, r, out) (reorder_out k now sn b release (?t, r', free_frames [skb] out))" for sn b r'
      by (intro conserves_out) simp
    have "conserves {#frame_id skb#} (t, r, out) (place_frame k now sn ?j ?join release (?t\<lparr>stored_num := n\<rparr>, r, out))" for sn n
      using place [of ?join sn n] by (cases "?old = []") (simp_all add: join_ids)
    then show ?thesis using True whole part drop by (simp add: store_frame_def Let_def)
  qed
qed

text \<open>
  C18: No frame is lost and none is handed on or freed twice: after a frame has come in, the
  frames of the session, those handed on and those freed are the same as before, and the new
  one. This holds of every frame and every state of a session whose window has its slots, of
  spoofed frames and of frames that overtake, whatever the clock and the arithmetic of the
  kernel.
\<close>

theorem frames_conserved:
  assumes "fits t" "reorder_frame k now skb (t, r, out) = (t', r', out')"
  shows "fits t' \<and> frame_ledger t' out' = frame_ledger t out + {#frame_id skb#}"
proof -
  obtain t1 r1 out1 where f: "skw_reorder_force_release k (sn_sub k (frame_sn skb) (win_size t)) (t, r, out) = (t1, r1, out1)"
    by (rule prod_cases3)
  then have t1: "fits t1" "frame_ledger t1 out1 = frame_ledger t out"
    using force_release_conserves [of t r out k "sn_sub k (frame_sn skb) (win_size t)"] assms(1) by (simp_all add: conserves_def)
  have "conserves {#} (t, r, out) (t1, r1, out1)" using force_release_conserves f by metis
  from conserves_trans [OF this store_frame_conserves [OF t1(1)]]
  have beyond: "conserves {#frame_id skb#} (t, r, out) (store_frame k now skb True (t1, r1, out1))" by simp
  have dropped: "conserves {#frame_id skb#} (t, r, out) (reorder_out k now sn False False (t, r, free_frames [skb] out))" for sn
    by (rule conserves_out) simp
  have "conserves {#frame_id skb#} (t, r, out) (reorder_frame k now skb (t, r, out))"
    using beyond dropped conserves_skip [of skb t r out True] store_frame_conserves [OF assms(1)] f
    by (simp add: reorder_frame_def Let_def)
  then show ?thesis using assms by (simp add: conserves_def)
qed

theorem frames_conserved_witness:
  "case reorder_frame documented_kernel 0 (plain_frame 4095) (the (session sample_session), sample_session, no_frames) of
     (t', r', out') \<Rightarrow> frame_ledger t' out' = {#frame_id (plain_frame 4095)#}"
proof -
  obtain t' r' out' where run: "reorder_frame documented_kernel 0 (plain_frame 4095)
      (the (session sample_session), sample_session, no_frames) = (t', r', out')" by (rule prod_cases3)
  have "fits (the (session sample_session))" "frame_ledger (the (session sample_session)) no_frames = {#}"
    by (simp_all add: sample_session_def skw_add_tid_rx_def idle_session_def fits_def frame_ledger_def Let_def)
  then show ?thesis using frames_conserved [OF _ run] by (simp add: run)
qed

end
