(* ===== verification/Wifi_Limits.thy ===== *)
theory Wifi_Limits
  imports Wifi_Session
begin

text \<open>
  What becomes of a session's frames at its limits: a frame far beyond the window, the requests
  of the peer, and the closing and reopening of the session.
\<close>

unbundle bit_operations_syntax

section \<open>Where the order ends\<close>

text \<open>
  A frame beyond the window of a session that stores nothing is delivered at once, and the
  window moves only so far that the frame is the last number in it: the numbers before it are
  still accepted, and are delivered behind it.
\<close>

theorem overtaking_delivered:
  assumes "sequence_numbers k" "counted t" "stored_num t = 0" "fresh skb" "\<not> d_amsdu (sk_desc skb)"
    and "unat (win_size t) \<le> ahead (win_start t) (frame_sn skb)" "ahead (win_start t) (frame_sn skb) \<le> 2048"
    and "reorder_frame k now skb (t, r, out) = (t', r', out')"
  shows "released out' = released out @ [skb] \<and> stored_num t' = 0 \<and>
    ahead (win_start t') (frame_sn skb) = unat (win_size t) - 1"
proof -
  note k = assms(1) and t = assms(2)
  let ?sn = "frame_sn skb" and ?w = "win_start t" and ?W = "unat (win_size t)" and ?to = "sn_sub k (frame_sn skb) (win_size t)"
  let ?a = "ahead ?w ?sn" and ?slot = "slot_of t ?sn"
  have W: "128 \<le> ?W" "?W \<le> 1024" using soundD [OF t] by simp_all
  have to: "moved ?to ?W ?sn" by (rule moved_sub [OF k])
  have "moved ?w (?a - ?W) ?to"
    using moved_ahead [of ?w ?sn] to assms(6) by (simp add: moved_def of_nat_diff algebra_simps)
  from moved_trans [OF this moved_inc [OF k]] have "ahead ?w (sn_inc k ?to) = ?a - ?W + 1"
    by (rule ahead_moved) (use assms(7) W in simp)
  then have less: "sn_less k ?w (sn_inc k ?to)" using assms(6,7) W by (simp add: sn_less_iff [OF k])
  have ahead_of: "\<not> sn_less k ?sn ?w"
  proof -
    have "ahead ?sn ?w = 4096 - ?a" using ahead_opposite [of ?w ?sn] assms(6) W by simp
    then show ?thesis using assms(7) by (simp add: sn_less_iff [OF k])
  qed
  have beyond: "\<not> sn_less k ?sn (?w + win_size t)" using window_test(1) [OF k t ahead_of] assms(6) by simp
  have force: "skw_reorder_force_release k ?to (t, r, out) = (t\<lparr>win_start := ?to\<rparr>, force_timer k ?to t r, out)"
    using less assms(3) by (simp add: skw_reorder_force_release_def force_fuel_def numeral_eq_Suc)
  let ?t = "t\<lparr>win_start := ?to, reorder_buf := (reorder_buf t)[?slot := [skb]], stored_num := 1\<rparr>"
  have empty: "reorder_buf t ! ?slot = []" using assms(3) sound_empty [OF t] nth_mem [OF sound_slot [OF t]] by blast
  have ne: "?sn \<noteq> ?to" using ahead_moved [OF to] W by auto
  have run: "(t', r', out') = skw_reorder_release k now (?t, force_timer k ?to t r, out)"
    using assms(3,5,8) ahead_of beyond force empty ne
    by (simp add: reorder_frame_def store_frame_def place_frame_def reorder_out_def Let_def set_slot_def)
  obtain n where n: "?W = Suc (Suc n)" using W by (cases ?W; cases "?W - 1") auto
  have list: "[0..<?W] = 0 # 1 # [Suc (Suc 0)..<?W]" by (simp add: n upt_conv_Cons del: upt_Suc)
  have slot: "unat ?to mod ?W = ?slot" using moved_mod [OF to soundD(1) [OF t]] by simp
  have "is_skw_release_ready [skb]" using assms(4) by (simp add: is_skw_release_ready_def fresh_def)
  moreover have "\<not> flag_taint skb" using assms(4) by (simp add: fresh_def)
  moreover have "((reorder_buf t)[?slot := [skb]]) ! ?slot = [skb]" using sound_slot [OF t] by simp
  ultimately have "released out' = released out @ [skb] \<and> stored_num t' = 0 \<and> win_start t' = sn_inc k ?to"
    using run unfolding skw_reorder_release_def by (simp add: list slot Let_def)
  moreover have "ahead (sn_inc k ?to) ?sn = ?W - 1"
    using ahead_back [OF moved_inc [OF k, of ?to], of ?sn] ahead_moved [OF to] W by simp
  ultimately show ?thesis by simp
qed

theorem overtaking_delivered_witness:
  "case reorder_frame documented_kernel 0 (plain_frame 200) (the (session sample_session), sample_session, no_frames) of
     (t', r', out') \<Rightarrow> released out' = [plain_frame 200] \<and> ahead (win_start t') 200 = 127"
proof -
  let ?t = "the (session sample_session)"
  obtain t' r' out' where run: "reorder_frame documented_kernel 0 (plain_frame 200) (?t, sample_session, no_frames) = (t', r', out')"
    by (rule prod_cases3)
  have t: "counted ?t" using kept_cases [OF sample_kept(1)] by (auto simp: upkept_def)
  have "stored_num ?t = 0 \<and> win_size ?t = 128 \<and> ahead (win_start ?t) 200 = 202" by code_simp
  moreover have "frame_sn (plain_frame 200) = 200" "fresh (plain_frame 200)" "\<not> d_amsdu (sk_desc (plain_frame 200))"
    by (simp_all add: plain_frame_def fresh_def)
  ultimately show ?thesis
    using overtaking_delivered [OF documented_sequence_numbers t, of "plain_frame 200" 0 sample_session no_frames t' r' out'] run
    by (simp only:) simp
qed

text \<open>A session with one frame that waits for the one before it.\<close>

definition waiting_tid :: tid_rx where
  "waiting_tid = the (session waiting_session)"

lemma waiting_kept: "kept waiting_session" "in_window waiting_session"
proof -
  let ?r = "session_step documented_kernel 0 (Frame (plain_frame 4095)) sample_session"
  have ev: "clean_event (Frame (plain_frame 4095))" "\<not> overtaking (Frame (plain_frame 4095)) sample_session" by code_simp+
  note step = step_kept [OF documented_sequence_numbers sample_kept(1) ev(1) prod.collapse [symmetric], of 0]
  have "kept (fst ?r)" by (rule step(1))
  moreover have "in_window (fst ?r)" using step(2) [OF sample_kept(2) ev(2)] by (simp add: event_delivers_def case_prod_beta)
  ultimately have "kept (fst ?r)" "in_window (fst ?r)" by blast+
  then show "kept waiting_session" "in_window waiting_session"
    by (simp_all add: waiting_session_def Let_def case_prod_beta)
qed

lemma waiting_tid:
  "session waiting_session = Some waiting_tid" "upkept waiting_tid waiting_session" "windowed waiting_tid"
  using waiting_kept by (auto simp: waiting_tid_def kept_def in_window_def split: option.splits)

text \<open>
  C40: The move of the window that a peer requests goes one number too far when frames behind
  that number are stored: the frame with the requested number, the first that the peer still
  means to send, is dropped when it arrives.
\<close>

theorem requested_frame_dropped:
  assumes "sequence_numbers k" "session r = Some t" "upkept t r" "windowed t" "todo_actived r"
    and "ahead (win_start t) (todo_seq r) < 2046" "f \<in> set (concat (reorder_buf t))"
    and "ahead (win_start t) (todo_seq r) < ahead (win_start t) (frame_sn f)"
    and "frame_sn skb = todo_seq r" "\<not> bit SKW_RX_FILTER_EXCL (filter_bit (d_filter (sk_desc skb)))"
    and "skw_rx_todo k now (r, no_frames) = (r', out')"
  shows "snd (on_session (reorder_frame k later skb) (r', no_frames)) = free_frames [skb] no_frames"
proof -
  note k = assms(1)
  let ?seq = "todo_seq r" and ?r = "r\<lparr>todo_links := todo_links r - 1\<rparr>" and ?w = "win_start t"
  let ?target = "sn_inc k (todo_seq r)"
  have t: "counted t" "timed t ?r" using assms(3) by (simp_all add: upkept_def timed_def)
  have target: "ahead ?w ?target = ahead ?w ?seq + 1"
    using ahead_moved [OF moved_trans [OF moved_ahead moved_inc [OF k]], of ?w ?seq] assms(6) by simp
  obtain n t1 out1 where f: "skw_reorder_force_release k ?seq (t, ?r, no_frames) = (t1, force_timer k ?seq t ?r, out1)"
    "drain k n (t, no_frames) (t1, out1)" "n \<le> 2047" "timed t1 (force_timer k ?seq t ?r)"
    "sn_less k ?w ?target \<Longrightarrow> n = ahead ?w ?target \<or> stored_num t1 = 0" "n \<le> ahead ?w ?target"
    by (rule force_release_drain [OF k t, of ?seq no_frames]) blast
  obtain fs where fs: "released out1 = fs" "ordered_upto ?w n fs"
    "mset (concat (reorder_buf t)) = mset (concat (reorder_buf t1)) + mset fs" "moved ?w n (win_start t1)"
    using drain_order [OF f(2) k] drain_frames [OF f(2)] t(1) assms(4) f(3) by auto
  have t1: "counted t1" "windowed t1" using drain_sound [OF f(2)] drain_windowed [OF f(2) k] t(1) assms(4) by simp_all
  have "f \<notin> set fs" using fs(2) f(6) target assms(8) by (auto simp: ordered_upto_def)
  then have "f \<in> set (concat (reorder_buf t1))" using arg_cong [OF fs(3), of set_mset] assms(7) by auto
  then have "stored_num t1 \<noteq> 0" using sound_empty [OF t1(1)] by auto
  then have n: "n = ahead ?w ?seq + 1" using f(5) target assms(6) by (simp add: sn_less_iff [OF k])
  let ?r1 = "(force_timer k ?seq t ?r)\<lparr>session := Some t1, todo_actived := False\<rparr>"
  have "timed t1 ?r1" using f(4) by (simp add: timed_def)
  moreover obtain t' r2 where g: "skw_reorder_release k now (t1, ?r1, out1) = (t', r2, out')" "r' = r2\<lparr>session := Some t'\<rparr>"
    using assms(2,11) f(1) by (auto simp: skw_rx_todo_def on_session_def Let_def split: prod.splits)
  ultimately obtain m where m: "m \<le> 1024" "moved (win_start t1) m (win_start t')"
    using leaves_order [OF _ k t1] skw_reorder_release_leaves [OF k t1(1), of ?r1 out1 now] by fastforce
  have "moved ?seq (1 + m) (win_start t')"
    using moved_trans [OF fs(4) m(2)] moved_ahead [of ?w ?seq] n by (simp add: moved_def algebra_simps)
  then have "ahead ?seq (win_start t') = 1 + m" by (rule ahead_moved) (use m(1) in simp)
  then have "sn_less k ?seq (win_start t')" using m(1) by (simp add: sn_less_iff [OF k])
  then show ?thesis
    using assms(9,10) g(2) by (simp add: on_session_def reorder_frame_def reorder_out_def split: prod.splits)
qed

theorem requested_frame_dropped_witness:
  "snd (on_session (reorder_frame documented_kernel 0 (plain_frame 4094))
     (fst (skw_rx_todo documented_kernel 0 (skw_update_tid_rx 4094 waiting_session, no_frames)), no_frames)) =
   free_frames [plain_frame 4094] no_frames"
proof -
  let ?r = "skw_update_tid_rx 4094 waiting_session"
  have s: "session ?r = Some waiting_tid" using waiting_tid(1) by (simp add: skw_update_tid_rx_def Let_def)
  have u: "upkept waiting_tid ?r"
    using waiting_tid(1,2) by (simp add: skw_update_tid_rx_def Let_def upkept_def timed_def looked_after_def linked_once_def)
  have a: "todo_actived ?r" "todo_seq ?r = 4094" using waiting_tid(1) by (simp_all add: skw_update_tid_rx_def Let_def)
  have start: "win_start waiting_tid = 4094" by code_simp
  have stored: "plain_frame 4095 \<in> set (concat (reorder_buf waiting_tid))" by code_simp
  have f: "frame_sn (plain_frame 4095) = 4095" "frame_sn (plain_frame 4094) = 4094" "ahead 4094 4095 = 1"
    "\<not> bit SKW_RX_FILTER_EXCL (filter_bit (d_filter (sk_desc (plain_frame 4094))))" by code_simp+
  show ?thesis
    by (rule requested_frame_dropped [OF documented_sequence_numbers s u waiting_tid(3) a(1) _ stored _ _ f(4) prod.collapse [symmetric]])
       (simp_all add: a(2) start f(1-3))
qed

text \<open>The place of a stored frame in the window.\<close>

lemma windowed_stored:
  "windowed t \<Longrightarrow> f \<in> set (concat (reorder_buf t)) \<Longrightarrow> ahead (win_start t) (frame_sn f) < unat (win_size t)"
  by (auto simp: in_set_conv_nth [of _ "reorder_buf t"] dest: windowedD(1))

text \<open>
  A session that is closed hands on everything it has stored, in order: nothing is lost with
  the memory of its slots.
\<close>

theorem closed_session_hands_on:
  assumes "sequence_numbers k" "counted t" "windowed t" "skw_free_tid_rx k t (r, no_frames) = (r', out')"
  shows "mset (released out') = mset (concat (reorder_buf t)) \<and>
    ordered_upto (win_start t) (unat (win_size t)) (released out') \<and> freed out' = []"
proof -
  note k = assms(1) and t = assms(2)
  let ?w = "win_start t" and ?W = "unat (win_size t)"
  let ?last = "sn_add k ?w (win_size t - 1)"
  have W: "128 \<le> ?W" "?W \<le> 1024" using soundD [OF t] by simp_all
  have "moved ?w ?W (sn_inc k ?last)"
    using k moved_size [of ?w "win_size t"] by (simp add: sequence_numbers_def moved_def)
  then have target: "ahead ?w (sn_inc k ?last) = ?W" by (rule ahead_moved) (use W in simp)
  then have fuel: "ahead ?w (sn_inc k ?last) \<le> force_fuel" using W by (simp add: force_fuel_def)
  obtain t' where l: "force_loop k ?last (sn_inc k ?last) force_fuel t no_frames = (t', out')"
    using assms(4) by (auto simp: skw_free_tid_rx_def skw_reorder_force_release_def Let_def split: prod.splits)
  obtain n where n: "drain k n (t, no_frames) (t', out')" "n \<le> ?W" "n = ?W \<or> stored_num t' = 0"
    using force_loop_drain [OF k moved_inc [OF k, of ?last] t, of no_frames force_fuel] fuel target W
    by (auto simp: l sn_less_iff [OF k] split: if_splits)
  have t': "counted t'" "windowed t'" using drain_sound [OF n(1)] drain_windowed [OF n(1) k] t assms(3) by simp_all
  have fs: "ordered_upto ?w n (released out')" "moved ?w n (win_start t')"
    "mset (concat (reorder_buf t)) = mset (concat (reorder_buf t')) + mset (released out')"
    using drain_order [OF n(1) k] drain_frames [OF n(1)] t assms(3) n(2) W by auto
  have "concat (reorder_buf t') = []"
  proof (cases "n = ?W")
    case True
    have "f \<notin> set (concat (reorder_buf t'))" for f
    proof
      assume f: "f \<in> set (concat (reorder_buf t'))"
      then have "f \<in> set (concat (reorder_buf t))" using arg_cong [OF fs(3), of set_mset] by auto
      then have "ahead ?w (frame_sn f) < ?W" by (rule windowed_stored [OF assms(3)])
      moreover have "ahead (win_start t') (frame_sn f) < ?W"
        using windowed_stored [OF t'(2) f] drain_size [OF n(1)] by simp
      then have "ahead ?w (frame_sn f) = ahead (win_start t') (frame_sn f) + ?W"
        using W True by (intro ahead_shift [OF fs(2) [unfolded True]]) simp
      ultimately show False by simp
    qed
    then show ?thesis by (metis last_in_set)
  next
    case False
    then show ?thesis using n(3) sound_empty [OF t'(1)] by auto
  qed
  then show ?thesis using fs(1,3) n(2) drain_freed [OF n(1)] by (auto simp: ordered_upto_def)
qed

theorem closed_session_hands_on_witness:
  "released (snd (skw_free_tid_rx documented_kernel waiting_tid (waiting_session, no_frames))) = [plain_frame 4095]"
proof -
  have "counted waiting_tid" using waiting_tid(2) by (simp add: upkept_def)
  from closed_session_hands_on [OF documented_sequence_numbers this waiting_tid(3) prod.collapse [symmetric]]
  have "mset (released (snd (skw_free_tid_rx documented_kernel waiting_tid (waiting_session, no_frames)))) =
      mset (concat (reorder_buf waiting_tid))" by blast
  moreover have "concat (reorder_buf waiting_tid) = [plain_frame 4095]" by code_simp
  ultimately show ?thesis by simp
qed

text \<open>
  A session that is taken down while it stands in the list of the receive thread, and set
  up again before the thread has run, is linked into the list a second time by the next request
  of its peer; as long as it is not taken down it is linked once at most.
\<close>

theorem reopened_session_linked_twice:
  assumes "kept r" "todo_links r = 1" "skw_del_tid_rx r = (r1, old)"
    and "skw_add_tid_rx True ssn buf_size r1 = (True, r2)"
  shows "todo_links (skw_update_tid_rx ssn' r) = 1 \<and> todo_links (skw_update_tid_rx ssn' r2) = 2"
proof -
  obtain t where t: "session r = Some t" "todo_actived r"
    using kept_cases [OF assms(1)] assms(2) by (auto simp: upkept_def linked_once_def split: if_splits)
  have "r1 = r\<lparr>session := None, ref_cnt := ref_cnt r + 1, timer := None\<rparr>"
    using assms(3) by (simp add: skw_del_tid_rx_def)
  then have "todo_links r2 = 1" "\<not> todo_actived r2" "session r2 \<noteq> None"
    using assms(2,4) by (auto simp: skw_add_tid_rx_def Let_def)
  then show ?thesis using t assms(2) by (auto simp: skw_update_tid_rx_def Let_def)
qed

theorem reopened_session_linked_twice_witness:
  "let r = skw_update_tid_rx 4094 waiting_session;
       r1 = fst (skw_del_tid_rx r); r2 = snd (skw_add_tid_rx True 0 64 r1)
   in todo_links r = 1 \<and> todo_links (skw_update_tid_rx 0 r2) = 2"
proof -
  let ?r = "skw_update_tid_rx 4094 waiting_session"
  have t: "session ?r = Some waiting_tid" using waiting_tid(1) by (simp add: skw_update_tid_rx_def Let_def)
  have "upkept waiting_tid ?r"
    using waiting_tid(1,2) by (simp add: skw_update_tid_rx_def Let_def upkept_def timed_def looked_after_def linked_once_def)
  then have kept: "kept ?r" using t by (simp add: kept_def)
  have links: "todo_links ?r = 1" by code_simp
  have add: "skw_add_tid_rx True 0 64 (fst (skw_del_tid_rx ?r)) =
      (True, snd (skw_add_tid_rx True 0 64 (fst (skw_del_tid_rx ?r))))"
    by (simp add: skw_add_tid_rx_def skw_del_tid_rx_def Let_def)
  from reopened_session_linked_twice [OF kept links prod.collapse [symmetric] add, of 0] show ?thesis
    using links by (simp add: Let_def)
qed

end
