(* ===== verification/Wifi_Receive.thy ===== *)
theory Wifi_Receive
  imports Wifi_Session "HOL-Library.Sublist"
begin

text \<open>
  What the Wi-Fi driver does with the frames that the reorder buffers hand on
  (\<open>skw_rx_handler\<close>): the packet number of a frame is checked against replay, fragments are put
  together, and the rest is delivered to the network stack.

  The keys and the fragments of an interface are records; memory of the kernel that may run
  short is the parameter \<open>room\<close>, which says whether a buffer holds, or can be extended by, so
  many bytes. Delivery itself is the kernel's.
\<close>

unbundle bit_operations_syntax

section \<open>Keys\<close>

datatype cipher =
  CIPHER_INVALID | WEP40 | WEP104 | TKIP | SMS4 | CCMP | CCMP_256 | GCMP | GCMP_256
  | AES_CMAC | BIP_CMAC_256 | BIP_GMAC_128 | BIP_GMAC_256

text \<open>A key holds the last packet number of each traffic identifier.\<close>

record key_conf =
  skw_cipher :: cipher
  installed_bitmap :: u8
  rx_pn :: "(48 word list) option list"

definition SKW_INVALID_ID :: nat where
  "SKW_INVALID_ID = 0xFF"

definition skw_key_idx :: "u16 \<Rightarrow> nat" where
  "skw_key_idx bitmap =
     [0xFF, 0, 1, 0xFF, 2, 0xFF, 0xFF, 0xFF, 3, 0xFF, 0xFF, 0xFF, 0xFF, 0xFF, 0xFF, 0xFF] ! unat (bitmap AND 0xF)"

definition skw_pn_allowed :: "48 word \<Rightarrow> 48 word \<Rightarrow> bool" where
  "skw_pn_allowed prev pn \<longleftrightarrow> \<not> (int (unat pn) - int (unat prev) < 0 \<and> pn \<noteq> 0)"

definition per_tid_cipher :: "cipher \<Rightarrow> bool" where
  "per_tid_cipher c \<longleftrightarrow> c \<in> {CCMP, CCMP_256, GCMP, GCMP_256, TKIP}"

text \<open>\<open>ptk\<close> is the configuration of the peer's pairwise keys, \<open>None\<close> when there is no peer; the
  result says whether the frame may pass.\<close>

definition skw_replay_detect :: "sk_buff \<Rightarrow> key_conf option \<Rightarrow> bool \<times> key_conf option" where
  "skw_replay_detect skb ptk =
     (let d = sk_desc skb; tid = unat (d_tid d) in
      if skip_replay_detect skb then (True, ptk)
      else case ptk of
        None \<Rightarrow> (False, None)
      | Some conf \<Rightarrow>
          if d_mcast d then (True, ptk)
          else
            let key_idx = skw_key_idx (ucast (installed_bitmap conf)) in
            if key_idx = SKW_INVALID_ID \<or> \<not> per_tid_cipher (skw_cipher conf) then (True, ptk)
            else case rx_pn conf ! key_idx of
              None \<Rightarrow> (True, ptk)
            | Some pns \<Rightarrow>
                if skw_pn_allowed (pns ! tid) (d_pn d) then
                  (True, Some (conf\<lparr>rx_pn := (rx_pn conf)[key_idx := Some (pns[tid := d_pn d])]\<rparr>))
                else (False, ptk))"

section \<open>Fragments\<close>

text \<open>An entry of the fragment cache; \<open>frag_active\<close> and \<open>frag_chk_pn\<close> are the bits of its status.\<close>

record frag_entry =
  frag_active :: bool
  frag_chk_pn :: bool
  pending_len :: u16
  frag_tid :: u8
  frag_num :: u8
  frag_sn :: u16
  frag_start :: u64
  frag_list :: "sk_buff list"
  last_pn :: "48 word"

record iface =
  iface_cipher :: cipher
  frag :: "frag_entry list"

text \<open>
  The loop of \<open>skw_frag_get_entry\<close> over the entries from the number \<open>i\<close> on, with the last free
  entry and the oldest entry in use that it has seen.
\<close>

fun frag_search ::
  "kernel \<Rightarrow> u8 \<Rightarrow> u16 \<Rightarrow> bool \<Rightarrow> frag_entry list \<Rightarrow> nat \<Rightarrow> nat option \<Rightarrow> (nat \<times> u64) option \<Rightarrow> nat option" where
  "frag_search k tid sn active [] i inactive oldest =
     (if active then None
      else case inactive of Some j \<Rightarrow> Some j | None \<Rightarrow> map_option fst oldest)"
| "frag_search k tid sn active (e # es) i inactive oldest =
     (if frag_sn e = sn \<and> frag_tid e = tid then Some i
      else if active then frag_search k tid sn active es (i + 1) inactive oldest
      else if \<not> frag_active e then frag_search k tid sn active es (i + 1) (Some i) oldest
      else case oldest of
        None \<Rightarrow> frag_search k tid sn active es (i + 1) inactive (Some (i, frag_start e))
      | Some (j, since) \<Rightarrow>
          frag_search k tid sn active es (i + 1) inactive
            (if time_after k since (frag_start e) then Some (i, frag_start e) else oldest))"

definition skw_frag_get_entry :: "kernel \<Rightarrow> u8 \<Rightarrow> u16 \<Rightarrow> bool \<Rightarrow> iface \<Rightarrow> nat option" where
  "skw_frag_get_entry k tid sn active iface = frag_search k tid sn active (frag iface) 0 None None"

abbreviation desc_tid :: "sk_buff \<Rightarrow> u8" where
  "desc_tid skb \<equiv> ucast (d_tid (sk_desc skb))"

definition checks_pn :: "cipher \<Rightarrow> bool" where
  "checks_pn c \<longleftrightarrow> c \<in> {CCMP, CCMP_256, GCMP, GCMP_256}"

text \<open>The first fragment: the result is the interface and the frames that are freed.\<close>

definition skw_frag_init_entry :: "kernel \<Rightarrow> u64 \<Rightarrow> sk_buff \<Rightarrow> iface \<Rightarrow> iface \<times> sk_buff list" where
  "skw_frag_init_entry k now skb iface =
     (case skw_frag_get_entry k (desc_tid skb) (frame_sn skb) False iface of
        None \<Rightarrow> (iface, [])
      | Some i \<Rightarrow>
          let e = frag iface ! i;
              chk = checks_pn (iface_cipher iface);
              e' = \<lparr>frag_active = True, frag_chk_pn = chk, pending_len = 0, frag_tid = desc_tid skb, frag_num = 0,
                    frag_sn = frame_sn skb, frag_start = now, frag_list = [skb],
                    last_pn = (if chk then d_pn (sk_desc skb) else last_pn e)\<rparr>
          in (iface\<lparr>frag := (frag iface)[i := e']\<rparr>, frag_list e))"

text \<open>\<open>skb_pull\<close> takes the bytes of the header off, if there are so many.\<close>

definition skb_pull :: "nat \<Rightarrow> sk_buff \<Rightarrow> sk_buff" where
  "skb_pull n skb = (if n \<le> length (sk_data skb) then skb\<lparr>sk_data := drop n (sk_data skb)\<rparr> else skb)"

definition release_entry :: "frag_entry \<Rightarrow> frag_entry" where
  "release_entry e = e\<lparr>frag_active := False, frag_chk_pn := False, frag_tid := 0xFF, frag_list := []\<rparr>"

text \<open>The last fragment has come: the first one takes up the bytes of the others.\<close>

definition frag_assemble ::
  "(sk_buff \<Rightarrow> u16 \<Rightarrow> bool) \<Rightarrow> cipher \<Rightarrow> frag_entry \<Rightarrow> sk_buff option \<times> sk_buff list" where
  "frag_assemble room cipher e =
     (let first = hd (frag_list e); others = tl (frag_list e) in
      if \<not> room first (pending_len e) then (None, others @ [first])
      else
        let data = sk_data first @ concat (map sk_data others);
            data = (if cipher = TKIP \<and> 8 \<le> length data then take (length data - 8) data else data)
        in (Some (first\<lparr>sk_data := data\<rparr>), others))"

definition skw_rx_defragment ::
  "kernel \<Rightarrow> u64 \<Rightarrow> (sk_buff \<Rightarrow> u16 \<Rightarrow> bool) \<Rightarrow> sk_buff \<Rightarrow> iface \<Rightarrow> sk_buff option \<times> iface \<times> sk_buff list" where
  "skw_rx_defragment k now room skb iface =
     (let d = sk_desc skb in
      if \<not> d_more_frag d \<and> d_frag_num d = 0 then (Some skb, iface, [])
      else if d_frag_num d = 0 then
        (case skw_frag_init_entry k now skb iface of (iface, purged) \<Rightarrow> (None, iface, purged))
      else case skw_frag_get_entry k (desc_tid skb) (frame_sn skb) True iface of
        None \<Rightarrow> (None, iface, [skb])
      | Some i \<Rightarrow>
          let e = frag iface ! i in
          if unat (frag_num e) + 1 \<noteq> unat (d_frag_num d) then (None, iface, [skb])
          else if frag_chk_pn e \<and> unat (last_pn e) + 1 \<noteq> unat (d_pn d) then (None, iface, [skb])
          else
            let skb = skb_pull 12 skb;
                e = e\<lparr>last_pn := (if frag_chk_pn e then d_pn d else last_pn e), frag_num := frag_num e + 1,
                      pending_len := pending_len e + of_nat (length (sk_data skb)),
                      frag_list := frag_list e @ [skb]\<rparr>
            in if d_more_frag d then (None, iface\<lparr>frag := (frag iface)[i := e]\<rparr>, [])
               else case frag_assemble room (iface_cipher iface) e of
                 (whole, gone) \<Rightarrow> (whole, iface\<lparr>frag := (frag iface)[i := release_entry e]\<rparr>, gone))"

section \<open>The frames that are handed on\<close>

text \<open>The interfaces by their numbers, and the pairwise keys of the peers by theirs.\<close>

record rx_core =
  ifaces :: "iface option list"
  ptks :: "key_conf option list"

text \<open>One frame of the list: the frames that are delivered and freed for it.\<close>

definition rx_handle_frame ::
  "kernel \<Rightarrow> u64 \<Rightarrow> (sk_buff \<Rightarrow> u16 \<Rightarrow> bool) \<Rightarrow> sk_buff \<Rightarrow> rx_core \<Rightarrow> rx_core \<times> sk_buff list \<times> sk_buff list" where
  "rx_handle_frame k now room skb core =
     (let inst = unat (d_inst (sk_desc skb)); p = unat (d_peer (sk_desc skb)) in
      if skw_created skb then (core, [], [skb])
      else case ifaces core ! inst of
        None \<Rightarrow> (core, [], [skb])
      | Some iface \<Rightarrow>
          let (pass, ptk) = skw_replay_detect skb (ptks core ! p);
              core = core\<lparr>ptks := (ptks core)[p := ptk]\<rparr>
          in if \<not> pass then (core, [], [skb])
             else
               let (whole, iface, gone) = skw_rx_defragment k now room skb iface
               in (core\<lparr>ifaces := (ifaces core)[inst := Some iface]\<rparr>,
                   case whole of None \<Rightarrow> [] | Some skb \<Rightarrow> [skb], gone))"

fun skw_rx_handler ::
  "kernel \<Rightarrow> u64 \<Rightarrow> (sk_buff \<Rightarrow> u16 \<Rightarrow> bool) \<Rightarrow> sk_buff list \<Rightarrow> rx_core \<Rightarrow> rx_core \<times> sk_buff list \<times> sk_buff list" where
  "skw_rx_handler k now room [] core = (core, [], [])"
| "skw_rx_handler k now room (skb # list) core =
     (let (core, delivered, gone) = rx_handle_frame k now room skb core;
          (core, delivered', gone') = skw_rx_handler k now room list core
      in (core, delivered @ delivered', gone @ gone'))"

section \<open>Replay\<close>

text \<open>The packet numbers that stand for a peer, when its key is checked.\<close>

definition checked_pns :: "key_conf \<Rightarrow> 48 word list option" where
  "checked_pns conf =
     (let key_idx = skw_key_idx (ucast (installed_bitmap conf)) in
      if key_idx = SKW_INVALID_ID \<or> \<not> per_tid_cipher (skw_cipher conf) then None else rx_pn conf ! key_idx)"

lemma skw_key_idx_range: "skw_key_idx b \<noteq> SKW_INVALID_ID \<Longrightarrow> skw_key_idx b < 4"
proof -
  have "b AND 0xF \<le> 0xF" by (rule word_and_le1)
  then have "unat (b AND 0xF) < 16" by (simp add: word_le_nat_alt)
  then show "skw_key_idx b \<noteq> SKW_INVALID_ID \<Longrightarrow> ?thesis"
    by (auto simp: skw_key_idx_def SKW_INVALID_ID_def less_Suc_eq numeral_eq_Suc)
qed

definition key_conf_ok :: "key_conf \<Rightarrow> bool" where
  "key_conf_ok conf \<longleftrightarrow> length (rx_pn conf) = 6 \<and> (\<forall>pns. Some pns \<in> set (rx_pn conf) \<longrightarrow> length pns = 16)"

lemma replay_checked:
  assumes "key_conf_ok conf" "checked_pns conf = Some pns" "\<not> skip_replay_detect skb" "\<not> d_mcast (sk_desc skb)"
    and "skw_replay_detect skb (Some conf) = (pass, ptk)"
  defines "tid \<equiv> unat (d_tid (sk_desc skb))"
  shows "pass \<longleftrightarrow> d_pn (sk_desc skb) = 0 \<or> pns ! tid \<le> d_pn (sk_desc skb)"
    and "\<exists>conf'. ptk = Some conf' \<and> key_conf_ok conf' \<and>
      checked_pns conf' = Some (if pass then pns[tid := d_pn (sk_desc skb)] else pns)"
    and "tid < length pns"
proof -
  let ?i = "skw_key_idx (ucast (installed_bitmap conf))"
  have i: "?i \<noteq> SKW_INVALID_ID" "per_tid_cipher (skw_cipher conf)" "rx_pn conf ! ?i = Some pns"
    using assms(2) by (auto simp: checked_pns_def Let_def split: if_splits)
  have j: "?i < length (rx_pn conf)" using skw_key_idx_range [OF i(1)] assms(1) by (simp add: key_conf_ok_def)
  then have len: "length pns = 16" using assms(1) i(3) nth_mem [OF j] by (simp add: key_conf_ok_def)
  have "tid < 16" unfolding tid_def using unsigned_less [of "d_tid (sk_desc skb)"] by simp
  then show "tid < length pns" using len by simp
  show "pass \<longleftrightarrow> d_pn (sk_desc skb) = 0 \<or> pns ! tid \<le> d_pn (sk_desc skb)"
    using assms(3-5) i by (auto simp: skw_replay_detect_def Let_def skw_pn_allowed_def word_le_def tid_def split: if_splits)
  have ok: "key_conf_ok (conf\<lparr>rx_pn := (rx_pn conf)[?i := Some (pns[tid := x])]\<rparr>)" for x
    using assms(1) len set_update_subset_insert [of "rx_pn conf" ?i "Some (pns[tid := x])"] by (auto simp: key_conf_ok_def)
  let ?conf = "conf\<lparr>rx_pn := (rx_pn conf)[?i := Some (pns[tid := d_pn (sk_desc skb)])]\<rparr>"
  have "ptk = Some (if pass then ?conf else conf)"
    using assms(3-5) i by (auto simp: skw_replay_detect_def Let_def tid_def split: if_splits)
  moreover have "checked_pns ?conf = Some (pns[tid := d_pn (sk_desc skb)])"
    using i j by (simp add: checked_pns_def Let_def)
  ultimately show "\<exists>conf'. ptk = Some conf' \<and> key_conf_ok conf' \<and>
      checked_pns conf' = Some (if pass then pns[tid := d_pn (sk_desc skb)] else pns)"
    using assms(1,2) ok by (cases pass) auto
qed

text \<open>The frames of one peer one after the other, and those that pass.\<close>

fun replay_run :: "sk_buff list \<Rightarrow> key_conf option \<Rightarrow> sk_buff list" where
  "replay_run [] ptk = []"
| "replay_run (skb # list) ptk =
     (let (pass, ptk) = skw_replay_detect skb ptk in (if pass then [skb] else []) @ replay_run list ptk)"


definition sample_conf :: key_conf where
  "sample_conf = \<lparr>skw_cipher = CCMP, installed_bitmap = 1, rx_pn = Some (replicate 16 5) # replicate 5 None\<rparr>"

definition numbered_frame :: "48 word \<Rightarrow> sk_buff" where
  "numbered_frame pn = (plain_frame 0)\<lparr>sk_desc := (sk_desc (plain_frame 0))\<lparr>d_pn := pn\<rparr>\<rparr>"

lemma sample_conf: "key_conf_ok sample_conf" "checked_pns sample_conf = Some (replicate 16 5)"
  by (auto simp: sample_conf_def key_conf_ok_def checked_pns_def skw_key_idx_def SKW_INVALID_ID_def
      per_tid_cipher_def Let_def)


text \<open>A frame with the packet number 0 passes, and after it every frame of its traffic identifier.\<close>

theorem zero_pn_admits_replay:
  assumes "key_conf_ok conf" "checked_pns conf = Some pns"
    and "\<forall>f \<in> {skb, old}. \<not> skip_replay_detect f \<and> \<not> d_mcast (sk_desc f) \<and> d_tid (sk_desc f) = tid"
    and "d_pn (sk_desc skb) = 0"
  shows "replay_run [skb, old] (Some conf) = [skb, old]"
proof -
  obtain pass ptk where run: "skw_replay_detect skb (Some conf) = (pass, ptk)" by fastforce
  have pass: "pass" using replay_checked(1) [OF assms(1,2) _ _ run] assms(3,4) by simp
  obtain conf' where c: "ptk = Some conf'" "key_conf_ok conf'" "checked_pns conf' = Some (pns[unat tid := 0])"
    using replay_checked(2) [OF assms(1,2) _ _ run] assms(3,4) pass by auto
  obtain pass' ptk' where run': "skw_replay_detect old (Some conf') = (pass', ptk')" by fastforce
  have "unat tid < length pns" using replay_checked(3) [OF assms(1,2) _ _ run] assms(3) by simp
  then have "pass'" using replay_checked(1) [OF c(2,3) _ _ run'] assms(3) by simp
  then show ?thesis using run run' c(1) pass by simp
qed

theorem zero_pn_admits_replay_witness:
  "replay_run [numbered_frame 0, numbered_frame 2] (Some sample_conf) = [numbered_frame 0, numbered_frame 2]"
  by (rule zero_pn_admits_replay [OF sample_conf, of _ _ 0]) (simp_all add: numbered_frame_def plain_frame_def)

section \<open>Fragments are put together in order\<close>

definition is_fragment :: "sk_buff \<Rightarrow> bool" where
  "is_fragment skb \<longleftrightarrow> d_more_frag (sk_desc skb) \<or> d_frag_num (sk_desc skb) \<noteq> 0"

text \<open>
  \<open>consecutive\<close>: the fragments of one frame from the first on, with the packet numbers one
  after the other where they are checked.
\<close>

definition consecutive :: "bool \<Rightarrow> u8 \<Rightarrow> u16 \<Rightarrow> sk_buff list \<Rightarrow> bool" where
  "consecutive chk tid sn fs \<longleftrightarrow>
     (\<forall>i < length fs. let d = sk_desc (fs ! i) in
        is_fragment (fs ! i) \<and> unat (d_frag_num d) = i \<and> desc_tid (fs ! i) = tid \<and> frame_sn (fs ! i) = sn \<and>
        (chk \<longrightarrow> unat (d_pn d) = unat (d_pn (sk_desc (fs ! 0))) + i))"

definition frag_ok :: "cipher \<Rightarrow> frag_entry \<Rightarrow> bool" where
  "frag_ok c e \<longleftrightarrow> (frag_tid e \<noteq> 0xFF \<longrightarrow>
     frag_list e \<noteq> [] \<and> length (frag_list e) = unat (frag_num e) + 1 \<and> frag_chk_pn e = checks_pn c \<and>
     consecutive (frag_chk_pn e) (frag_tid e) (frag_sn e) (frag_list e) \<and>
     (frag_chk_pn e \<longrightarrow> last_pn e = d_pn (sk_desc (last (frag_list e)))))"

definition frags_ok :: "iface \<Rightarrow> bool" where
  "frags_ok iface \<longleftrightarrow> (\<forall>e \<in> set (frag iface). frag_ok (iface_cipher iface) e)"

lemma consecutive_single:
  "is_fragment skb \<Longrightarrow> d_frag_num (sk_desc skb) = 0 \<Longrightarrow> consecutive chk (desc_tid skb) (frame_sn skb) [skb]"
  by (simp add: consecutive_def Let_def)

lemma consecutive_snoc:
  assumes "consecutive chk tid sn fs" "fs \<noteq> []" "is_fragment skb" "desc_tid skb = tid" "frame_sn skb = sn"
    and "unat (d_frag_num (sk_desc skb)) = length fs"
    and "chk \<longrightarrow> unat (d_pn (sk_desc (last fs))) + 1 = unat (d_pn (sk_desc skb))"
  shows "consecutive chk tid sn (fs @ [skb])"
proof -
  have fs: "0 < length fs" using assms(2) by simp
  have old: "is_fragment (fs ! i) \<and> unat (d_frag_num (sk_desc (fs ! i))) = i \<and> desc_tid (fs ! i) = tid \<and>
      frame_sn (fs ! i) = sn \<and> (chk \<longrightarrow> unat (d_pn (sk_desc (fs ! i))) = unat (d_pn (sk_desc (fs ! 0))) + i)"
    if "i < length fs" for i
    using assms(1) that unfolding consecutive_def Let_def by blast
  have "chk \<longrightarrow> unat (d_pn (sk_desc skb)) = unat (d_pn (sk_desc (fs ! 0))) + length fs"
    using old [of "length fs - 1"] fs assms(7) last_conv_nth [OF assms(2)] by auto
  then have new: "is_fragment skb \<and> unat (d_frag_num (sk_desc skb)) = length fs \<and> desc_tid skb = tid \<and>
      frame_sn skb = sn \<and> (chk \<longrightarrow> unat (d_pn (sk_desc skb)) = unat (d_pn (sk_desc (fs ! 0))) + length fs)"
    using assms(3-6) by blast
  show ?thesis
    unfolding consecutive_def Let_def
  proof (intro allI impI)
    fix i assume i: "i < length (fs @ [skb])"
    have z: "(fs @ [skb]) ! 0 = fs ! 0" using fs by (simp add: nth_append)
    show "is_fragment ((fs @ [skb]) ! i) \<and> unat (d_frag_num (sk_desc ((fs @ [skb]) ! i))) = i \<and>
        desc_tid ((fs @ [skb]) ! i) = tid \<and> frame_sn ((fs @ [skb]) ! i) = sn \<and>
        (chk \<longrightarrow> unat (d_pn (sk_desc ((fs @ [skb]) ! i))) = unat (d_pn (sk_desc ((fs @ [skb]) ! 0))) + i)"
    proof (cases "i < length fs")
      case True
      then have eq: "(fs @ [skb]) ! i = fs ! i" by (simp add: nth_append)
      show ?thesis unfolding z eq by (rule old [OF True])
    next
      case False
      then have eq: "i = length fs" using i by simp
      have eq': "(fs @ [skb]) ! length fs = skb" by simp
      show ?thesis unfolding z eq eq' by (rule new)
    qed
  qed
qed

lemma search_matches:
  "frag_search k tid sn True es i inactive oldest = Some j \<Longrightarrow>
   i \<le> j \<and> j - i < length es \<and> frag_tid (es ! (j - i)) = tid \<and> frag_sn (es ! (j - i)) = sn"
proof (induction es arbitrary: i)
  case (Cons e es)
  show ?case
  proof (cases "frag_sn e = sn \<and> frag_tid e = tid")
    case False
    then have "frag_search k tid sn True es (i + 1) inactive oldest = Some j" using Cons.prems by auto
    from Cons.IH [OF this] show ?thesis by (auto simp: nth_Cons' Suc_le_eq)
  qed (use Cons.prems in auto)
qed simp

lemma get_entry_matches:
  assumes "skw_frag_get_entry k tid sn True iface = Some i"
  shows "i < length (frag iface)" "frag_tid (frag iface ! i) = tid" "frag_sn (frag iface ! i) = sn"
  using search_matches [of k tid sn "frag iface" 0 None None i] assms by (simp_all add: skw_frag_get_entry_def)

lemma frags_update:
  "frags_ok iface \<Longrightarrow> frag_ok (iface_cipher iface) e \<Longrightarrow> frags_ok (iface\<lparr>frag := (frag iface)[i := e]\<rparr>)"
  using set_update_subset_insert [of "frag iface" i e] by (auto simp: frags_ok_def)

lemma pull_simps [simp]: "sk_desc (skb_pull n skb) = sk_desc skb" "is_fragment (skb_pull n skb) = is_fragment skb"
  by (simp_all add: skb_pull_def is_fragment_def)

lemma desc_tid_valid: "desc_tid skb \<noteq> (0xFF :: u8)"
proof
  assume "desc_tid skb = (0xFF :: u8)"
  then have "unat (desc_tid skb :: u8) = 255" by simp
  moreover have "unat (desc_tid skb :: u8) = unat (d_tid (sk_desc skb))"
    by (simp add: unsigned_ucast_eq take_bit_nat_eq_self_iff less_trans [OF unsigned_less])
  moreover have "unat (d_tid (sk_desc skb)) < 16" using unsigned_less [of "d_tid (sk_desc skb)"] by simp
  ultimately show False by simp
qed

text \<open>A further fragment that fits its entry.\<close>

lemma frag_extended:
  assumes "frags_ok iface" "skw_frag_get_entry k (desc_tid skb) (frame_sn skb) True iface = Some i"
    and "is_fragment skb" "unat (frag_num (frag iface ! i)) + 1 = unat (d_frag_num (sk_desc skb))"
    and "frag_chk_pn (frag iface ! i) \<longrightarrow> unat (last_pn (frag iface ! i)) + 1 = unat (d_pn (sk_desc skb))"
  defines "e \<equiv> frag iface ! i" and "fs \<equiv> frag_list (frag iface ! i) @ [skb_pull 12 skb]"
  shows "consecutive (checks_pn (iface_cipher iface)) (desc_tid skb) (frame_sn skb) fs"
    "length fs = unat (d_frag_num (sk_desc skb)) + 1"
    "frag_ok (iface_cipher iface) (e\<lparr>last_pn := (if frag_chk_pn e then d_pn (sk_desc skb) else last_pn e),
       frag_num := frag_num e + 1, pending_len := n, frag_list := fs\<rparr>)"
    "frag_list e \<noteq> []"
proof -
  note i = get_entry_matches [OF assms(2), folded e_def]
  have ok: "frag_ok (iface_cipher iface) e" using assms(1) i(1) by (simp add: frags_ok_def e_def)
  have e: "frag_list e \<noteq> []" "length (frag_list e) = unat (frag_num e) + 1" "frag_chk_pn e = checks_pn (iface_cipher iface)"
    "consecutive (frag_chk_pn e) (desc_tid skb) (frame_sn skb) (frag_list e)"
    "frag_chk_pn e \<longrightarrow> last_pn e = d_pn (sk_desc (last (frag_list e)))"
    using ok i(2,3) desc_tid_valid [of skb] by (auto simp: frag_ok_def)
  show c: "consecutive (checks_pn (iface_cipher iface)) (desc_tid skb) (frame_sn skb) fs"
    unfolding fs_def e_def [symmetric] e(3) [symmetric]
    by (rule consecutive_snoc [OF e(4,1)]) (use assms(3-5) e in \<open>auto simp: e_def\<close>)
  show l: "length fs = unat (d_frag_num (sk_desc skb)) + 1" using e(2) assms(4) by (simp add: fs_def e_def)
  have "unat (frag_num e) + 1 < 16"
    using assms(4) unsigned_less [of "d_frag_num (sk_desc skb)"] by (simp add: e_def)
  then have "unat (frag_num e + 1) = unat (frag_num e) + 1" by (simp add: unat_word_ariths)
  then show "frag_ok (iface_cipher iface) (e\<lparr>last_pn := (if frag_chk_pn e then d_pn (sk_desc skb) else last_pn e),
       frag_num := frag_num e + 1, pending_len := n, frag_list := fs\<rparr>)"
    using c l e(3) i(2,3) assms(4) by (simp add: frag_ok_def fs_def e_def)
  show "frag_list e \<noteq> []" by (rule e(1))
qed

text \<open>The bytes of the whole frame: those of the first fragment, and of the others behind their addresses.\<close>

definition whole_data :: "cipher \<Rightarrow> sk_buff list \<Rightarrow> bytes" where
  "whole_data c fs =
     (let data = concat (map sk_data fs)
      in if c = TKIP \<and> 8 \<le> length data then take (length data - 8) data else data)"

lemma assemble_whole:
  assumes "frag_list e \<noteq> []" "frag_assemble room c e = (Some skb, gone)"
  shows "skb = (hd (frag_list e))\<lparr>sk_data := whole_data c (frag_list e)\<rparr>"
  using assms by (cases "frag_list e") (auto simp: frag_assemble_def whole_data_def Let_def split: if_splits)

lemma defragmentation_steps:
  assumes "frags_ok iface" "skw_rx_defragment k now room skb iface = (whole, iface', gone)" "is_fragment skb"
  shows "frags_ok iface' \<and> iface_cipher iface' = iface_cipher iface \<and>
    (\<forall>frame. whole = Some frame \<longrightarrow>
       (\<exists>fs. consecutive (checks_pn (iface_cipher iface)) (desc_tid skb) (frame_sn skb) (fs @ [skb_pull 12 skb]) \<and>
          fs \<noteq> [] \<and> \<not> d_more_frag (sk_desc skb) \<and>
          frame = (hd fs)\<lparr>sk_data := whole_data (iface_cipher iface) (fs @ [skb_pull 12 skb])\<rparr>))"
proof -
  let ?d = "sk_desc skb" and ?c = "iface_cipher iface"
  have frag: "d_more_frag ?d \<or> d_frag_num ?d \<noteq> 0" using assms(3) by (simp add: is_fragment_def)
  show ?thesis
  proof (cases "d_frag_num ?d = 0")
    case True
    then have "frag_ok ?c \<lparr>frag_active = True, frag_chk_pn = checks_pn ?c, pending_len = 0, frag_tid = desc_tid skb,
        frag_num = 0, frag_sn = frame_sn skb, frag_start = now, frag_list = [skb], last_pn = p\<rparr>"
      if "checks_pn ?c \<Longrightarrow> p = d_pn ?d" for p
      using consecutive_single [OF assms(3)] that by (simp add: frag_ok_def)
    then have "frags_ok iface' \<and> iface_cipher iface' = ?c \<and> whole = None"
      using assms(1,2) True frag
      by (auto simp: skw_rx_defragment_def skw_frag_init_entry_def Let_def intro!: frags_update split: option.splits if_splits)
    then show ?thesis by simp
  next
    case later: False
    show ?thesis
    proof (cases "skw_frag_get_entry k (desc_tid skb) (frame_sn skb) True iface")
      case None
      then show ?thesis using assms(1,2) later frag by (simp add: skw_rx_defragment_def Let_def)
    next
      case (Some i)
      let ?e = "frag iface ! i"
      show ?thesis
      proof (cases "unat (frag_num ?e) + 1 = unat (d_frag_num ?d) \<and> (frag_chk_pn ?e \<longrightarrow> unat (last_pn ?e) + 1 = unat (d_pn ?d))")
        case False
        then have "whole = None \<and> iface' = iface"
          using assms(2) later Some by (auto simp: skw_rx_defragment_def Let_def split: if_splits)
        then show ?thesis using assms(1) by simp
      next
        case True
        note ext = frag_extended [OF assms(1) Some assms(3)]
        let ?e' = "?e\<lparr>last_pn := (if frag_chk_pn ?e then d_pn ?d else last_pn ?e), frag_num := frag_num ?e + 1,
          pending_len := pending_len ?e + of_nat (length (sk_data (skb_pull 12 skb))),
          frag_list := frag_list ?e @ [skb_pull 12 skb]\<rparr>"
        show ?thesis
        proof (cases "d_more_frag ?d")
          case more: True
          then have "whole = None" "iface' = iface\<lparr>frag := (frag iface)[i := ?e']\<rparr>"
            using assms(2) later Some True by (auto simp: skw_rx_defragment_def Let_def)
          then show ?thesis using frags_update [OF assms(1) ext(3)] True by simp
        next
          case last: False
          obtain gone' where a: "frag_assemble room ?c ?e' = (whole, gone')" "iface' = iface\<lparr>frag := (frag iface)[i := release_entry ?e']\<rparr>"
            using assms(2) later Some True last by (auto simp: skw_rx_defragment_def Let_def split: prod.splits)
          have "frags_ok iface'" unfolding a(2) by (rule frags_update [OF assms(1)]) (simp add: frag_ok_def release_entry_def)
          moreover have "frame = (hd (frag_list ?e))\<lparr>sk_data := whole_data ?c (frag_list ?e @ [skb_pull 12 skb])\<rparr>"
            if "whole = Some frame" for frame
            using assemble_whole [OF _ a(1) [unfolded that]] ext(4) True by simp
          ultimately show ?thesis using a(2) ext(1,4) True last by auto
        qed
      qed
    qed
  qed
qed


text \<open>A frame of two fragments, whose first one stands in the cache.\<close>

definition fragment :: "5 word \<Rightarrow> 4 word \<Rightarrow> bool \<Rightarrow> bytes \<Rightarrow> sk_buff" where
  "fragment from n further data = (plain_frame 0)\<lparr>sk_data := data,
     sk_desc := (sk_desc (plain_frame 0))\<lparr>d_peer := from, d_frag_num := n, d_more_frag := further, d_pn := 5 + ucast n\<rparr>\<rparr>"

definition free_entry :: frag_entry where
  "free_entry = \<lparr>frag_active = False, frag_chk_pn = False, pending_len = 0, frag_tid = 0xFF, frag_num = 0,
     frag_sn = 0, frag_start = 0, frag_list = [], last_pn = 0\<rparr>"

definition sample_iface :: iface where
  "sample_iface = \<lparr>iface_cipher = CCMP, frag = replicate 4 free_entry\<rparr>"

definition sample_cache :: iface where
  "sample_cache = fst (skw_frag_init_entry documented_kernel 0 (fragment 1 0 True [1, 2]) sample_iface)"

lemma sample_cache: "frags_ok sample_iface" "frags_ok sample_cache"
proof -
  show i: "frags_ok sample_iface" by (simp add: frags_ok_def sample_iface_def frag_ok_def free_entry_def)
  have f: "is_fragment (fragment 1 0 True [1, 2])" "d_frag_num (sk_desc (fragment 1 0 True [1, 2])) = 0"
    "d_more_frag (sk_desc (fragment 1 0 True [1, 2]))" by (simp_all add: is_fragment_def fragment_def)
  then have "skw_rx_defragment documented_kernel 0 (\<lambda>_ _. True) (fragment 1 0 True [1, 2]) sample_iface =
      (None, sample_cache, snd (skw_frag_init_entry documented_kernel 0 (fragment 1 0 True [1, 2]) sample_iface))"
    by (simp add: skw_rx_defragment_def sample_cache_def Let_def case_prod_beta)
  from defragmentation_steps [OF i this f(1)] show "frags_ok sample_cache" by blast
qed


text \<open>The cache does not ask who has sent a fragment: those of two peers make one frame.\<close>

theorem fragments_of_two_peers_joined:
  "map_option sk_data (fst (skw_rx_defragment documented_kernel 0 (\<lambda>_ _. True)
     (fragment 2 1 False (replicate 12 0 @ [3])) sample_cache)) = Some [1, 2, 3]"
  by code_simp

end
