(* ===== verification/Wifi_Delivery.thy ===== *)
theory Wifi_Delivery
  imports Wifi_Receive
begin

text \<open>
  A block-ack session and what follows it: the frames that the session hands on go through the
  replay check and the fragment cache to the network stack.
\<close>

unbundle bit_operations_syntax

section \<open>The frames that reach the network stack\<close>

definition core_ok :: "rx_core \<Rightarrow> bool" where
  "core_ok core \<longleftrightarrow> (\<forall>iface. Some iface \<in> set (ifaces core) \<longrightarrow> frags_ok iface) \<and> length (ifaces core) = 4"

lemma core_ok_ptks [simp]: "core_ok (core\<lparr>ptks := ps\<rparr>) = core_ok core"
  by (simp add: core_ok_def)

lemma core_ok_update:
  "core_ok core \<Longrightarrow> frags_ok iface \<Longrightarrow> core_ok (core\<lparr>ifaces := (ifaces core)[i := Some iface]\<rparr>)"
  using set_update_subset_insert [of "ifaces core" i "Some iface"] by (auto simp: core_ok_def)

text \<open>A frame that is no fragment passes the cache unchanged; what comes out of it is a fragment.\<close>

lemma defragment_plain:
  "\<not> is_fragment skb \<Longrightarrow> skw_rx_defragment k now room skb iface = (Some skb, iface, [])"
  by (simp add: is_fragment_def skw_rx_defragment_def Let_def)

lemma defragment_fragment:
  assumes "frags_ok iface" "skw_rx_defragment k now room skb iface = (whole, iface', gone)" "is_fragment skb"
  shows "frags_ok iface'" "whole = Some frame \<Longrightarrow> is_fragment frame"
proof -
  note d = defragmentation_steps [OF assms]
  show "frags_ok iface'" using d by blast
  assume "whole = Some frame"
  then obtain fs where fs: "consecutive (checks_pn (iface_cipher iface)) (desc_tid skb) (frame_sn skb) (fs @ [skb_pull 12 skb])"
    "fs \<noteq> []" "frame = (hd fs)\<lparr>sk_data := whole_data (iface_cipher iface) (fs @ [skb_pull 12 skb])\<rparr>" using d by blast
  then have "is_fragment ((fs @ [skb_pull 12 skb]) ! 0)" unfolding consecutive_def Let_def by simp
  then show "is_fragment frame" using fs(2,3) by (cases fs) (simp_all add: is_fragment_def)
qed

lemma handle_frame_plain:
  assumes "core_ok core" "rx_handle_frame k now room skb core = (core', delivered, gone)"
  shows "core_ok core'"
    "filter (\<lambda>f. \<not> is_fragment f) delivered = [] \<or> filter (\<lambda>f. \<not> is_fragment f) delivered = [skb]"
proof -
  let ?inst = "unat (d_inst (sk_desc skb))" and ?p = "unat (d_peer (sk_desc skb))"
  obtain pass ptk where r: "skw_replay_detect skb (ptks core ! ?p) = (pass, ptk)" by fastforce
  have "core_ok core' \<and>
    (filter (\<lambda>f. \<not> is_fragment f) delivered = [] \<or> filter (\<lambda>f. \<not> is_fragment f) delivered = [skb])"
  proof (cases "skw_created skb \<or> ifaces core ! ?inst = None \<or> \<not> pass")
    case True
    then have "delivered = []" "core' = core \<or> core' = core\<lparr>ptks := (ptks core)[?p := ptk]\<rparr>"
      using assms(2) r
      by (cases "skw_created skb"; cases "ifaces core ! ?inst"; auto simp: rx_handle_frame_def Let_def)+
    then show ?thesis using assms(1) by auto
  next
    case False
    then obtain iface where iface: "ifaces core ! ?inst = Some iface" by auto
    have "?inst < 4" using unsigned_less [of "d_inst (sk_desc skb)"] by simp
    then have "Some iface \<in> set (ifaces core)"
      using assms(1) iface nth_mem [of ?inst "ifaces core"] by (simp add: core_ok_def)
    then have ok: "frags_ok iface" using assms(1) by (simp add: core_ok_def)
    obtain whole iface' g where d: "skw_rx_defragment k now room skb iface = (whole, iface', g)" by (rule prod_cases3)
    have res: "core' = core\<lparr>ptks := (ptks core)[?p := ptk], ifaces := (ifaces core)[?inst := Some iface']\<rparr>"
      "delivered = (case whole of None \<Rightarrow> [] | Some skb \<Rightarrow> [skb])"
      using assms(2) False iface r d by (auto simp: rx_handle_frame_def Let_def)
    have "frags_ok iface' \<and> (\<forall>frame. whole = Some frame \<longrightarrow> is_fragment frame \<or> frame = skb)"
    proof (cases "is_fragment skb")
      case True
      then show ?thesis using defragment_fragment [OF ok d True] by blast
    next
      case plain: False
      then show ?thesis using d ok defragment_plain [OF plain, of k now room iface] by auto
    qed
    moreover have "core_ok core'" if "frags_ok iface'"
      using core_ok_update [of "core\<lparr>ptks := (ptks core)[?p := ptk]\<rparr>" iface' ?inst] assms(1) that res(1) by simp
    ultimately show ?thesis using res(2) by (auto split: option.splits)
  qed
  then show "core_ok core'"
    "filter (\<lambda>f. \<not> is_fragment f) delivered = [] \<or> filter (\<lambda>f. \<not> is_fragment f) delivered = [skb]" by blast+
qed

lemma handler_subseq:
  "core_ok core \<Longrightarrow> skw_rx_handler k now room list core = (core', delivered, gone) \<Longrightarrow>
   core_ok core' \<and> subseq (filter (\<lambda>f. \<not> is_fragment f) delivered) list"
proof (induction list arbitrary: core delivered gone)
  case (Cons skb list)
  obtain core1 ds1 g1 where one: "rx_handle_frame k now room skb core = (core1, ds1, g1)" by (rule prod_cases3)
  obtain ds2 g2 where two: "skw_rx_handler k now room list core1 = (core', ds2, g2)" "delivered = ds1 @ ds2"
    using Cons.prems(2) one by (auto split: prod.splits)
  have "core_ok core' \<and> subseq (filter (\<lambda>f. \<not> is_fragment f) ds2) list"
    by (rule Cons.IH [OF handle_frame_plain(1) [OF Cons.prems(1) one] two(1)])
  then show ?case using handle_frame_plain(2) [OF Cons.prems(1) one] two(2) by (auto intro: list_emb_Cons)
qed simp

text \<open>The events of a session, each with what the receive path does to the frames it hands on.\<close>

fun receive_run ::
  "kernel \<Rightarrow> (sk_buff \<Rightarrow> u16 \<Rightarrow> bool) \<Rightarrow> (u64 \<times> rx_event) list \<Rightarrow> reorder_rx \<Rightarrow> rx_core \<Rightarrow> reorder_rx \<times> rx_core \<times> sk_buff list" where
  "receive_run k room [] r core = (r, core, [])"
| "receive_run k room ((now, ev) # evs) r core =
     (let (r, out) = session_step k now ev r;
          (core, delivered, _) = skw_rx_handler k now room (released out) core;
          (r, core, delivered') = receive_run k room evs r core
      in (r, core, delivered @ delivered'))"

definition in_order_frame :: "sk_buff \<Rightarrow> bool" where
  "in_order_frame f \<longleftrightarrow> \<not> is_fragment f \<and> \<not> skip_replay_detect f"

lemma receive_run_subseq:
  "core_ok core \<Longrightarrow> receive_run k room evs r core = (r', core', delivered) \<Longrightarrow>
   subseq (filter in_order_frame delivered) (map snd (snd (session_run k pos evs r)))"
proof (induction evs arbitrary: r core pos delivered)
  case (Cons e evs)
  obtain now ev where e: "e = (now, ev)" by fastforce
  obtain r1 out where s: "session_step k now ev r = (r1, out)" by fastforce
  obtain core1 ds1 g1 where h: "skw_rx_handler k now room (released out) core = (core1, ds1, g1)" by (rule prod_cases3)
  obtain ds2 where rest: "receive_run k room evs r1 core1 = (r', core', ds2)" "delivered = ds1 @ ds2"
    using Cons.prems(2) e s h by (auto split: prod.splits)
  note one = handler_subseq [OF Cons.prems(1) h]
  let ?fs = "filter (\<lambda>f. \<not> skip_replay_detect f) (released out)"
  have "subseq (filter (\<lambda>f. \<not> skip_replay_detect f) (filter (\<lambda>f. \<not> is_fragment f) ds1)) ?fs"
    using one by (intro subseq_filter) blast
  then have "subseq (filter in_order_frame ds1) ?fs"
    by (simp add: in_order_frame_def [abs_def] conj_commute)
  moreover have "subseq (filter in_order_frame ds2) (map snd (snd (session_run k (pos + ahead (start r) (start r1)) evs r1)))"
    using Cons.IH [OF _ rest(1)] one by blast
  ultimately show ?case
    using e s rest(2) by (auto simp: Let_def comp_def intro: list_emb_append_mono split: prod.splits)
qed simp

lemma sorted_wrt_subseq: "subseq xs ys \<Longrightarrow> sorted_wrt P ys \<Longrightarrow> sorted_wrt P xs"
  by (induction rule: list_emb.induct) (auto dest: list_emb_set)

lemma subseq_set: "subseq xs ys \<Longrightarrow> set xs \<subseteq> set ys"
  by (induction rule: list_emb.induct) auto

lemma subseq_of_map: "subseq ys (map f xs) \<Longrightarrow> \<exists>zs. subseq zs xs \<and> map f zs = ys"
  by (metis nths_map subseq_conv_nths)


definition sample_core :: rx_core where
  "sample_core = \<lparr>ifaces = replicate 4 (Some sample_iface), ptks = replicate 32 (Some sample_conf)\<rparr>"


end
