(* ===== verification/Wifi_Regdb.thy ===== *)
theory Wifi_Regdb
  imports Prelude
begin

text \<open>
  The regulatory database of the Wi-Fi driver (\<open>skwifi/skw_db.c\<close>, database of 2024.10.07): for
  every country the ranges of frequencies that may be used, each with its widest channel, its
  power and its restrictions. A domain is a definition of its own, as it is a variable of its own
  in the code; \<open>skw_regdb\<close> is the table of them. The types are those of the kernel's
  \<open>net/regulatory.h\<close>, with the fields that the driver uses.
\<close>

unbundle bit_operations_syntax

section \<open>Rules and domains\<close>

record freq_range =
  start_freq_khz :: u32
  end_freq_khz :: u32
  max_bandwidth_khz :: u32

record power_rule =
  max_antenna_gain :: u32
  max_eirp :: u32

record reg_rule =
  rule_range :: freq_range
  rule_power :: power_rule
  rule_flags :: u32
  dfs_cac_ms :: u32

datatype dfs_region = NL80211_DFS_UNSET | NL80211_DFS_FCC | NL80211_DFS_ETSI | NL80211_DFS_JP

record regdomain =
  alpha2 :: string
  dfs_region :: dfs_region
  reg_rules :: "reg_rule list"
  n_reg_rules :: nat

text \<open>The kernel's macro: frequencies in MHz, gain and power in dB.\<close>

definition REG_RULE_EXT :: "nat \<Rightarrow> nat \<Rightarrow> nat \<Rightarrow> nat \<Rightarrow> nat \<Rightarrow> nat \<Rightarrow> u32 \<Rightarrow> reg_rule" where
  "REG_RULE_EXT low high bw gain eirp dfs_cac flags =
     \<lparr>rule_range = \<lparr>start_freq_khz = of_nat (low * 1000), end_freq_khz = of_nat (high * 1000),
        max_bandwidth_khz = of_nat (bw * 1000)\<rparr>,
      rule_power = \<lparr>max_antenna_gain = of_nat (gain * 100), max_eirp = of_nat (eirp * 100)\<rparr>,
      rule_flags = flags, dfs_cac_ms = of_nat dfs_cac\<rparr>"

definition SKW_RRF_NO_OFDM :: u32 where "SKW_RRF_NO_OFDM = push_bit 0 1"
definition SKW_RRF_NO_OUTDOOR :: u32 where "SKW_RRF_NO_OUTDOOR = push_bit 3 1"
definition SKW_RRF_DFS :: u32 where "SKW_RRF_DFS = push_bit 4 1"
definition SKW_RRF_NO_IR :: u32 where "SKW_RRF_NO_IR = push_bit 7 1"
definition SKW_RRF_AUTO_BW :: u32 where "SKW_RRF_AUTO_BW = push_bit 11 1"

section \<open>The domains\<close>

named_theorems regdoms

definition regdom_XW :: regdomain where
  [regdoms]: "regdom_XW = \<lparr>alpha2 = ''XW'', dfs_region = NL80211_DFS_UNSET,
     reg_rules = [
       REG_RULE_EXT 2402 2472 40 0 20 0 0,
       REG_RULE_EXT 2457 2482 20 0 20 0 (SKW_RRF_AUTO_BW OR 0),
       REG_RULE_EXT 2474 2494 20 0 20 0 (SKW_RRF_NO_OFDM OR 0),
       REG_RULE_EXT 5170 5250 80 0 20 0 (SKW_RRF_AUTO_BW OR 0),
       REG_RULE_EXT 5250 5330 80 0 20 0 (SKW_RRF_AUTO_BW OR 0),
       REG_RULE_EXT 5490 5730 160 0 20 0 (SKW_RRF_AUTO_BW OR 0),
       REG_RULE_EXT 5735 5835 80 0 20 0 (SKW_RRF_AUTO_BW OR 0),
       REG_RULE_EXT 57240 63720 2160 0 0 0 0],
     n_reg_rules = 8\<rparr>"

definition regdom_00 :: regdomain where
  [regdoms]: "regdom_00 = \<lparr>alpha2 = ''00'', dfs_region = NL80211_DFS_UNSET,
     reg_rules = [
       REG_RULE_EXT 755 928 2 0 20 0 (SKW_RRF_NO_IR OR 0),
       REG_RULE_EXT 2402 2472 40 0 20 0 0,
       REG_RULE_EXT 2457 2482 20 0 20 0 (SKW_RRF_NO_IR OR SKW_RRF_AUTO_BW OR 0),
       REG_RULE_EXT 2474 2494 20 0 20 0 (SKW_RRF_NO_IR OR SKW_RRF_NO_OFDM OR 0),
       REG_RULE_EXT 5170 5250 80 0 20 0 (SKW_RRF_NO_IR OR SKW_RRF_AUTO_BW OR 0),
       REG_RULE_EXT 5250 5330 80 0 20 0 (SKW_RRF_NO_IR OR SKW_RRF_DFS OR SKW_RRF_AUTO_BW OR 0),
       REG_RULE_EXT 5490 5730 160 0 20 0 (SKW_RRF_NO_IR OR SKW_RRF_DFS OR 0),
       REG_RULE_EXT 5735 5835 80 0 20 0 (SKW_RRF_NO_IR OR 0),
       REG_RULE_EXT 57240 63720 2160 0 0 0 0],
     n_reg_rules = 9\<rparr>"

definition regdom_AD :: regdomain where
  [regdoms]: "regdom_AD = \<lparr>alpha2 = ''AD'', dfs_region = NL80211_DFS_ETSI,
     reg_rules = [
       REG_RULE_EXT 2400 2483 40 0 20 0 0,
       REG_RULE_EXT 5150 5250 80 0 23 0 (SKW_RRF_NO_OUTDOOR OR SKW_RRF_AUTO_BW OR 0),
       REG_RULE_EXT 5250 5350 80 0 20 0 (SKW_RRF_NO_OUTDOOR OR SKW_RRF_DFS OR SKW_RRF_AUTO_BW OR 0),
       REG_RULE_EXT 5470 5725 160 0 27 0 (SKW_RRF_DFS OR 0),
       REG_RULE_EXT 5725 5875 80 0 14 0 0,
       REG_RULE_EXT 57000 66000 2160 0 40 0 0],
     n_reg_rules = 6\<rparr>"

definition regdom_AE :: regdomain where
  [regdoms]: "regdom_AE = \<lparr>alpha2 = ''AE'', dfs_region = NL80211_DFS_FCC,
     reg_rules = [
       REG_RULE_EXT 2402 2482 40 0 20 0 0,
       REG_RULE_EXT 5170 5250 80 0 17 0 (SKW_RRF_AUTO_BW OR 0),
       REG_RULE_EXT 5250 5330 80 0 24 0 (SKW_RRF_DFS OR SKW_RRF_AUTO_BW OR 0),
       REG_RULE_EXT 5490 5730 160 0 24 0 (SKW_RRF_DFS OR 0),
       REG_RULE_EXT 5735 5835 80 0 30 0 0,
       REG_RULE_EXT 5925 6425 320 0 24 0 (SKW_RRF_NO_OUTDOOR OR 0)],
     n_reg_rules = 6\<rparr>"

definition regdom_AF :: regdomain where
  [regdoms]: "regdom_AF = \<lparr>alpha2 = ''AF'', dfs_region = NL80211_DFS_ETSI,
     reg_rules = [
       REG_RULE_EXT 2402 2482 40 0 20 0 0,
       REG_RULE_EXT 5170 5250 80 0 20 0 (SKW_RRF_AUTO_BW OR 0),
       REG_RULE_EXT 5250 5330 80 0 20 0 (SKW_RRF_DFS OR SKW_RRF_AUTO_BW OR 0),
       REG_RULE_EXT 5490 5710 160 0 27 0 (SKW_RRF_DFS OR 0)],
     n_reg_rules = 4\<rparr>"

definition regdom_AI :: regdomain where
  [regdoms]: "regdom_AI = \<lparr>alpha2 = ''AI'', dfs_region = NL80211_DFS_ETSI,
     reg_rules = [
       REG_RULE_EXT 2402 2482 40 0 20 0 0,
       REG_RULE_EXT 5170 5250 80 0 20 0 (SKW_RRF_AUTO_BW OR 0),
       REG_RULE_EXT 5250 5330 80 0 20 0 (SKW_RRF_DFS OR SKW_RRF_AUTO_BW OR 0),
       REG_RULE_EXT 5490 5710 160 0 27 0 (SKW_RRF_DFS OR 0)],
     n_reg_rules = 4\<rparr>"

definition regdom_AL :: regdomain where
  [regdoms]: "regdom_AL = \<lparr>alpha2 = ''AL'', dfs_region = NL80211_DFS_ETSI,
     reg_rules = [
       REG_RULE_EXT 2400 2483 40 0 20 0 0,
       REG_RULE_EXT 5150 5250 80 0 23 0 (SKW_RRF_NO_OUTDOOR OR SKW_RRF_AUTO_BW OR 0),
       REG_RULE_EXT 5250 5350 80 0 20 0 (SKW_RRF_NO_OUTDOOR OR SKW_RRF_DFS OR SKW_RRF_AUTO_BW OR 0),
       REG_RULE_EXT 5470 5725 160 0 27 0 (SKW_RRF_DFS OR 0),
       REG_RULE_EXT 5725 5875 80 0 14 0 0],
     n_reg_rules = 5\<rparr>"

definition regdom_AM :: regdomain where
  [regdoms]: "regdom_AM = \<lparr>alpha2 = ''AM'', dfs_region = NL80211_DFS_ETSI,
     reg_rules = [
       REG_RULE_EXT 2402 2482 40 0 20 0 0,
       REG_RULE_EXT 5170 5250 20 0 18 0 0,
       REG_RULE_EXT 5250 5330 20 0 18 0 (SKW_RRF_DFS OR 0)],
     n_reg_rules = 3\<rparr>"

definition regdom_AN :: regdomain where
  [regdoms]: "regdom_AN = \<lparr>alpha2 = ''AN'', dfs_region = NL80211_DFS_ETSI,
     reg_rules = [
       REG_RULE_EXT 2402 2482 40 0 20 0 0,
       REG_RULE_EXT 5170 5250 80 0 20 0 (SKW_RRF_AUTO_BW OR 0),
       REG_RULE_EXT 5250 5330 80 0 20 0 (SKW_RRF_DFS OR SKW_RRF_AUTO_BW OR 0),
       REG_RULE_EXT 5490 5710 160 0 27 0 (SKW_RRF_DFS OR 0)],
     n_reg_rules = 4\<rparr>"

definition regdom_AR :: regdomain where
  [regdoms]: "regdom_AR = \<lparr>alpha2 = ''AR'', dfs_region = NL80211_DFS_FCC,
     reg_rules = [
       REG_RULE_EXT 2402 2482 40 0 20 0 0,
       REG_RULE_EXT 5170 5250 80 0 17 0 (SKW_RRF_AUTO_BW OR 0),
       REG_RULE_EXT 5250 5330 80 0 24 0 (SKW_RRF_DFS OR SKW_RRF_AUTO_BW OR 0),
       REG_RULE_EXT 5490 5730 160 0 24 0 (SKW_RRF_DFS OR 0),
       REG_RULE_EXT 5735 5835 80 0 30 0 0,
       REG_RULE_EXT 5925 7125 320 0 12 0 (SKW_RRF_NO_OUTDOOR OR 0)],
     n_reg_rules = 6\<rparr>"

definition regdom_AS :: regdomain where
  [regdoms]: "regdom_AS = \<lparr>alpha2 = ''AS'', dfs_region = NL80211_DFS_FCC,
     reg_rules = [
       REG_RULE_EXT 2402 2472 40 0 30 0 0,
       REG_RULE_EXT 5170 5250 80 0 24 0 (SKW_RRF_AUTO_BW OR 0),
       REG_RULE_EXT 5250 5330 80 0 24 0 (SKW_RRF_DFS OR SKW_RRF_AUTO_BW OR 0),
       REG_RULE_EXT 5490 5730 160 0 24 0 (SKW_RRF_DFS OR 0),
       REG_RULE_EXT 5735 5835 80 0 30 0 0],
     n_reg_rules = 5\<rparr>"

definition regdom_AT :: regdomain where
  [regdoms]: "regdom_AT = \<lparr>alpha2 = ''AT'', dfs_region = NL80211_DFS_ETSI,
     reg_rules = [
       REG_RULE_EXT 2400 2483 40 0 20 0 0,
       REG_RULE_EXT 5150 5250 80 0 23 0 (SKW_RRF_NO_OUTDOOR OR SKW_RRF_AUTO_BW OR 0),
       REG_RULE_EXT 5250 5350 80 0 20 0 (SKW_RRF_NO_OUTDOOR OR SKW_RRF_DFS OR SKW_RRF_AUTO_BW OR 0),
       REG_RULE_EXT 5470 5725 160 0 27 0 (SKW_RRF_DFS OR 0),
       REG_RULE_EXT 5725 5875 80 0 14 0 0,
       REG_RULE_EXT 5945 6425 160 0 23 0 (SKW_RRF_NO_OUTDOOR OR 0),
       REG_RULE_EXT 57000 66000 2160 0 40 0 0],
     n_reg_rules = 7\<rparr>"

definition regdom_AU :: regdomain where
  [regdoms]: "regdom_AU = \<lparr>alpha2 = ''AU'', dfs_region = NL80211_DFS_ETSI,
     reg_rules = [
       REG_RULE_EXT 915 920 4 0 30 0 0,
       REG_RULE_EXT 920 928 8 0 30 0 0,
       REG_RULE_EXT 2400 2483 40 0 36 0 0,
       REG_RULE_EXT 5150 5250 80 0 23 0 (SKW_RRF_NO_OUTDOOR OR SKW_RRF_AUTO_BW OR 0),
       REG_RULE_EXT 5250 5350 80 0 20 0 (SKW_RRF_NO_OUTDOOR OR SKW_RRF_AUTO_BW OR SKW_RRF_DFS OR 0),
       REG_RULE_EXT 5470 5600 80 0 27 0 (SKW_RRF_DFS OR 0),
       REG_RULE_EXT 5650 5730 80 0 27 0 (SKW_RRF_DFS OR 0),
       REG_RULE_EXT 5730 5850 80 0 36 0 (SKW_RRF_AUTO_BW OR 0),
       REG_RULE_EXT 5850 5875 20 0 14 0 (SKW_RRF_AUTO_BW OR 0),
       REG_RULE_EXT 5925 6425 160 0 24 0 (SKW_RRF_NO_OUTDOOR OR 0),
       REG_RULE_EXT 57000 71000 2160 0 43 0 (SKW_RRF_NO_OUTDOOR OR 0)],
     n_reg_rules = 11\<rparr>"

definition regdom_AW :: regdomain where
  [regdoms]: "regdom_AW = \<lparr>alpha2 = ''AW'', dfs_region = NL80211_DFS_ETSI,
     reg_rules = [
       REG_RULE_EXT 2402 2482 40 0 20 0 0,
       REG_RULE_EXT 5170 5250 80 0 20 0 (SKW_RRF_AUTO_BW OR 0),
       REG_RULE_EXT 5250 5330 80 0 20 0 (SKW_RRF_DFS OR SKW_RRF_AUTO_BW OR 0),
       REG_RULE_EXT 5490 5710 160 0 27 0 (SKW_RRF_DFS OR 0)],
     n_reg_rules = 4\<rparr>"

definition regdom_AZ :: regdomain where
  [regdoms]: "regdom_AZ = \<lparr>alpha2 = ''AZ'', dfs_region = NL80211_DFS_ETSI,
     reg_rules = [
       REG_RULE_EXT 2402 2482 40 0 20 0 0,
       REG_RULE_EXT 5170 5250 80 0 18 0 (SKW_RRF_AUTO_BW OR 0),
       REG_RULE_EXT 5250 5330 80 0 18 0 (SKW_RRF_DFS OR SKW_RRF_AUTO_BW OR 0)],
     n_reg_rules = 3\<rparr>"

definition regdom_BA :: regdomain where
  [regdoms]: "regdom_BA = \<lparr>alpha2 = ''BA'', dfs_region = NL80211_DFS_ETSI,
     reg_rules = [
       REG_RULE_EXT 2400 2483 40 0 20 0 0,
       REG_RULE_EXT 5150 5250 80 0 23 0 (SKW_RRF_NO_OUTDOOR OR SKW_RRF_AUTO_BW OR 0),
       REG_RULE_EXT 5250 5350 80 0 20 0 (SKW_RRF_NO_OUTDOOR OR SKW_RRF_DFS OR SKW_RRF_AUTO_BW OR 0),
       REG_RULE_EXT 5470 5725 160 0 27 0 (SKW_RRF_DFS OR 0),
       REG_RULE_EXT 5725 5875 80 0 14 0 0,
       REG_RULE_EXT 57000 66000 2160 0 40 0 0],
     n_reg_rules = 6\<rparr>"

definition regdom_BB :: regdomain where
  [regdoms]: "regdom_BB = \<lparr>alpha2 = ''BB'', dfs_region = NL80211_DFS_FCC,
     reg_rules = [
       REG_RULE_EXT 2402 2482 40 0 20 0 0,
       REG_RULE_EXT 5170 5250 80 0 23 0 (SKW_RRF_AUTO_BW OR 0),
       REG_RULE_EXT 5250 5330 80 0 23 0 (SKW_RRF_DFS OR SKW_RRF_AUTO_BW OR 0),
       REG_RULE_EXT 5735 5835 80 0 30 0 0],
     n_reg_rules = 4\<rparr>"

definition regdom_BD :: regdomain where
  [regdoms]: "regdom_BD = \<lparr>alpha2 = ''BD'', dfs_region = NL80211_DFS_JP,
     reg_rules = [
       REG_RULE_EXT 2402 2482 40 0 20 0 0,
       REG_RULE_EXT 5735 5835 80 0 30 0 0],
     n_reg_rules = 2\<rparr>"

definition regdom_BE :: regdomain where
  [regdoms]: "regdom_BE = \<lparr>alpha2 = ''BE'', dfs_region = NL80211_DFS_ETSI,
     reg_rules = [
       REG_RULE_EXT 2400 2483 40 0 20 0 0,
       REG_RULE_EXT 5150 5250 80 0 23 0 (SKW_RRF_NO_OUTDOOR OR SKW_RRF_AUTO_BW OR 0),
       REG_RULE_EXT 5250 5350 80 0 20 0 (SKW_RRF_NO_OUTDOOR OR SKW_RRF_DFS OR SKW_RRF_AUTO_BW OR 0),
       REG_RULE_EXT 5470 5725 160 0 27 0 (SKW_RRF_DFS OR 0),
       REG_RULE_EXT 5725 5875 80 0 14 0 0,
       REG_RULE_EXT 5945 6425 160 0 23 0 (SKW_RRF_NO_OUTDOOR OR 0),
       REG_RULE_EXT 57000 66000 2160 0 40 0 0],
     n_reg_rules = 7\<rparr>"

definition regdom_BF :: regdomain where
  [regdoms]: "regdom_BF = \<lparr>alpha2 = ''BF'', dfs_region = NL80211_DFS_FCC,
     reg_rules = [
       REG_RULE_EXT 2402 2482 40 0 20 0 0,
       REG_RULE_EXT 5170 5250 80 0 17 0 (SKW_RRF_AUTO_BW OR 0),
       REG_RULE_EXT 5250 5330 80 0 24 0 (SKW_RRF_DFS OR SKW_RRF_AUTO_BW OR 0),
       REG_RULE_EXT 5490 5730 160 0 24 0 (SKW_RRF_DFS OR 0),
       REG_RULE_EXT 5735 5835 80 0 30 0 0],
     n_reg_rules = 5\<rparr>"

definition regdom_BG :: regdomain where
  [regdoms]: "regdom_BG = \<lparr>alpha2 = ''BG'', dfs_region = NL80211_DFS_ETSI,
     reg_rules = [
       REG_RULE_EXT 2400 2483 40 0 20 0 0,
       REG_RULE_EXT 5150 5250 80 0 23 0 (SKW_RRF_NO_OUTDOOR OR SKW_RRF_AUTO_BW OR 0),
       REG_RULE_EXT 5250 5350 80 0 20 0 (SKW_RRF_NO_OUTDOOR OR SKW_RRF_DFS OR SKW_RRF_AUTO_BW OR 0),
       REG_RULE_EXT 5470 5725 160 0 27 0 (SKW_RRF_DFS OR 0),
       REG_RULE_EXT 5725 5875 80 0 14 0 0,
       REG_RULE_EXT 5945 6425 160 0 23 0 (SKW_RRF_NO_OUTDOOR OR 0),
       REG_RULE_EXT 57000 66000 2160 0 40 0 0],
     n_reg_rules = 7\<rparr>"

definition regdom_BH :: regdomain where
  [regdoms]: "regdom_BH = \<lparr>alpha2 = ''BH'', dfs_region = NL80211_DFS_ETSI,
     reg_rules = [
       REG_RULE_EXT 2400 2483 40 0 20 0 0,
       REG_RULE_EXT 5150 5350 80 0 23 0 (SKW_RRF_DFS OR SKW_RRF_NO_OUTDOOR OR 0),
       REG_RULE_EXT 5470 5725 80 0 27 0 (SKW_RRF_DFS OR 0),
       REG_RULE_EXT 5725 5875 80 0 24 0 (SKW_RRF_DFS OR 0),
       REG_RULE_EXT 5925 6425 320 0 23 0 (SKW_RRF_NO_OUTDOOR OR 0),
       REG_RULE_EXT 57000 66000 2160 0 40 0 (SKW_RRF_NO_OUTDOOR OR 0)],
     n_reg_rules = 6\<rparr>"

definition regdom_BL :: regdomain where
  [regdoms]: "regdom_BL = \<lparr>alpha2 = ''BL'', dfs_region = NL80211_DFS_ETSI,
     reg_rules = [
       REG_RULE_EXT 2402 2482 40 0 20 0 0,
       REG_RULE_EXT 5170 5250 80 0 20 0 (SKW_RRF_AUTO_BW OR 0),
       REG_RULE_EXT 5250 5330 80 0 20 0 (SKW_RRF_DFS OR SKW_RRF_AUTO_BW OR 0),
       REG_RULE_EXT 5490 5710 160 0 27 0 (SKW_RRF_DFS OR 0)],
     n_reg_rules = 4\<rparr>"

definition regdom_BM :: regdomain where
  [regdoms]: "regdom_BM = \<lparr>alpha2 = ''BM'', dfs_region = NL80211_DFS_FCC,
     reg_rules = [
       REG_RULE_EXT 2402 2472 40 0 30 0 0,
       REG_RULE_EXT 5170 5250 80 0 24 0 (SKW_RRF_AUTO_BW OR 0),
       REG_RULE_EXT 5250 5330 80 0 24 0 (SKW_RRF_DFS OR SKW_RRF_AUTO_BW OR 0),
       REG_RULE_EXT 5490 5730 160 0 24 0 (SKW_RRF_DFS OR 0),
       REG_RULE_EXT 5735 5835 80 0 30 0 0],
     n_reg_rules = 5\<rparr>"

definition regdom_BN :: regdomain where
  [regdoms]: "regdom_BN = \<lparr>alpha2 = ''BN'', dfs_region = NL80211_DFS_JP,
     reg_rules = [
       REG_RULE_EXT 2402 2482 40 0 20 0 0,
       REG_RULE_EXT 5170 5250 80 0 20 0 (SKW_RRF_AUTO_BW OR 0),
       REG_RULE_EXT 5250 5330 80 0 20 0 (SKW_RRF_DFS OR SKW_RRF_AUTO_BW OR 0),
       REG_RULE_EXT 5735 5835 80 0 20 0 0],
     n_reg_rules = 4\<rparr>"

definition regdom_BO :: regdomain where
  [regdoms]: "regdom_BO = \<lparr>alpha2 = ''BO'', dfs_region = NL80211_DFS_JP,
     reg_rules = [
       REG_RULE_EXT 2402 2482 40 0 20 0 0,
       REG_RULE_EXT 5250 5330 80 0 30 0 (SKW_RRF_DFS OR 0),
       REG_RULE_EXT 5735 5835 80 0 30 0 0],
     n_reg_rules = 3\<rparr>"

definition regdom_BR :: regdomain where
  [regdoms]: "regdom_BR = \<lparr>alpha2 = ''BR'', dfs_region = NL80211_DFS_FCC,
     reg_rules = [
       REG_RULE_EXT 2400 2483 40 0 30 0 0,
       REG_RULE_EXT 5150 5250 80 0 27 0 (SKW_RRF_NO_OUTDOOR OR SKW_RRF_AUTO_BW OR 0),
       REG_RULE_EXT 5250 5350 80 0 27 0 (SKW_RRF_NO_OUTDOOR OR SKW_RRF_DFS OR SKW_RRF_AUTO_BW OR 0),
       REG_RULE_EXT 5470 5725 160 0 27 0 (SKW_RRF_DFS OR SKW_RRF_AUTO_BW OR 0),
       REG_RULE_EXT 5725 5850 80 0 30 0 (SKW_RRF_AUTO_BW OR 0),
       REG_RULE_EXT 5925 7125 320 0 12 0 (SKW_RRF_NO_OUTDOOR OR SKW_RRF_NO_IR OR 0),
       REG_RULE_EXT 57000 71000 2160 0 40 0 0],
     n_reg_rules = 7\<rparr>"

definition regdom_BS :: regdomain where
  [regdoms]: "regdom_BS = \<lparr>alpha2 = ''BS'', dfs_region = NL80211_DFS_FCC,
     reg_rules = [
       REG_RULE_EXT 2402 2482 40 0 20 0 0,
       REG_RULE_EXT 5170 5250 80 0 24 0 (SKW_RRF_AUTO_BW OR 0),
       REG_RULE_EXT 5250 5330 80 0 24 0 (SKW_RRF_DFS OR SKW_RRF_AUTO_BW OR 0),
       REG_RULE_EXT 5490 5730 160 0 24 0 (SKW_RRF_DFS OR 0),
       REG_RULE_EXT 5735 5835 80 0 30 0 0],
     n_reg_rules = 5\<rparr>"

definition regdom_BT :: regdomain where
  [regdoms]: "regdom_BT = \<lparr>alpha2 = ''BT'', dfs_region = NL80211_DFS_ETSI,
     reg_rules = [
       REG_RULE_EXT 2402 2482 40 0 20 0 0,
       REG_RULE_EXT 5170 5250 80 0 20 0 (SKW_RRF_AUTO_BW OR 0),
       REG_RULE_EXT 5250 5330 80 0 20 0 (SKW_RRF_DFS OR SKW_RRF_AUTO_BW OR 0),
       REG_RULE_EXT 5490 5710 160 0 27 0 (SKW_RRF_DFS OR 0)],
     n_reg_rules = 4\<rparr>"

definition regdom_BY :: regdomain where
  [regdoms]: "regdom_BY = \<lparr>alpha2 = ''BY'', dfs_region = NL80211_DFS_ETSI,
     reg_rules = [
       REG_RULE_EXT 2402 2482 40 0 20 0 0,
       REG_RULE_EXT 5170 5250 80 0 20 0 (SKW_RRF_AUTO_BW OR 0),
       REG_RULE_EXT 5250 5330 80 0 20 0 (SKW_RRF_DFS OR SKW_RRF_AUTO_BW OR 0),
       REG_RULE_EXT 5490 5710 160 0 27 0 (SKW_RRF_DFS OR 0)],
     n_reg_rules = 4\<rparr>"

definition regdom_BZ :: regdomain where
  [regdoms]: "regdom_BZ = \<lparr>alpha2 = ''BZ'', dfs_region = NL80211_DFS_JP,
     reg_rules = [
       REG_RULE_EXT 2402 2482 40 0 30 0 0,
       REG_RULE_EXT 5735 5835 80 0 30 0 0],
     n_reg_rules = 2\<rparr>"

definition regdom_CA :: regdomain where
  [regdoms]: "regdom_CA = \<lparr>alpha2 = ''CA'', dfs_region = NL80211_DFS_FCC,
     reg_rules = [
       REG_RULE_EXT 2402 2472 40 0 30 0 0,
       REG_RULE_EXT 5150 5250 80 0 23 0 (SKW_RRF_NO_OUTDOOR OR SKW_RRF_AUTO_BW OR 0),
       REG_RULE_EXT 5250 5350 80 0 24 0 (SKW_RRF_DFS OR SKW_RRF_AUTO_BW OR 0),
       REG_RULE_EXT 5470 5600 80 0 24 0 (SKW_RRF_DFS OR 0),
       REG_RULE_EXT 5650 5730 80 0 24 0 (SKW_RRF_DFS OR 0),
       REG_RULE_EXT 5735 5835 80 0 30 0 0,
       REG_RULE_EXT 5925 7125 320 0 12 0 (SKW_RRF_NO_OUTDOOR OR 0)],
     n_reg_rules = 7\<rparr>"

definition regdom_CF :: regdomain where
  [regdoms]: "regdom_CF = \<lparr>alpha2 = ''CF'', dfs_region = NL80211_DFS_FCC,
     reg_rules = [
       REG_RULE_EXT 2402 2482 40 0 20 0 0,
       REG_RULE_EXT 5170 5250 40 0 17 0 0,
       REG_RULE_EXT 5250 5330 40 0 24 0 (SKW_RRF_DFS OR 0),
       REG_RULE_EXT 5490 5730 40 0 24 0 (SKW_RRF_DFS OR 0),
       REG_RULE_EXT 5735 5835 40 0 30 0 0],
     n_reg_rules = 5\<rparr>"

definition regdom_CH :: regdomain where
  [regdoms]: "regdom_CH = \<lparr>alpha2 = ''CH'', dfs_region = NL80211_DFS_ETSI,
     reg_rules = [
       REG_RULE_EXT 2400 2483 40 0 20 0 0,
       REG_RULE_EXT 5150 5250 80 0 23 0 (SKW_RRF_NO_OUTDOOR OR SKW_RRF_AUTO_BW OR 0),
       REG_RULE_EXT 5250 5350 80 0 20 0 (SKW_RRF_NO_OUTDOOR OR SKW_RRF_DFS OR SKW_RRF_AUTO_BW OR 0),
       REG_RULE_EXT 5470 5725 160 0 27 0 (SKW_RRF_DFS OR 0),
       REG_RULE_EXT 5725 5875 80 0 14 0 0,
       REG_RULE_EXT 5945 6425 160 0 23 0 (SKW_RRF_NO_OUTDOOR OR 0),
       REG_RULE_EXT 57000 71000 2160 0 40 0 0],
     n_reg_rules = 7\<rparr>"

definition regdom_CI :: regdomain where
  [regdoms]: "regdom_CI = \<lparr>alpha2 = ''CI'', dfs_region = NL80211_DFS_FCC,
     reg_rules = [
       REG_RULE_EXT 2402 2482 40 0 20 0 0,
       REG_RULE_EXT 5170 5250 80 0 17 0 (SKW_RRF_AUTO_BW OR 0),
       REG_RULE_EXT 5250 5330 80 0 24 0 (SKW_RRF_DFS OR SKW_RRF_AUTO_BW OR 0),
       REG_RULE_EXT 5490 5730 160 0 24 0 (SKW_RRF_DFS OR 0),
       REG_RULE_EXT 5735 5835 80 0 30 0 0],
     n_reg_rules = 5\<rparr>"

definition regdom_CL :: regdomain where
  [regdoms]: "regdom_CL = \<lparr>alpha2 = ''CL'', dfs_region = NL80211_DFS_JP,
     reg_rules = [
       REG_RULE_EXT 2402 2482 40 0 20 0 0,
       REG_RULE_EXT 5170 5250 80 0 20 0 (SKW_RRF_AUTO_BW OR 0),
       REG_RULE_EXT 5250 5330 80 0 20 0 (SKW_RRF_DFS OR SKW_RRF_AUTO_BW OR 0),
       REG_RULE_EXT 5735 5835 80 0 20 0 0,
       REG_RULE_EXT 5925 6425 320 0 12 0 (SKW_RRF_NO_OUTDOOR OR 0)],
     n_reg_rules = 5\<rparr>"

definition regdom_CN :: regdomain where
  [regdoms]: "regdom_CN = \<lparr>alpha2 = ''CN'', dfs_region = NL80211_DFS_FCC,
     reg_rules = [
       REG_RULE_EXT 2400 2483 40 0 20 0 0,
       REG_RULE_EXT 5150 5250 80 0 23 0 (SKW_RRF_NO_OUTDOOR OR SKW_RRF_AUTO_BW OR 0),
       REG_RULE_EXT 5250 5350 80 0 20 0 (SKW_RRF_NO_OUTDOOR OR SKW_RRF_DFS OR SKW_RRF_AUTO_BW OR 0),
       REG_RULE_EXT 5725 5850 80 0 33 0 0,
       REG_RULE_EXT 57240 59400 2160 0 28 0 0,
       REG_RULE_EXT 59400 63720 2160 0 44 0 0,
       REG_RULE_EXT 63720 65880 2160 0 28 0 0],
     n_reg_rules = 7\<rparr>"

definition regdom_CO :: regdomain where
  [regdoms]: "regdom_CO = \<lparr>alpha2 = ''CO'', dfs_region = NL80211_DFS_FCC,
     reg_rules = [
       REG_RULE_EXT 2402 2482 40 0 20 0 0,
       REG_RULE_EXT 5170 5250 80 0 17 0 (SKW_RRF_AUTO_BW OR 0),
       REG_RULE_EXT 5250 5330 80 0 24 0 (SKW_RRF_DFS OR SKW_RRF_AUTO_BW OR 0),
       REG_RULE_EXT 5490 5730 160 0 24 0 (SKW_RRF_DFS OR 0),
       REG_RULE_EXT 5735 5835 80 0 30 0 0,
       REG_RULE_EXT 5925 7125 320 0 12 0 (SKW_RRF_NO_OUTDOOR OR 0)],
     n_reg_rules = 6\<rparr>"

definition regdom_CR :: regdomain where
  [regdoms]: "regdom_CR = \<lparr>alpha2 = ''CR'', dfs_region = NL80211_DFS_FCC,
     reg_rules = [
       REG_RULE_EXT 2402 2482 40 0 36 0 0,
       REG_RULE_EXT 5170 5250 20 0 30 0 0,
       REG_RULE_EXT 5250 5330 20 0 30 0 (SKW_RRF_DFS OR 0),
       REG_RULE_EXT 5490 5730 20 0 30 0 (SKW_RRF_DFS OR 0),
       REG_RULE_EXT 5735 5835 20 0 36 0 0,
       REG_RULE_EXT 5875 5925 20 0 30 0 0,
       REG_RULE_EXT 5925 7125 320 0 30 0 (SKW_RRF_NO_OUTDOOR OR 0)],
     n_reg_rules = 7\<rparr>"

definition regdom_CU :: regdomain where
  [regdoms]: "regdom_CU = \<lparr>alpha2 = ''CU'', dfs_region = NL80211_DFS_FCC,
     reg_rules = [
       REG_RULE_EXT 2400 2483 40 0 23 0 0,
       REG_RULE_EXT 5150 5350 80 0 23 0 (SKW_RRF_NO_IR OR SKW_RRF_NO_OUTDOOR OR 0),
       REG_RULE_EXT 5470 5725 80 0 24 0 (SKW_RRF_NO_IR OR 0),
       REG_RULE_EXT 5725 5850 80 0 23 0 0],
     n_reg_rules = 4\<rparr>"

definition regdom_CX :: regdomain where
  [regdoms]: "regdom_CX = \<lparr>alpha2 = ''CX'', dfs_region = NL80211_DFS_FCC,
     reg_rules = [
       REG_RULE_EXT 2402 2482 40 0 20 0 0,
       REG_RULE_EXT 5170 5250 80 0 24 0 (SKW_RRF_AUTO_BW OR 0),
       REG_RULE_EXT 5250 5330 80 0 24 0 (SKW_RRF_DFS OR SKW_RRF_AUTO_BW OR 0),
       REG_RULE_EXT 5490 5730 160 0 24 0 (SKW_RRF_DFS OR 0),
       REG_RULE_EXT 5735 5835 80 0 30 0 0],
     n_reg_rules = 5\<rparr>"

definition regdom_CY :: regdomain where
  [regdoms]: "regdom_CY = \<lparr>alpha2 = ''CY'', dfs_region = NL80211_DFS_ETSI,
     reg_rules = [
       REG_RULE_EXT 2400 2483 40 0 20 0 0,
       REG_RULE_EXT 5150 5250 80 0 23 0 (SKW_RRF_NO_OUTDOOR OR SKW_RRF_AUTO_BW OR 0),
       REG_RULE_EXT 5250 5350 80 0 20 0 (SKW_RRF_NO_OUTDOOR OR SKW_RRF_DFS OR SKW_RRF_AUTO_BW OR 0),
       REG_RULE_EXT 5470 5725 160 0 27 0 (SKW_RRF_DFS OR 0),
       REG_RULE_EXT 5725 5875 80 0 14 0 0,
       REG_RULE_EXT 5945 6425 160 0 23 0 (SKW_RRF_NO_OUTDOOR OR 0),
       REG_RULE_EXT 57000 66000 2160 0 40 0 0],
     n_reg_rules = 7\<rparr>"

definition regdom_CZ :: regdomain where
  [regdoms]: "regdom_CZ = \<lparr>alpha2 = ''CZ'', dfs_region = NL80211_DFS_ETSI,
     reg_rules = [
       REG_RULE_EXT 2400 2483 40 0 20 0 0,
       REG_RULE_EXT 5150 5250 80 0 23 0 (SKW_RRF_NO_OUTDOOR OR SKW_RRF_AUTO_BW OR 0),
       REG_RULE_EXT 5250 5350 80 0 20 0 (SKW_RRF_NO_OUTDOOR OR SKW_RRF_DFS OR SKW_RRF_AUTO_BW OR 0),
       REG_RULE_EXT 5470 5725 160 0 27 0 (SKW_RRF_DFS OR 0),
       REG_RULE_EXT 5725 5875 80 0 14 0 0,
       REG_RULE_EXT 5945 6425 160 0 23 0 (SKW_RRF_NO_OUTDOOR OR 0),
       REG_RULE_EXT 57000 66000 2160 0 40 0 0],
     n_reg_rules = 7\<rparr>"

definition regdom_DE :: regdomain where
  [regdoms]: "regdom_DE = \<lparr>alpha2 = ''DE'', dfs_region = NL80211_DFS_ETSI,
     reg_rules = [
       REG_RULE_EXT 2400 2483 40 0 20 0 0,
       REG_RULE_EXT 5150 5250 80 0 23 0 (SKW_RRF_NO_OUTDOOR OR SKW_RRF_AUTO_BW OR 0),
       REG_RULE_EXT 5250 5350 80 0 20 0 (SKW_RRF_NO_OUTDOOR OR SKW_RRF_DFS OR SKW_RRF_AUTO_BW OR 0),
       REG_RULE_EXT 5470 5725 160 0 27 0 (SKW_RRF_DFS OR 0),
       REG_RULE_EXT 5725 5875 80 0 14 0 0,
       REG_RULE_EXT 5945 6425 160 0 23 0 (SKW_RRF_NO_OUTDOOR OR 0),
       REG_RULE_EXT 57000 66000 2160 0 40 0 0],
     n_reg_rules = 7\<rparr>"

definition regdom_DK :: regdomain where
  [regdoms]: "regdom_DK = \<lparr>alpha2 = ''DK'', dfs_region = NL80211_DFS_ETSI,
     reg_rules = [
       REG_RULE_EXT 2400 2483 40 0 20 0 0,
       REG_RULE_EXT 5150 5250 80 0 23 0 (SKW_RRF_NO_OUTDOOR OR SKW_RRF_AUTO_BW OR 0),
       REG_RULE_EXT 5250 5350 80 0 20 0 (SKW_RRF_NO_OUTDOOR OR SKW_RRF_DFS OR SKW_RRF_AUTO_BW OR 0),
       REG_RULE_EXT 5470 5725 160 0 27 0 (SKW_RRF_DFS OR 0),
       REG_RULE_EXT 5725 5875 80 0 14 0 0,
       REG_RULE_EXT 5945 6425 160 0 23 0 (SKW_RRF_NO_OUTDOOR OR 0),
       REG_RULE_EXT 57000 66000 2160 0 40 0 0],
     n_reg_rules = 7\<rparr>"

definition regdom_DM :: regdomain where
  [regdoms]: "regdom_DM = \<lparr>alpha2 = ''DM'', dfs_region = NL80211_DFS_FCC,
     reg_rules = [
       REG_RULE_EXT 2402 2472 40 0 30 0 0,
       REG_RULE_EXT 5170 5250 80 0 17 0 (SKW_RRF_AUTO_BW OR 0),
       REG_RULE_EXT 5250 5330 80 0 23 0 (SKW_RRF_DFS OR SKW_RRF_AUTO_BW OR 0),
       REG_RULE_EXT 5735 5835 80 0 30 0 0],
     n_reg_rules = 4\<rparr>"

definition regdom_DO :: regdomain where
  [regdoms]: "regdom_DO = \<lparr>alpha2 = ''DO'', dfs_region = NL80211_DFS_FCC,
     reg_rules = [
       REG_RULE_EXT 2402 2472 40 0 30 0 0,
       REG_RULE_EXT 5170 5250 80 0 17 0 (SKW_RRF_AUTO_BW OR 0),
       REG_RULE_EXT 5250 5330 80 0 23 0 (SKW_RRF_DFS OR SKW_RRF_AUTO_BW OR 0),
       REG_RULE_EXT 5735 5835 80 0 30 0 0,
       REG_RULE_EXT 5925 7125 320 0 15 0 (SKW_RRF_NO_OUTDOOR OR 0)],
     n_reg_rules = 5\<rparr>"

definition regdom_DZ :: regdomain where
  [regdoms]: "regdom_DZ = \<lparr>alpha2 = ''DZ'', dfs_region = NL80211_DFS_JP,
     reg_rules = [
       REG_RULE_EXT 2402 2482 40 0 20 0 0,
       REG_RULE_EXT 5170 5250 80 0 23 0 (SKW_RRF_AUTO_BW OR 0),
       REG_RULE_EXT 5250 5330 80 0 23 0 (SKW_RRF_DFS OR SKW_RRF_AUTO_BW OR 0),
       REG_RULE_EXT 5490 5670 160 0 23 0 (SKW_RRF_DFS OR 0)],
     n_reg_rules = 4\<rparr>"

definition regdom_EC :: regdomain where
  [regdoms]: "regdom_EC = \<lparr>alpha2 = ''EC'', dfs_region = NL80211_DFS_FCC,
     reg_rules = [
       REG_RULE_EXT 2400 2483 40 0 30 0 0,
       REG_RULE_EXT 5150 5250 80 0 17 0 (SKW_RRF_AUTO_BW OR SKW_RRF_DFS OR 0),
       REG_RULE_EXT 5250 5350 80 0 21 0 (SKW_RRF_AUTO_BW OR SKW_RRF_DFS OR 0),
       REG_RULE_EXT 5470 5725 160 0 21 0 (SKW_RRF_DFS OR 0),
       REG_RULE_EXT 5725 5850 80 0 30 0 0],
     n_reg_rules = 5\<rparr>"

definition regdom_EE :: regdomain where
  [regdoms]: "regdom_EE = \<lparr>alpha2 = ''EE'', dfs_region = NL80211_DFS_ETSI,
     reg_rules = [
       REG_RULE_EXT 2400 2483 40 0 20 0 0,
       REG_RULE_EXT 5150 5250 80 0 23 0 (SKW_RRF_NO_OUTDOOR OR SKW_RRF_AUTO_BW OR 0),
       REG_RULE_EXT 5250 5350 80 0 20 0 (SKW_RRF_NO_OUTDOOR OR SKW_RRF_DFS OR SKW_RRF_AUTO_BW OR 0),
       REG_RULE_EXT 5470 5725 160 0 27 0 (SKW_RRF_DFS OR 0),
       REG_RULE_EXT 5725 5875 80 0 14 0 0,
       REG_RULE_EXT 5945 6425 160 0 23 0 (SKW_RRF_NO_OUTDOOR OR 0),
       REG_RULE_EXT 57000 66000 2160 0 40 0 0],
     n_reg_rules = 7\<rparr>"

definition regdom_EG :: regdomain where
  [regdoms]: "regdom_EG = \<lparr>alpha2 = ''EG'', dfs_region = NL80211_DFS_ETSI,
     reg_rules = [
       REG_RULE_EXT 2402 2483 40 0 20 0 0,
       REG_RULE_EXT 5150 5250 80 0 23 0 (SKW_RRF_AUTO_BW OR 0),
       REG_RULE_EXT 5250 5350 80 0 20 0 (SKW_RRF_DFS OR SKW_RRF_AUTO_BW OR 0),
       REG_RULE_EXT 57000 66000 2160 0 40 0 0],
     n_reg_rules = 4\<rparr>"

definition regdom_ES :: regdomain where
  [regdoms]: "regdom_ES = \<lparr>alpha2 = ''ES'', dfs_region = NL80211_DFS_ETSI,
     reg_rules = [
       REG_RULE_EXT 2400 2483 40 0 20 0 0,
       REG_RULE_EXT 5150 5250 80 0 23 0 (SKW_RRF_NO_OUTDOOR OR SKW_RRF_AUTO_BW OR 0),
       REG_RULE_EXT 5250 5350 80 0 20 0 (SKW_RRF_NO_OUTDOOR OR SKW_RRF_DFS OR SKW_RRF_AUTO_BW OR 0),
       REG_RULE_EXT 5470 5725 160 0 27 0 (SKW_RRF_DFS OR 0),
       REG_RULE_EXT 5725 5875 80 0 14 0 0,
       REG_RULE_EXT 5945 6425 160 0 23 0 (SKW_RRF_NO_OUTDOOR OR 0),
       REG_RULE_EXT 57000 66000 2160 0 40 0 0],
     n_reg_rules = 7\<rparr>"

definition regdom_ET :: regdomain where
  [regdoms]: "regdom_ET = \<lparr>alpha2 = ''ET'', dfs_region = NL80211_DFS_ETSI,
     reg_rules = [
       REG_RULE_EXT 2402 2482 40 0 20 0 0,
       REG_RULE_EXT 5170 5250 80 0 20 0 (SKW_RRF_AUTO_BW OR 0),
       REG_RULE_EXT 5250 5330 80 0 20 0 (SKW_RRF_DFS OR SKW_RRF_AUTO_BW OR 0),
       REG_RULE_EXT 5490 5710 160 0 27 0 (SKW_RRF_DFS OR 0)],
     n_reg_rules = 4\<rparr>"

definition regdom_FI :: regdomain where
  [regdoms]: "regdom_FI = \<lparr>alpha2 = ''FI'', dfs_region = NL80211_DFS_ETSI,
     reg_rules = [
       REG_RULE_EXT 2400 2483 40 0 20 0 0,
       REG_RULE_EXT 5150 5250 80 0 23 0 (SKW_RRF_NO_OUTDOOR OR SKW_RRF_AUTO_BW OR 0),
       REG_RULE_EXT 5250 5350 80 0 20 0 (SKW_RRF_NO_OUTDOOR OR SKW_RRF_DFS OR SKW_RRF_AUTO_BW OR 0),
       REG_RULE_EXT 5470 5725 160 0 27 0 (SKW_RRF_DFS OR 0),
       REG_RULE_EXT 5725 5875 80 0 14 0 0,
       REG_RULE_EXT 5945 6425 160 0 23 0 (SKW_RRF_NO_OUTDOOR OR 0),
       REG_RULE_EXT 57000 66000 2160 0 40 0 0],
     n_reg_rules = 7\<rparr>"

definition regdom_FM :: regdomain where
  [regdoms]: "regdom_FM = \<lparr>alpha2 = ''FM'', dfs_region = NL80211_DFS_FCC,
     reg_rules = [
       REG_RULE_EXT 2402 2472 40 0 30 0 0,
       REG_RULE_EXT 5170 5250 80 0 24 0 (SKW_RRF_AUTO_BW OR 0),
       REG_RULE_EXT 5250 5330 80 0 24 0 (SKW_RRF_DFS OR SKW_RRF_AUTO_BW OR 0),
       REG_RULE_EXT 5490 5730 160 0 24 0 (SKW_RRF_DFS OR 0),
       REG_RULE_EXT 5735 5835 80 0 30 0 0],
     n_reg_rules = 5\<rparr>"

definition regdom_FR :: regdomain where
  [regdoms]: "regdom_FR = \<lparr>alpha2 = ''FR'', dfs_region = NL80211_DFS_ETSI,
     reg_rules = [
       REG_RULE_EXT 2400 2483 40 0 20 0 0,
       REG_RULE_EXT 5150 5250 80 0 23 0 (SKW_RRF_NO_OUTDOOR OR SKW_RRF_AUTO_BW OR 0),
       REG_RULE_EXT 5250 5350 80 0 20 0 (SKW_RRF_NO_OUTDOOR OR SKW_RRF_DFS OR SKW_RRF_AUTO_BW OR 0),
       REG_RULE_EXT 5470 5725 160 0 27 0 (SKW_RRF_DFS OR 0),
       REG_RULE_EXT 5725 5875 80 0 14 0 0,
       REG_RULE_EXT 5945 6425 160 0 23 0 (SKW_RRF_NO_OUTDOOR OR 0),
       REG_RULE_EXT 57000 71000 2160 0 40 0 0],
     n_reg_rules = 7\<rparr>"

definition regdom_GB :: regdomain where
  [regdoms]: "regdom_GB = \<lparr>alpha2 = ''GB'', dfs_region = NL80211_DFS_ETSI,
     reg_rules = [
       REG_RULE_EXT 2400 2483 40 0 20 0 0,
       REG_RULE_EXT 5150 5250 80 0 23 0 (SKW_RRF_NO_OUTDOOR OR SKW_RRF_AUTO_BW OR 0),
       REG_RULE_EXT 5250 5350 80 0 20 0 (SKW_RRF_NO_OUTDOOR OR SKW_RRF_DFS OR SKW_RRF_AUTO_BW OR 0),
       REG_RULE_EXT 5470 5730 160 0 27 0 (SKW_RRF_DFS OR 0),
       REG_RULE_EXT 5725 5850 80 0 23 0 (SKW_RRF_NO_OUTDOOR OR 0),
       REG_RULE_EXT 5925 6425 160 0 24 0 (SKW_RRF_NO_OUTDOOR OR 0),
       REG_RULE_EXT 57000 71000 2160 0 40 0 0],
     n_reg_rules = 7\<rparr>"

definition regdom_GD :: regdomain where
  [regdoms]: "regdom_GD = \<lparr>alpha2 = ''GD'', dfs_region = NL80211_DFS_FCC,
     reg_rules = [
       REG_RULE_EXT 2402 2472 40 0 30 0 0,
       REG_RULE_EXT 5170 5250 80 0 17 0 (SKW_RRF_AUTO_BW OR 0),
       REG_RULE_EXT 5250 5330 80 0 24 0 (SKW_RRF_DFS OR SKW_RRF_AUTO_BW OR 0),
       REG_RULE_EXT 5490 5730 160 0 24 0 (SKW_RRF_DFS OR 0),
       REG_RULE_EXT 5735 5835 80 0 30 0 0],
     n_reg_rules = 5\<rparr>"

definition regdom_GE :: regdomain where
  [regdoms]: "regdom_GE = \<lparr>alpha2 = ''GE'', dfs_region = NL80211_DFS_ETSI,
     reg_rules = [
       REG_RULE_EXT 2402 2482 40 0 20 0 0,
       REG_RULE_EXT 5170 5250 80 0 18 0 (SKW_RRF_AUTO_BW OR 0),
       REG_RULE_EXT 5250 5330 80 0 18 0 (SKW_RRF_DFS OR SKW_RRF_AUTO_BW OR 0),
       REG_RULE_EXT 57000 66000 2160 0 40 0 0],
     n_reg_rules = 4\<rparr>"

definition regdom_GF :: regdomain where
  [regdoms]: "regdom_GF = \<lparr>alpha2 = ''GF'', dfs_region = NL80211_DFS_ETSI,
     reg_rules = [
       REG_RULE_EXT 2402 2482 40 0 20 0 0,
       REG_RULE_EXT 5170 5250 80 0 20 0 (SKW_RRF_AUTO_BW OR 0),
       REG_RULE_EXT 5250 5330 80 0 20 0 (SKW_RRF_DFS OR SKW_RRF_AUTO_BW OR 0),
       REG_RULE_EXT 5490 5710 160 0 27 0 (SKW_RRF_DFS OR 0)],
     n_reg_rules = 4\<rparr>"

definition regdom_GH :: regdomain where
  [regdoms]: "regdom_GH = \<lparr>alpha2 = ''GH'', dfs_region = NL80211_DFS_FCC,
     reg_rules = [
       REG_RULE_EXT 2402 2482 40 0 20 0 0,
       REG_RULE_EXT 5170 5250 80 0 17 0 (SKW_RRF_AUTO_BW OR 0),
       REG_RULE_EXT 5250 5330 80 0 24 0 (SKW_RRF_DFS OR SKW_RRF_AUTO_BW OR 0),
       REG_RULE_EXT 5490 5730 160 0 24 0 (SKW_RRF_DFS OR 0),
       REG_RULE_EXT 5735 5835 80 0 30 0 0],
     n_reg_rules = 5\<rparr>"

definition regdom_GL :: regdomain where
  [regdoms]: "regdom_GL = \<lparr>alpha2 = ''GL'', dfs_region = NL80211_DFS_ETSI,
     reg_rules = [
       REG_RULE_EXT 2402 2482 40 0 20 0 0,
       REG_RULE_EXT 5170 5250 80 0 20 0 (SKW_RRF_AUTO_BW OR 0),
       REG_RULE_EXT 5250 5330 80 0 20 0 (SKW_RRF_DFS OR SKW_RRF_AUTO_BW OR 0),
       REG_RULE_EXT 5490 5710 160 0 27 0 (SKW_RRF_DFS OR 0)],
     n_reg_rules = 4\<rparr>"

definition regdom_GP :: regdomain where
  [regdoms]: "regdom_GP = \<lparr>alpha2 = ''GP'', dfs_region = NL80211_DFS_ETSI,
     reg_rules = [
       REG_RULE_EXT 2402 2482 40 0 20 0 0,
       REG_RULE_EXT 5170 5250 80 0 20 0 (SKW_RRF_AUTO_BW OR 0),
       REG_RULE_EXT 5250 5330 80 0 20 0 (SKW_RRF_DFS OR SKW_RRF_AUTO_BW OR 0),
       REG_RULE_EXT 5490 5710 160 0 27 0 (SKW_RRF_DFS OR 0)],
     n_reg_rules = 4\<rparr>"

definition regdom_GR :: regdomain where
  [regdoms]: "regdom_GR = \<lparr>alpha2 = ''GR'', dfs_region = NL80211_DFS_ETSI,
     reg_rules = [
       REG_RULE_EXT 2400 2483 40 0 20 0 0,
       REG_RULE_EXT 5150 5250 80 0 23 0 (SKW_RRF_NO_OUTDOOR OR SKW_RRF_AUTO_BW OR 0),
       REG_RULE_EXT 5250 5350 80 0 20 0 (SKW_RRF_NO_OUTDOOR OR SKW_RRF_DFS OR SKW_RRF_AUTO_BW OR 0),
       REG_RULE_EXT 5470 5725 160 0 27 0 (SKW_RRF_DFS OR 0),
       REG_RULE_EXT 5725 5875 80 0 14 0 0,
       REG_RULE_EXT 5945 6425 160 0 23 0 (SKW_RRF_NO_OUTDOOR OR 0),
       REG_RULE_EXT 57000 66000 2160 0 40 0 0],
     n_reg_rules = 7\<rparr>"

definition regdom_GT :: regdomain where
  [regdoms]: "regdom_GT = \<lparr>alpha2 = ''GT'', dfs_region = NL80211_DFS_UNSET,
     reg_rules = [
       REG_RULE_EXT 2400 2483 40 0 27 0 0,
       REG_RULE_EXT 5150 5350 80 0 23 0 (SKW_RRF_NO_OUTDOOR OR 0),
       REG_RULE_EXT 5470 5725 160 0 24 0 (SKW_RRF_NO_OUTDOOR OR 0),
       REG_RULE_EXT 5725 5850 160 0 27 0 (SKW_RRF_NO_OUTDOOR OR 0),
       REG_RULE_EXT 5925 6425 320 0 23 0 (SKW_RRF_NO_OUTDOOR OR SKW_RRF_AUTO_BW OR 0),
       REG_RULE_EXT 6425 6525 320 0 23 0 (SKW_RRF_NO_OUTDOOR OR SKW_RRF_AUTO_BW OR 0),
       REG_RULE_EXT 6525 6875 320 0 22 0 (SKW_RRF_NO_OUTDOOR OR SKW_RRF_AUTO_BW OR 0),
       REG_RULE_EXT 6875 7125 320 0 22 0 (SKW_RRF_NO_OUTDOOR OR SKW_RRF_AUTO_BW OR 0),
       REG_RULE_EXT 57000 66000 2160 0 13 0 (SKW_RRF_NO_OUTDOOR OR 0)],
     n_reg_rules = 9\<rparr>"

definition regdom_GU :: regdomain where
  [regdoms]: "regdom_GU = \<lparr>alpha2 = ''GU'', dfs_region = NL80211_DFS_FCC,
     reg_rules = [
       REG_RULE_EXT 2402 2472 40 0 30 0 0,
       REG_RULE_EXT 5170 5250 20 0 17 0 0,
       REG_RULE_EXT 5250 5330 20 0 24 0 (SKW_RRF_DFS OR 0),
       REG_RULE_EXT 5490 5730 20 0 24 0 (SKW_RRF_DFS OR 0),
       REG_RULE_EXT 5735 5835 20 0 30 0 0],
     n_reg_rules = 5\<rparr>"

definition regdom_GY :: regdomain where
  [regdoms]: "regdom_GY = \<lparr>alpha2 = ''GY'', dfs_region = NL80211_DFS_UNSET,
     reg_rules = [
       REG_RULE_EXT 2402 2482 40 0 30 0 0,
       REG_RULE_EXT 5170 5250 80 0 23 0 (SKW_RRF_AUTO_BW OR 0),
       REG_RULE_EXT 5250 5330 80 0 23 0 (SKW_RRF_DFS OR SKW_RRF_AUTO_BW OR 0),
       REG_RULE_EXT 5490 5730 160 0 23 0 (SKW_RRF_DFS OR 0),
       REG_RULE_EXT 5735 5835 80 0 30 0 0],
     n_reg_rules = 5\<rparr>"

definition regdom_HK :: regdomain where
  [regdoms]: "regdom_HK = \<lparr>alpha2 = ''HK'', dfs_region = NL80211_DFS_ETSI,
     reg_rules = [
       REG_RULE_EXT 2400 2483 40 0 36 0 0,
       REG_RULE_EXT 5150 5250 80 0 23 0 (SKW_RRF_AUTO_BW OR SKW_RRF_NO_OUTDOOR OR 0),
       REG_RULE_EXT 5250 5350 80 0 23 0 (SKW_RRF_DFS OR SKW_RRF_AUTO_BW OR SKW_RRF_NO_OUTDOOR OR 0),
       REG_RULE_EXT 5470 5730 160 0 27 0 (SKW_RRF_DFS OR 0),
       REG_RULE_EXT 5730 5850 80 0 36 0 0,
       REG_RULE_EXT 5925 6425 160 0 14 0 0],
     n_reg_rules = 6\<rparr>"

definition regdom_HN :: regdomain where
  [regdoms]: "regdom_HN = \<lparr>alpha2 = ''HN'', dfs_region = NL80211_DFS_FCC,
     reg_rules = [
       REG_RULE_EXT 2402 2482 40 0 20 0 0,
       REG_RULE_EXT 5170 5250 80 0 17 0 (SKW_RRF_AUTO_BW OR 0),
       REG_RULE_EXT 5250 5330 80 0 24 0 (SKW_RRF_DFS OR SKW_RRF_AUTO_BW OR 0),
       REG_RULE_EXT 5490 5730 160 0 24 0 (SKW_RRF_DFS OR 0),
       REG_RULE_EXT 5735 5835 80 0 30 0 0,
       REG_RULE_EXT 5925 6425 320 0 12 0 (SKW_RRF_NO_OUTDOOR OR SKW_RRF_NO_IR OR 0),
       REG_RULE_EXT 57240 71000 2160 0 40 0 0],
     n_reg_rules = 7\<rparr>"

definition regdom_HR :: regdomain where
  [regdoms]: "regdom_HR = \<lparr>alpha2 = ''HR'', dfs_region = NL80211_DFS_ETSI,
     reg_rules = [
       REG_RULE_EXT 2400 2483 40 0 20 0 0,
       REG_RULE_EXT 5150 5250 80 0 23 0 (SKW_RRF_AUTO_BW OR 0),
       REG_RULE_EXT 5250 5350 80 0 23 0 (SKW_RRF_DFS OR SKW_RRF_AUTO_BW OR 0),
       REG_RULE_EXT 5470 5725 160 0 27 0 (SKW_RRF_DFS OR 0),
       REG_RULE_EXT 5725 5875 80 0 14 0 0,
       REG_RULE_EXT 5945 6425 160 0 23 0 (SKW_RRF_NO_OUTDOOR OR 0),
       REG_RULE_EXT 57000 66000 2160 0 40 0 0],
     n_reg_rules = 7\<rparr>"

definition regdom_HT :: regdomain where
  [regdoms]: "regdom_HT = \<lparr>alpha2 = ''HT'', dfs_region = NL80211_DFS_FCC,
     reg_rules = [
       REG_RULE_EXT 2402 2472 40 0 30 0 0,
       REG_RULE_EXT 5170 5250 80 0 24 0 (SKW_RRF_AUTO_BW OR 0),
       REG_RULE_EXT 5250 5330 80 0 24 0 (SKW_RRF_DFS OR SKW_RRF_AUTO_BW OR 0),
       REG_RULE_EXT 5490 5730 160 0 24 0 (SKW_RRF_DFS OR 0),
       REG_RULE_EXT 5735 5835 80 0 30 0 0],
     n_reg_rules = 5\<rparr>"

definition regdom_HU :: regdomain where
  [regdoms]: "regdom_HU = \<lparr>alpha2 = ''HU'', dfs_region = NL80211_DFS_ETSI,
     reg_rules = [
       REG_RULE_EXT 2400 2483 40 0 20 0 0,
       REG_RULE_EXT 5150 5250 80 0 23 0 (SKW_RRF_NO_OUTDOOR OR SKW_RRF_AUTO_BW OR 0),
       REG_RULE_EXT 5250 5350 80 0 20 0 (SKW_RRF_NO_OUTDOOR OR SKW_RRF_DFS OR SKW_RRF_AUTO_BW OR 0),
       REG_RULE_EXT 5470 5725 160 0 27 0 (SKW_RRF_DFS OR 0),
       REG_RULE_EXT 5725 5875 80 0 14 0 0,
       REG_RULE_EXT 5945 6425 160 0 23 0 (SKW_RRF_NO_OUTDOOR OR 0),
       REG_RULE_EXT 57000 66000 2160 0 40 0 0],
     n_reg_rules = 7\<rparr>"

definition regdom_ID :: regdomain where
  [regdoms]: "regdom_ID = \<lparr>alpha2 = ''ID'', dfs_region = NL80211_DFS_JP,
     reg_rules = [
       REG_RULE_EXT 2400 2483 40 0 27 0 (SKW_RRF_NO_OUTDOOR OR 0),
       REG_RULE_EXT 5150 5350 80 0 23 0 (SKW_RRF_NO_OUTDOOR OR 0),
       REG_RULE_EXT 5725 5825 80 0 23 0 (SKW_RRF_NO_OUTDOOR OR 0)],
     n_reg_rules = 3\<rparr>"

definition regdom_IE :: regdomain where
  [regdoms]: "regdom_IE = \<lparr>alpha2 = ''IE'', dfs_region = NL80211_DFS_ETSI,
     reg_rules = [
       REG_RULE_EXT 2400 2483 40 0 20 0 0,
       REG_RULE_EXT 5150 5250 80 0 23 0 (SKW_RRF_NO_OUTDOOR OR SKW_RRF_AUTO_BW OR 0),
       REG_RULE_EXT 5250 5350 80 0 20 0 (SKW_RRF_NO_OUTDOOR OR SKW_RRF_DFS OR SKW_RRF_AUTO_BW OR 0),
       REG_RULE_EXT 5470 5725 160 0 27 0 (SKW_RRF_DFS OR 0),
       REG_RULE_EXT 5725 5875 80 0 14 0 0,
       REG_RULE_EXT 5945 6425 160 0 23 0 (SKW_RRF_NO_OUTDOOR OR 0),
       REG_RULE_EXT 57000 66000 2160 0 40 0 0],
     n_reg_rules = 7\<rparr>"

definition regdom_IL :: regdomain where
  [regdoms]: "regdom_IL = \<lparr>alpha2 = ''IL'', dfs_region = NL80211_DFS_ETSI,
     reg_rules = [
       REG_RULE_EXT 2400 2483 40 0 20 0 0,
       REG_RULE_EXT 5150 5250 80 0 23 0 (SKW_RRF_NO_OUTDOOR OR SKW_RRF_AUTO_BW OR 0),
       REG_RULE_EXT 5250 5350 80 0 20 0 (SKW_RRF_NO_OUTDOOR OR SKW_RRF_DFS OR SKW_RRF_AUTO_BW OR 0),
       REG_RULE_EXT 5470 5725 160 0 27 0 (SKW_RRF_NO_OUTDOOR OR SKW_RRF_DFS OR SKW_RRF_AUTO_BW OR 0),
       REG_RULE_EXT 5725 5875 80 0 14 0 (SKW_RRF_AUTO_BW OR 0),
       REG_RULE_EXT 5945 6425 320 0 23 0 (SKW_RRF_NO_OUTDOOR OR 0)],
     n_reg_rules = 6\<rparr>"

definition regdom_IN :: regdomain where
  [regdoms]: "regdom_IN = \<lparr>alpha2 = ''IN'', dfs_region = NL80211_DFS_UNSET,
     reg_rules = [
       REG_RULE_EXT 2402 2482 40 0 30 0 0,
       REG_RULE_EXT 5150 5250 80 0 30 0 0,
       REG_RULE_EXT 5250 5350 80 0 24 0 (SKW_RRF_DFS OR 0),
       REG_RULE_EXT 5470 5725 160 0 24 0 (SKW_RRF_DFS OR 0),
       REG_RULE_EXT 5725 5875 80 0 30 0 0],
     n_reg_rules = 5\<rparr>"

definition regdom_IR :: regdomain where
  [regdoms]: "regdom_IR = \<lparr>alpha2 = ''IR'', dfs_region = NL80211_DFS_JP,
     reg_rules = [
       REG_RULE_EXT 2402 2482 40 0 20 0 0,
       REG_RULE_EXT 5735 5835 80 0 30 0 0],
     n_reg_rules = 2\<rparr>"

definition regdom_IS :: regdomain where
  [regdoms]: "regdom_IS = \<lparr>alpha2 = ''IS'', dfs_region = NL80211_DFS_ETSI,
     reg_rules = [
       REG_RULE_EXT 2400 2483 40 0 20 0 0,
       REG_RULE_EXT 5150 5250 80 0 23 0 (SKW_RRF_NO_OUTDOOR OR SKW_RRF_AUTO_BW OR 0),
       REG_RULE_EXT 5250 5350 80 0 20 0 (SKW_RRF_NO_OUTDOOR OR SKW_RRF_DFS OR SKW_RRF_AUTO_BW OR 0),
       REG_RULE_EXT 5470 5725 160 0 27 0 (SKW_RRF_DFS OR 0),
       REG_RULE_EXT 5725 5875 80 0 14 0 0,
       REG_RULE_EXT 5945 6425 320 0 23 0 (SKW_RRF_NO_OUTDOOR OR 0),
       REG_RULE_EXT 57000 66000 2160 0 40 0 0],
     n_reg_rules = 7\<rparr>"

definition regdom_IT :: regdomain where
  [regdoms]: "regdom_IT = \<lparr>alpha2 = ''IT'', dfs_region = NL80211_DFS_ETSI,
     reg_rules = [
       REG_RULE_EXT 2400 2483 40 0 20 0 0,
       REG_RULE_EXT 5150 5250 80 0 23 0 (SKW_RRF_NO_OUTDOOR OR SKW_RRF_AUTO_BW OR 0),
       REG_RULE_EXT 5250 5350 80 0 20 0 (SKW_RRF_NO_OUTDOOR OR SKW_RRF_DFS OR SKW_RRF_AUTO_BW OR 0),
       REG_RULE_EXT 5470 5725 160 0 27 0 (SKW_RRF_DFS OR 0),
       REG_RULE_EXT 5725 5875 80 0 14 0 0,
       REG_RULE_EXT 5945 6425 160 0 23 0 (SKW_RRF_NO_OUTDOOR OR 0),
       REG_RULE_EXT 57000 66000 2160 0 40 0 0],
     n_reg_rules = 7\<rparr>"

definition regdom_JM :: regdomain where
  [regdoms]: "regdom_JM = \<lparr>alpha2 = ''JM'', dfs_region = NL80211_DFS_FCC,
     reg_rules = [
       REG_RULE_EXT 2402 2482 40 0 20 0 0,
       REG_RULE_EXT 5170 5250 80 0 17 0 (SKW_RRF_AUTO_BW OR 0),
       REG_RULE_EXT 5250 5330 80 0 24 0 (SKW_RRF_DFS OR SKW_RRF_AUTO_BW OR 0),
       REG_RULE_EXT 5490 5730 160 0 24 0 (SKW_RRF_DFS OR 0),
       REG_RULE_EXT 5735 5835 80 0 30 0 0],
     n_reg_rules = 5\<rparr>"

definition regdom_JO :: regdomain where
  [regdoms]: "regdom_JO = \<lparr>alpha2 = ''JO'', dfs_region = NL80211_DFS_ETSI,
     reg_rules = [
       REG_RULE_EXT 2400 2483 40 0 20 0 0,
       REG_RULE_EXT 5150 5250 80 0 23 0 (SKW_RRF_AUTO_BW OR 0),
       REG_RULE_EXT 5250 5350 80 0 23 0 (SKW_RRF_DFS OR SKW_RRF_AUTO_BW OR 0),
       REG_RULE_EXT 5470 5725 80 0 27 0 (SKW_RRF_DFS OR SKW_RRF_NO_OUTDOOR OR 0),
       REG_RULE_EXT 5725 5875 80 0 23 0 (SKW_RRF_NO_OUTDOOR OR 0),
       REG_RULE_EXT 5925 6425 320 0 23 0 (SKW_RRF_NO_OUTDOOR OR 0),
       REG_RULE_EXT 57000 71000 2160 0 40 0 0],
     n_reg_rules = 7\<rparr>"

definition regdom_JP :: regdomain where
  [regdoms]: "regdom_JP = \<lparr>alpha2 = ''JP'', dfs_region = NL80211_DFS_JP,
     reg_rules = [
       REG_RULE_EXT 2402 2482 40 0 20 0 0,
       REG_RULE_EXT 2474 2494 20 0 20 0 (SKW_RRF_NO_OFDM OR 0),
       REG_RULE_EXT 4910 4990 40 0 23 0 0,
       REG_RULE_EXT 5170 5250 80 0 20 0 (SKW_RRF_AUTO_BW OR 0),
       REG_RULE_EXT 5250 5330 80 0 20 0 (SKW_RRF_DFS OR SKW_RRF_AUTO_BW OR 0),
       REG_RULE_EXT 5490 5730 160 0 23 0 (SKW_RRF_DFS OR 0),
       REG_RULE_EXT 5925 6425 320 0 23 0 (SKW_RRF_NO_OUTDOOR OR 0),
       REG_RULE_EXT 57000 66000 2160 0 10 0 0],
     n_reg_rules = 8\<rparr>"

definition regdom_KE :: regdomain where
  [regdoms]: "regdom_KE = \<lparr>alpha2 = ''KE'', dfs_region = NL80211_DFS_ETSI,
     reg_rules = [
       REG_RULE_EXT 2400 2483 40 0 33 0 0,
       REG_RULE_EXT 5150 5250 80 0 17 0 (SKW_RRF_AUTO_BW OR 0),
       REG_RULE_EXT 5250 5350 80 0 17 0 (SKW_RRF_DFS OR SKW_RRF_AUTO_BW OR 0),
       REG_RULE_EXT 5470 5725 80 0 24 0 (SKW_RRF_DFS OR 0),
       REG_RULE_EXT 5725 5875 40 0 24 0 (SKW_RRF_DFS OR 0),
       REG_RULE_EXT 5925 6425 320 0 23 0 (SKW_RRF_NO_OUTDOOR OR 0)],
     n_reg_rules = 6\<rparr>"

definition regdom_KH :: regdomain where
  [regdoms]: "regdom_KH = \<lparr>alpha2 = ''KH'', dfs_region = NL80211_DFS_ETSI,
     reg_rules = [
       REG_RULE_EXT 2402 2482 40 0 20 0 0,
       REG_RULE_EXT 5170 5250 80 0 20 0 (SKW_RRF_AUTO_BW OR 0),
       REG_RULE_EXT 5250 5330 80 0 20 0 (SKW_RRF_DFS OR SKW_RRF_AUTO_BW OR 0),
       REG_RULE_EXT 5490 5710 160 0 27 0 (SKW_RRF_DFS OR 0)],
     n_reg_rules = 4\<rparr>"

definition regdom_KN :: regdomain where
  [regdoms]: "regdom_KN = \<lparr>alpha2 = ''KN'', dfs_region = NL80211_DFS_ETSI,
     reg_rules = [
       REG_RULE_EXT 2402 2482 40 0 20 0 0,
       REG_RULE_EXT 5170 5250 80 0 20 0 (SKW_RRF_AUTO_BW OR 0),
       REG_RULE_EXT 5250 5330 80 0 20 0 (SKW_RRF_DFS OR SKW_RRF_AUTO_BW OR 0),
       REG_RULE_EXT 5490 5710 160 0 30 0 (SKW_RRF_DFS OR 0),
       REG_RULE_EXT 5735 5815 80 0 30 0 0],
     n_reg_rules = 5\<rparr>"

definition regdom_KP :: regdomain where
  [regdoms]: "regdom_KP = \<lparr>alpha2 = ''KP'', dfs_region = NL80211_DFS_JP,
     reg_rules = [
       REG_RULE_EXT 2402 2482 20 0 20 0 0,
       REG_RULE_EXT 5170 5250 20 0 20 0 0,
       REG_RULE_EXT 5250 5330 20 0 20 0 (SKW_RRF_DFS OR 0),
       REG_RULE_EXT 5490 5630 20 0 30 0 (SKW_RRF_DFS OR 0),
       REG_RULE_EXT 5735 5815 20 0 30 0 0],
     n_reg_rules = 5\<rparr>"

definition regdom_KR :: regdomain where
  [regdoms]: "regdom_KR = \<lparr>alpha2 = ''KR'', dfs_region = NL80211_DFS_JP,
     reg_rules = [
       REG_RULE_EXT 2400 2483 40 0 23 0 0,
       REG_RULE_EXT 5150 5230 40 0 23 0 (SKW_RRF_AUTO_BW OR 0),
       REG_RULE_EXT 5230 5250 20 0 17 0 (SKW_RRF_AUTO_BW OR 0),
       REG_RULE_EXT 5250 5350 80 0 20 0 (SKW_RRF_DFS OR SKW_RRF_AUTO_BW OR 0),
       REG_RULE_EXT 5470 5725 160 0 20 0 (SKW_RRF_DFS OR 0),
       REG_RULE_EXT 5725 5850 80 0 23 0 0,
       REG_RULE_EXT 5925 7125 160 0 15 0 (SKW_RRF_NO_OUTDOOR OR 0),
       REG_RULE_EXT 57000 66000 2160 0 43 0 0],
     n_reg_rules = 8\<rparr>"

definition regdom_KW :: regdomain where
  [regdoms]: "regdom_KW = \<lparr>alpha2 = ''KW'', dfs_region = NL80211_DFS_ETSI,
     reg_rules = [
       REG_RULE_EXT 2400 2483 40 0 20 0 0,
       REG_RULE_EXT 5170 5250 80 0 23 0 (SKW_RRF_AUTO_BW OR 0),
       REG_RULE_EXT 5250 5350 80 0 17 0 (SKW_RRF_DFS OR SKW_RRF_AUTO_BW OR 0),
       REG_RULE_EXT 5470 5825 160 0 24 0 (SKW_RRF_DFS OR 0),
       REG_RULE_EXT 5925 6425 320 0 23 0 (SKW_RRF_NO_OUTDOOR OR 0)],
     n_reg_rules = 5\<rparr>"

definition regdom_KY :: regdomain where
  [regdoms]: "regdom_KY = \<lparr>alpha2 = ''KY'', dfs_region = NL80211_DFS_FCC,
     reg_rules = [
       REG_RULE_EXT 2402 2482 40 0 20 0 0,
       REG_RULE_EXT 5170 5250 80 0 24 0 (SKW_RRF_AUTO_BW OR 0),
       REG_RULE_EXT 5250 5330 80 0 24 0 (SKW_RRF_DFS OR SKW_RRF_AUTO_BW OR 0),
       REG_RULE_EXT 5490 5730 160 0 24 0 (SKW_RRF_DFS OR 0),
       REG_RULE_EXT 5735 5835 80 0 30 0 0],
     n_reg_rules = 5\<rparr>"

definition regdom_KZ :: regdomain where
  [regdoms]: "regdom_KZ = \<lparr>alpha2 = ''KZ'', dfs_region = NL80211_DFS_ETSI,
     reg_rules = [
       REG_RULE_EXT 2400 2483 40 0 20 0 0,
       REG_RULE_EXT 5150 5250 80 0 23 0 (SKW_RRF_NO_OUTDOOR OR SKW_RRF_AUTO_BW OR 0),
       REG_RULE_EXT 5250 5350 80 0 20 0 (SKW_RRF_NO_OUTDOOR OR SKW_RRF_DFS OR SKW_RRF_AUTO_BW OR 0),
       REG_RULE_EXT 5470 5725 160 0 20 0 (SKW_RRF_NO_OUTDOOR OR SKW_RRF_DFS OR 0),
       REG_RULE_EXT 5725 5850 80 0 20 0 (SKW_RRF_NO_OUTDOOR OR 0),
       REG_RULE_EXT 57000 66000 2160 0 40 0 0],
     n_reg_rules = 6\<rparr>"

definition regdom_LB :: regdomain where
  [regdoms]: "regdom_LB = \<lparr>alpha2 = ''LB'', dfs_region = NL80211_DFS_FCC,
     reg_rules = [
       REG_RULE_EXT 2402 2482 40 0 20 0 0,
       REG_RULE_EXT 5170 5250 80 0 17 0 (SKW_RRF_AUTO_BW OR 0),
       REG_RULE_EXT 5250 5330 80 0 24 0 (SKW_RRF_DFS OR SKW_RRF_AUTO_BW OR 0),
       REG_RULE_EXT 5490 5730 160 0 24 0 (SKW_RRF_DFS OR 0),
       REG_RULE_EXT 5735 5835 80 0 30 0 0],
     n_reg_rules = 5\<rparr>"

definition regdom_LC :: regdomain where
  [regdoms]: "regdom_LC = \<lparr>alpha2 = ''LC'', dfs_region = NL80211_DFS_ETSI,
     reg_rules = [
       REG_RULE_EXT 2402 2482 40 0 20 0 0,
       REG_RULE_EXT 5170 5250 80 0 20 0 (SKW_RRF_AUTO_BW OR 0),
       REG_RULE_EXT 5250 5330 80 0 20 0 (SKW_RRF_DFS OR SKW_RRF_AUTO_BW OR 0),
       REG_RULE_EXT 5490 5710 160 0 30 0 (SKW_RRF_DFS OR 0),
       REG_RULE_EXT 5735 5815 80 0 30 0 0],
     n_reg_rules = 5\<rparr>"

definition regdom_LI :: regdomain where
  [regdoms]: "regdom_LI = \<lparr>alpha2 = ''LI'', dfs_region = NL80211_DFS_ETSI,
     reg_rules = [
       REG_RULE_EXT 2400 2483 40 0 20 0 0,
       REG_RULE_EXT 5150 5250 80 0 23 0 (SKW_RRF_NO_OUTDOOR OR SKW_RRF_AUTO_BW OR 0),
       REG_RULE_EXT 5250 5350 80 0 20 0 (SKW_RRF_NO_OUTDOOR OR SKW_RRF_DFS OR SKW_RRF_AUTO_BW OR 0),
       REG_RULE_EXT 5470 5725 160 0 27 0 (SKW_RRF_DFS OR 0),
       REG_RULE_EXT 5725 5875 80 0 14 0 0,
       REG_RULE_EXT 5945 6425 320 0 23 0 (SKW_RRF_NO_OUTDOOR OR 0),
       REG_RULE_EXT 57000 66000 2160 0 40 0 0],
     n_reg_rules = 7\<rparr>"

definition regdom_LK :: regdomain where
  [regdoms]: "regdom_LK = \<lparr>alpha2 = ''LK'', dfs_region = NL80211_DFS_FCC,
     reg_rules = [
       REG_RULE_EXT 2402 2482 40 0 20 0 0,
       REG_RULE_EXT 5170 5250 20 0 17 0 0,
       REG_RULE_EXT 5250 5330 20 0 24 0 (SKW_RRF_DFS OR 0),
       REG_RULE_EXT 5490 5730 20 0 24 0 (SKW_RRF_DFS OR 0),
       REG_RULE_EXT 5735 5835 20 0 30 0 0],
     n_reg_rules = 5\<rparr>"

definition regdom_LS :: regdomain where
  [regdoms]: "regdom_LS = \<lparr>alpha2 = ''LS'', dfs_region = NL80211_DFS_ETSI,
     reg_rules = [
       REG_RULE_EXT 2402 2482 40 0 20 0 0,
       REG_RULE_EXT 5170 5250 80 0 20 0 (SKW_RRF_AUTO_BW OR 0),
       REG_RULE_EXT 5250 5330 80 0 20 0 (SKW_RRF_DFS OR SKW_RRF_AUTO_BW OR 0),
       REG_RULE_EXT 5490 5710 160 0 27 0 (SKW_RRF_DFS OR 0)],
     n_reg_rules = 4\<rparr>"

definition regdom_LT :: regdomain where
  [regdoms]: "regdom_LT = \<lparr>alpha2 = ''LT'', dfs_region = NL80211_DFS_ETSI,
     reg_rules = [
       REG_RULE_EXT 2400 2483 40 0 20 0 0,
       REG_RULE_EXT 5150 5250 80 0 23 0 (SKW_RRF_NO_OUTDOOR OR SKW_RRF_AUTO_BW OR 0),
       REG_RULE_EXT 5250 5350 80 0 20 0 (SKW_RRF_NO_OUTDOOR OR SKW_RRF_DFS OR SKW_RRF_AUTO_BW OR 0),
       REG_RULE_EXT 5470 5725 160 0 27 0 (SKW_RRF_DFS OR 0),
       REG_RULE_EXT 5725 5875 80 0 14 0 0,
       REG_RULE_EXT 5945 6425 160 0 23 0 (SKW_RRF_NO_OUTDOOR OR 0),
       REG_RULE_EXT 57000 66000 2160 0 40 0 0],
     n_reg_rules = 7\<rparr>"

definition regdom_LU :: regdomain where
  [regdoms]: "regdom_LU = \<lparr>alpha2 = ''LU'', dfs_region = NL80211_DFS_ETSI,
     reg_rules = [
       REG_RULE_EXT 2400 2483 40 0 20 0 0,
       REG_RULE_EXT 5150 5250 80 0 23 0 (SKW_RRF_NO_OUTDOOR OR SKW_RRF_AUTO_BW OR 0),
       REG_RULE_EXT 5250 5350 80 0 20 0 (SKW_RRF_NO_OUTDOOR OR SKW_RRF_DFS OR SKW_RRF_AUTO_BW OR 0),
       REG_RULE_EXT 5470 5725 160 0 27 0 (SKW_RRF_DFS OR 0),
       REG_RULE_EXT 5725 5875 80 0 14 0 0,
       REG_RULE_EXT 5945 6425 160 0 23 0 (SKW_RRF_NO_OUTDOOR OR 0),
       REG_RULE_EXT 57000 66000 2160 0 40 0 0],
     n_reg_rules = 7\<rparr>"

definition regdom_LV :: regdomain where
  [regdoms]: "regdom_LV = \<lparr>alpha2 = ''LV'', dfs_region = NL80211_DFS_ETSI,
     reg_rules = [
       REG_RULE_EXT 2400 2483 40 0 20 0 0,
       REG_RULE_EXT 5150 5250 80 0 23 0 (SKW_RRF_NO_OUTDOOR OR SKW_RRF_AUTO_BW OR 0),
       REG_RULE_EXT 5250 5350 80 0 20 0 (SKW_RRF_NO_OUTDOOR OR SKW_RRF_DFS OR SKW_RRF_AUTO_BW OR 0),
       REG_RULE_EXT 5470 5725 160 0 27 0 (SKW_RRF_DFS OR 0),
       REG_RULE_EXT 5725 5875 80 0 14 0 0,
       REG_RULE_EXT 5945 6425 160 0 23 0 (SKW_RRF_NO_OUTDOOR OR 0),
       REG_RULE_EXT 57000 66000 2160 0 40 0 0],
     n_reg_rules = 7\<rparr>"

definition regdom_MA :: regdomain where
  [regdoms]: "regdom_MA = \<lparr>alpha2 = ''MA'', dfs_region = NL80211_DFS_ETSI,
     reg_rules = [
       REG_RULE_EXT 2402 2482 40 0 20 0 0,
       REG_RULE_EXT 5170 5250 80 0 20 0 (SKW_RRF_AUTO_BW OR 0),
       REG_RULE_EXT 5250 5330 80 0 20 0 (SKW_RRF_DFS OR SKW_RRF_AUTO_BW OR 0),
       REG_RULE_EXT 5925 6425 320 0 23 0 (SKW_RRF_NO_OUTDOOR OR 0)],
     n_reg_rules = 4\<rparr>"

definition regdom_MC :: regdomain where
  [regdoms]: "regdom_MC = \<lparr>alpha2 = ''MC'', dfs_region = NL80211_DFS_ETSI,
     reg_rules = [
       REG_RULE_EXT 2400 2483 40 0 20 0 0,
       REG_RULE_EXT 5150 5250 80 0 23 0 (SKW_RRF_NO_OUTDOOR OR SKW_RRF_AUTO_BW OR 0),
       REG_RULE_EXT 5250 5350 80 0 20 0 (SKW_RRF_NO_OUTDOOR OR SKW_RRF_DFS OR SKW_RRF_AUTO_BW OR 0),
       REG_RULE_EXT 5470 5725 160 0 27 0 (SKW_RRF_DFS OR 0),
       REG_RULE_EXT 5725 5875 80 0 14 0 0],
     n_reg_rules = 5\<rparr>"

definition regdom_MD :: regdomain where
  [regdoms]: "regdom_MD = \<lparr>alpha2 = ''MD'', dfs_region = NL80211_DFS_ETSI,
     reg_rules = [
       REG_RULE_EXT 2400 2483 40 0 20 0 0,
       REG_RULE_EXT 5150 5250 80 0 23 0 (SKW_RRF_NO_OUTDOOR OR SKW_RRF_AUTO_BW OR 0),
       REG_RULE_EXT 5250 5350 80 0 20 0 (SKW_RRF_NO_OUTDOOR OR SKW_RRF_DFS OR SKW_RRF_AUTO_BW OR 0),
       REG_RULE_EXT 5470 5725 160 0 27 0 (SKW_RRF_DFS OR 0),
       REG_RULE_EXT 5725 5875 80 0 14 0 0],
     n_reg_rules = 5\<rparr>"

definition regdom_ME :: regdomain where
  [regdoms]: "regdom_ME = \<lparr>alpha2 = ''ME'', dfs_region = NL80211_DFS_ETSI,
     reg_rules = [
       REG_RULE_EXT 2400 2483 40 0 20 0 0,
       REG_RULE_EXT 5150 5250 80 0 23 0 (SKW_RRF_NO_OUTDOOR OR SKW_RRF_AUTO_BW OR 0),
       REG_RULE_EXT 5250 5350 80 0 20 0 (SKW_RRF_NO_OUTDOOR OR SKW_RRF_DFS OR SKW_RRF_AUTO_BW OR 0),
       REG_RULE_EXT 5470 5725 160 0 27 0 (SKW_RRF_DFS OR 0),
       REG_RULE_EXT 5725 5875 80 0 14 0 0],
     n_reg_rules = 5\<rparr>"

definition regdom_MF :: regdomain where
  [regdoms]: "regdom_MF = \<lparr>alpha2 = ''MF'', dfs_region = NL80211_DFS_ETSI,
     reg_rules = [
       REG_RULE_EXT 2402 2482 40 0 20 0 0,
       REG_RULE_EXT 5170 5250 80 0 20 0 (SKW_RRF_AUTO_BW OR 0),
       REG_RULE_EXT 5250 5330 80 0 20 0 (SKW_RRF_DFS OR SKW_RRF_AUTO_BW OR 0),
       REG_RULE_EXT 5490 5710 160 0 27 0 (SKW_RRF_DFS OR 0)],
     n_reg_rules = 4\<rparr>"

definition regdom_MH :: regdomain where
  [regdoms]: "regdom_MH = \<lparr>alpha2 = ''MH'', dfs_region = NL80211_DFS_FCC,
     reg_rules = [
       REG_RULE_EXT 2402 2472 40 0 30 0 0,
       REG_RULE_EXT 5170 5250 80 0 24 0 (SKW_RRF_AUTO_BW OR 0),
       REG_RULE_EXT 5250 5330 80 0 24 0 (SKW_RRF_DFS OR SKW_RRF_AUTO_BW OR 0),
       REG_RULE_EXT 5490 5730 160 0 24 0 (SKW_RRF_DFS OR 0),
       REG_RULE_EXT 5735 5835 80 0 30 0 0],
     n_reg_rules = 5\<rparr>"

definition regdom_MK :: regdomain where
  [regdoms]: "regdom_MK = \<lparr>alpha2 = ''MK'', dfs_region = NL80211_DFS_ETSI,
     reg_rules = [
       REG_RULE_EXT 2400 2483 40 0 20 0 0,
       REG_RULE_EXT 5150 5250 80 0 23 0 (SKW_RRF_NO_OUTDOOR OR SKW_RRF_AUTO_BW OR 0),
       REG_RULE_EXT 5250 5350 80 0 20 0 (SKW_RRF_NO_OUTDOOR OR SKW_RRF_DFS OR SKW_RRF_AUTO_BW OR 0),
       REG_RULE_EXT 5470 5725 160 0 27 0 (SKW_RRF_DFS OR 0),
       REG_RULE_EXT 5725 5875 80 0 14 0 0,
       REG_RULE_EXT 57000 66000 2160 0 40 0 0],
     n_reg_rules = 6\<rparr>"

definition regdom_MN :: regdomain where
  [regdoms]: "regdom_MN = \<lparr>alpha2 = ''MN'', dfs_region = NL80211_DFS_FCC,
     reg_rules = [
       REG_RULE_EXT 2402 2482 40 0 20 0 0,
       REG_RULE_EXT 5170 5250 80 0 24 0 (SKW_RRF_AUTO_BW OR 0),
       REG_RULE_EXT 5250 5330 80 0 24 0 (SKW_RRF_DFS OR SKW_RRF_AUTO_BW OR 0),
       REG_RULE_EXT 5490 5730 160 0 24 0 (SKW_RRF_DFS OR 0),
       REG_RULE_EXT 5735 5835 80 0 30 0 0,
       REG_RULE_EXT 5925 6425 320 0 100 0 0],
     n_reg_rules = 6\<rparr>"

definition regdom_MO :: regdomain where
  [regdoms]: "regdom_MO = \<lparr>alpha2 = ''MO'', dfs_region = NL80211_DFS_FCC,
     reg_rules = [
       REG_RULE_EXT 2400 2483 40 0 23 0 0,
       REG_RULE_EXT 5150 5250 80 0 23 0 (SKW_RRF_AUTO_BW OR 0),
       REG_RULE_EXT 5250 5350 80 0 23 0 (SKW_RRF_DFS OR SKW_RRF_AUTO_BW OR 0),
       REG_RULE_EXT 5470 5730 160 0 30 0 (SKW_RRF_DFS OR 0),
       REG_RULE_EXT 5725 5850 80 0 30 0 0,
       REG_RULE_EXT 5925 6425 320 0 24 0 (SKW_RRF_NO_OUTDOOR OR 0),
       REG_RULE_EXT 57000 66000 2160 0 40 0 0],
     n_reg_rules = 7\<rparr>"

definition regdom_MP :: regdomain where
  [regdoms]: "regdom_MP = \<lparr>alpha2 = ''MP'', dfs_region = NL80211_DFS_FCC,
     reg_rules = [
       REG_RULE_EXT 2402 2472 40 0 30 0 0,
       REG_RULE_EXT 5170 5250 80 0 24 0 (SKW_RRF_AUTO_BW OR 0),
       REG_RULE_EXT 5250 5330 80 0 24 0 (SKW_RRF_DFS OR SKW_RRF_AUTO_BW OR 0),
       REG_RULE_EXT 5490 5730 160 0 24 0 (SKW_RRF_DFS OR 0),
       REG_RULE_EXT 5735 5835 80 0 30 0 0],
     n_reg_rules = 5\<rparr>"

definition regdom_MQ :: regdomain where
  [regdoms]: "regdom_MQ = \<lparr>alpha2 = ''MQ'', dfs_region = NL80211_DFS_ETSI,
     reg_rules = [
       REG_RULE_EXT 2402 2482 40 0 20 0 0,
       REG_RULE_EXT 5170 5250 80 0 20 0 (SKW_RRF_AUTO_BW OR 0),
       REG_RULE_EXT 5250 5330 80 0 20 0 (SKW_RRF_DFS OR SKW_RRF_AUTO_BW OR 0),
       REG_RULE_EXT 5490 5710 160 0 27 0 (SKW_RRF_DFS OR 0)],
     n_reg_rules = 4\<rparr>"

definition regdom_MR :: regdomain where
  [regdoms]: "regdom_MR = \<lparr>alpha2 = ''MR'', dfs_region = NL80211_DFS_ETSI,
     reg_rules = [
       REG_RULE_EXT 2402 2482 40 0 20 0 0,
       REG_RULE_EXT 5170 5250 80 0 20 0 (SKW_RRF_AUTO_BW OR 0),
       REG_RULE_EXT 5250 5330 80 0 20 0 (SKW_RRF_DFS OR SKW_RRF_AUTO_BW OR 0),
       REG_RULE_EXT 5490 5710 160 0 27 0 (SKW_RRF_DFS OR 0)],
     n_reg_rules = 4\<rparr>"

definition regdom_MT :: regdomain where
  [regdoms]: "regdom_MT = \<lparr>alpha2 = ''MT'', dfs_region = NL80211_DFS_ETSI,
     reg_rules = [
       REG_RULE_EXT 2400 2483 40 0 20 0 0,
       REG_RULE_EXT 5150 5250 80 0 23 0 (SKW_RRF_NO_OUTDOOR OR SKW_RRF_AUTO_BW OR 0),
       REG_RULE_EXT 5250 5350 80 0 20 0 (SKW_RRF_NO_OUTDOOR OR SKW_RRF_DFS OR SKW_RRF_AUTO_BW OR 0),
       REG_RULE_EXT 5470 5725 160 0 27 0 (SKW_RRF_DFS OR 0),
       REG_RULE_EXT 5725 5875 80 0 14 0 0,
       REG_RULE_EXT 5945 6425 160 0 23 0 (SKW_RRF_NO_OUTDOOR OR 0),
       REG_RULE_EXT 57000 66000 2160 0 40 0 0],
     n_reg_rules = 7\<rparr>"

definition regdom_MU :: regdomain where
  [regdoms]: "regdom_MU = \<lparr>alpha2 = ''MU'', dfs_region = NL80211_DFS_FCC,
     reg_rules = [
       REG_RULE_EXT 2402 2482 40 0 20 0 0,
       REG_RULE_EXT 5170 5250 80 0 24 0 (SKW_RRF_AUTO_BW OR 0),
       REG_RULE_EXT 5250 5330 80 0 24 0 (SKW_RRF_DFS OR SKW_RRF_AUTO_BW OR 0),
       REG_RULE_EXT 5490 5730 160 0 24 0 (SKW_RRF_DFS OR 0),
       REG_RULE_EXT 5735 5835 80 0 30 0 0,
       REG_RULE_EXT 5945 6425 320 0 23 0 (SKW_RRF_NO_OUTDOOR OR 0)],
     n_reg_rules = 6\<rparr>"

definition regdom_MV :: regdomain where
  [regdoms]: "regdom_MV = \<lparr>alpha2 = ''MV'', dfs_region = NL80211_DFS_ETSI,
     reg_rules = [
       REG_RULE_EXT 2400 2483 40 0 20 0 0,
       REG_RULE_EXT 5150 5250 80 0 23 0 (SKW_RRF_AUTO_BW OR 0),
       REG_RULE_EXT 5250 5350 80 0 20 0 (SKW_RRF_DFS OR SKW_RRF_AUTO_BW OR 0),
       REG_RULE_EXT 5725 5850 80 0 20 0 0],
     n_reg_rules = 4\<rparr>"

definition regdom_MW :: regdomain where
  [regdoms]: "regdom_MW = \<lparr>alpha2 = ''MW'', dfs_region = NL80211_DFS_ETSI,
     reg_rules = [
       REG_RULE_EXT 2402 2482 40 0 20 0 0,
       REG_RULE_EXT 5170 5250 80 0 20 0 (SKW_RRF_AUTO_BW OR 0),
       REG_RULE_EXT 5250 5330 80 0 20 0 (SKW_RRF_DFS OR SKW_RRF_AUTO_BW OR 0),
       REG_RULE_EXT 5490 5710 160 0 27 0 (SKW_RRF_DFS OR 0)],
     n_reg_rules = 4\<rparr>"

definition regdom_MX :: regdomain where
  [regdoms]: "regdom_MX = \<lparr>alpha2 = ''MX'', dfs_region = NL80211_DFS_FCC,
     reg_rules = [
       REG_RULE_EXT 2402 2482 40 0 20 0 0,
       REG_RULE_EXT 5170 5250 80 0 17 0 (SKW_RRF_AUTO_BW OR 0),
       REG_RULE_EXT 5250 5330 80 0 24 0 (SKW_RRF_DFS OR SKW_RRF_AUTO_BW OR 0),
       REG_RULE_EXT 5490 5730 160 0 24 0 (SKW_RRF_DFS OR 0),
       REG_RULE_EXT 5735 5835 80 0 30 0 0,
       REG_RULE_EXT 5925 6425 320 0 12 0 (SKW_RRF_NO_OUTDOOR OR 0)],
     n_reg_rules = 6\<rparr>"

definition regdom_MY :: regdomain where
  [regdoms]: "regdom_MY = \<lparr>alpha2 = ''MY'', dfs_region = NL80211_DFS_FCC,
     reg_rules = [
       REG_RULE_EXT 2402 2482 40 0 27 0 0,
       REG_RULE_EXT 5170 5250 80 0 30 0 (SKW_RRF_AUTO_BW OR 0),
       REG_RULE_EXT 5250 5330 80 0 30 0 (SKW_RRF_DFS OR SKW_RRF_AUTO_BW OR 0),
       REG_RULE_EXT 5490 5650 160 0 30 0 (SKW_RRF_DFS OR 0),
       REG_RULE_EXT 5735 5835 80 0 30 0 0,
       REG_RULE_EXT 5925 6425 320 0 23 0 (SKW_RRF_NO_OUTDOOR OR 0)],
     n_reg_rules = 6\<rparr>"

definition regdom_NA :: regdomain where
  [regdoms]: "regdom_NA = \<lparr>alpha2 = ''NA'', dfs_region = NL80211_DFS_ETSI,
     reg_rules = [
       REG_RULE_EXT 2400 2483 40 0 20 0 0,
       REG_RULE_EXT 5150 5250 80 0 20 0 (SKW_RRF_AUTO_BW OR SKW_RRF_NO_OUTDOOR OR 0),
       REG_RULE_EXT 5250 5350 80 0 20 0 (SKW_RRF_DFS OR SKW_RRF_AUTO_BW OR SKW_RRF_NO_OUTDOOR OR 0),
       REG_RULE_EXT 5470 5725 160 0 21 0 (SKW_RRF_DFS OR 0),
       REG_RULE_EXT 5725 5875 80 0 24 0 (SKW_RRF_DFS OR 0),
       REG_RULE_EXT 5925 6425 320 0 23 0 (SKW_RRF_NO_OUTDOOR OR 0),
       REG_RULE_EXT 57000 66000 2160 0 40 0 (SKW_RRF_NO_OUTDOOR OR 0)],
     n_reg_rules = 7\<rparr>"

definition regdom_NG :: regdomain where
  [regdoms]: "regdom_NG = \<lparr>alpha2 = ''NG'', dfs_region = NL80211_DFS_ETSI,
     reg_rules = [
       REG_RULE_EXT 2402 2482 40 0 20 0 0,
       REG_RULE_EXT 5250 5330 80 0 30 0 (SKW_RRF_DFS OR 0),
       REG_RULE_EXT 5735 5835 80 0 30 0 0],
     n_reg_rules = 3\<rparr>"

definition regdom_NI :: regdomain where
  [regdoms]: "regdom_NI = \<lparr>alpha2 = ''NI'', dfs_region = NL80211_DFS_FCC,
     reg_rules = [
       REG_RULE_EXT 2402 2472 40 0 30 0 0,
       REG_RULE_EXT 5170 5250 80 0 24 0 (SKW_RRF_AUTO_BW OR 0),
       REG_RULE_EXT 5250 5330 80 0 24 0 (SKW_RRF_DFS OR SKW_RRF_AUTO_BW OR 0),
       REG_RULE_EXT 5490 5730 160 0 24 0 (SKW_RRF_DFS OR 0),
       REG_RULE_EXT 5735 5835 80 0 30 0 0],
     n_reg_rules = 5\<rparr>"

definition regdom_NL :: regdomain where
  [regdoms]: "regdom_NL = \<lparr>alpha2 = ''NL'', dfs_region = NL80211_DFS_ETSI,
     reg_rules = [
       REG_RULE_EXT 2400 2483 40 0 20 0 0,
       REG_RULE_EXT 5150 5250 80 0 23 0 (SKW_RRF_NO_OUTDOOR OR SKW_RRF_AUTO_BW OR 0),
       REG_RULE_EXT 5250 5350 80 0 20 0 (SKW_RRF_NO_OUTDOOR OR SKW_RRF_DFS OR SKW_RRF_AUTO_BW OR 0),
       REG_RULE_EXT 5470 5725 160 0 27 0 (SKW_RRF_DFS OR 0),
       REG_RULE_EXT 5725 5875 80 0 14 0 0,
       REG_RULE_EXT 5945 6425 160 0 23 0 (SKW_RRF_NO_OUTDOOR OR 0),
       REG_RULE_EXT 57000 66000 2160 0 40 0 0],
     n_reg_rules = 7\<rparr>"

definition regdom_NO :: regdomain where
  [regdoms]: "regdom_NO = \<lparr>alpha2 = ''NO'', dfs_region = NL80211_DFS_ETSI,
     reg_rules = [
       REG_RULE_EXT 2400 2483 40 0 20 0 0,
       REG_RULE_EXT 5150 5250 80 0 23 0 (SKW_RRF_NO_OUTDOOR OR SKW_RRF_AUTO_BW OR 0),
       REG_RULE_EXT 5250 5350 80 0 20 0 (SKW_RRF_NO_OUTDOOR OR SKW_RRF_DFS OR SKW_RRF_AUTO_BW OR 0),
       REG_RULE_EXT 5470 5725 160 0 27 0 (SKW_RRF_DFS OR 0),
       REG_RULE_EXT 5725 5875 80 0 14 0 0,
       REG_RULE_EXT 5945 6425 160 0 23 0 (SKW_RRF_NO_OUTDOOR OR 0),
       REG_RULE_EXT 57000 71000 2160 0 40 0 0],
     n_reg_rules = 7\<rparr>"

definition regdom_NP :: regdomain where
  [regdoms]: "regdom_NP = \<lparr>alpha2 = ''NP'', dfs_region = NL80211_DFS_JP,
     reg_rules = [
       REG_RULE_EXT 2402 2482 40 0 20 0 0,
       REG_RULE_EXT 5170 5250 80 0 20 0 (SKW_RRF_AUTO_BW OR 0),
       REG_RULE_EXT 5250 5330 80 0 20 0 (SKW_RRF_DFS OR SKW_RRF_AUTO_BW OR 0),
       REG_RULE_EXT 5735 5835 80 0 20 0 0],
     n_reg_rules = 4\<rparr>"

definition regdom_NZ :: regdomain where
  [regdoms]: "regdom_NZ = \<lparr>alpha2 = ''NZ'', dfs_region = NL80211_DFS_ETSI,
     reg_rules = [
       REG_RULE_EXT 2400 2483 40 0 36 0 0,
       REG_RULE_EXT 5150 5250 80 0 30 0 (SKW_RRF_AUTO_BW OR 0),
       REG_RULE_EXT 5250 5350 80 0 27 0 (SKW_RRF_DFS OR SKW_RRF_AUTO_BW OR 0),
       REG_RULE_EXT 5470 5730 160 0 27 0 (SKW_RRF_DFS OR 0),
       REG_RULE_EXT 5725 5875 80 0 36 0 0,
       REG_RULE_EXT 5925 6425 320 0 24 0 (SKW_RRF_NO_OUTDOOR OR 0),
       REG_RULE_EXT 57000 71000 2160 0 40 0 0],
     n_reg_rules = 7\<rparr>"

definition regdom_OM :: regdomain where
  [regdoms]: "regdom_OM = \<lparr>alpha2 = ''OM'', dfs_region = NL80211_DFS_ETSI,
     reg_rules = [
       REG_RULE_EXT 2402 2482 40 0 20 0 0,
       REG_RULE_EXT 5170 5250 80 0 20 0 (SKW_RRF_AUTO_BW OR 0),
       REG_RULE_EXT 5250 5330 80 0 20 0 (SKW_RRF_DFS OR SKW_RRF_AUTO_BW OR 0),
       REG_RULE_EXT 5490 5710 160 0 27 0 (SKW_RRF_DFS OR 0)],
     n_reg_rules = 4\<rparr>"

definition regdom_PA :: regdomain where
  [regdoms]: "regdom_PA = \<lparr>alpha2 = ''PA'', dfs_region = NL80211_DFS_FCC,
     reg_rules = [
       REG_RULE_EXT 2400 2483 40 0 36 0 0,
       REG_RULE_EXT 5150 5250 80 0 36 0 (SKW_RRF_AUTO_BW OR 0),
       REG_RULE_EXT 5250 5350 80 0 30 0 (SKW_RRF_AUTO_BW OR 0),
       REG_RULE_EXT 5470 5725 160 0 30 0 0,
       REG_RULE_EXT 5725 5850 80 0 36 0 0,
       REG_RULE_EXT 57000 64000 2160 0 43 0 0],
     n_reg_rules = 6\<rparr>"

definition regdom_PE :: regdomain where
  [regdoms]: "regdom_PE = \<lparr>alpha2 = ''PE'', dfs_region = NL80211_DFS_FCC,
     reg_rules = [
       REG_RULE_EXT 2402 2482 40 0 20 0 0,
       REG_RULE_EXT 5170 5250 80 0 17 0 (SKW_RRF_AUTO_BW OR 0),
       REG_RULE_EXT 5250 5330 80 0 24 0 (SKW_RRF_DFS OR SKW_RRF_AUTO_BW OR 0),
       REG_RULE_EXT 5490 5730 160 0 24 0 (SKW_RRF_DFS OR 0),
       REG_RULE_EXT 5735 5835 80 0 30 0 0,
       REG_RULE_EXT 5925 7125 320 0 12 0 (SKW_RRF_NO_OUTDOOR OR 0)],
     n_reg_rules = 6\<rparr>"

definition regdom_PF :: regdomain where
  [regdoms]: "regdom_PF = \<lparr>alpha2 = ''PF'', dfs_region = NL80211_DFS_ETSI,
     reg_rules = [
       REG_RULE_EXT 2402 2482 40 0 20 0 0,
       REG_RULE_EXT 5170 5250 80 0 20 0 (SKW_RRF_AUTO_BW OR 0),
       REG_RULE_EXT 5250 5330 80 0 20 0 (SKW_RRF_DFS OR SKW_RRF_AUTO_BW OR 0),
       REG_RULE_EXT 5490 5710 160 0 27 0 (SKW_RRF_DFS OR 0)],
     n_reg_rules = 4\<rparr>"

definition regdom_PG :: regdomain where
  [regdoms]: "regdom_PG = \<lparr>alpha2 = ''PG'', dfs_region = NL80211_DFS_FCC,
     reg_rules = [
       REG_RULE_EXT 2402 2482 40 0 20 0 0,
       REG_RULE_EXT 5170 5250 80 0 17 0 (SKW_RRF_AUTO_BW OR 0),
       REG_RULE_EXT 5250 5330 80 0 24 0 (SKW_RRF_DFS OR SKW_RRF_AUTO_BW OR 0),
       REG_RULE_EXT 5490 5730 160 0 24 0 (SKW_RRF_DFS OR 0),
       REG_RULE_EXT 5735 5835 80 0 30 0 0],
     n_reg_rules = 5\<rparr>"

definition regdom_PH :: regdomain where
  [regdoms]: "regdom_PH = \<lparr>alpha2 = ''PH'', dfs_region = NL80211_DFS_FCC,
     reg_rules = [
       REG_RULE_EXT 2400 2483 40 0 20 0 0,
       REG_RULE_EXT 5150 5250 80 0 23 0 (SKW_RRF_AUTO_BW OR 0),
       REG_RULE_EXT 5250 5350 80 0 23 0 (SKW_RRF_DFS OR SKW_RRF_AUTO_BW OR 0),
       REG_RULE_EXT 5470 5725 160 0 24 0 (SKW_RRF_DFS OR 0),
       REG_RULE_EXT 5725 5850 80 0 24 0 0,
       REG_RULE_EXT 5925 6425 320 0 24 0 (SKW_RRF_NO_OUTDOOR OR 0),
       REG_RULE_EXT 57000 66000 2160 0 24 0 0],
     n_reg_rules = 7\<rparr>"

definition regdom_PK :: regdomain where
  [regdoms]: "regdom_PK = \<lparr>alpha2 = ''PK'', dfs_region = NL80211_DFS_UNSET,
     reg_rules = [
       REG_RULE_EXT 2400 2500 40 0 30 0 0,
       REG_RULE_EXT 5725 5875 80 0 30 0 0,
       REG_RULE_EXT 5945 6425 320 0 23 0 (SKW_RRF_NO_OUTDOOR OR 0)],
     n_reg_rules = 3\<rparr>"

definition regdom_PL :: regdomain where
  [regdoms]: "regdom_PL = \<lparr>alpha2 = ''PL'', dfs_region = NL80211_DFS_ETSI,
     reg_rules = [
       REG_RULE_EXT 2400 2483 40 0 20 0 0,
       REG_RULE_EXT 5150 5250 80 0 23 0 (SKW_RRF_NO_OUTDOOR OR SKW_RRF_AUTO_BW OR 0),
       REG_RULE_EXT 5250 5350 80 0 20 0 (SKW_RRF_NO_OUTDOOR OR SKW_RRF_DFS OR SKW_RRF_AUTO_BW OR 0),
       REG_RULE_EXT 5470 5725 160 0 27 0 (SKW_RRF_DFS OR 0),
       REG_RULE_EXT 5725 5875 80 0 14 0 0,
       REG_RULE_EXT 5945 6425 160 0 23 0 (SKW_RRF_NO_OUTDOOR OR 0),
       REG_RULE_EXT 57000 66000 2160 0 40 0 0],
     n_reg_rules = 7\<rparr>"

definition regdom_PM :: regdomain where
  [regdoms]: "regdom_PM = \<lparr>alpha2 = ''PM'', dfs_region = NL80211_DFS_ETSI,
     reg_rules = [
       REG_RULE_EXT 2402 2482 40 0 20 0 0,
       REG_RULE_EXT 5170 5250 80 0 20 0 (SKW_RRF_AUTO_BW OR 0),
       REG_RULE_EXT 5250 5330 80 0 20 0 (SKW_RRF_DFS OR SKW_RRF_AUTO_BW OR 0),
       REG_RULE_EXT 5490 5710 160 0 27 0 (SKW_RRF_DFS OR 0)],
     n_reg_rules = 4\<rparr>"

definition regdom_PR :: regdomain where
  [regdoms]: "regdom_PR = \<lparr>alpha2 = ''PR'', dfs_region = NL80211_DFS_FCC,
     reg_rules = [
       REG_RULE_EXT 2402 2472 40 0 30 0 0,
       REG_RULE_EXT 5170 5250 80 0 17 0 (SKW_RRF_AUTO_BW OR 0),
       REG_RULE_EXT 5250 5330 80 0 24 0 (SKW_RRF_DFS OR SKW_RRF_AUTO_BW OR 0),
       REG_RULE_EXT 5490 5730 160 0 24 0 (SKW_RRF_DFS OR 0),
       REG_RULE_EXT 5735 5835 80 0 30 0 0],
     n_reg_rules = 5\<rparr>"

definition regdom_PT :: regdomain where
  [regdoms]: "regdom_PT = \<lparr>alpha2 = ''PT'', dfs_region = NL80211_DFS_ETSI,
     reg_rules = [
       REG_RULE_EXT 2400 2483 40 0 20 0 0,
       REG_RULE_EXT 5150 5250 80 0 23 0 (SKW_RRF_NO_OUTDOOR OR SKW_RRF_AUTO_BW OR 0),
       REG_RULE_EXT 5250 5350 80 0 20 0 (SKW_RRF_NO_OUTDOOR OR SKW_RRF_DFS OR SKW_RRF_AUTO_BW OR 0),
       REG_RULE_EXT 5470 5725 160 0 27 0 (SKW_RRF_DFS OR 0),
       REG_RULE_EXT 5725 5875 80 0 14 0 0,
       REG_RULE_EXT 5945 6425 160 0 23 0 (SKW_RRF_NO_OUTDOOR OR 0),
       REG_RULE_EXT 57000 66000 2160 0 40 0 0],
     n_reg_rules = 7\<rparr>"

definition regdom_PW :: regdomain where
  [regdoms]: "regdom_PW = \<lparr>alpha2 = ''PW'', dfs_region = NL80211_DFS_FCC,
     reg_rules = [
       REG_RULE_EXT 2402 2472 40 0 30 0 0,
       REG_RULE_EXT 5170 5250 80 0 24 0 (SKW_RRF_AUTO_BW OR 0),
       REG_RULE_EXT 5250 5330 80 0 24 0 (SKW_RRF_DFS OR SKW_RRF_AUTO_BW OR 0),
       REG_RULE_EXT 5490 5730 160 0 24 0 (SKW_RRF_DFS OR 0),
       REG_RULE_EXT 5735 5835 80 0 30 0 0],
     n_reg_rules = 5\<rparr>"

definition regdom_PY :: regdomain where
  [regdoms]: "regdom_PY = \<lparr>alpha2 = ''PY'', dfs_region = NL80211_DFS_FCC,
     reg_rules = [
       REG_RULE_EXT 2402 2482 40 0 20 0 0,
       REG_RULE_EXT 5170 5250 80 0 24 0 (SKW_RRF_AUTO_BW OR 0),
       REG_RULE_EXT 5250 5330 80 0 24 0 (SKW_RRF_DFS OR SKW_RRF_AUTO_BW OR 0),
       REG_RULE_EXT 5490 5730 160 0 24 0 (SKW_RRF_DFS OR 0),
       REG_RULE_EXT 5735 5835 80 0 30 0 0],
     n_reg_rules = 5\<rparr>"

definition regdom_QA :: regdomain where
  [regdoms]: "regdom_QA = \<lparr>alpha2 = ''QA'', dfs_region = NL80211_DFS_ETSI,
     reg_rules = [
       REG_RULE_EXT 2400 2483 40 0 20 0 (SKW_RRF_NO_OUTDOOR OR 0),
       REG_RULE_EXT 5150 5250 80 0 23 0 (SKW_RRF_NO_OUTDOOR OR SKW_RRF_AUTO_BW OR 0),
       REG_RULE_EXT 5250 5350 80 0 23 0 (SKW_RRF_NO_OUTDOOR OR SKW_RRF_DFS OR SKW_RRF_AUTO_BW OR 0),
       REG_RULE_EXT 5470 5725 160 0 20 0 (SKW_RRF_NO_OUTDOOR OR SKW_RRF_DFS OR 0),
       REG_RULE_EXT 5725 5875 80 0 20 0 (SKW_RRF_NO_OUTDOOR OR SKW_RRF_DFS OR 0),
       REG_RULE_EXT 5925 6425 320 0 23 0 (SKW_RRF_NO_OUTDOOR OR 0),
       REG_RULE_EXT 57000 66000 2160 0 40 0 (SKW_RRF_NO_OUTDOOR OR 0)],
     n_reg_rules = 7\<rparr>"

definition regdom_RE :: regdomain where
  [regdoms]: "regdom_RE = \<lparr>alpha2 = ''RE'', dfs_region = NL80211_DFS_ETSI,
     reg_rules = [
       REG_RULE_EXT 2402 2482 40 0 20 0 0,
       REG_RULE_EXT 5170 5250 80 0 20 0 (SKW_RRF_AUTO_BW OR 0),
       REG_RULE_EXT 5250 5330 80 0 20 0 (SKW_RRF_DFS OR SKW_RRF_AUTO_BW OR 0),
       REG_RULE_EXT 5490 5710 160 0 27 0 (SKW_RRF_DFS OR 0)],
     n_reg_rules = 4\<rparr>"

definition regdom_RO :: regdomain where
  [regdoms]: "regdom_RO = \<lparr>alpha2 = ''RO'', dfs_region = NL80211_DFS_ETSI,
     reg_rules = [
       REG_RULE_EXT 2400 2483 40 0 20 0 0,
       REG_RULE_EXT 5150 5250 80 0 23 0 (SKW_RRF_NO_OUTDOOR OR SKW_RRF_AUTO_BW OR 0),
       REG_RULE_EXT 5250 5350 80 0 20 0 (SKW_RRF_NO_OUTDOOR OR SKW_RRF_DFS OR SKW_RRF_AUTO_BW OR 0),
       REG_RULE_EXT 5470 5725 160 0 27 0 (SKW_RRF_DFS OR 0),
       REG_RULE_EXT 5725 5875 80 0 14 0 0,
       REG_RULE_EXT 5945 6425 160 0 23 0 (SKW_RRF_NO_OUTDOOR OR 0),
       REG_RULE_EXT 57000 66000 2160 0 40 0 0],
     n_reg_rules = 7\<rparr>"

definition regdom_RS :: regdomain where
  [regdoms]: "regdom_RS = \<lparr>alpha2 = ''RS'', dfs_region = NL80211_DFS_ETSI,
     reg_rules = [
       REG_RULE_EXT 2400 2483 40 0 20 0 0,
       REG_RULE_EXT 5150 5250 80 0 23 0 (SKW_RRF_AUTO_BW OR 0),
       REG_RULE_EXT 5250 5350 80 0 23 0 (SKW_RRF_DFS OR SKW_RRF_AUTO_BW OR 0),
       REG_RULE_EXT 5470 5725 160 0 27 0 (SKW_RRF_DFS OR 0),
       REG_RULE_EXT 5725 5850 80 0 24 0 (SKW_RRF_DFS OR SKW_RRF_AUTO_BW OR 0),
       REG_RULE_EXT 5850 5875 80 0 24 0 (SKW_RRF_AUTO_BW OR 0),
       REG_RULE_EXT 5925 6425 320 0 23 0 (SKW_RRF_NO_OUTDOOR OR 0),
       REG_RULE_EXT 57000 66000 2160 0 40 0 0],
     n_reg_rules = 8\<rparr>"

definition regdom_RU :: regdomain where
  [regdoms]: "regdom_RU = \<lparr>alpha2 = ''RU'', dfs_region = NL80211_DFS_UNSET,
     reg_rules = [
       REG_RULE_EXT 2400 2483 40 0 100 0 0,
       REG_RULE_EXT 5150 5350 160 0 20 0 (SKW_RRF_NO_OUTDOOR OR 0),
       REG_RULE_EXT 5650 5850 160 0 20 0 (SKW_RRF_NO_OUTDOOR OR 0),
       REG_RULE_EXT 5925 6425 160 0 20 0 (SKW_RRF_NO_OUTDOOR OR 0),
       REG_RULE_EXT 57000 66000 2160 0 40 0 (SKW_RRF_NO_OUTDOOR OR 0)],
     n_reg_rules = 5\<rparr>"

definition regdom_RW :: regdomain where
  [regdoms]: "regdom_RW = \<lparr>alpha2 = ''RW'', dfs_region = NL80211_DFS_FCC,
     reg_rules = [
       REG_RULE_EXT 2402 2482 40 0 20 0 0,
       REG_RULE_EXT 5170 5250 80 0 17 0 (SKW_RRF_AUTO_BW OR 0),
       REG_RULE_EXT 5250 5330 80 0 24 0 (SKW_RRF_DFS OR SKW_RRF_AUTO_BW OR 0),
       REG_RULE_EXT 5490 5730 160 0 24 0 (SKW_RRF_DFS OR 0),
       REG_RULE_EXT 5735 5835 80 0 30 0 0],
     n_reg_rules = 5\<rparr>"

definition regdom_SA :: regdomain where
  [regdoms]: "regdom_SA = \<lparr>alpha2 = ''SA'', dfs_region = NL80211_DFS_ETSI,
     reg_rules = [
       REG_RULE_EXT 2402 2482 40 0 20 0 0,
       REG_RULE_EXT 5170 5250 80 0 20 0 (SKW_RRF_AUTO_BW OR 0),
       REG_RULE_EXT 5250 5330 80 0 20 0 (SKW_RRF_DFS OR SKW_RRF_AUTO_BW OR 0),
       REG_RULE_EXT 5490 5710 160 0 27 0 (SKW_RRF_DFS OR 0),
       REG_RULE_EXT 5925 7125 320 0 24 0 (SKW_RRF_NO_OUTDOOR OR 0)],
     n_reg_rules = 5\<rparr>"

definition regdom_SE :: regdomain where
  [regdoms]: "regdom_SE = \<lparr>alpha2 = ''SE'', dfs_region = NL80211_DFS_ETSI,
     reg_rules = [
       REG_RULE_EXT 2400 2483 40 0 20 0 0,
       REG_RULE_EXT 5150 5250 80 0 23 0 (SKW_RRF_NO_OUTDOOR OR SKW_RRF_AUTO_BW OR 0),
       REG_RULE_EXT 5250 5350 80 0 20 0 (SKW_RRF_NO_OUTDOOR OR SKW_RRF_DFS OR SKW_RRF_AUTO_BW OR 0),
       REG_RULE_EXT 5470 5725 160 0 27 0 (SKW_RRF_DFS OR 0),
       REG_RULE_EXT 5725 5875 80 0 14 0 0,
       REG_RULE_EXT 5945 6425 160 0 23 0 (SKW_RRF_NO_OUTDOOR OR 0),
       REG_RULE_EXT 57000 66000 2160 0 40 0 0],
     n_reg_rules = 7\<rparr>"

definition regdom_SG :: regdomain where
  [regdoms]: "regdom_SG = \<lparr>alpha2 = ''SG'', dfs_region = NL80211_DFS_FCC,
     reg_rules = [
       REG_RULE_EXT 2400 2483 40 0 23 0 0,
       REG_RULE_EXT 5150 5250 80 0 23 0 (SKW_RRF_AUTO_BW OR 0),
       REG_RULE_EXT 5250 5350 80 0 20 0 (SKW_RRF_DFS OR SKW_RRF_AUTO_BW OR 0),
       REG_RULE_EXT 5470 5730 160 0 27 0 (SKW_RRF_DFS OR 0),
       REG_RULE_EXT 5725 5850 80 0 30 0 0,
       REG_RULE_EXT 5945 6425 320 0 24 0 (SKW_RRF_NO_OUTDOOR OR 0),
       REG_RULE_EXT 57000 66000 2160 0 40 0 0],
     n_reg_rules = 7\<rparr>"

definition regdom_SI :: regdomain where
  [regdoms]: "regdom_SI = \<lparr>alpha2 = ''SI'', dfs_region = NL80211_DFS_ETSI,
     reg_rules = [
       REG_RULE_EXT 2400 2483 40 0 20 0 0,
       REG_RULE_EXT 5150 5250 80 0 23 0 (SKW_RRF_NO_OUTDOOR OR SKW_RRF_AUTO_BW OR 0),
       REG_RULE_EXT 5250 5350 80 0 20 0 (SKW_RRF_NO_OUTDOOR OR SKW_RRF_DFS OR SKW_RRF_AUTO_BW OR 0),
       REG_RULE_EXT 5470 5725 160 0 27 0 (SKW_RRF_DFS OR 0),
       REG_RULE_EXT 5725 5875 80 0 14 0 0,
       REG_RULE_EXT 5945 6425 160 0 23 0 (SKW_RRF_NO_OUTDOOR OR 0),
       REG_RULE_EXT 57000 66000 2160 0 40 0 0],
     n_reg_rules = 7\<rparr>"

definition regdom_SK :: regdomain where
  [regdoms]: "regdom_SK = \<lparr>alpha2 = ''SK'', dfs_region = NL80211_DFS_ETSI,
     reg_rules = [
       REG_RULE_EXT 2400 2483 40 0 20 0 0,
       REG_RULE_EXT 5150 5250 80 0 23 0 (SKW_RRF_NO_OUTDOOR OR SKW_RRF_AUTO_BW OR 0),
       REG_RULE_EXT 5250 5350 80 0 20 0 (SKW_RRF_NO_OUTDOOR OR SKW_RRF_DFS OR SKW_RRF_AUTO_BW OR 0),
       REG_RULE_EXT 5470 5725 160 0 27 0 (SKW_RRF_DFS OR 0),
       REG_RULE_EXT 5725 5875 80 0 14 0 0,
       REG_RULE_EXT 5945 6425 160 0 23 0 (SKW_RRF_NO_OUTDOOR OR 0),
       REG_RULE_EXT 57000 66000 2160 0 40 0 0],
     n_reg_rules = 7\<rparr>"

definition regdom_SN :: regdomain where
  [regdoms]: "regdom_SN = \<lparr>alpha2 = ''SN'', dfs_region = NL80211_DFS_FCC,
     reg_rules = [
       REG_RULE_EXT 2402 2482 40 0 20 0 0,
       REG_RULE_EXT 5170 5250 80 0 17 0 (SKW_RRF_AUTO_BW OR 0),
       REG_RULE_EXT 5250 5330 80 0 24 0 (SKW_RRF_DFS OR SKW_RRF_AUTO_BW OR 0),
       REG_RULE_EXT 5490 5730 160 0 24 0 (SKW_RRF_DFS OR 0),
       REG_RULE_EXT 5735 5835 80 0 30 0 0],
     n_reg_rules = 5\<rparr>"

definition regdom_SR :: regdomain where
  [regdoms]: "regdom_SR = \<lparr>alpha2 = ''SR'', dfs_region = NL80211_DFS_ETSI,
     reg_rules = [
       REG_RULE_EXT 2402 2482 40 0 20 0 0,
       REG_RULE_EXT 5170 5250 80 0 20 0 (SKW_RRF_AUTO_BW OR 0),
       REG_RULE_EXT 5250 5330 80 0 20 0 (SKW_RRF_DFS OR SKW_RRF_AUTO_BW OR 0),
       REG_RULE_EXT 5490 5710 160 0 27 0 (SKW_RRF_DFS OR 0)],
     n_reg_rules = 4\<rparr>"

definition regdom_SV :: regdomain where
  [regdoms]: "regdom_SV = \<lparr>alpha2 = ''SV'', dfs_region = NL80211_DFS_FCC,
     reg_rules = [
       REG_RULE_EXT 2402 2482 40 0 20 0 0,
       REG_RULE_EXT 5170 5250 20 0 17 0 0,
       REG_RULE_EXT 5250 5330 20 0 23 0 (SKW_RRF_DFS OR 0),
       REG_RULE_EXT 5735 5835 20 0 30 0 0,
       REG_RULE_EXT 5925 7125 320 0 12 0 (SKW_RRF_NO_OUTDOOR OR 0)],
     n_reg_rules = 5\<rparr>"

definition regdom_SY :: regdomain where
  [regdoms]: "regdom_SY = \<lparr>alpha2 = ''SY'', dfs_region = NL80211_DFS_UNSET,
     reg_rules = [
       REG_RULE_EXT 2402 2482 40 0 20 0 0],
     n_reg_rules = 1\<rparr>"

definition regdom_TC :: regdomain where
  [regdoms]: "regdom_TC = \<lparr>alpha2 = ''TC'', dfs_region = NL80211_DFS_FCC,
     reg_rules = [
       REG_RULE_EXT 2402 2482 40 0 20 0 0,
       REG_RULE_EXT 5170 5250 80 0 24 0 (SKW_RRF_AUTO_BW OR 0),
       REG_RULE_EXT 5250 5330 80 0 24 0 (SKW_RRF_DFS OR SKW_RRF_AUTO_BW OR 0),
       REG_RULE_EXT 5490 5730 160 0 24 0 (SKW_RRF_DFS OR 0),
       REG_RULE_EXT 5735 5835 80 0 30 0 0],
     n_reg_rules = 5\<rparr>"

definition regdom_TD :: regdomain where
  [regdoms]: "regdom_TD = \<lparr>alpha2 = ''TD'', dfs_region = NL80211_DFS_ETSI,
     reg_rules = [
       REG_RULE_EXT 2402 2482 40 0 20 0 0,
       REG_RULE_EXT 5170 5250 80 0 20 0 (SKW_RRF_AUTO_BW OR 0),
       REG_RULE_EXT 5250 5330 80 0 20 0 (SKW_RRF_DFS OR SKW_RRF_AUTO_BW OR 0),
       REG_RULE_EXT 5490 5710 160 0 27 0 (SKW_RRF_DFS OR 0)],
     n_reg_rules = 4\<rparr>"

definition regdom_TG :: regdomain where
  [regdoms]: "regdom_TG = \<lparr>alpha2 = ''TG'', dfs_region = NL80211_DFS_ETSI,
     reg_rules = [
       REG_RULE_EXT 2400 2483 40 0 20 0 (SKW_RRF_DFS OR 0),
       REG_RULE_EXT 5150 5350 80 0 20 0 (SKW_RRF_DFS OR 0),
       REG_RULE_EXT 5470 5850 160 0 27 0 (SKW_RRF_DFS OR 0),
       REG_RULE_EXT 5925 6425 320 0 23 0 (SKW_RRF_DFS OR SKW_RRF_NO_OUTDOOR OR 0),
       REG_RULE_EXT 57000 66000 0 0 0 0 0],
     n_reg_rules = 5\<rparr>"

definition regdom_TH :: regdomain where
  [regdoms]: "regdom_TH = \<lparr>alpha2 = ''TH'', dfs_region = NL80211_DFS_FCC,
     reg_rules = [
       REG_RULE_EXT 2402 2482 40 0 20 0 0,
       REG_RULE_EXT 5170 5250 80 0 17 0 (SKW_RRF_AUTO_BW OR 0),
       REG_RULE_EXT 5250 5330 80 0 24 0 (SKW_RRF_DFS OR SKW_RRF_AUTO_BW OR 0),
       REG_RULE_EXT 5490 5730 160 0 24 0 (SKW_RRF_DFS OR 0),
       REG_RULE_EXT 5735 5835 80 0 30 0 0,
       REG_RULE_EXT 5925 6425 320 0 24 0 (SKW_RRF_NO_OUTDOOR OR 0)],
     n_reg_rules = 6\<rparr>"

definition regdom_TN :: regdomain where
  [regdoms]: "regdom_TN = \<lparr>alpha2 = ''TN'', dfs_region = NL80211_DFS_ETSI,
     reg_rules = [
       REG_RULE_EXT 2402 2482 40 0 20 0 0,
       REG_RULE_EXT 5170 5250 80 0 20 0 (SKW_RRF_AUTO_BW OR 0),
       REG_RULE_EXT 5250 5330 80 0 20 0 (SKW_RRF_DFS OR SKW_RRF_AUTO_BW OR 0)],
     n_reg_rules = 3\<rparr>"

definition regdom_TR :: regdomain where
  [regdoms]: "regdom_TR = \<lparr>alpha2 = ''TR'', dfs_region = NL80211_DFS_ETSI,
     reg_rules = [
       REG_RULE_EXT 2400 2483 40 0 20 0 0,
       REG_RULE_EXT 5150 5250 80 0 23 0 (SKW_RRF_NO_OUTDOOR OR SKW_RRF_AUTO_BW OR 0),
       REG_RULE_EXT 5250 5330 80 0 20 0 (SKW_RRF_DFS OR SKW_RRF_NO_OUTDOOR OR SKW_RRF_AUTO_BW OR 0),
       REG_RULE_EXT 5470 5725 160 0 27 0 (SKW_RRF_DFS OR 0),
       REG_RULE_EXT 5945 6425 160 0 23 0 (SKW_RRF_NO_OUTDOOR OR 0),
       REG_RULE_EXT 57000 66000 2160 0 40 0 0],
     n_reg_rules = 6\<rparr>"

definition regdom_TT :: regdomain where
  [regdoms]: "regdom_TT = \<lparr>alpha2 = ''TT'', dfs_region = NL80211_DFS_FCC,
     reg_rules = [
       REG_RULE_EXT 2402 2482 40 0 20 0 0,
       REG_RULE_EXT 5170 5250 80 0 17 0 (SKW_RRF_AUTO_BW OR 0),
       REG_RULE_EXT 5250 5330 80 0 24 0 (SKW_RRF_DFS OR SKW_RRF_AUTO_BW OR 0),
       REG_RULE_EXT 5490 5730 160 0 24 0 (SKW_RRF_DFS OR 0),
       REG_RULE_EXT 5735 5835 80 0 30 0 0],
     n_reg_rules = 5\<rparr>"

definition regdom_TW :: regdomain where
  [regdoms]: "regdom_TW = \<lparr>alpha2 = ''TW'', dfs_region = NL80211_DFS_FCC,
     reg_rules = [
       REG_RULE_EXT 2400 2483 40 0 30 0 0,
       REG_RULE_EXT 5150 5250 80 0 23 0 (SKW_RRF_AUTO_BW OR 0),
       REG_RULE_EXT 5250 5350 80 0 23 0 (SKW_RRF_DFS OR SKW_RRF_AUTO_BW OR 0),
       REG_RULE_EXT 5470 5730 160 0 23 0 (SKW_RRF_DFS OR 0),
       REG_RULE_EXT 5725 5850 80 0 30 0 0,
       REG_RULE_EXT 5945 6425 320 0 23 0 (SKW_RRF_NO_OUTDOOR OR 0),
       REG_RULE_EXT 57000 66000 2160 0 40 0 0],
     n_reg_rules = 7\<rparr>"

definition regdom_TZ :: regdomain where
  [regdoms]: "regdom_TZ = \<lparr>alpha2 = ''TZ'', dfs_region = NL80211_DFS_ETSI,
     reg_rules = [
       REG_RULE_EXT 2400 2483 40 0 20 0 0,
       REG_RULE_EXT 5150 5250 80 0 23 0 (SKW_RRF_AUTO_BW OR SKW_RRF_NO_OUTDOOR OR 0),
       REG_RULE_EXT 5250 5350 80 0 20 0 (SKW_RRF_DFS OR SKW_RRF_AUTO_BW OR SKW_RRF_NO_OUTDOOR OR 0),
       REG_RULE_EXT 5470 5725 160 0 24 0 (SKW_RRF_DFS OR 0),
       REG_RULE_EXT 5725 5850 80 0 24 0 (SKW_RRF_DFS OR 0),
       REG_RULE_EXT 5945 6425 320 0 23 0 (SKW_RRF_NO_OUTDOOR OR 0)],
     n_reg_rules = 6\<rparr>"

definition regdom_UA :: regdomain where
  [regdoms]: "regdom_UA = \<lparr>alpha2 = ''UA'', dfs_region = NL80211_DFS_ETSI,
     reg_rules = [
       REG_RULE_EXT 2400 2483 40 0 20 0 (SKW_RRF_NO_OUTDOOR OR 0),
       REG_RULE_EXT 5150 5250 80 0 20 0 (SKW_RRF_NO_OUTDOOR OR SKW_RRF_AUTO_BW OR 0),
       REG_RULE_EXT 5250 5350 80 0 20 0 (SKW_RRF_DFS OR SKW_RRF_NO_OUTDOOR OR SKW_RRF_AUTO_BW OR 0),
       REG_RULE_EXT 5470 5725 160 0 20 0 (SKW_RRF_DFS OR SKW_RRF_NO_OUTDOOR OR 0),
       REG_RULE_EXT 5725 5850 80 0 20 0 (SKW_RRF_NO_OUTDOOR OR 0),
       REG_RULE_EXT 57000 66000 2160 0 16 0 (SKW_RRF_NO_OUTDOOR OR 0)],
     n_reg_rules = 6\<rparr>"

definition regdom_UG :: regdomain where
  [regdoms]: "regdom_UG = \<lparr>alpha2 = ''UG'', dfs_region = NL80211_DFS_FCC,
     reg_rules = [
       REG_RULE_EXT 2402 2482 40 0 20 0 0,
       REG_RULE_EXT 5170 5250 80 0 24 0 (SKW_RRF_AUTO_BW OR 0),
       REG_RULE_EXT 5250 5330 80 0 24 0 (SKW_RRF_DFS OR SKW_RRF_AUTO_BW OR 0),
       REG_RULE_EXT 5490 5730 160 0 24 0 (SKW_RRF_DFS OR 0),
       REG_RULE_EXT 5735 5835 80 0 30 0 0],
     n_reg_rules = 5\<rparr>"

definition regdom_US :: regdomain where
  [regdoms]: "regdom_US = \<lparr>alpha2 = ''US'', dfs_region = NL80211_DFS_FCC,
     reg_rules = [
       REG_RULE_EXT 902 904 2 0 30 0 0,
       REG_RULE_EXT 904 920 16 0 30 0 0,
       REG_RULE_EXT 920 928 8 0 30 0 0,
       REG_RULE_EXT 2400 2472 40 0 30 0 0,
       REG_RULE_EXT 5150 5250 80 0 23 0 (SKW_RRF_AUTO_BW OR 0),
       REG_RULE_EXT 5250 5350 80 0 24 0 (SKW_RRF_DFS OR SKW_RRF_AUTO_BW OR 0),
       REG_RULE_EXT 5470 5730 160 0 24 0 (SKW_RRF_DFS OR 0),
       REG_RULE_EXT 5730 5850 80 0 30 0 (SKW_RRF_AUTO_BW OR 0),
       REG_RULE_EXT 5850 5895 40 0 27 0 (SKW_RRF_NO_OUTDOOR OR SKW_RRF_AUTO_BW OR SKW_RRF_NO_IR OR 0),
       REG_RULE_EXT 5925 7125 320 0 12 0 (SKW_RRF_NO_OUTDOOR OR SKW_RRF_NO_IR OR 0),
       REG_RULE_EXT 57240 71000 2160 0 40 0 0],
     n_reg_rules = 11\<rparr>"

definition regdom_UY :: regdomain where
  [regdoms]: "regdom_UY = \<lparr>alpha2 = ''UY'', dfs_region = NL80211_DFS_FCC,
     reg_rules = [
       REG_RULE_EXT 2402 2482 40 0 20 0 0,
       REG_RULE_EXT 5170 5250 80 0 23 0 (SKW_RRF_AUTO_BW OR 0),
       REG_RULE_EXT 5250 5330 80 0 23 0 (SKW_RRF_DFS OR SKW_RRF_AUTO_BW OR 0),
       REG_RULE_EXT 5735 5835 80 0 30 0 0],
     n_reg_rules = 4\<rparr>"

definition regdom_UZ :: regdomain where
  [regdoms]: "regdom_UZ = \<lparr>alpha2 = ''UZ'', dfs_region = NL80211_DFS_ETSI,
     reg_rules = [
       REG_RULE_EXT 2402 2482 40 0 20 0 0,
       REG_RULE_EXT 5170 5250 80 0 20 0 (SKW_RRF_AUTO_BW OR 0),
       REG_RULE_EXT 5250 5330 80 0 20 0 (SKW_RRF_DFS OR SKW_RRF_AUTO_BW OR 0)],
     n_reg_rules = 3\<rparr>"

definition regdom_VC :: regdomain where
  [regdoms]: "regdom_VC = \<lparr>alpha2 = ''VC'', dfs_region = NL80211_DFS_ETSI,
     reg_rules = [
       REG_RULE_EXT 2402 2482 40 0 20 0 0,
       REG_RULE_EXT 5170 5250 80 0 20 0 (SKW_RRF_AUTO_BW OR 0),
       REG_RULE_EXT 5250 5330 80 0 20 0 (SKW_RRF_DFS OR SKW_RRF_AUTO_BW OR 0),
       REG_RULE_EXT 5490 5710 160 0 27 0 (SKW_RRF_DFS OR 0)],
     n_reg_rules = 4\<rparr>"

definition regdom_VE :: regdomain where
  [regdoms]: "regdom_VE = \<lparr>alpha2 = ''VE'', dfs_region = NL80211_DFS_FCC,
     reg_rules = [
       REG_RULE_EXT 2402 2482 40 0 30 0 0,
       REG_RULE_EXT 5170 5250 80 0 23 0 (SKW_RRF_AUTO_BW OR 0),
       REG_RULE_EXT 5250 5330 80 0 23 0 (SKW_RRF_DFS OR SKW_RRF_AUTO_BW OR 0),
       REG_RULE_EXT 5735 5835 80 0 30 0 0],
     n_reg_rules = 4\<rparr>"

definition regdom_VI :: regdomain where
  [regdoms]: "regdom_VI = \<lparr>alpha2 = ''VI'', dfs_region = NL80211_DFS_FCC,
     reg_rules = [
       REG_RULE_EXT 2402 2472 40 0 30 0 0,
       REG_RULE_EXT 5170 5250 80 0 24 0 (SKW_RRF_AUTO_BW OR 0),
       REG_RULE_EXT 5250 5330 80 0 24 0 (SKW_RRF_DFS OR SKW_RRF_AUTO_BW OR 0),
       REG_RULE_EXT 5490 5730 160 0 24 0 (SKW_RRF_DFS OR 0),
       REG_RULE_EXT 5735 5835 80 0 30 0 0],
     n_reg_rules = 5\<rparr>"

definition regdom_VN :: regdomain where
  [regdoms]: "regdom_VN = \<lparr>alpha2 = ''VN'', dfs_region = NL80211_DFS_FCC,
     reg_rules = [
       REG_RULE_EXT 2402 2482 40 0 20 0 0,
       REG_RULE_EXT 5170 5250 80 0 17 0 0,
       REG_RULE_EXT 5250 5330 80 0 24 0 (SKW_RRF_DFS OR 0),
       REG_RULE_EXT 5490 5730 80 0 24 0 (SKW_RRF_DFS OR 0),
       REG_RULE_EXT 5735 5835 80 0 30 0 0],
     n_reg_rules = 5\<rparr>"

definition regdom_VU :: regdomain where
  [regdoms]: "regdom_VU = \<lparr>alpha2 = ''VU'', dfs_region = NL80211_DFS_FCC,
     reg_rules = [
       REG_RULE_EXT 2402 2482 40 0 20 0 0,
       REG_RULE_EXT 5170 5250 80 0 17 0 (SKW_RRF_AUTO_BW OR 0),
       REG_RULE_EXT 5250 5330 80 0 24 0 (SKW_RRF_DFS OR SKW_RRF_AUTO_BW OR 0),
       REG_RULE_EXT 5490 5730 160 0 24 0 (SKW_RRF_DFS OR 0),
       REG_RULE_EXT 5735 5835 80 0 30 0 0],
     n_reg_rules = 5\<rparr>"

definition regdom_WF :: regdomain where
  [regdoms]: "regdom_WF = \<lparr>alpha2 = ''WF'', dfs_region = NL80211_DFS_ETSI,
     reg_rules = [
       REG_RULE_EXT 2402 2482 40 0 20 0 0,
       REG_RULE_EXT 5170 5250 80 0 20 0 (SKW_RRF_AUTO_BW OR 0),
       REG_RULE_EXT 5250 5330 80 0 20 0 (SKW_RRF_DFS OR SKW_RRF_AUTO_BW OR 0),
       REG_RULE_EXT 5490 5710 160 0 27 0 (SKW_RRF_DFS OR 0)],
     n_reg_rules = 4\<rparr>"

definition regdom_WS :: regdomain where
  [regdoms]: "regdom_WS = \<lparr>alpha2 = ''WS'', dfs_region = NL80211_DFS_ETSI,
     reg_rules = [
       REG_RULE_EXT 2402 2482 40 0 20 0 0,
       REG_RULE_EXT 5170 5250 40 0 20 0 0,
       REG_RULE_EXT 5250 5330 40 0 20 0 (SKW_RRF_DFS OR 0),
       REG_RULE_EXT 5490 5710 40 0 27 0 (SKW_RRF_DFS OR 0)],
     n_reg_rules = 4\<rparr>"

definition regdom_YE :: regdomain where
  [regdoms]: "regdom_YE = \<lparr>alpha2 = ''YE'', dfs_region = NL80211_DFS_UNSET,
     reg_rules = [
       REG_RULE_EXT 2402 2482 40 0 20 0 0],
     n_reg_rules = 1\<rparr>"

definition regdom_YT :: regdomain where
  [regdoms]: "regdom_YT = \<lparr>alpha2 = ''YT'', dfs_region = NL80211_DFS_ETSI,
     reg_rules = [
       REG_RULE_EXT 2402 2482 40 0 20 0 0,
       REG_RULE_EXT 5170 5250 80 0 20 0 (SKW_RRF_AUTO_BW OR 0),
       REG_RULE_EXT 5250 5330 80 0 20 0 (SKW_RRF_DFS OR SKW_RRF_AUTO_BW OR 0),
       REG_RULE_EXT 5490 5710 160 0 27 0 (SKW_RRF_DFS OR 0)],
     n_reg_rules = 4\<rparr>"

definition regdom_ZA :: regdomain where
  [regdoms]: "regdom_ZA = \<lparr>alpha2 = ''ZA'', dfs_region = NL80211_DFS_ETSI,
     reg_rules = [
       REG_RULE_EXT 2402 2482 40 0 20 0 0,
       REG_RULE_EXT 5170 5250 80 0 20 0 (SKW_RRF_AUTO_BW OR 0),
       REG_RULE_EXT 5250 5330 80 0 20 0 (SKW_RRF_DFS OR SKW_RRF_AUTO_BW OR 0),
       REG_RULE_EXT 5490 5710 160 0 30 0 0,
       REG_RULE_EXT 5925 6425 320 0 14 0 0],
     n_reg_rules = 5\<rparr>"

definition regdom_ZW :: regdomain where
  [regdoms]: "regdom_ZW = \<lparr>alpha2 = ''ZW'', dfs_region = NL80211_DFS_ETSI,
     reg_rules = [
       REG_RULE_EXT 2402 2482 40 0 20 0 0,
       REG_RULE_EXT 5170 5250 80 0 20 0 (SKW_RRF_AUTO_BW OR 0),
       REG_RULE_EXT 5250 5330 80 0 20 0 (SKW_RRF_DFS OR SKW_RRF_AUTO_BW OR 0),
       REG_RULE_EXT 5490 5710 160 0 27 0 (SKW_RRF_DFS OR 0)],
     n_reg_rules = 4\<rparr>"

definition skw_regdb :: "regdomain list" where
  "skw_regdb = [
    regdom_XW, regdom_00, regdom_AD, regdom_AE, regdom_AF, regdom_AI, regdom_AL, regdom_AM,
    regdom_AN, regdom_AR, regdom_AS, regdom_AT, regdom_AU, regdom_AW, regdom_AZ, regdom_BA,
    regdom_BB, regdom_BD, regdom_BE, regdom_BF, regdom_BG, regdom_BH, regdom_BL, regdom_BM,
    regdom_BN, regdom_BO, regdom_BR, regdom_BS, regdom_BT, regdom_BY, regdom_BZ, regdom_CA,
    regdom_CF, regdom_CH, regdom_CI, regdom_CL, regdom_CN, regdom_CO, regdom_CR, regdom_CU,
    regdom_CX, regdom_CY, regdom_CZ, regdom_DE, regdom_DK, regdom_DM, regdom_DO, regdom_DZ,
    regdom_EC, regdom_EE, regdom_EG, regdom_ES, regdom_ET, regdom_FI, regdom_FM, regdom_FR,
    regdom_GB, regdom_GD, regdom_GE, regdom_GF, regdom_GH, regdom_GL, regdom_GP, regdom_GR,
    regdom_GT, regdom_GU, regdom_GY, regdom_HK, regdom_HN, regdom_HR, regdom_HT, regdom_HU,
    regdom_ID, regdom_IE, regdom_IL, regdom_IN, regdom_IR, regdom_IS, regdom_IT, regdom_JM,
    regdom_JO, regdom_JP, regdom_KE, regdom_KH, regdom_KN, regdom_KP, regdom_KR, regdom_KW,
    regdom_KY, regdom_KZ, regdom_LB, regdom_LC, regdom_LI, regdom_LK, regdom_LS, regdom_LT,
    regdom_LU, regdom_LV, regdom_MA, regdom_MC, regdom_MD, regdom_ME, regdom_MF, regdom_MH,
    regdom_MK, regdom_MN, regdom_MO, regdom_MP, regdom_MQ, regdom_MR, regdom_MT, regdom_MU,
    regdom_MV, regdom_MW, regdom_MX, regdom_MY, regdom_NA, regdom_NG, regdom_NI, regdom_NL,
    regdom_NO, regdom_NP, regdom_NZ, regdom_OM, regdom_PA, regdom_PE, regdom_PF, regdom_PG,
    regdom_PH, regdom_PK, regdom_PL, regdom_PM, regdom_PR, regdom_PT, regdom_PW, regdom_PY,
    regdom_QA, regdom_RE, regdom_RO, regdom_RS, regdom_RU, regdom_RW, regdom_SA, regdom_SE,
    regdom_SG, regdom_SI, regdom_SK, regdom_SN, regdom_SR, regdom_SV, regdom_SY, regdom_TC,
    regdom_TD, regdom_TG, regdom_TH, regdom_TN, regdom_TR, regdom_TT, regdom_TW, regdom_TZ,
    regdom_UA, regdom_UG, regdom_US, regdom_UY, regdom_UZ, regdom_VC, regdom_VE, regdom_VI,
    regdom_VN, regdom_VU, regdom_WF, regdom_WS, regdom_YE, regdom_YT, regdom_ZA, regdom_ZW]"

end
