(* ===== verification/Wifi_Regd.thy ===== *)
theory Wifi_Regd
  imports Wifi_Regdb
begin

text \<open>
  Regulatory domains of the Wi-Fi driver (\<open>skwifi/skw_regd.c\<close>): the choice of a country, and what
  the firmware is told of it. A pointer to a rule is its index in the rules of its domain; a
  rule that the driver would store behind the end of the message to the firmware is the result
  \<open>None\<close>. What the kernel and the firmware answer is the parameter \<open>regulatory\<close>.
\<close>

unbundle bit_operations_syntax

section \<open>Channels, the message to the firmware and the state\<close>

record channel =
  center_freq :: u32
  hw_value :: u16

definition SKW_CHAN5G :: "u16 \<Rightarrow> channel" where
  "SKW_CHAN5G ch = \<lparr>center_freq = 5000 + 5 * ucast ch, hw_value = ch\<rparr>"

definition SKW_CHAN2G :: "u16 \<Rightarrow> u32 \<Rightarrow> channel" where
  "SKW_CHAN2G ch freq = \<lparr>center_freq = freq, hw_value = ch\<rparr>"

definition skw_2ghz_chan :: "channel list" where
  "skw_2ghz_chan = [SKW_CHAN2G 1 2412, SKW_CHAN2G 2 2417, SKW_CHAN2G 3 2422, SKW_CHAN2G 4 2427,
     SKW_CHAN2G 5 2432, SKW_CHAN2G 6 2437, SKW_CHAN2G 7 2442, SKW_CHAN2G 8 2447, SKW_CHAN2G 9 2452,
     SKW_CHAN2G 10 2457, SKW_CHAN2G 11 2462, SKW_CHAN2G 12 2467, SKW_CHAN2G 13 2472, SKW_CHAN2G 14 2484]"

definition skw_5ghz_chan :: "channel list" where
  "skw_5ghz_chan = [SKW_CHAN5G 36, SKW_CHAN5G 40, SKW_CHAN5G 44, SKW_CHAN5G 48, SKW_CHAN5G 52,
     SKW_CHAN5G 56, SKW_CHAN5G 60, SKW_CHAN5G 64, SKW_CHAN5G 100, SKW_CHAN5G 104, SKW_CHAN5G 108,
     SKW_CHAN5G 112, SKW_CHAN5G 116, SKW_CHAN5G 120, SKW_CHAN5G 124, SKW_CHAN5G 128, SKW_CHAN5G 132,
     SKW_CHAN5G 136, SKW_CHAN5G 140, SKW_CHAN5G 144, SKW_CHAN5G 149, SKW_CHAN5G 153, SKW_CHAN5G 157,
     SKW_CHAN5G 161, SKW_CHAN5G 165]"

record skw_reg_rule =
  start_channel :: u8
  nr_channel :: u8
  max_power :: u8
  max_gain :: u8
  fw_flags :: u32

record skw_regdom =
  fw_country :: string
  nr_reg_rules :: u8
  fw_rules :: "skw_reg_rule list"

text \<open>
  \<open>self_managed\<close> is the flag \<open>SKW_FLAG_PRIV_REGD\<close>; \<open>no_beacon_hints\<close> is the kernel's
  \<open>REGULATORY_DISABLE_BEACON_HINTS\<close>; a band that is not there is \<open>None\<close>.
\<close>

record regd_state =
  regd :: "regdomain option"
  country :: string
  self_managed :: bool
  no_beacon_hints :: bool
  bands :: "channel list option list"
  dfs_reg :: dfs_region

record regulatory =
  is_alpha :: "char \<Rightarrow> bool"
  freq_reg_info :: "u32 \<Rightarrow> int + nat \<times> reg_rule"
  set_wiphy_regd :: "regdomain \<Rightarrow> int"
  regulatory_hint :: "string \<Rightarrow> int"
  set_regd_cmd :: "skw_regdom \<Rightarrow> int"

section \<open>Looking up a country\<close>

text \<open>A character of a C string, up to its end.\<close>

definition char_at :: "string \<Rightarrow> nat \<Rightarrow> char" where
  "char_at s i = (if i < length s then s ! i else CHR 0x00)"

definition is_skw_valid_reg_code :: "regulatory \<Rightarrow> string \<Rightarrow> bool" where
  "is_skw_valid_reg_code k s =
     (if char_at s 0 = CHR ''0'' \<and> char_at s 1 = CHR ''0'' then True
      else is_alpha k (char_at s 0) \<and> is_alpha k (char_at s 1))"

definition skw_alpha2_equal :: "string \<Rightarrow> string \<Rightarrow> bool" where
  "skw_alpha2_equal x y \<longleftrightarrow> char_at x 0 = char_at y 0 \<and> char_at x 1 = char_at y 1"

definition skw_get_regd :: "regulatory \<Rightarrow> string \<Rightarrow> regdomain option" where
  "skw_get_regd k s =
     (if \<not> is_skw_valid_reg_code k s then None
      else find (\<lambda>regdom. skw_alpha2_equal s (alpha2 regdom)) skw_regdb)"

definition is_skw_valid_reg_rule :: "reg_rule \<Rightarrow> bool" where
  "is_skw_valid_reg_rule rule =
     (let fr = rule_range rule; freq_diff = end_freq_khz fr - start_freq_khz fr in
      if start_freq_khz fr = 0 \<or> end_freq_khz fr = 0 then False
      else if start_freq_khz fr > end_freq_khz fr then False
      else if end_freq_khz fr \<le> start_freq_khz fr \<or> max_bandwidth_khz fr > freq_diff then False
      else True)"

definition is_skw_valid_rd :: "regdomain \<Rightarrow> bool" where
  "is_skw_valid_rd rd \<longleftrightarrow> (\<forall>i \<in> set [0..<n_reg_rules rd]. is_skw_valid_reg_rule (reg_rules rd ! i))"

section \<open>The rule of a frequency\<close>

definition MHZ_TO_KHZ :: "u32 \<Rightarrow> u32" where
  "MHZ_TO_KHZ freq = freq * 1000"

text \<open>The kernel's \<open>abs\<close> of an unsigned 32-bit value takes it as a signed one.\<close>

definition kernel_abs :: "u32 \<Rightarrow> u32" where
  "kernel_abs x = (if bit x 31 then - x else x)"

definition skw_freq_in_rule_band :: "freq_range \<Rightarrow> u32 \<Rightarrow> bool" where
  "skw_freq_in_rule_band fr freq_khz =
     (let limit = (if freq_khz > 45 * 1000000 then 20 * 1000000 else 2 * 1000000) in
      if kernel_abs (freq_khz - start_freq_khz fr) \<le> limit then True
      else if kernel_abs (freq_khz - end_freq_khz fr) \<le> limit then True
      else False)"

definition skw_does_bw_fit_range :: "freq_range \<Rightarrow> u32 \<Rightarrow> u32 \<Rightarrow> bool" where
  "skw_does_bw_fit_range fr center_freq_khz bw_khz =
     (let low = center_freq_khz - bw_khz div 2; high = center_freq_khz + bw_khz div 2
      in low \<ge> start_freq_khz fr \<and> high \<le> end_freq_khz fr)"

fun freq_rule_loop :: "u32 \<Rightarrow> reg_rule list \<Rightarrow> nat list \<Rightarrow> bool \<Rightarrow> int + nat" where
  "freq_rule_loop freq rules [] band_rule_found = Inl (if \<not> band_rule_found then - ERANGE else - EINVAL)"
| "freq_rule_loop freq rules (i # is) band_rule_found =
     (let fr = rule_range (rules ! i);
          band_rule_found = (if \<not> band_rule_found then skw_freq_in_rule_band fr freq else True);
          bw_fits = skw_does_bw_fit_range fr freq (MHZ_TO_KHZ 20)
      in if band_rule_found \<and> bw_fits then Inr i
         else freq_rule_loop freq rules is band_rule_found)"

definition skw_freq_reg_info :: "regdomain option \<Rightarrow> u32 \<Rightarrow> int + nat \<times> reg_rule" where
  "skw_freq_reg_info rd freq =
     (case rd of None \<Rightarrow> Inl (- EINVAL)
      | Some rd \<Rightarrow>
          (case freq_rule_loop freq (reg_rules rd) [0..<n_reg_rules rd] False of
             Inl err \<Rightarrow> Inl err
           | Inr i \<Rightarrow> Inr (i, reg_rules rd ! i)))"

definition skw_regd_rule :: "regulatory \<Rightarrow> regd_state \<Rightarrow> u32 \<Rightarrow> int + nat \<times> reg_rule" where
  "skw_regd_rule k st freq =
     (let freq_khz = MHZ_TO_KHZ freq in
      if regd st \<noteq> None \<or> self_managed st then skw_freq_reg_info (regd st) freq_khz
      else freq_reg_info k freq_khz)"

section \<open>The message to the firmware\<close>

text \<open>
  What \<open>skw_cmd_set_regdom\<close> holds while it goes through the channels: the number of rules, the
  index \<open>idx\<close> of the next one, the pointers \<open>rule\<close> and \<open>_rr\<close>, and the rules themselves.
\<close>

record regd_fill =
  fill_nr :: u8
  fill_idx :: nat
  fill_rule :: nat
  fill_rr :: "nat option"
  fill_rules :: "skw_reg_rule list"

definition no_rule :: skw_reg_rule where
  "no_rule = \<lparr>start_channel = 0, nr_channel = 0, max_power = 0, max_gain = 0, fw_flags = 0\<rparr>"

definition no_rules :: regd_fill where
  "no_rules = \<lparr>fill_nr = 0, fill_idx = 0, fill_rule = 0, fill_rr = None, fill_rules = replicate 8 no_rule\<rparr>"

definition first_of_rule :: "channel \<Rightarrow> reg_rule \<Rightarrow> skw_reg_rule" where
  "first_of_rule chn rr = \<lparr>start_channel = ucast (hw_value chn), nr_channel = 0,
     max_power = ucast (max_eirp (rule_power rr) div 100),
     max_gain = ucast (max_antenna_gain (rule_power rr) div 100), fw_flags = rule_flags rr\<rparr>"

definition add_channel :: "(u32 \<Rightarrow> int + nat \<times> reg_rule) \<Rightarrow> channel \<Rightarrow> regd_fill \<Rightarrow> regd_fill option" where
  "add_channel info chn s =
     (case info (center_freq chn) of
        Inl _ \<Rightarrow> Some s
      | Inr (p, rr) \<Rightarrow>
          if rule_flags rr AND SKW_RRF_NO_IR \<noteq> 0 then Some s
          else do {
            s \<leftarrow> (if fill_rr s \<noteq> Some p then
                    if fill_idx s < 8 then
                      Some (s\<lparr>fill_nr := fill_nr s + 1, fill_rule := fill_idx s, fill_idx := fill_idx s + 1,
                        fill_rr := Some p, fill_rules := (fill_rules s)[fill_idx s := first_of_rule chn rr]\<rparr>)
                    else None
                  else Some s);
            let rule = fill_rules s ! fill_rule s;
            Some (s\<lparr>fill_rules := (fill_rules s)[fill_rule s :=
              rule\<lparr>nr_channel := ucast (hw_value chn) - start_channel rule + 1\<rparr>]\<rparr>)
          })"

fun add_channels :: "(u32 \<Rightarrow> int + nat \<times> reg_rule) \<Rightarrow> channel list \<Rightarrow> regd_fill \<Rightarrow> regd_fill option" where
  "add_channels info [] s = Some s"
| "add_channels info (chn # chns) s = do { s \<leftarrow> add_channel info chn s; add_channels info chns s }"

text \<open>The channels of the bands, in the order of the two loops.\<close>

definition all_channels :: "regd_state \<Rightarrow> channel list" where
  "all_channels st = concat (map (\<lambda>sband. case sband of None \<Rightarrow> [] | Some chns \<Rightarrow> chns) (bands st))"

text \<open>The result of the function, the state behind it and the message that the firmware was sent.\<close>

definition skw_cmd_set_regdom ::
  "regulatory \<Rightarrow> string \<Rightarrow> regd_state \<Rightarrow> (int \<times> regd_state \<times> skw_regdom list) option" where
  "skw_cmd_set_regdom k cc st = do {
     s \<leftarrow> add_channels (skw_regd_rule k st) (all_channels st) no_rules;
     if fill_nr s = 0 then Some (0, st, [])
     else do {
       let msg = \<lparr>fw_country = [char_at cc 0, char_at cc 1, CHR 0x00], nr_reg_rules = fill_nr s,
                  fw_rules = fill_rules s\<rparr>;
       let ret = set_regd_cmd k msg;
       Some (ret, if ret = 0 then st\<lparr>country := [char_at cc 0, char_at cc 1]\<rparr> else st, [msg])
     }
   }"

section \<open>Setting a country\<close>

definition skw_set_wiphy_regd :: "regulatory \<Rightarrow> string \<Rightarrow> regd_state \<Rightarrow> int \<times> regd_state" where
  "skw_set_wiphy_regd k cc st =
     (if \<not> self_managed st then (0, st)
      else case skw_get_regd k cc of
        None \<Rightarrow> (- EINVAL, st)
      | Some rd \<Rightarrow>
          if \<not> is_skw_valid_rd rd then (- EINVAL, st)
          else (set_wiphy_regd k rd,
                st\<lparr>no_beacon_hints := \<not> (char_at cc 0 = CHR ''0'' \<and> char_at cc 1 = CHR ''0''), regd := Some rd\<rparr>))"

definition skw_set_regdom ::
  "regulatory \<Rightarrow> string \<Rightarrow> regd_state \<Rightarrow> (int \<times> regd_state \<times> skw_regdom list) option" where
  "skw_set_regdom k cc st =
     (if \<not> is_skw_valid_reg_code k cc then Some (- EINVAL, st, [])
      else if self_managed st then
        (case skw_set_wiphy_regd k cc st of (ret, st) \<Rightarrow>
           if ret = 0 then skw_cmd_set_regdom k cc st else Some (ret, st, []))
      else Some (regulatory_hint k cc, st, []))"

text \<open>The kernel's own change of the domain, and the file in the debug file system.\<close>

definition skw_regd_notifier ::
  "regulatory \<Rightarrow> string \<Rightarrow> dfs_region \<Rightarrow> regd_state \<Rightarrow> (regd_state \<times> skw_regdom list) option" where
  "skw_regd_notifier k cc region st =
     (case skw_set_wiphy_regd k cc (st\<lparr>dfs_reg := region\<rparr>) of (ret, st) \<Rightarrow>
        if ret = 0 then map_option snd (skw_cmd_set_regdom k cc st) else Some (st, []))"

definition skw_regd_write :: "regulatory \<Rightarrow> string option \<Rightarrow> nat \<Rightarrow> regd_state \<Rightarrow> (regd_state \<times> skw_regdom list) option" where
  "skw_regd_write k buf len st =
     (if len \<noteq> 3 then Some (st, [])
      else case buf of None \<Rightarrow> Some (st, [])
        | Some cc \<Rightarrow> map_option snd (skw_set_regdom k cc st))"

end
