(* ===== verification/Wifi_Channels.thy ===== *)
theory Wifi_Channels
  imports Wifi_Regd
begin

text \<open>
  Channels and rules of a regulatory domain: the driver finds the first rule that holds a
  channel; in an orderly domain higher channels have later rules; and then the message that
  \<open>skw_cmd_set_regdom\<close> puts together holds one entry for each rule in use, with the channels of
  that rule and no other.
\<close>

unbundle bit_operations_syntax

section \<open>Ranges\<close>

abbreviation range_start :: "reg_rule \<Rightarrow> nat" where
  "range_start r \<equiv> unat (start_freq_khz (rule_range r))"

abbreviation range_end :: "reg_rule \<Rightarrow> nat" where
  "range_end r \<equiv> unat (end_freq_khz (rule_range r))"

lemma khz_small: "n \<le> 4000000 \<Longrightarrow> unat (of_nat n * 1000 :: u32) = n * 1000"
proof -
  assume n: "n \<le> 4000000"
  have "unat (of_nat (n * 1000) :: u32) = n * 1000"
    using n by (simp only: unat_of_nat) (simp add: take_bit_nat_eq_self)
  then show ?thesis by simp
qed

lemma rule_of_table [simp]:
  assumes "low \<le> 4000000" "high \<le> 4000000"
  shows "range_start (REG_RULE_EXT low high bw gain eirp cac flags) = low * 1000"
    "range_end (REG_RULE_EXT low high bw gain eirp cac flags) = high * 1000"
  using assms khz_small by (simp_all add: REG_RULE_EXT_def)

lemma valid_rule: "is_skw_valid_reg_rule r \<longleftrightarrow>
    0 < range_start r \<and> range_start r < range_end r \<and>
    range_start r + unat (max_bandwidth_khz (rule_range r)) \<le> range_end r"
proof -
  have zero: "x = 0 \<longleftrightarrow> unat x = 0" for x :: u32 by (simp add: unat_eq_0)
  show ?thesis
    by (auto simp: is_skw_valid_reg_rule_def Let_def zero word_less_nat_alt word_le_nat_alt unat_sub_if_size
      split: if_splits)
qed

lemma bandwidth_of_table [simp]:
  "bw \<le> 4000000 \<Longrightarrow> unat (max_bandwidth_khz (rule_range (REG_RULE_EXT low high bw gain eirp cac flags))) = bw * 1000"
  using khz_small by (simp add: REG_RULE_EXT_def)

text \<open>
  \<open>orderly\<close>: the ranges ascend, in their starts and in their ends, so that none lies within another;
  they are narrow, but for those above 45 GHz; and the channels of the driver meet eight at most.
\<close>

definition ascending :: "reg_rule \<Rightarrow> reg_rule \<Rightarrow> bool" where
  "ascending r s \<longleftrightarrow> range_start r \<le> range_start s \<and> range_end r \<le> range_end s"

definition narrow :: "reg_rule \<Rightarrow> bool" where
  "narrow r \<longleftrightarrow> range_end r < 2000000000 \<and> (range_end r \<le> range_start r + 4000000 \<or> 45000000 < range_start r)"

definition met :: "reg_rule \<Rightarrow> bool" where
  "met r \<longleftrightarrow> range_start r \<le> 5900000 \<and> 2400000 \<le> range_end r"

fun meets :: "nat \<Rightarrow> reg_rule list \<Rightarrow> bool" where
  "meets n [] \<longleftrightarrow> True"
| "meets n (r # rs) \<longleftrightarrow> (if met r then 0 < n \<and> meets (n - 1) rs else meets n rs)"

definition orderly :: "reg_rule list \<Rightarrow> bool" where
  "orderly rs \<longleftrightarrow> successively ascending rs \<and> list_all narrow rs \<and> meets 8 rs"

section \<open>The rule of a frequency\<close>

text \<open>\<open>fits\<close>: a channel of 20 MHz about the frequency lies within the range.\<close>

definition fits_rule :: "nat \<Rightarrow> reg_rule \<Rightarrow> bool" where
  "fits_rule f r \<longleftrightarrow> range_start r + 10000 \<le> f \<and> f + 10000 \<le> range_end r"

definition first_rule :: "reg_rule list \<Rightarrow> nat \<Rightarrow> nat option" where
  "first_rule rs f = find (\<lambda>i. fits_rule f (rs ! i)) [0..<length rs]"

lemma first_rule_Some:
  "first_rule rs f = Some i \<longleftrightarrow>
     i < length rs \<and> fits_rule f (rs ! i) \<and> (\<forall>j < i. \<not> fits_rule f (rs ! j))"
  unfolding first_rule_def find_Some_iff by (auto intro!: exI [of _ i])

lemma fits_word:
  assumes "10000 \<le> unat freq" "unat freq \<le> 45000000"
  shows "skw_does_bw_fit_range (rule_range r) freq (MHZ_TO_KHZ 20) \<longleftrightarrow> fits_rule (unat freq) r"
proof -
  have "unat (freq - 10000) = unat freq - 10000" "unat (freq + 10000) = unat freq + 10000"
    using assms by (simp_all add: unat_sub word_le_nat_alt unat_word_ariths)
  then show ?thesis
    using assms by (auto simp: skw_does_bw_fit_range_def MHZ_TO_KHZ_def fits_rule_def Let_def word_le_nat_alt)
qed

lemma bit31: "bit (x :: u32) 31 \<longleftrightarrow> 2147483648 \<le> unat x"
proof -
  have "bit x 31 \<longleftrightarrow> bit (unat x) 31" by (simp add: bit_unsigned_iff)
  also have "\<dots> \<longleftrightarrow> odd (unat x div 2147483648)" by (simp add: bit_iff_odd)
  also have "\<dots> \<longleftrightarrow> 2147483648 \<le> unat x"
  proof -
    have "unat x < 4294967296" using unsigned_less [of x] by simp
    then show ?thesis by (cases "2147483648 \<le> unat x") (simp_all add: div_less le_div_geq)
  qed
  finally show ?thesis .
qed

lemma kernel_abs_diff:
  assumes "unat a < 2147483648" "unat b < 2147483648"
  shows "unat (kernel_abs (a - b)) = (if b \<le> a then unat a - unat b else unat b - unat a)"
proof (cases "b \<le> a")
  case True
  then show ?thesis using assms by (simp add: kernel_abs_def bit31 unat_sub word_le_nat_alt)
next
  case False
  then have "unat (b - a) = unat b - unat a" "a < b" by (simp_all add: unat_sub word_le_nat_alt not_le word_less_nat_alt)
  moreover have "unat (a - b) = 4294967296 - (unat b - unat a)"
    using False unat_sub_if_size [of a b] by (simp add: word_le_nat_alt word_size)
  ultimately show ?thesis using assms False by (simp add: kernel_abs_def bit31)
qed

lemma band_word:
  assumes "unat freq \<le> 45000000" "fits_rule (unat freq) r" "narrow r"
  shows "skw_freq_in_rule_band (rule_range r) freq"
proof -
  let ?s = "start_freq_khz (rule_range r)" and ?e = "end_freq_khz (rule_range r)"
  have "unat (kernel_abs (freq - ?s)) = unat freq - unat ?s" "unat (kernel_abs (freq - ?e)) = unat ?e - unat freq"
    using assms by (auto simp: kernel_abs_diff narrow_def fits_rule_def word_le_nat_alt)
  moreover have "unat ?e - unat ?s \<le> 4000000" using assms by (auto simp: narrow_def fits_rule_def)
  ultimately have "kernel_abs (freq - ?s) \<le> 2000000 \<or> kernel_abs (freq - ?e) \<le> 2000000"
    using assms by (auto simp: word_le_nat_alt fits_rule_def)
  moreover have "\<not> 45000000 < freq" using assms(1) by (simp add: word_less_nat_alt)
  ultimately show ?thesis by (auto simp: skw_freq_in_rule_band_def Let_def)
qed

text \<open>
  In an orderly domain the search ends at the first range that holds the channel: that the
  frequency is near the range does not narrow it down.
\<close>

lemma freq_rule_loop_first:
  assumes "10000 \<le> unat freq" "unat freq \<le> 45000000" "\<forall>i \<in> set is. narrow (rules ! i)"
  shows "freq_rule_loop freq rules is found =
    (case find (\<lambda>i. fits_rule (unat freq) (rules ! i)) is of
       Some i \<Rightarrow> Inr i
     | None \<Rightarrow> Inl (if found \<or> (\<exists>i \<in> set is. skw_freq_in_rule_band (rule_range (rules ! i)) freq)
         then - EINVAL else - ERANGE))"
  using assms(3)
proof (induction "is" arbitrary: found)
  case (Cons i "is")
  then show ?case
    using fits_word [OF assms(1,2), of "rules ! i"] band_word [OF assms(2), of "rules ! i"]
    by (auto simp: Let_def split: option.split)
qed simp

lemma reg_info_first:
  assumes "n_reg_rules rd = length (reg_rules rd)" "orderly (reg_rules rd)"
    and "10000 \<le> unat freq" "unat freq \<le> 45000000"
  shows "(\<exists>err. skw_freq_reg_info (Some rd) freq = Inl err) \<and> first_rule (reg_rules rd) (unat freq) = None \<or>
    (\<exists>i. skw_freq_reg_info (Some rd) freq = Inr (i, reg_rules rd ! i) \<and>
         first_rule (reg_rules rd) (unat freq) = Some i)"
  using freq_rule_loop_first [OF assms(3,4), of "[0..<length (reg_rules rd)]" "reg_rules rd" False] assms(1,2)
  by (auto simp: skw_freq_reg_info_def first_rule_def orderly_def list_all_length split: option.splits)

section \<open>Higher channels have later rules\<close>

lemma first_rule_mono:
  assumes "orderly rs" "first_rule rs f = Some i" "first_rule rs g = Some j" "f \<le> g"
  shows "i \<le> j"
proof (rule ccontr)
  assume "\<not> i \<le> j"
  moreover have "sorted_wrt ascending rs"
    using assms(1) by (subst successively_conv_sorted_wrt [symmetric]) (auto simp: orderly_def ascending_def transp_def)
  ultimately have "ascending (rs ! j) (rs ! i)"
    using assms(2) by (simp add: first_rule_Some sorted_wrt_iff_nth_less)
  then have "fits_rule f (rs ! j)"
    using assms(2-4) by (auto simp: first_rule_Some fits_rule_def ascending_def)
  then show False using assms(2) \<open>\<not> i \<le> j\<close> by (simp add: first_rule_Some)
qed

lemma first_rule_between:
  assumes "orderly rs" "first_rule rs f = Some i" "first_rule rs g = Some i" "f \<le> h" "h \<le> g"
  shows "first_rule rs h = Some i"
proof -
  have "fits_rule h (rs ! i)" using assms(2-5) by (auto simp: first_rule_Some fits_rule_def)
  then obtain j where j: "first_rule rs h = Some j"
    using assms(2) by (cases "first_rule rs h") (auto simp: first_rule_def find_None_iff first_rule_Some find_Some_iff)
  then show ?thesis
    using first_rule_mono [OF assms(1) assms(2) j] first_rule_mono [OF assms(1) j assms(3)] assms(4,5) by simp
qed


section \<open>The message holds one entry for each rule\<close>

text \<open>
  The rule that a channel may use, with its index: none where the range may not be used to
  initiate radiation. The rules in use are those of the channels, each once.
\<close>

definition usable :: "(u32 \<Rightarrow> int + nat \<times> reg_rule) \<Rightarrow> channel \<Rightarrow> (nat \<times> reg_rule) option" where
  "usable info chn =
     (case info (center_freq chn) of
        Inl _ \<Rightarrow> None
      | Inr (p, rr) \<Rightarrow> if rule_flags rr AND SKW_RRF_NO_IR \<noteq> 0 then None else Some (p, rr))"

definition in_use :: "(u32 \<Rightarrow> int + nat \<times> reg_rule) \<Rightarrow> channel list \<Rightarrow> (nat \<times> reg_rule) list" where
  "in_use info chns = remdups_adj (List.map_filter (usable info) chns)"

text \<open>The entry of a rule: from its first to its last channel.\<close>

definition users :: "(u32 \<Rightarrow> int + nat \<times> reg_rule) \<Rightarrow> channel list \<Rightarrow> nat \<times> reg_rule \<Rightarrow> channel list" where
  "users info chns q = filter (\<lambda>chn. usable info chn = Some q) chns"

definition entry :: "(u32 \<Rightarrow> int + nat \<times> reg_rule) \<Rightarrow> channel list \<Rightarrow> nat \<times> reg_rule \<Rightarrow> skw_reg_rule" where
  "entry info chns q =
     (let first = hd (users info chns q) in
      (first_of_rule first (snd q))\<lparr>nr_channel :=
         ucast (hw_value (last (users info chns q))) - ucast (hw_value first) + 1\<rparr>)"

definition rules_ascend :: "(u32 \<Rightarrow> int + nat \<times> reg_rule) \<Rightarrow> channel list \<Rightarrow> bool" where
  "rules_ascend info chns \<longleftrightarrow>
     sorted_wrt (\<lambda>q q'. fst q < fst q' \<or> q = q') (List.map_filter (usable info) chns)"

lemma remdups_adj_snoc:
  "remdups_adj (xs @ [x]) = (if xs \<noteq> [] \<and> last xs = x then remdups_adj xs else remdups_adj xs @ [x])"
  by (cases xs rule: rev_cases) (auto simp: remdups_adj_append_two)

lemma map_filter_append: "List.map_filter f (xs @ ys) = List.map_filter f xs @ List.map_filter f ys"
  by (simp add: List.map_filter_def)

lemma add_channels_append: "add_channels info (xs @ ys) s = do { s \<leftarrow> add_channels info xs s; add_channels info ys s }"
  by (induction xs arbitrary: s) (auto split: option.splits bind_splits)

definition filled :: "(u32 \<Rightarrow> int + nat \<times> reg_rule) \<Rightarrow> channel list \<Rightarrow> regd_fill" where
  "filled info chns =
     (let qs = in_use info chns in
      \<lparr>fill_nr = of_nat (length qs), fill_idx = length qs, fill_rule = length qs - 1,
       fill_rr = (if qs = [] then None else Some (fst (last qs))),
       fill_rules = map (entry info chns) qs @ replicate (8 - length qs) no_rule\<rparr>)"

lemma add_channel_usable:
  "usable info chn = None \<Longrightarrow> add_channel info chn s = Some s"
  by (auto simp: usable_def add_channel_def split: sum.splits prod.splits if_splits)

lemma users_snoc:
  "users info (chns @ [chn]) q = users info chns q @ (if usable info chn = Some q then [chn] else [])"
  by (simp add: users_def)

lemma in_use_users: "q \<in> set (in_use info chns) \<longleftrightarrow> users info chns q \<noteq> []"
  by (force simp: in_use_def users_def List.map_filter_def filter_empty_conv image_iff)

lemma in_use_strict: "rules_ascend info chns \<Longrightarrow> sorted_wrt (\<lambda>q q'. fst q < fst q') (in_use info chns)"
proof -
  have "sorted_wrt (\<lambda>q q'. fst q < fst q' \<or> q = q') qs \<Longrightarrow> sorted_wrt (\<lambda>q q'. fst q < fst q') (remdups_adj qs)"
    for qs :: "(nat \<times> reg_rule) list"
    by (induction qs rule: remdups_adj.induct) fastforce+
  then show "rules_ascend info chns \<Longrightarrow> ?thesis" by (simp add: rules_ascend_def in_use_def)
qed

lemma in_use_distinct: "rules_ascend info chns \<Longrightarrow> distinct (map fst (in_use info chns))"
proof -
  assume "rules_ascend info chns"
  from in_use_strict [OF this] have "sorted_wrt (<) (map fst (in_use info chns))" by (simp add: sorted_wrt_map)
  then show ?thesis by (simp add: strict_sorted_iff)
qed

lemma entry_snoc_other: "usable info chn \<noteq> Some q \<Longrightarrow> entry info (chns @ [chn]) q = entry info chns q"
  by (simp add: entry_def users_snoc)

lemma entry_snoc:
  "usable info chn = Some q \<Longrightarrow> users info chns q \<noteq> [] \<Longrightarrow>
   entry info (chns @ [chn]) q = (entry info chns q)\<lparr>nr_channel :=
     ucast (hw_value chn) - start_channel (entry info chns q) + 1\<rparr>"
  by (simp add: entry_def users_snoc Let_def first_of_rule_def)

lemma entry_new:
  "usable info chn = Some q \<Longrightarrow> users info chns q = [] \<Longrightarrow>
   entry info (chns @ [chn]) q = (first_of_rule chn (snd q))\<lparr>nr_channel :=
     ucast (hw_value chn) - start_channel (first_of_rule chn (snd q)) + 1\<rparr>"
  by (simp add: entry_def users_snoc Let_def first_of_rule_def)

lemma add_channels_filled:
  "rules_ascend info chns \<Longrightarrow> length (in_use info chns) \<le> 8 \<Longrightarrow>
   add_channels info chns no_rules = Some (filled info chns)"
proof (induction chns rule: rev_induct)
  case Nil
  then show ?case by (simp add: filled_def in_use_def List.map_filter_def no_rules_def)
next
  case (snoc chn chns)
  let ?qs = "in_use info chns"
  have asc: "rules_ascend info chns"
    using snoc.prems(1) by (simp add: rules_ascend_def map_filter_append sorted_wrt_append)
  have short: "length ?qs \<le> 8"
    using snoc.prems(2) by (auto simp: in_use_def map_filter_append List.map_filter_def remdups_adj_snoc split: option.splits if_splits)
  have before: "add_channels info (chns @ [chn]) no_rules = add_channel info chn (filled info chns)"
    using snoc.IH [OF asc short]
    by (cases "add_channel info chn (filled info chns)") (simp_all add: add_channels_append)
  show ?case
  proof (cases "usable info chn")
    case None
    then have "in_use info (chns @ [chn]) = ?qs"
      by (simp add: in_use_def map_filter_append List.map_filter_def)
    with None show ?thesis
      by (simp add: before add_channel_usable filled_def entry_snoc_other Let_def)
  next
    case (Some q)
    then have use': "in_use info (chns @ [chn]) = (if ?qs \<noteq> [] \<and> last ?qs = q then ?qs else ?qs @ [q])"
      by (simp add: in_use_def map_filter_append List.map_filter_def remdups_adj_snoc)
    have strict: "sorted_wrt (\<lambda>q q'. fst q < fst q') (in_use info (chns @ [chn]))"
      by (rule in_use_strict [OF snoc.prems(1)])
    obtain p rr where q: "q = (p, rr)" by (cases q)
    with Some have info: "info (center_freq chn) = Inr (p, rr)" "rule_flags rr AND SKW_RRF_NO_IR = 0"
      by (auto simp: usable_def split: sum.splits if_splits)
    show ?thesis
    proof (cases "?qs \<noteq> [] \<and> last ?qs = q")
      case True
      then obtain ys where ys: "?qs = ys @ [q]" by (metis append_butlast_last_id)
      then have new: "q \<notin> set ys" using strict use' True by (auto simp: sorted_wrt_append)
      then have "map (entry info (chns @ [chn])) ys = map (entry info chns) ys"
        using Some by (auto intro: entry_snoc_other)
      moreover have "users info chns q \<noteq> []" using ys in_use_users [of q info chns] by simp
      ultimately show ?thesis
        using True ys new
        by (simp add: before add_channel_def info filled_def use' q nth_append list_update_append Let_def
          entry_snoc [OF Some [unfolded q]])
    next
      case False
      have use_new: "in_use info (chns @ [chn]) = ?qs @ [q]" by (subst use') (rule if_not_P [OF False])
      then have "\<forall>x \<in> set ?qs. fst x < p" using strict q by (simp add: sorted_wrt_append)
      then have new: "q \<notin> set ?qs" and last: "?qs \<noteq> [] \<Longrightarrow> fst (last ?qs) \<noteq> p"
        using q last_in_set [of ?qs] by fastforce+
      then have "map (entry info (chns @ [chn])) ?qs = map (entry info chns) ?qs"
        using Some by (auto intro: entry_snoc_other)
      moreover have "users info chns q = []" using new in_use_users [of q info chns] by simp
      moreover obtain n where "8 - length ?qs = Suc n" "8 - Suc (length ?qs) = n"
        using snoc.prems(2) False by (cases "8 - length ?qs") (auto simp: use_new)
      ultimately show ?thesis
        using snoc.prems(2) last
        by (simp add: before add_channel_def info filled_def use_new q nth_append list_update_append Let_def
          entry_new [OF Some [unfolded q]])
    qed
  qed
qed
section \<open>The channels of the driver\<close>

abbreviation freq_khz :: "channel \<Rightarrow> nat" where
  "freq_khz chn \<equiv> 1000 * unat (center_freq chn)"

definition driver_channels :: "channel list" where
  "driver_channels = skw_2ghz_chan @ skw_5ghz_chan"

definition below :: "channel \<Rightarrow> channel \<Rightarrow> bool" where
  "below c d \<longleftrightarrow> unat (hw_value c) < unat (hw_value d) \<and> unat (center_freq c) < unat (center_freq d)"

lemma driver_channels_ascend: "sorted_wrt below driver_channels"
proof -
  have "successively below driver_channels"
    by (simp add: driver_channels_def skw_2ghz_chan_def skw_5ghz_chan_def SKW_CHAN2G_def SKW_CHAN5G_def below_def)
  moreover have "transp below" by (auto simp: transp_def below_def)
  ultimately show ?thesis by (simp add: successively_conv_sorted_wrt)
qed

lemma driver_channels_bounds:
  "chn \<in> set driver_channels \<Longrightarrow> 2412 \<le> unat (center_freq chn) \<and> unat (center_freq chn) \<le> 5825 \<and>
     0 < unat (hw_value chn) \<and> unat (hw_value chn) < 256"
proof -
  have "list_all (\<lambda>chn. 2412 \<le> unat (center_freq chn) \<and> unat (center_freq chn) \<le> 5825 \<and>
     0 < unat (hw_value chn) \<and> unat (hw_value chn) < 256) driver_channels"
    by (simp add: driver_channels_def skw_2ghz_chan_def skw_5ghz_chan_def SKW_CHAN2G_def SKW_CHAN5G_def)
  then show "chn \<in> set driver_channels \<Longrightarrow> ?thesis" by (simp add: list_all_iff)
qed

text \<open>
  What the domain says of a channel: the first rule whose range holds it, unless radiation must
  not be initiated there.
\<close>

definition permitted :: "regdomain \<Rightarrow> channel \<Rightarrow> reg_rule option" where
  "permitted rd chn =
     (case first_rule (reg_rules rd) (freq_khz chn) of
        None \<Rightarrow> None
      | Some i \<Rightarrow> if rule_flags (reg_rules rd ! i) AND SKW_RRF_NO_IR \<noteq> 0 then None else Some (reg_rules rd ! i))"

definition well_kept :: "regdomain \<Rightarrow> bool" where
  "well_kept rd \<longleftrightarrow> n_reg_rules rd = length (reg_rules rd) \<and> orderly (reg_rules rd)"

lemma usable_permitted:
  assumes "well_kept rd" "chn \<in> set driver_channels" "regd st = Some rd"
  shows "usable (skw_regd_rule k st) chn =
    (case first_rule (reg_rules rd) (freq_khz chn) of
       None \<Rightarrow> None
     | Some i \<Rightarrow> if rule_flags (reg_rules rd ! i) AND SKW_RRF_NO_IR \<noteq> 0 then None else Some (i, reg_rules rd ! i))"
proof -
  have khz: "unat (MHZ_TO_KHZ (center_freq chn)) = freq_khz chn"
    using driver_channels_bounds [OF assms(2)] by (simp add: MHZ_TO_KHZ_def unat_word_ariths)
  have bounds: "10000 \<le> unat (MHZ_TO_KHZ (center_freq chn))" "unat (MHZ_TO_KHZ (center_freq chn)) \<le> 45000000"
    using driver_channels_bounds [OF assms(2)] unfolding khz by auto
  have rd: "n_reg_rules rd = length (reg_rules rd)" "orderly (reg_rules rd)"
    using assms(1) by (simp_all add: well_kept_def)
  from reg_info_first [OF rd bounds] show ?thesis
    by (auto simp: usable_def skw_regd_rule_def assms(3) khz)
qed

lemma usable_index:
  assumes "well_kept rd" "regd st = Some rd" "chn \<in> set driver_channels" "usable (skw_regd_rule k st) chn = Some q"
  shows "first_rule (reg_rules rd) (freq_khz chn) = Some (fst q)" "snd q = reg_rules rd ! fst q"
    "rule_flags (snd q) AND SKW_RRF_NO_IR = 0" "permitted rd chn = Some (snd q)"
  using assms(4) unfolding usable_permitted [OF assms(1,3,2)]
  by (auto simp: permitted_def split: option.splits if_splits)

lemma usable_mono:
  assumes "well_kept rd" "regd st = Some rd" "c \<in> set driver_channels" "d \<in> set driver_channels" "below c d"
    and "usable (skw_regd_rule k st) c = Some q" "usable (skw_regd_rule k st) d = Some q'"
  shows "fst q < fst q' \<or> q = q'"
proof -
  have "fst q \<le> fst q'"
    using first_rule_mono [OF _ usable_index(1) [OF assms(1-3,6)] usable_index(1) [OF assms(1,2,4,7)]] assms(1,5)
    by (simp add: well_kept_def below_def)
  then show ?thesis
    using usable_index(2) [OF assms(1-3,6)] usable_index(2) [OF assms(1,2,4,7)] by (auto simp: prod_eq_iff)
qed

lemma sorted_map_filter:
  "sorted_wrt P xs \<Longrightarrow> (\<And>x y a b. x \<in> set xs \<Longrightarrow> y \<in> set xs \<Longrightarrow> P x y \<Longrightarrow> f x = Some a \<Longrightarrow> f y = Some b \<Longrightarrow> Q a b) \<Longrightarrow>
   sorted_wrt Q (List.map_filter f xs)"
proof (induction xs)
  case (Cons x xs)
  have "sorted_wrt Q (List.map_filter f xs)"
    by (rule Cons.IH) (use Cons.prems in auto)
  moreover have "Q a b" if "f x = Some a" "y \<in> set xs" "f y = Some b" for a b y
    by (rule Cons.prems(2) [of x y]) (use Cons.prems(1) that in auto)
  ultimately show ?case by (auto simp: List.map_filter_def)
qed (simp add: List.map_filter_def)

lemma sorted_ends:
  "sorted_wrt P xs \<Longrightarrow> x \<in> set xs \<Longrightarrow> x = hd xs \<or> P (hd xs) x"
  "sorted_wrt P xs \<Longrightarrow> x \<in> set xs \<Longrightarrow> x = last xs \<or> P x (last xs)"
proof -
  show "sorted_wrt P xs \<Longrightarrow> x \<in> set xs \<Longrightarrow> x = hd xs \<or> P (hd xs) x" by (cases xs) auto
  show "sorted_wrt P xs \<Longrightarrow> x \<in> set xs \<Longrightarrow> x = last xs \<or> P x (last xs)"
    by (cases xs rule: rev_cases) (auto simp: sorted_wrt_append)
qed

lemma sorted_total: "sorted_wrt P xs \<Longrightarrow> x \<in> set xs \<Longrightarrow> y \<in> set xs \<Longrightarrow> x = y \<or> P x y \<or> P y x"
  by (induction xs) auto

lemma driver_rules_ascend:
  assumes "well_kept rd" "regd st = Some rd"
  shows "rules_ascend (skw_regd_rule k st) driver_channels"
  unfolding rules_ascend_def
  by (rule sorted_map_filter [OF driver_channels_ascend]) (use usable_mono [OF assms] in blast)

lemma meets_filter: "meets n rs \<Longrightarrow> length (filter met rs) \<le> n"
  by (induction rs arbitrary: n) (fastforce split: if_splits)+

lemma in_use_few:
  assumes "well_kept rd" "regd st = Some rd"
  shows "length (in_use (skw_regd_rule k st) driver_channels) \<le> 8"
proof -
  let ?qs = "in_use (skw_regd_rule k st) driver_channels" and ?rs = "reg_rules rd"
  have "length ?qs = card (set (map fst ?qs))"
    using distinct_card [OF in_use_distinct [OF driver_rules_ascend [OF assms]]] by simp
  also have "set (map fst ?qs) \<subseteq> {i. i < length ?rs \<and> met (?rs ! i)}"
  proof
    fix i assume "i \<in> set (map fst ?qs)"
    then obtain q where q: "q \<in> set ?qs" "i = fst q" by auto
    then obtain chn where "chn \<in> set driver_channels" "usable (skw_regd_rule k st) chn = Some q"
      using in_use_users [of q] by (auto simp: users_def filter_empty_conv)
    then have "first_rule ?rs (freq_khz chn) = Some i" "2412 \<le> unat (center_freq chn)" "unat (center_freq chn) \<le> 5825"
      using usable_index(1) [OF assms] driver_channels_bounds q(2) by auto
    then show "i \<in> {i. i < length ?rs \<and> met (?rs ! i)}"
      by (auto simp: first_rule_Some fits_rule_def met_def)
  qed
  then have "card (set (map fst ?qs)) \<le> length (filter met ?rs)"
    by (simp add: length_filter_conv_card card_mono)
  also have "\<dots> \<le> 8" using assms(1) by (intro meets_filter) (simp add: well_kept_def orderly_def)
  finally show ?thesis .
qed

text \<open>The entry of the message that holds a channel.\<close>

definition covers :: "channel \<Rightarrow> skw_reg_rule \<Rightarrow> bool" where
  "covers chn rule \<longleftrightarrow> unat (start_channel rule) \<le> unat (hw_value chn) \<and>
     unat (hw_value chn) < unat (start_channel rule) + unat (nr_channel rule)"

lemma entry_covers:
  assumes rd: "well_kept rd" "regd st = Some rd" and q: "q \<in> set (in_use (skw_regd_rule k st) driver_channels)"
    and chn: "chn \<in> set driver_channels"
  shows "covers chn (entry (skw_regd_rule k st) driver_channels q) \<longleftrightarrow> usable (skw_regd_rule k st) chn = Some q"
proof -
  let ?info = "skw_regd_rule k st"
  let ?us = "users ?info driver_channels q"
  define c where "c = hd ?us"
  define d where "d = last ?us"
  have us: "?us \<noteq> []" using q in_use_users by simp
  have in_us: "c \<in> set ?us" "d \<in> set ?us" using us by (simp_all add: c_def d_def)
  then have c: "c \<in> set driver_channels" "usable ?info c = Some q" and d: "d \<in> set driver_channels" "usable ?info d = Some q"
    by (auto simp: users_def)
  have asc: "sorted_wrt below ?us" using driver_channels_ascend by (simp add: users_def sorted_wrt_filter)
  have le: "e = c \<or> below c e" "e = d \<or> below e d" if "e \<in> set ?us" for e
    using sorted_ends [OF asc that] by (simp_all add: c_def d_def)
  have bounds: "0 < unat (hw_value c)" "unat (hw_value c) \<le> unat (hw_value d)" "unat (hw_value d) < 256"
    using le(1) [OF in_us(2)] driver_channels_bounds [OF c(1)] driver_channels_bounds [OF d(1)] by (auto simp: below_def)
  have small: "unat (ucast (hw_value e) :: u8) = unat (hw_value e)" if "unat (hw_value e) < 256" for e
    using that by (simp add: unsigned_ucast_eq take_bit_nat_eq_self)
  have first: "unat (start_channel (entry ?info driver_channels q)) = unat (hw_value c)"
    using small [of c] bounds by (simp add: entry_def first_of_rule_def Let_def c_def [symmetric])
  have count: "unat (nr_channel (entry ?info driver_channels q)) = unat (hw_value d) - unat (hw_value c) + 1"
  proof -
    have "unat (ucast (hw_value d) - ucast (hw_value c) :: u8) = unat (hw_value d) - unat (hw_value c)"
      using small [of c] small [of d] bounds by (simp add: unat_sub word_le_nat_alt)
    then show ?thesis
      using bounds by (simp add: entry_def first_of_rule_def Let_def c_def [symmetric] d_def [symmetric] unat_word_ariths)
  qed
  have covers: "covers chn (entry ?info driver_channels q) \<longleftrightarrow>
      unat (hw_value c) \<le> unat (hw_value chn) \<and> unat (hw_value chn) \<le> unat (hw_value d)"
    using bounds by (auto simp: covers_def first count)
  show ?thesis
  proof
    assume "usable ?info chn = Some q"
    then have "chn \<in> set ?us" using chn by (simp add: users_def)
    from le [OF this] show "covers chn (entry ?info driver_channels q)"
      unfolding covers by (auto simp: below_def)
  next
    assume "covers chn (entry ?info driver_channels q)"
    then have "freq_khz c \<le> freq_khz chn" "freq_khz chn \<le> freq_khz d"
      using sorted_total [OF driver_channels_ascend c(1) chn] sorted_total [OF driver_channels_ascend chn d(1)]
      unfolding covers by (auto simp: below_def)
    then have "first_rule (reg_rules rd) (freq_khz chn) = Some (fst q)"
      using first_rule_between [OF _ usable_index(1) [OF rd c] usable_index(1) [OF rd d]] rd(1)
      by (simp add: well_kept_def)
    then show "usable ?info chn = Some q"
      using usable_index(2,3) [OF rd c] by (simp add: usable_permitted [OF rd(1) chn rd(2)] prod_eq_iff)
  qed
qed

end
