(* ===== verification/Wifi_Country.thy ===== *)
theory Wifi_Country
  imports Wifi_Channels
begin

text \<open>
  The regulatory database of the Wi-Fi driver under the functions of \<open>Wifi_Regd\<close>: checks of the
  table (\<open>database_orderly\<close> and the lemmas beside it), the countries that the driver takes, and what
  the firmware is told of them.
\<close>

unbundle bit_operations_syntax

section \<open>The database is well kept\<close>

lemma rule_checks:
  assumes "low \<le> 4000000" "high \<le> 4000000"
  shows "narrow (REG_RULE_EXT low high bw gain eirp cac flags) \<longleftrightarrow>
      high < 2000000 \<and> (high \<le> low + 4000 \<or> 45000 < low)"
    and "met (REG_RULE_EXT low high bw gain eirp cac flags) \<longleftrightarrow> low \<le> 5900 \<and> 2400 \<le> high"
    and "bw \<le> 4000000 \<Longrightarrow> is_skw_valid_reg_rule (REG_RULE_EXT low high bw gain eirp cac flags) \<longleftrightarrow>
      0 < low \<and> low < high \<and> low + bw \<le> high"
    and "low' \<le> 4000000 \<Longrightarrow> high' \<le> 4000000 \<Longrightarrow>
      ascending (REG_RULE_EXT low high bw gain eirp cac flags) (REG_RULE_EXT low' high' bw' gain' eirp' cac' flags') \<longleftrightarrow>
      low \<le> low' \<and> high \<le> high'"
  using assms by (auto simp: narrow_def met_def valid_rule ascending_def)

lemma database_orderly: "list_all (\<lambda>rd. orderly (reg_rules rd)) skw_regdb"
  by (simp only: skw_regdb_def regdoms list.pred_inject regdomain.select_convs orderly_def
    successively.simps meets.simps rule_checks if_True if_False simp_thms arith_simps rel_simps) simp

lemma database_lengths: "list_all (\<lambda>rd. n_reg_rules rd = length (reg_rules rd)) skw_regdb"
  by (simp only: skw_regdb_def regdoms list.pred_inject regdomain.select_convs list.size) simp

lemma database_valid:
  "list_all (\<lambda>rd. list_all is_skw_valid_reg_rule (reg_rules rd) \<longleftrightarrow> alpha2 rd \<notin> {''GT'', ''RS''}) skw_regdb"
  by (simp only: skw_regdb_def regdoms list.pred_inject regdomain.select_convs rule_checks simp_thms arith_simps rel_simps) simp

lemma database_distinct: "distinct (map alpha2 skw_regdb)"
  by (simp only: skw_regdb_def regdoms list.map regdomain.select_convs) simp

lemma database_codes:
  "list_all (\<lambda>rd. length (alpha2 rd) = 2 \<and> (alpha2 rd = ''00'' \<or> set (alpha2 rd) \<subseteq> set ''ABCDEFGHIJKLMNOPQRSTUVWXYZ'')) skw_regdb"
  by (simp only: skw_regdb_def regdoms list.pred_inject regdomain.select_convs) simp

text \<open>The lowest channel may be used everywhere.\<close>

fun lowest_usable :: "reg_rule list \<Rightarrow> bool" where
  "lowest_usable [] \<longleftrightarrow> False"
| "lowest_usable (r # rs) \<longleftrightarrow> (if fits_rule 2412000 r then rule_flags r AND SKW_RRF_NO_IR = 0 else lowest_usable rs)"

lemma lowest_of_table:
  assumes "low \<le> 4000000" "high \<le> 4000000"
  shows "fits_rule 2412000 (REG_RULE_EXT low high bw gain eirp cac flags) \<longleftrightarrow> low \<le> 2402 \<and> 2422 \<le> high"
  using assms by (auto simp: fits_rule_def)

lemma flags_of_table: "rule_flags (REG_RULE_EXT low high bw gain eirp cac flags) = flags"
  by (simp add: REG_RULE_EXT_def)

lemma database_lowest: "list_all (\<lambda>rd. lowest_usable (reg_rules rd)) skw_regdb"
  by (simp only: skw_regdb_def regdoms list.pred_inject regdomain.select_convs lowest_usable.simps
    lowest_of_table flags_of_table if_True if_False simp_thms arith_simps rel_simps)
    (simp add: SKW_RRF_NO_IR_def SKW_RRF_AUTO_BW_def SKW_RRF_DFS_def SKW_RRF_NO_OUTDOOR_def)

definition code_of :: "string \<Rightarrow> string" where
  "code_of cc = [char_at cc 0, char_at cc 1]"

text \<open>Of the kernel's \<open>isalpha\<close>: capital letters are letters.\<close>

definition knows_capitals :: "regulatory \<Rightarrow> bool" where
  "knows_capitals k \<longleftrightarrow> (\<forall>c \<in> set ''ABCDEFGHIJKLMNOPQRSTUVWXYZ''. is_alpha k c)"

lemma database_domain:
  assumes "rd \<in> set skw_regdb"
  shows "well_kept rd" "is_skw_valid_rd rd \<longleftrightarrow> alpha2 rd \<notin> {''GT'', ''RS''}" "lowest_usable (reg_rules rd)"
    "length (alpha2 rd) = 2" "alpha2 rd = ''00'' \<or> set (alpha2 rd) \<subseteq> set ''ABCDEFGHIJKLMNOPQRSTUVWXYZ''"
proof -
  have n: "n_reg_rules rd = length (reg_rules rd)" using assms database_lengths by (simp add: list_all_iff)
  then show "well_kept rd" using assms database_orderly by (simp add: well_kept_def list_all_iff)
  show "is_skw_valid_rd rd \<longleftrightarrow> alpha2 rd \<notin> {''GT'', ''RS''}"
    using bspec [OF database_valid [unfolded list_all_iff] assms] n
    by (auto simp: is_skw_valid_rd_def all_set_conv_all_nth)
  show "lowest_usable (reg_rules rd)" using assms database_lowest by (simp add: list_all_iff)
  show "length (alpha2 rd) = 2" "alpha2 rd = ''00'' \<or> set (alpha2 rd) \<subseteq> set ''ABCDEFGHIJKLMNOPQRSTUVWXYZ''"
    using bspec [OF database_codes [unfolded list_all_iff] assms] by blast+
qed

lemma equal_code:
  assumes "rd \<in> set skw_regdb"
  shows "skw_alpha2_equal cc (alpha2 rd) \<longleftrightarrow> code_of cc = alpha2 rd"
proof -
  obtain a b where "alpha2 rd = [a, b]"
    using database_domain(4) [OF assms] by (auto simp: numeral_2_eq_2 length_Suc_conv)
  then show ?thesis by (simp add: skw_alpha2_equal_def code_of_def char_at_def)
qed

lemma get_regd_listed:
  assumes "knows_capitals k" "rd \<in> set skw_regdb" "code_of cc = alpha2 rd"
  shows "is_skw_valid_reg_code k cc" "skw_get_regd k cc = Some rd"
proof -
  have "[char_at cc 0, char_at cc 1] = ''00'' \<or> {char_at cc 0, char_at cc 1} \<subseteq> set ''ABCDEFGHIJKLMNOPQRSTUVWXYZ''"
    using database_domain(5) [OF assms(2)] unfolding assms(3) [symmetric] code_of_def by simp
  then show valid: "is_skw_valid_reg_code k cc"
    using assms(1) unfolding is_skw_valid_reg_code_def knows_capitals_def by (auto simp del: list.set)
  obtain i where i: "i < length skw_regdb" "rd = skw_regdb ! i"
    using assms(2) by (auto simp: in_set_conv_nth)
  have "\<not> skw_alpha2_equal cc (alpha2 (skw_regdb ! j))" if "j < i" for j
    using i that database_distinct equal_code [of "skw_regdb ! j" cc] assms(3)
    by (simp add: distinct_conv_nth)
  then have "find (\<lambda>regdom. skw_alpha2_equal cc (alpha2 regdom)) skw_regdb = Some rd"
    using i assms(2,3) equal_code unfolding find_Some_iff by blast
  then show "skw_get_regd k cc = Some rd" using valid by (simp add: skw_get_regd_def)
qed

lemma get_regd_unlisted: "code_of cc \<notin> alpha2 ` set skw_regdb \<Longrightarrow> skw_get_regd k cc = None"
  using equal_code by (auto simp: skw_get_regd_def find_None_iff image_iff)

lemma set_listed_country:
  assumes "knows_capitals k" "self_managed st" "rd \<in> set skw_regdb" "code_of cc = alpha2 rd" "alpha2 rd \<notin> {''GT'', ''RS''}"
  shows "skw_set_wiphy_regd k cc st =
    (set_wiphy_regd k rd, st\<lparr>no_beacon_hints := code_of cc \<noteq> ''00'', regd := Some rd\<rparr>)"
  using assms(2,5) get_regd_listed(2) [OF assms(1,3,4)] database_domain(2) [OF assms(3)]
  by (auto simp: skw_set_wiphy_regd_def code_of_def)

lemma set_rejected_country:
  assumes "knows_capitals k" "self_managed st" "rd \<in> set skw_regdb" "code_of cc = alpha2 rd" "alpha2 rd \<in> {''GT'', ''RS''}"
  shows "skw_set_wiphy_regd k cc st = (- EINVAL, st)"
  using assms(2,5) get_regd_listed(2) [OF assms(1,3,4)] database_domain(2) [OF assms(3)]
  by (auto simp: skw_set_wiphy_regd_def)

lemma set_unlisted_country:
  "self_managed st \<Longrightarrow> code_of cc \<notin> alpha2 ` set skw_regdb \<Longrightarrow> skw_set_wiphy_regd k cc st = (- EINVAL, st)"
  by (simp add: skw_set_wiphy_regd_def get_regd_unlisted)

lemma lowest_permitted:
  assumes "lowest_usable (reg_rules rd)"
  shows "permitted rd (SKW_CHAN2G 1 2412) \<noteq> None"
proof -
  have "lowest_usable rs \<Longrightarrow> \<exists>i. first_rule rs 2412000 = Some i \<and> rule_flags (rs ! i) AND SKW_RRF_NO_IR = 0" for rs
  proof (induction rs)
    case (Cons r rs)
    show ?case
    proof (cases "fits_rule 2412000 r")
      case True
      then show ?thesis using Cons.prems by (intro exI [of _ 0]) (simp add: first_rule_Some)
    next
      case False
      then obtain i where "first_rule rs 2412000 = Some i" "rule_flags (rs ! i) AND SKW_RRF_NO_IR = 0"
        using Cons by auto
      then show ?thesis
        using False by (intro exI [of _ "Suc i"]) (auto simp: first_rule_Some less_Suc_eq_0_disj)
    qed
  qed simp
  from this [OF assms] show ?thesis by (auto simp: permitted_def SKW_CHAN2G_def)
qed

section \<open>The message for a country of the database\<close>

definition country_message :: "regulatory \<Rightarrow> regd_state \<Rightarrow> string \<Rightarrow> skw_regdom" where
  "country_message k st cc =
     (let qs = in_use (skw_regd_rule k st) driver_channels in
      \<lparr>fw_country = code_of cc @ [CHR 0x00], nr_reg_rules = of_nat (length qs),
       fw_rules = map (entry (skw_regd_rule k st) driver_channels) qs @ replicate (8 - length qs) no_rule\<rparr>)"

lemma some_in_use:
  assumes "well_kept rd" "regd st = Some rd" "lowest_usable (reg_rules rd)"
  shows "in_use (skw_regd_rule k st) driver_channels \<noteq> []"
proof -
  have chn: "SKW_CHAN2G 1 2412 \<in> set driver_channels" by (simp add: driver_channels_def skw_2ghz_chan_def)
  obtain q where "usable (skw_regd_rule k st) (SKW_CHAN2G 1 2412) = Some q"
    using lowest_permitted [OF assms(3)] usable_permitted [OF assms(1) chn assms(2), of k]
    by (auto simp: permitted_def split: option.splits if_splits)
  then show ?thesis
    using chn in_use_users [of q "skw_regd_rule k st" driver_channels] by (auto simp: users_def filter_empty_conv)
qed

lemma count_in_use:
  assumes "well_kept rd" "regd st = Some rd"
  shows "unat (of_nat (length (in_use (skw_regd_rule k st) driver_channels)) :: u8) =
    length (in_use (skw_regd_rule k st) driver_channels)"
  using in_use_few [OF assms, of k] by (simp add: unat_of_nat take_bit_nat_eq_self)

lemma set_regdom_message:
  assumes "well_kept rd" "regd st = Some rd" "lowest_usable (reg_rules rd)" "all_channels st = driver_channels"
  shows "skw_cmd_set_regdom k cc st =
    (let msg = country_message k st cc; ret = set_regd_cmd k msg in
     Some (ret, if ret = 0 then st\<lparr>country := code_of cc\<rparr> else st, [msg]))"
proof -
  let ?qs = "in_use (skw_regd_rule k st) driver_channels"
  have "add_channels (skw_regd_rule k st) driver_channels no_rules = Some (filled (skw_regd_rule k st) driver_channels)"
    by (rule add_channels_filled [OF driver_rules_ascend [OF assms(1,2)] in_use_few [OF assms(1,2)]])
  moreover have "(of_nat (length ?qs) :: u8) \<noteq> 0"
  proof
    assume "(of_nat (length ?qs) :: u8) = 0"
    then have "length ?qs = 0" using count_in_use [OF assms(1,2), of k] by simp
    then show False using some_in_use [OF assms(1-3), of k] by simp
  qed
  ultimately show ?thesis
    by (simp add: skw_cmd_set_regdom_def assms(4) filled_def Let_def country_message_def code_of_def)
qed

lemma filter_one: "distinct xs \<Longrightarrow> filter (\<lambda>x. y = Some x) xs = (case y of Some x \<Rightarrow> if x \<in> set xs then [x] else [] | None \<Rightarrow> [])"
  by (induction xs) (auto split: option.splits)

lemma message_exact:
  assumes rd: "well_kept rd" "regd st = Some rd" and chn: "chn \<in> set driver_channels"
  shows "map (\<lambda>e. (max_power e, max_gain e, fw_flags e))
      (filter (covers chn) (take (unat (nr_reg_rules (country_message k st cc))) (fw_rules (country_message k st cc)))) =
    (case permitted rd chn of
       None \<Rightarrow> []
     | Some rr \<Rightarrow> [(ucast (max_eirp (rule_power rr) div 100), ucast (max_antenna_gain (rule_power rr) div 100),
         rule_flags rr)])"
proof -
  let ?info = "skw_regd_rule k st"
  let ?qs = "in_use ?info driver_channels"
  have "take (unat (nr_reg_rules (country_message k st cc))) (fw_rules (country_message k st cc)) =
      map (entry ?info driver_channels) ?qs"
    using count_in_use [OF rd, of k] by (simp add: country_message_def Let_def)
  moreover have "filter (covers chn) (map (entry ?info driver_channels) ?qs) =
      map (entry ?info driver_channels) (filter (\<lambda>q. usable ?info chn = Some q) ?qs)"
    using entry_covers [OF rd _ chn] by (auto simp: filter_map intro!: arg_cong [of _ _ "map _"] filter_cong)
  moreover have "distinct ?qs" using in_use_distinct [OF driver_rules_ascend [OF rd, of k]] by (simp add: distinct_map)
  moreover have "q \<in> set ?qs" if "usable ?info chn = Some q" for q
    using that chn in_use_users [of q ?info driver_channels] by (auto simp: users_def filter_empty_conv)
  ultimately show ?thesis
    using usable_permitted [OF rd(1) chn rd(2), of k]
    by (auto simp: filter_one permitted_def entry_def first_of_rule_def Let_def split: option.splits)
qed

section \<open>What setting a country does\<close>

text \<open>
  C22: With its own database the driver takes a country if, and only if, the database lists
  it and it is neither Guatemala nor Serbia: a channel of theirs is wider than its range, and
  the driver's own check of a domain (\<open>is_skw_valid_rd\<close>) rejects all of it. Nothing changes
  when a country is rejected.
\<close>

theorem countries_accepted:
  assumes "knows_capitals k" "self_managed st"
  shows "skw_set_wiphy_regd k cc st =
    (case find (\<lambda>rd. alpha2 rd = code_of cc) skw_regdb of
       Some rd \<Rightarrow> if alpha2 rd \<in> {''GT'', ''RS''} then (- EINVAL, st)
         else (set_wiphy_regd k rd, st\<lparr>no_beacon_hints := code_of cc \<noteq> ''00'', regd := Some rd\<rparr>)
     | None \<Rightarrow> (- EINVAL, st))"
proof (cases "find (\<lambda>rd. alpha2 rd = code_of cc) skw_regdb")
  case None
  then have "code_of cc \<notin> alpha2 ` set skw_regdb" by (auto simp: find_None_iff image_iff)
  then show ?thesis using set_unlisted_country [OF assms(2)] None by simp
next
  case (Some rd)
  then have rd: "rd \<in> set skw_regdb" "code_of cc = alpha2 rd" by (auto simp: find_Some_iff)
  then show ?thesis
    using set_rejected_country [OF assms rd] set_listed_country [OF assms rd] Some by auto
qed

text \<open>
  C21: When a country is set, the firmware is told of it in one message of at most eight rules,
  and told exactly what the database says: every channel of the driver that may be used is in one
  rule of the message, with the power, the gain and the restrictions of the first range that
  holds it, and a channel that may not be used is in none.
\<close>

theorem firmware_told_exactly:
  assumes "knows_capitals k" "self_managed st" "all_channels st = driver_channels"
    and "rd \<in> set skw_regdb" "code_of cc = alpha2 rd" "alpha2 rd \<notin> {''GT'', ''RS''}" "set_wiphy_regd k rd = 0"
  shows "\<exists>msg. skw_set_regdom k cc st = Some (set_regd_cmd k msg,
      st\<lparr>no_beacon_hints := code_of cc \<noteq> ''00'', regd := Some rd,
         country := (if set_regd_cmd k msg = 0 then code_of cc else country st)\<rparr>, [msg]) \<and>
    fw_country msg = alpha2 rd @ [CHR 0x00] \<and> nr_reg_rules msg \<le> 8 \<and> length (fw_rules msg) = 8 \<and>
    (\<forall>chn \<in> set driver_channels.
       map (\<lambda>e. (max_power e, max_gain e, fw_flags e))
         (filter (covers chn) (take (unat (nr_reg_rules msg)) (fw_rules msg))) =
       (case permitted rd chn of
          None \<Rightarrow> []
        | Some rr \<Rightarrow> [(ucast (max_eirp (rule_power rr) div 100), ucast (max_antenna_gain (rule_power rr) div 100),
            rule_flags rr)]))"
proof -
  let ?st = "st\<lparr>no_beacon_hints := code_of cc \<noteq> ''00'', regd := Some rd\<rparr>"
  note domain = database_domain [OF assms(4)]
  have rd: "regd ?st = Some rd" by simp
  have "all_channels ?st = driver_channels" using assms(3) by (simp add: all_channels_def)
  note sent = set_regdom_message [OF domain(1) rd domain(3) this, of k cc]
  have "skw_set_regdom k cc st = skw_cmd_set_regdom k cc ?st"
    using set_listed_country [OF assms(1,2,4,5,6)] get_regd_listed(1) [OF assms(1,4,5)] assms(2,7)
    by (simp add: skw_set_regdom_def)
  then have "skw_set_regdom k cc st = Some (set_regd_cmd k (country_message k ?st cc),
      ?st\<lparr>country := (if set_regd_cmd k (country_message k ?st cc) = 0 then code_of cc else country st)\<rparr>,
      [country_message k ?st cc])"
    using sent by (simp add: Let_def)
  moreover have "fw_country (country_message k ?st cc) = alpha2 rd @ [CHR 0x00]"
    "nr_reg_rules (country_message k ?st cc) \<le> 8" "length (fw_rules (country_message k ?st cc)) = 8"
    using in_use_few [OF domain(1) rd, of k] count_in_use [OF domain(1) rd, of k] assms(5)
    by (simp_all add: country_message_def Let_def word_le_nat_alt)
  ultimately show ?thesis
    using message_exact [OF domain(1) rd, of _ k cc] by (intro exI [of _ "country_message k ?st cc"]) simp
qed

section \<open>Examples\<close>

definition sample_regulatory :: regulatory where
  "sample_regulatory = \<lparr>is_alpha = (\<lambda>c. c \<in> set ''ABCDEFGHIJKLMNOPQRSTUVWXYZ''), freq_reg_info = (\<lambda>freq. Inl (- EINVAL)),
     set_wiphy_regd = (\<lambda>_. 0), regulatory_hint = (\<lambda>_. 0), set_regd_cmd = (\<lambda>_. 0)\<rparr>"

definition sample_regd :: regd_state where
  "sample_regd = \<lparr>regd = None, country = ''00'', self_managed = True, no_beacon_hints = False,
     bands = [Some skw_2ghz_chan, Some skw_5ghz_chan, None], dfs_reg = NL80211_DFS_UNSET\<rparr>"

lemma sample_regulatory:
  "knows_capitals sample_regulatory" "self_managed sample_regd" "all_channels sample_regd = driver_channels"
  by (simp_all add: knows_capitals_def sample_regulatory_def sample_regd_def all_channels_def driver_channels_def)

theorem countries_accepted_witness:
  "skw_set_wiphy_regd sample_regulatory ''GT'' sample_regd = (- EINVAL, sample_regd) \<and>
   fst (skw_set_wiphy_regd sample_regulatory ''AD'' sample_regd) = 0"
proof -
  have "find (\<lambda>rd. alpha2 rd = ''GT'') skw_regdb = Some regdom_GT" "find (\<lambda>rd. alpha2 rd = ''AD'') skw_regdb = Some regdom_AD"
    by (simp only: skw_regdb_def find.simps regdoms regdomain.select_convs; simp)+
  moreover have "alpha2 regdom_GT = ''GT''" "alpha2 regdom_AD = ''AD''" "code_of ''GT'' = ''GT''" "code_of ''AD'' = ''AD''"
    by (simp_all add: regdoms code_of_def char_at_def)
  moreover have "set_wiphy_regd sample_regulatory regdom_AD = 0" by (simp add: sample_regulatory_def)
  ultimately show ?thesis
    using countries_accepted [OF sample_regulatory(1,2), of "''GT''"] countries_accepted [OF sample_regulatory(1,2), of "''AD''"]
    by simp
qed

theorem firmware_told_exactly_witness:
  "\<exists>msg. map (\<lambda>(_, _, msgs). msgs) (case skw_set_regdom sample_regulatory ''JP'' sample_regd of None \<Rightarrow> [] | Some r \<Rightarrow> [r]) = [[msg]] \<and>
     map fw_flags (filter (covers (SKW_CHAN2G 14 2484)) (take (unat (nr_reg_rules msg)) (fw_rules msg))) = [SKW_RRF_NO_OFDM]"
proof -
  have listed: "regdom_JP \<in> set skw_regdb" by (simp add: skw_regdb_def)
  have code: "code_of ''JP'' = alpha2 regdom_JP" "alpha2 regdom_JP \<notin> {''GT'', ''RS''}"
    by (simp_all add: regdoms code_of_def char_at_def)
  have accepted: "set_wiphy_regd sample_regulatory regdom_JP = 0" by (simp add: sample_regulatory_def)
  have chn: "SKW_CHAN2G 14 2484 \<in> set driver_channels" by (simp add: driver_channels_def skw_2ghz_chan_def)
  have "first_rule (reg_rules regdom_JP) (freq_khz (SKW_CHAN2G 14 2484)) = Some 1"
    by (simp add: first_rule_Some regdoms fits_rule_def SKW_CHAN2G_def)
  then have permitted: "permitted regdom_JP (SKW_CHAN2G 14 2484) = Some (REG_RULE_EXT 2474 2494 20 0 20 0 SKW_RRF_NO_OFDM)"
    by (simp add: permitted_def regdoms flags_of_table SKW_RRF_NO_OFDM_def SKW_RRF_NO_IR_def)
  have flags: "map fw_flags es = map (\<lambda>e. snd (snd e)) (map (\<lambda>e. (max_power e, max_gain e, fw_flags e)) es)" for es
    by simp
  from firmware_told_exactly [OF sample_regulatory listed code accepted] show ?thesis
    using chn by (elim exE conjE) (force simp: flags permitted flags_of_table simp del: map_map)
qed

text \<open>
  Where the kernel keeps the domains, nothing bounds the rules: the ninth one in use is stored
  behind the end of the message.
\<close>

definition many_rules :: regulatory where
  "many_rules = sample_regulatory\<lparr>freq_reg_info := \<lambda>freq. Inr (unat freq, REG_RULE_EXT 2400 2500 20 0 20 0 0)\<rparr>"

lemma ninth_rule_overruns:
  "skw_regd_notifier many_rules ''US'' NL80211_DFS_FCC (sample_regd\<lparr>self_managed := False\<rparr>) = None"
  by (simp add: skw_regd_notifier_def skw_set_wiphy_regd_def skw_cmd_set_regdom_def sample_regd_def all_channels_def
    skw_2ghz_chan_def SKW_CHAN2G_def add_channel_def skw_regd_rule_def many_rules_def MHZ_TO_KHZ_def
    flags_of_table no_rules_def Let_def)

end
