(* ===== verification/Spec2Isabelle.thy ===== *)
theory Spec2Isabelle
  imports Mica_File_Boot HT1628 Bridge_Signals Bridge_Vendor Traffic_Path Vendor_State
    Wifi_Ledger Wifi_Limits Wifi_Delivery Wifi_Country
begin

text \<open>
  The C programs of the Mica boards.

  The repository builds kernels, loaders and packages for three boards. Its own C code is
  three programs that do not share a process: what the boot loader runs to choose and start a
  deployment, the driver of a front panel, and the user-land half of a Bluetooth controller,
  which is a bridge process with a vendor library inside it. This development models all
  three, as written, and proves what each promises; and, of the third-party drivers that the
  kernel of one board is built with, the receive path of the Wi-Fi driver. All paths below are
  under \<^verbatim>\<open>src/\<close>.

  \<^bold>\<open>Booting.\<close>
  \<^item> \<open>Mica_Records\<close>: the value of the boot entry and its parser, its printer and the choice of
    the next deployment (\<^verbatim>\<open>common/uboot/mica-records.h\<close>: \<open>mica_boot_parse\<close>, \<open>mica_boot_render\<close>,
    \<open>mica_boot_next\<close>). The parser accepts exactly the canonical texts of well-formed lists.
  \<^item> \<open>Mica_Env\<close>: one copy of the redundant environment and the choice between two
    (\<open>mica_env_value\<close>, \<open>mica_env_store\<close>, \<open>mica_boot_slot\<close> of the same file).
  \<^item> \<open>Mica_File_Boot\<close>: \<open>mica_file_boot\<close> of both loaders
    (\<^verbatim>\<open>boards/s905x5m/loader/mica-file-boot.c\<close>, \<^verbatim>\<open>boards/cx3576/loader/mica-file-boot.c\<close>):
    the partition check, reading and updating the environment, loading and verifying. The
    differences of the two files are a \<open>board\<close> record. \<open>boot_spec\<close> is the abstract contract of a
    boot on the stored records, which the loaders refine; the other theorems say that an
    attempt is counted before a deployment starts, that a power failure at any byte loses no
    more than the attempt, and that a deployment that never confirms itself is given up.

  \<^bold>\<open>The front panel.\<close> \<open>HT1628\<close> models every operation of
  \<^verbatim>\<open>boards/s905x5m/kernel/front-panel/skykirin_ht1628.c\<close> as a function from the cached panel
  to a result and a list of events on the three lines, and the receiving side of these lines as
  a specification. \<open>panel_reach\<close> is the step relation of a bound driver; its invariant says that
  the panel shows what the driver has cached.

  \<^bold>\<open>Bluetooth.\<close> The kernel's virtual controller, the bridge, the vendor library and the devices
  of the controller form a chain; the bridge loads the library, opens its channels through
  \<open>op\<close>, and exchanges H4 packets with it over a pair of sockets.
  \<^item> \<open>Skw_H4\<close>: the packet decoder and the reassembly stream that both sides share
    (\<^verbatim>\<open>boards/s905x5m/userland/skwbt/include/skw_h4.h\<close>), with a specification of the packets
    that has no offsets or masks in it.
  \<^item> The bridge, \<^verbatim>\<open>boards/s905x5m/userland/skw_bridge/skw_vhci_bridge.c\<close>:
    \<open>Bridge_Io\<close> (descriptors, time and the address file), \<open>Bridge_Controller\<close> (commands and
    their events), \<open>Vhci_Bridge\<close> (the two forwarding loops), \<open>Bridge_Signals\<close> (the handlers and
    their pipe) and \<open>Bridge_Main\<close> (\<open>main\<close>, with the order in which it takes and releases its
    resources).
  \<^item> The transport of the library, \<^verbatim>\<open>boards/s905x5m/userland/skwbt/src/scom_vendor.c\<close>:
    \<open>Scom_Ports\<close> (the ports), \<open>Frame_Pump\<close> (the loop that both directions share),
    \<open>Scom_Transport\<close> (host to device), \<open>Scom_Receiver\<close> (device to host) and \<open>Scom_Lifecycle\<close>
    (opening and closing, with a ledger of descriptors and threads).
  \<^item> The rest of the library: \<open>Skw_Log\<close> and \<open>Skw_Btsnoop\<close>, the log of the controller and the capture of
    the traffic (\<^verbatim>\<open>skwbt/src/skw_log.c\<close>, \<^verbatim>\<open>skwbt/src/skw_btsnoop.c\<close>), \<open>Vendor_Conf\<close> and
    \<open>Bt_Vendor\<close>, its configuration file and its interface (\<^verbatim>\<open>skwbt/src/bt_vendor_skw.c\<close>),
    and \<open>Vendor_State\<close>, the invariant of its memory under all of them.
  \<^item> What spans the two: \<open>Bridge_Vendor\<close> carries the calls of a run of the bridge out on the
    model of the library, and \<open>Traffic_Path\<close> joins the theorems on the four threads to what gets
    from the kernel to the devices and back.

  \<^bold>\<open>Wi-Fi.\<close> The receive path of
  \<^verbatim>\<open>boards/s905x5m/kernel/third/seekwave/drivers/skwifi\<close>, from a frame of the firmware to the
  network stack.
  \<^item> \<open>Wifi_Reorder\<close>: the block-ack sessions (\<open>skw_ampdu_reorder\<close>, \<open>skw_reorder_release\<close>, the timer,
    the list of the receive thread, opening and closing; \<^verbatim>\<open>skw_rx.c\<close>, and the parts of
    \<^verbatim>\<open>skw_iface.c\<close> and \<^verbatim>\<open>skw_msg.c\<close> that belong to them).
  \<^item> \<open>Wifi_Order\<close>, \<open>Wifi_Release\<close>, \<open>Wifi_Frame\<close>: every release of frames is a \<open>drain\<close> of the buffer
    from the start of its window on; what follows from that for the order of the frames and
    for those that wait. \<open>Wifi_Session\<close> is the state machine of a session and its runs,
    \<open>Wifi_Ledger\<close> counts the frames, \<open>Wifi_Limits\<close> holds what happens at the edges of the window and
    of the life of a session, where the code is not what it means to be.
  \<^item> \<open>Wifi_Receive\<close>: the check of the packet numbers and the fragment cache; \<open>Wifi_Delivery\<close> joins
    them to the sessions, up to the network stack.

  \<^bold>\<open>How code becomes definitions.\<close> \<open>Prelude\<close> has the integers, byte strings and digits. A buffer
  with its length is a list of bytes, a struct a record, an error return \<open>None\<close> or \<open>Inl\<close>;
  machine integers keep their width. There are three ways to model the system:
  \<^item> A routine that may block runs against a script, the answers to its calls in their order
    (\<open>Effects\<close>, \<open>Os_Script\<close>, \<open>Scom_Ports\<close>); \<open>None\<close> is a thread that is still blocked in a call. The
    other threads are entries between two answers. Every round of a loop takes an answer off
    the script, and so the length of the script is what all the loops terminate by. The theorems of the form \<open>f w = Some r \<Longrightarrow> \<dots>\<close> are about every run
    that has ended, and each has a witness in which the run does end.
  \<^item> Where the calls of a routine are fixed, their answers are a record, one field for each call:
    the hardware of one boot, the answers to the bridge's set-up, opening a port. These
    routines are total functions.
  \<^item> The handlers of the Wi-Fi driver, which take its receive lock or run on its one receive thread,
    are functions on the state of a session; the kernel's arithmetic of sequence numbers and
    times is their parameter \<open>kernel\<close>, and \<open>sequence_numbers\<close> is what its documentation says of it.
    A property of runs says which events the runs are made of.
  \<^item> The files of the logs are a map from paths to contents, with an outcome for each call.

  \<^bold>\<open>Interfaces.\<close> \<open>Interfaces\<close> states what one part asks of another as locales: a codec of a stored
  value, a setting stored twice, a serial link that delivers frames, and a framer of a
  stream. \<open>boot_records\<close>, \<open>panel_link\<close>, \<open>any_h4\<close>, \<open>controller\<close>, \<open>host_policy\<close> and \<open>device_policy\<close> interpret them on
  the model; \<open>h4_policy\<close> is a stream framer for every policy of a receiver, \<open>frame_pump\<close> extends it and
  is interpreted for both directions of the transport. \<open>uboot_library\<close> states what the loaders
  ask of U-Boot's \<open>crc32\<close> and accessors, and \<open>reference_uboot\<close> is an implementation of them that
  meets it. \<open>channel_library\<close> is what the bridge asks of the vendor library, and the library's
  model gives it; \<open>port_names\<close> is an invariant that opening and closing ports keep, and
  \<open>library_memory\<close> is one.

  \<^bold>\<open>Bounds.\<close> At most two boot records in 512 bytes and generations below 2^53; 15 attempts to open the channels; 5000
  looks at the flags of a thread that starts; a stream of 4096 bytes; 300 MB for a log file, below which the theorems
  on the logs stay. They are the code's own. The loop of a forced release of frames has a fuel of 4096 rounds, the
  circle of the sequence numbers: \<open>force_loop_fuel\<close> says that more makes no difference.

  \<^bold>\<open>Not modelled.\<close> Messages and console output. Locks: an operation under a lock is one step, and
  \<open>Traffic_Path\<close> states the interleaving that the lock of the socket leaves. The recovery prompt
  behind \<open>recovery()\<close>. U-Boot, libc and the kernel behind the calls that the code makes: their
  answers are arbitrary, within what the calls can return. The branches under \<open>SKW_LEGACY_FW_CFG\<close>, which no build
  defines and which call routines that are not in the repository. The rest of the third-party drivers
  under \<^verbatim>\<open>boards/s905x5m/kernel/third\<close>, which is mostly calls of the kernel and commands of the
  firmware; of the receive path, the check sums and the delivery to the network stack, and the
  report of dropped numbers. The tests, and the scripts and configuration of the
  build.
\<close>

end
